(* ===== verification/Prelude.thy ===== *)
theory Prelude
  imports Main "HOL-Library.Word" "HOL-Library.State_Monad"
begin

text \<open>
  Shared vocabulary of the development: byte strings read as big-endian numbers, the bitwise
  operations on them, decimal numerals (the representation of AWST integer constants), and the
  two's-complement reading of 256-bit values.  Everything here is generic: no definition of this
  theory translates a file of the repository.
\<close>

unbundle bit_operations_syntax

type_synonym byte = "8 word"
type_synonym bytes = "byte list"

named_theorems be_simps \<open>big-endian reading of byte strings\<close>
named_theorems dec_simps \<open>decimal numerals\<close>

section \<open>Big-endian byte strings\<close>

definition be_nat :: "bytes \<Rightarrow> nat" where
  "be_nat bs = foldl (\<lambda>a b. a * 256 + unat b) 0 bs"

fun be_fixed :: "nat \<Rightarrow> nat \<Rightarrow> bytes" where
  "be_fixed 0 v = []"
| "be_fixed (Suc n) v = be_fixed n (v div 256) @ [word_of_nat v]"

fun be_min :: "nat \<Rightarrow> bytes" where
  "be_min v = (if v = 0 then [] else be_min (v div 256) @ [word_of_nat v])"

declare be_min.simps [simp del]

lemma foldl_be: "foldl (\<lambda>a b. a * 256 + unat b) a bs = a * 256 ^ length bs + be_nat bs"
proof (induction bs arbitrary: a)
  case Nil
  show ?case by (simp add: be_nat_def)
next
  case (Cons b bs)
  from Cons[of "a * 256 + unat b"] Cons[of "unat b"]
  show ?case by (simp add: be_nat_def algebra_simps)
qed

lemma be_nat_Nil [simp]: "be_nat [] = 0"
  by (simp add: be_nat_def)

lemma be_nat_Cons: "be_nat (b # bs) = unat b * 256 ^ length bs + be_nat bs"
  using foldl_be[of "unat b" bs] by (simp add: be_nat_def)

lemma be_nat_append [be_simps]: "be_nat (xs @ ys) = be_nat xs * 256 ^ length ys + be_nat ys"
  using foldl_be[of "be_nat xs" ys] by (simp add: be_nat_def)

lemma be_nat_snoc [simp]: "be_nat (xs @ [b]) = be_nat xs * 256 + unat b"
  by (simp add: be_nat_append be_nat_Cons)

lemma be_nat_replicate0 [simp]: "be_nat (replicate n 0) = 0"
  by (induction n) (simp_all add: be_nat_Cons)

lemma be_nat_bound: "be_nat bs < 256 ^ length bs"
proof (induction bs rule: rev_induct)
  case Nil
  show ?case by simp
next
  case (snoc b bs)
  have "unat b < 256" using unsigned_less[of b] by simp
  with snoc show ?case by simp
qed

lemma length_be_fixed [simp]: "length (be_fixed n v) = n"
  by (induction n arbitrary: v) simp_all

lemma unat_word_of_nat8 [simp]: "unat (word_of_nat v :: byte) = v mod 256"
  by (simp add: unat_of_nat)

lemma be_nat_be_fixed [be_simps]: "be_nat (be_fixed n v) = v mod 256 ^ n"
proof (induction n arbitrary: v)
  case 0
  show ?case by simp
next
  case (Suc n)
  show ?case
    by (simp add: Suc mod_mult2_eq mult.commute)
qed

lemma be_fixed_be_nat: "length bs = n \<Longrightarrow> be_fixed n (be_nat bs) = bs"
proof (induction bs arbitrary: n rule: rev_induct)
  case Nil
  then show ?case by simp
next
  case (snoc b bs)
  have "unat b < 256" using unsigned_less[of b] by simp
  then have "(be_nat bs * 256 + unat b) div 256 = be_nat bs"
    and "(word_of_nat (be_nat bs * 256 + unat b) :: byte) = b"
    by (simp_all add: word_unat_eq_iff del: of_nat_add of_nat_mult)
  with snoc show ?case by (cases n) simp_all
qed

lemma be_nat_be_min [simp]: "be_nat (be_min v) = v"
proof (induction v rule: be_min.induct)
  case (1 v)
  then show ?case by (subst be_min.simps) (simp add: mult.commute)
qed

lemma length_be_min_le: "v < 256 ^ k \<Longrightarrow> length (be_min v) \<le> k"
proof (induction v arbitrary: k rule: be_min.induct)
  case (1 v)
  show ?case
  proof (cases "v = 0")
    case True
    then show ?thesis by (simp add: be_min.simps)
  next
    case False
    with "1.prems" obtain j where k: "k = Suc j" by (cases k) auto
    with "1.prems" have "v div 256 < 256 ^ j"
      by (simp add: less_mult_imp_div_less mult.commute)
    with "1.IH"[OF False] have "length (be_min (v div 256)) \<le> j" by blast
    with False k show ?thesis by (subst be_min.simps) simp
  qed
qed

lemma be_nat_drop: "n \<le> length bs \<Longrightarrow> be_nat (drop n bs) = be_nat bs mod 256 ^ (length bs - n)"
proof -
  assume "n \<le> length bs"
  have "be_nat bs = be_nat (take n bs) * 256 ^ (length bs - n) + be_nat (drop n bs)"
    using be_nat_append[of "take n bs" "drop n bs"] by simp
  moreover have "be_nat (drop n bs) < 256 ^ (length bs - n)"
    using be_nat_bound[of "drop n bs"] by simp
  ultimately show ?thesis by simp
qed

section \<open>Bitwise operations on byte strings\<close>

text \<open>The shorter operand is extended with zero bytes on the left; the result has the length
  of the longer one.\<close>

definition pad_left :: "nat \<Rightarrow> bytes \<Rightarrow> bytes" where
  "pad_left n bs = replicate (n - length bs) 0 @ bs"

definition bytes_bitop :: "(byte \<Rightarrow> byte \<Rightarrow> byte) \<Rightarrow> bytes \<Rightarrow> bytes \<Rightarrow> bytes" where
  "bytes_bitop f a b =
     (let n = max (length a) (length b) in map2 f (pad_left n a) (pad_left n b))"

lemma length_pad_left [simp]: "length (pad_left n bs) = max n (length bs)"
  by (simp add: pad_left_def)

lemma be_nat_pad_left [simp]: "be_nat (pad_left n bs) = be_nat bs"
  by (simp add: pad_left_def be_nat_append)

lemma length_bytes_bitop [simp]: "length (bytes_bitop f a b) = max (length a) (length b)"
  by (simp add: bytes_bitop_def Let_def)

lemma bit_digit_split:
  fixes x :: nat
  assumes "a < 256"
  shows "bit (x * 256 + a) n = (if n < 8 then bit a n else bit x (n - 8))"
proof -
  have high: "\<not> bit a m" if "8 \<le> m" for m
  proof -
    have "a < 2 ^ m" using assms power_increasing[OF that, of "2::nat"] by simp
    then show ?thesis by (simp add: bit_iff_odd)
  qed
  have "push_bit 8 x AND a = 0"
    by (rule bit_eqI) (auto simp: bit_simps high)
  then have "x * 256 + a = push_bit 8 x OR a"
    by (simp add: push_bit_eq_mult flip: disjunctive_add_eq_or)
  then show ?thesis by (auto simp: bit_simps high)
qed

lemma unat_byte_less [simp]: "unat (b :: byte) < 256"
  using unsigned_less[of b] by simp

lemma digit_or: "(x * 256 + unat (a::byte)) OR (y * 256 + unat b) = (x OR y) * 256 + unat (a OR b)"
  by (rule bit_eqI) (simp add: bit_digit_split bit_or_iff flip: unsigned_or_eq, simp add: unsigned_or_eq bit_or_iff)

lemma digit_and: "(x * 256 + unat (a::byte)) AND (y * 256 + unat b) = (x AND y) * 256 + unat (a AND b)"
  by (rule bit_eqI) (simp add: bit_digit_split bit_and_iff flip: unsigned_and_eq, simp add: unsigned_and_eq bit_and_iff)

lemma digit_xor: "(x * 256 + unat (a::byte)) XOR (y * 256 + unat b) = (x XOR y) * 256 + unat (a XOR b)"
  by (rule bit_eqI) (simp add: bit_digit_split bit_xor_iff flip: unsigned_xor_eq, simp add: unsigned_xor_eq bit_xor_iff)

lemma be_nat_map2:
  assumes "length a = length b"
    and step: "\<And>x y u v. g (x * 256 + unat u) (y * 256 + unat v) = g x y * 256 + unat (f u v)"
    and zero: "g 0 0 = (0::nat)"
  shows "be_nat (map2 f a b) = g (be_nat a) (be_nat b)"
  using assms(1)
proof (induction a arbitrary: b rule: rev_induct)
  case Nil
  then show ?case by (simp add: zero)
next
  case (snoc x xs)
  then obtain y ys where b: "b = ys @ [y]" "length xs = length ys"
    by (cases b rule: rev_cases) auto
  with snoc.IH[of ys] show ?case by (simp add: step)
qed

lemma be_nat_bytes_or [be_simps]: "be_nat (bytes_bitop (OR) a b) = be_nat a OR be_nat b"
  unfolding bytes_bitop_def Let_def
  by (subst be_nat_map2[where g = "(OR)"]) (simp_all add: digit_or)

lemma be_nat_bytes_and [be_simps]: "be_nat (bytes_bitop (AND) a b) = be_nat a AND be_nat b"
  unfolding bytes_bitop_def Let_def
  by (subst be_nat_map2[where g = "(AND)"]) (simp_all add: digit_and)

lemma be_nat_bytes_xor [be_simps]: "be_nat (bytes_bitop (XOR) a b) = be_nat a XOR be_nat b"
  unfolding bytes_bitop_def Let_def
  by (subst be_nat_map2[where g = "(XOR)"]) (simp_all add: digit_xor)

lemma be_nat_bytes_not [be_simps]: "be_nat (map NOT bs) = 256 ^ length bs - 1 - be_nat bs"
proof (induction bs rule: rev_induct)
  case Nil
  show ?case by simp
next
  case (snoc b bs)
  have "NOT b = - 1 - b" by (simp add: not_eq_complement)
  moreover have "unat (- 1 - b) = unat (- 1 :: byte) - unat b"
    by (rule unat_sub) simp
  moreover have "unat (- 1 :: byte) = 255" by code_simp
  ultimately have "unat (NOT b) = 255 - unat b" by simp
  moreover obtain d where d: "256 ^ length bs = Suc (be_nat bs + d)"
    using be_nat_bound[of bs] less_iff_Suc_add by auto
  moreover have "d * 256 + (255 - unat b) = Suc (be_nat bs + d) * 256 - 1 - (be_nat bs * 256 + unat b)"
    using unat_byte_less[of b] by (simp only: mult_Suc add_mult_distrib)
  ultimately show ?case using snoc by (simp add: mult.commute)
qed

text \<open>Bit \<open>i\<close> of a byte string, counted from the most significant bit of the first byte.\<close>

definition bytes_setbit :: "bytes \<Rightarrow> nat \<Rightarrow> bool \<Rightarrow> bytes" where
  "bytes_setbit bs i v =
     bs[i div 8 := (if v then set_bit (7 - i mod 8) (bs ! (i div 8))
                    else unset_bit (7 - i mod 8) (bs ! (i div 8)))]"

definition bytes_getbit :: "bytes \<Rightarrow> nat \<Rightarrow> bool" where
  "bytes_getbit bs i = bit (bs ! (i div 8)) (7 - i mod 8)"

lemma length_bytes_setbit [simp]: "length (bytes_setbit bs i v) = length bs"
  by (simp add: bytes_setbit_def)

lemma be_nat_update0:
  "i < n \<Longrightarrow> be_nat ((replicate n 0)[i := b]) = unat b * 256 ^ (n - Suc i)"
proof -
  assume i: "i < n"
  then have "(replicate n 0)[i := b] = replicate i 0 @ b # replicate (n - Suc i) 0"
    by (simp add: list_update_append upd_conv_take_nth_drop)
  then show ?thesis by (simp add: be_nat_append be_nat_Cons)
qed

lemma unat_set_bit0: "m < 8 \<Longrightarrow> unat (set_bit m (0::byte)) = 2 ^ m"
proof -
  assume "m < 8"
  then have "(2::nat) ^ m < 256" using power_strict_increasing[of m 8 "2::nat"] by simp
  then have "unat (word_of_nat (2 ^ m) :: byte) = 2 ^ m"
    by (simp only: unat_word_of_nat8 mod_less)
  then show ?thesis by (simp add: set_bit_eq_or push_bit_of_1)
qed

lemma setbit_index:
  assumes "(k::nat) < 8 * n"
  shows "(8 * n - 1 - k) div 8 = n - 1 - k div 8" and "7 - (8 * n - 1 - k) mod 8 = k mod 8"
proof -
  define q r where "q = k div 8" and "r = k mod 8"
  have k: "k = 8 * q + r" and r: "r < 8" by (simp_all add: q_def r_def)
  from assms k have "q < n" by simp
  then have e: "8 * n - 1 - k = (7 - r) + 8 * (n - 1 - q)" using k r by simp
  have l: "7 - r < 8" by simp
  show "(8 * n - 1 - k) div 8 = n - 1 - k div 8" "7 - (8 * n - 1 - k) mod 8 = k mod 8"
    unfolding e div_mult_self4[OF zero_neq_numeral[symmetric]] mod_mult_self2 div_mult_self2[OF zero_neq_numeral[symmetric]]
    using l r by (simp_all add: k)
qed

lemma be_nat_setbit0 [be_simps]:
  assumes "k < 8 * n"
  shows "be_nat (bytes_setbit (replicate n 0) (8 * n - 1 - k) True) = 2 ^ k"
proof -
  have i: "n - 1 - k div 8 < n" using assms by (cases n) auto
  have e: "n - Suc (n - Suc (k div 8)) = k div 8" using assms by simp
  have u: "unat ((2::byte) ^ (k mod 8)) = 2 ^ (k mod 8)"
    using unat_set_bit0[of "k mod 8"] by (simp add: set_bit_eq_or push_bit_of_1)
  have "(256::nat) ^ (k div 8) = 2 ^ (8 * (k div 8))"
    by (simp add: power_mult)
  then have "2 ^ (k mod 8) * (256::nat) ^ (k div 8) = 2 ^ k"
    by (simp flip: power_add)
  with i show ?thesis
    using setbit_index[OF assms]
    by (simp add: bytes_setbit_def be_nat_update0 e u set_bit_eq_or push_bit_of_1)
qed

section \<open>Decimal numerals\<close>

text \<open>
  Integer constants travel through the compiler as decimal text (the C++ \<open>std::to_string\<close> and
  the arbitrary-precision \<open>str()\<close>).  \<open>dec_of_nat\<close> prints, \<open>nat_of_dec\<close> reads; reading
  rejects the empty string and every character that is not a decimal digit.
\<close>

definition digit_char :: "nat \<Rightarrow> char" where
  "digit_char d = char_of (48 + d)"

fun dec_of_nat :: "nat \<Rightarrow> string" where
  "dec_of_nat n = (if n < 10 then [digit_char n] else dec_of_nat (n div 10) @ [digit_char (n mod 10)])"

declare dec_of_nat.simps [simp del]

definition is_digit :: "char \<Rightarrow> bool" where
  "is_digit c \<longleftrightarrow> 48 \<le> (of_char c :: nat) \<and> (of_char c :: nat) \<le> 57"

definition dec_value :: "string \<Rightarrow> nat" where
  "dec_value s = foldl (\<lambda>a c. a * 10 + (of_char c - 48)) 0 s"

definition nat_of_dec :: "string \<Rightarrow> nat option" where
  "nat_of_dec s = (if s \<noteq> [] \<and> list_all is_digit s then Some (dec_value s) else None)"

lemma of_char_digit_char [simp]: "d < 10 \<Longrightarrow> (of_char (digit_char d) :: nat) = 48 + d"
  by (simp add: digit_char_def of_char_of take_bit_nat_def)

lemma is_digit_digit_char [simp]: "d < 10 \<Longrightarrow> is_digit (digit_char d)"
  by (simp add: is_digit_def)

lemma dec_of_nat_digits: "list_all is_digit (dec_of_nat n)"
proof (induction n rule: dec_of_nat.induct)
  case (1 n)
  then show ?case by (subst dec_of_nat.simps) simp
qed

lemma dec_of_nat_not_Nil [simp]: "dec_of_nat n \<noteq> []"
  by (subst dec_of_nat.simps) simp

lemma dec_value_dec_of_nat [simp]: "dec_value (dec_of_nat n) = n"
proof (induction n rule: dec_of_nat.induct)
  case (1 n)
  then show ?case by (subst dec_of_nat.simps) (simp add: dec_value_def mult.commute)
qed

lemma nat_of_dec_of_nat [simp, dec_simps]: "nat_of_dec (dec_of_nat n) = Some n"
  by (simp add: nat_of_dec_def dec_of_nat_digits)

lemma dec_of_nat_inject [simp]: "dec_of_nat m = dec_of_nat n \<longleftrightarrow> m = n"
  by (metis dec_value_dec_of_nat)

section \<open>Maps keyed by name\<close>

text \<open>A \<open>std::map\<close> keyed by \<open>std::string\<close>, as its entries in byte-wise key order.\<close>

fun string_less :: "string \<Rightarrow> string \<Rightarrow> bool" where
  "string_less _ [] = False"
| "string_less [] _ = True"
| "string_less (a # as) (b # bs) =
     ((of_char a :: nat) < of_char b \<or> (a = b \<and> string_less as bs))"

fun smap_put :: "string \<Rightarrow> 'v \<Rightarrow> (string \<times> 'v) list \<Rightarrow> (string \<times> 'v) list" where
  "smap_put k v [] = [(k, v)]"
| "smap_put k v ((k', v') # m) =
     (if k = k' then (k, v) # m
      else if string_less k k' then (k, v) # (k', v') # m
      else (k', v') # smap_put k v m)"

lemma map_of_smap_put [simp]: "map_of (smap_put k v m) = (map_of m)(k \<mapsto> v)"
  by (induction m) auto

section \<open>Two's complement\<close>

text \<open>The signed reading of an \<open>n\<close>-bit value, and the \<open>n\<close>-bit code of an integer.\<close>

definition signed_of :: "nat \<Rightarrow> nat \<Rightarrow> int" where
  "signed_of n v = (if v < 2 ^ (n - 1) then int v else int v - 2 ^ n)"

definition twos :: "nat \<Rightarrow> int \<Rightarrow> nat" where
  "twos n i = nat (i mod 2 ^ n)"

lemma int_less_power2: "v < 2 ^ n \<longleftrightarrow> int v < 2 ^ n"
  using of_nat_less_iff[of v "2 ^ n", where 'a = int] by simp

lemma twos_less [simp]: "twos n i < 2 ^ n"
proof -
  have "i mod 2 ^ n < 2 ^ n" by simp
  then show ?thesis by (simp add: twos_def nat_less_iff)
qed

lemma signed_of_range:
  assumes "0 < n" "v < 2 ^ n"
  shows "- (2 ^ (n - 1)) \<le> signed_of n v" and "signed_of n v < 2 ^ (n - 1)"
proof -
  have p: "(2::int) ^ n = 2 * 2 ^ (n - 1)" using assms(1) by (cases n) simp_all
  have v: "int v < 2 ^ n" using assms(2) by (simp only: int_less_power2)
  from int_less_power2[of v "n - 1"] p v show "- (2 ^ (n - 1)) \<le> signed_of n v" and "signed_of n v < 2 ^ (n - 1)"
    by (auto simp: signed_of_def)
qed

lemma twos_signed_of [simp]: "v < 2 ^ n \<Longrightarrow> twos n (signed_of n v) = v"
proof -
  assume "v < 2 ^ n"
  then have v: "int v < 2 ^ n" by (simp only: int_less_power2)
  then have "(int v - 2 ^ n) mod 2 ^ n = int v"
    using mod_add_self2[of "int v - 2 ^ n" "2 ^ n"] by simp
  with v show ?thesis by (simp add: twos_def signed_of_def)
qed

text \<open>Sign extension from \<open>n\<close> to \<open>m\<close> bits.\<close>

lemma twos_extend:
  assumes "0 < n" "n \<le> m" "v < 2 ^ n"
  shows "twos m (signed_of n v) = (if v < 2 ^ (n - 1) then v else v + (2 ^ m - 2 ^ n))"
proof -
  have le: "(2::nat) ^ n \<le> 2 ^ m" using assms(2) by (intro power_increasing) simp_all
  have vm: "int v < 2 ^ m" using less_le_trans[OF assms(3) le] by (simp only: int_less_power2)
  show ?thesis
  proof (cases "v < 2 ^ (n - 1)")
    case True
    with vm show ?thesis by (simp add: twos_def signed_of_def)
  next
    case False
    let ?r = "int v - 2 ^ n + 2 ^ m"
    have "int v < 2 ^ n" using assms(3) by (simp only: int_less_power2)
    moreover have "(2::int) ^ n \<le> 2 ^ m" using assms(2) by (intro power_increasing) simp_all
    ultimately have "0 \<le> ?r" "?r < 2 ^ m" by linarith+
    then have "?r mod 2 ^ m = ?r" by (rule mod_pos_pos_trivial)
    then have "(int v - 2 ^ n) mod 2 ^ m = ?r"
      using mod_add_self2[of "int v - 2 ^ n" "2 ^ m"] by simp
    moreover have "?r = int (v + (2 ^ m - 2 ^ n))"
      using le by (simp only: of_nat_add of_nat_diff of_nat_power of_nat_numeral)
    then have "nat ?r = v + (2 ^ m - 2 ^ n)" by (simp only: nat_int)
    ultimately show ?thesis using False by (simp add: twos_def signed_of_def)
  qed
qed

lemma nat_and_mask: "(n::nat) AND (2 ^ k - 1) = n mod 2 ^ k"
  using take_bit_eq_mask[of k n] by (simp add: mask_eq_exp_minus_1 take_bit_eq_mod)

end
