(* ===== verification/WTypes.thy ===== *)
theory WTypes
  imports Prelude
begin

text \<open>
  The AWST type system (\<open>src/src/awst/WType.h\<close>, \<open>WType.cpp\<close>).  A \<open>WType const*\<close> is
  modelled by the tree it points to; the basic singletons are named constants.  Pointer identity,
  which \<open>structurallyEquivalent\<close> uses as a shortcut and as the key of its memo set, is a
  parameter \<open>same\<close> of the model, and the main theorem shows that the answer does not depend on it.
\<close>

section \<open>Kinds and types\<close>

datatype WTypeKind =
    KBasic | KBytes | KARC4UIntN | KARC4UFixedNxM | KARC4Tuple | KARC4DynamicArray
  | KARC4StaticArray | KARC4Struct | KReferenceArray | KWTuple | KWGroupTransaction
  | KWInnerTransactionFields | KWInnerTransaction

text \<open>
  The Boolean component of the array and struct types is \<open>m_immutable\<close>; every other type is
  immutable by construction.
\<close>

datatype wtype =
    BasicWType string
  | ARC4BasicWType string
  | BytesWType "int option"
  | ARC4UIntN int string
  | ARC4UFixedNxM int int
  | ARC4Tuple "wtype list"
  | ARC4DynamicArray wtype string bool
  | ARC4StaticArray wtype int string bool
  | ARC4Struct string "(string \<times> wtype) list" bool bool
  | ReferenceArray wtype bool "int option"
  | WTuple "wtype list" "string list option" string
  | WInnerTransactionFields "int option"
  | WInnerTransaction "int option"

abbreviation (input) opt_str :: "string \<Rightarrow> string \<Rightarrow> string" where
  "opt_str s d \<equiv> (if s = [] then d else s)"

definition int_to_string :: "int \<Rightarrow> string" where
  "int_to_string i = (if i < 0 then CHR ''-'' # dec_of_nat (nat (- i)) else dec_of_nat (nat i))"

definition voidType :: wtype where "voidType = BasicWType ''void''"
definition boolType :: wtype where "boolType = BasicWType ''bool''"
definition uint64Type :: wtype where "uint64Type = BasicWType ''uint64''"
definition biguintType :: wtype where "biguintType = BasicWType ''biguint''"
definition stringType :: wtype where "stringType = BasicWType ''string''"
definition bytesType :: wtype where "bytesType = BytesWType None"
definition accountType :: wtype where "accountType = BasicWType ''account''"
definition applicationType :: wtype where "applicationType = BasicWType ''application''"
definition stateKeyType :: wtype where "stateKeyType = BasicWType ''state_key''"
definition boxKeyType :: wtype where "boxKeyType = BasicWType ''box_key''"
definition arc4BoolType :: wtype where "arc4BoolType = ARC4BasicWType ''arc4.bool''"

lemmas basic_type_defs =
  voidType_def boolType_def uint64Type_def biguintType_def stringType_def bytesType_def
  accountType_def applicationType_def stateKeyType_def boxKeyType_def arc4BoolType_def

fun kind :: "wtype \<Rightarrow> WTypeKind" where
  "kind (BasicWType _) = KBasic"
| "kind (ARC4BasicWType _) = KBasic"
| "kind (BytesWType _) = KBytes"
| "kind (ARC4UIntN _ _) = KARC4UIntN"
| "kind (ARC4UFixedNxM _ _) = KARC4UFixedNxM"
| "kind (ARC4Tuple _) = KARC4Tuple"
| "kind (ARC4DynamicArray _ _ _) = KARC4DynamicArray"
| "kind (ARC4StaticArray _ _ _ _) = KARC4StaticArray"
| "kind (ARC4Struct _ _ _ _) = KARC4Struct"
| "kind (ReferenceArray _ _ _) = KReferenceArray"
| "kind (WTuple _ _ _) = KWTuple"
| "kind (WInnerTransactionFields _) = KWInnerTransactionFields"
| "kind (WInnerTransaction _) = KWInnerTransaction"

fun immutable :: "wtype \<Rightarrow> bool" where
  "immutable (ARC4DynamicArray _ _ im) = im"
| "immutable (ARC4StaticArray _ _ _ im) = im"
| "immutable (ARC4Struct _ _ _ im) = im"
| "immutable (ReferenceArray _ im _) = im"
| "immutable _ = True"

fun forceImmutable :: "wtype \<Rightarrow> wtype" where
  "forceImmutable (ARC4DynamicArray e a _) = ARC4DynamicArray e a True"
| "forceImmutable (ARC4StaticArray e n a _) = ARC4StaticArray e n a True"
| "forceImmutable (ARC4Struct n fs fr _) = ARC4Struct n fs fr True"
| "forceImmutable (ReferenceArray e _ n) = ReferenceArray e True n"
| "forceImmutable t = t"

definition txnTypeSuffix :: "int \<Rightarrow> string" where
  "txnTypeSuffix t =
     (if t = 1 then ''pay'' else if t = 2 then ''keyreg'' else if t = 3 then ''acfg''
      else if t = 4 then ''axfer'' else if t = 5 then ''afrz'' else if t = 6 then ''appl''
      else ''unknown'')"

fun wname :: "wtype \<Rightarrow> string" where
  "wname (BasicWType n) = n"
| "wname (ARC4BasicWType n) = n"
| "wname (BytesWType None) = ''bytes''"
| "wname (BytesWType (Some n)) = ''bytes['' @ int_to_string n @ '']''"
| "wname (ARC4UIntN n al) =
     (if al = [] then ''arc4.uint'' @ int_to_string n else ''arc4.'' @ al)"
| "wname (ARC4UFixedNxM n m) = ''arc4.ufixed'' @ int_to_string n @ ''x'' @ int_to_string m"
| "wname (ARC4Tuple _) = ''arc4.tuple''"
| "wname (ARC4DynamicArray e al _) =
     opt_str al (''arc4.dynamic_array<'' @ wname e @ ''>'')"
| "wname (ARC4StaticArray e n al _) =
     opt_str al (''arc4.static_array<'' @ wname e @ '', '' @ int_to_string n @ ''>'')"
| "wname (ARC4Struct n _ _ _) = n"
| "wname (ReferenceArray e _ None) = ''array<'' @ wname e @ ''>''"
| "wname (ReferenceArray e _ (Some n)) = ''array<'' @ wname e @ '', '' @ int_to_string n @ ''>''"
| "wname (WTuple _ _ n) = n"
| "wname (WInnerTransactionFields None) = ''inner_transaction_fields''"
| "wname (WInnerTransactionFields (Some t)) = ''inner_transaction_fields_'' @ txnTypeSuffix t"
| "wname (WInnerTransaction None) = ''inner_transaction''"
| "wname (WInnerTransaction (Some t)) = ''inner_transaction_'' @ txnTypeSuffix t"

fun jsonType :: "wtype \<Rightarrow> string" where
  "jsonType (BasicWType _) = ''WType''"
| "jsonType (ARC4BasicWType _) = ''ARC4Type''"
| "jsonType (BytesWType _) = ''BytesWType''"
| "jsonType (ARC4UIntN _ _) = ''ARC4UIntN''"
| "jsonType (ARC4UFixedNxM _ _) = ''ARC4UFixedNxM''"
| "jsonType (ARC4Tuple _) = ''ARC4Tuple''"
| "jsonType (ARC4DynamicArray _ _ _) = ''ARC4DynamicArray''"
| "jsonType (ARC4StaticArray _ _ _ _) = ''ARC4StaticArray''"
| "jsonType (ARC4Struct _ _ _ _) = ''ARC4Struct''"
| "jsonType (ReferenceArray _ _ _) = ''ReferenceArray''"
| "jsonType (WTuple _ _ _) = ''WTuple''"
| "jsonType (WInnerTransactionFields _) = ''WInnerTransactionFields''"
| "jsonType (WInnerTransaction _) = ''WInnerTransaction''"

text \<open>Constructors with the defaults of the C++ ones.\<close>

definition mkARC4DynamicArray :: "wtype \<Rightarrow> string \<Rightarrow> wtype" where
  "mkARC4DynamicArray e al = ARC4DynamicArray e al False"

definition mkARC4StaticArray :: "wtype \<Rightarrow> int \<Rightarrow> string \<Rightarrow> wtype" where
  "mkARC4StaticArray e n al = ARC4StaticArray e n al False"

definition mkARC4Struct :: "string \<Rightarrow> (string \<times> wtype) list \<Rightarrow> bool \<Rightarrow> wtype" where
  "mkARC4Struct n fs frozen =
     ARC4Struct n fs frozen (frozen \<and> list_all (\<lambda>p. immutable (snd p)) fs)"

text \<open>
  The accessors of the parameterised types, as the code reads them after a \<open>static_cast\<close>
  justified by equal kinds; off their class they return an arbitrary default.
\<close>

fun types :: "wtype \<Rightarrow> wtype list" where
  "types (ARC4Tuple ts) = ts"
| "types (WTuple ts _ _) = ts"
| "types _ = []"

fun elementType :: "wtype \<Rightarrow> wtype" where
  "elementType (ARC4DynamicArray e _ _) = e"
| "elementType (ARC4StaticArray e _ _ _) = e"
| "elementType (ReferenceArray e _ _) = e"
| "elementType t = t"

fun arraySize :: "wtype \<Rightarrow> int option" where
  "arraySize (ARC4StaticArray _ n _ _) = Some n"
| "arraySize (ReferenceArray _ _ n) = n"
| "arraySize _ = None"

fun arc4Alias :: "wtype \<Rightarrow> string" where
  "arc4Alias (ARC4UIntN _ al) = al"
| "arc4Alias (ARC4DynamicArray _ al _) = al"
| "arc4Alias (ARC4StaticArray _ _ al _) = al"
| "arc4Alias _ = []"

fun wt_n :: "wtype \<Rightarrow> int" where
  "wt_n (ARC4UIntN n _) = n"
| "wt_n (ARC4UFixedNxM n _) = n"
| "wt_n _ = 0"

fun wt_m :: "wtype \<Rightarrow> int" where
  "wt_m (ARC4UFixedNxM _ m) = m"
| "wt_m _ = 0"

fun structFields :: "wtype \<Rightarrow> (string \<times> wtype) list" where
  "structFields (ARC4Struct _ fs _ _) = fs"
| "structFields _ = []"

fun frozen :: "wtype \<Rightarrow> bool" where
  "frozen (ARC4Struct _ _ fr _) = fr"
| "frozen _ = False"

fun wt_names :: "wtype \<Rightarrow> string list option" where
  "wt_names (WTuple _ ns _) = ns"
| "wt_names _ = None"

fun asBytesWType :: "wtype \<Rightarrow> wtype option" where
  "asBytesWType (BytesWType n) = Some (BytesWType n)"
| "asBytesWType _ = None"

fun fixedBytesLength :: "wtype \<Rightarrow> int option" where
  "fixedBytesLength (BytesWType n) = n"
| "fixedBytesLength _ = None"

definition isDynamicBytes :: "wtype \<Rightarrow> bool" where
  "isDynamicBytes t = (case asBytesWType t of None \<Rightarrow> False | Some bw \<Rightarrow> fixedBytesLength bw = None)"

definition isNumericWType :: "wtype \<Rightarrow> bool" where
  "isNumericWType t \<longleftrightarrow> t = uint64Type \<or> t = biguintType"

text \<open>\<open>m_arc4Alias.rfind("int", 0) == 0\<close>: the alias starts with \<open>int\<close>.\<close>

fun isSigned :: "wtype \<Rightarrow> bool" where
  "isSigned (ARC4UIntN _ al) = (take 3 al = ''int'')"
| "isSigned _ = False"

fun arrayElementType :: "wtype \<Rightarrow> wtype option" where
  "arrayElementType (ARC4DynamicArray e _ _) = Some e"
| "arrayElementType (ARC4StaticArray e _ _ _) = Some e"
| "arrayElementType (ReferenceArray e _ _) = Some e"
| "arrayElementType _ = None"

fun structFieldType :: "wtype \<Rightarrow> string \<Rightarrow> wtype option" where
  "structFieldType (ARC4Struct _ fs _ _) n = map_option snd (find (\<lambda>p. fst p = n) fs)"
| "structFieldType _ _ = None"

section \<open>Structural equivalence\<close>

type_synonym wtype_pairs = "(wtype \<times> wtype) list"

text \<open>
  \<open>equivalentImpl\<close> threads the memo set \<open>seen\<close> (a list here); \<open>same\<close> stands for the
  comparison of two pointers.
\<close>

text \<open>
  The \<open>switch\<close> on the kind, split in two: \<open>attributesEqual\<close> compares what a kind stores beside
  its component types (names, widths, aliases, the number of components), and \<open>components\<close> lists
  the component types in the order the code visits them, each with the struct field name it is
  compared under (empty where the kind has no field names).
\<close>

fun components :: "wtype \<Rightarrow> (string \<times> wtype) list" where
  "components (ARC4Tuple ts) = map (Pair []) ts"
| "components (ARC4DynamicArray e _ _) = [([], e)]"
| "components (ARC4StaticArray e _ _ _) = [([], e)]"
| "components (ARC4Struct _ fs _ _) = fs"
| "components (ReferenceArray e _ _) = [([], e)]"
| "components (WTuple ts _ _) = map (Pair []) ts"
| "components _ = []"

fun attributesEqual :: "wtype \<Rightarrow> wtype \<Rightarrow> bool" where
  "attributesEqual (BytesWType n) rhs = (n = fixedBytesLength rhs)"
| "attributesEqual (ARC4UIntN n al) rhs = (n = wt_n rhs \<and> al = arc4Alias rhs)"
| "attributesEqual (ARC4UFixedNxM n m) rhs = (n = wt_n rhs \<and> m = wt_m rhs)"
| "attributesEqual (ARC4Tuple ls) rhs = (length ls = length (types rhs))"
| "attributesEqual (ARC4DynamicArray e al _) rhs = (al = arc4Alias rhs)"
| "attributesEqual (ARC4StaticArray e n al _) rhs = (Some n = arraySize rhs \<and> al = arc4Alias rhs)"
| "attributesEqual (ARC4Struct nm fs fr _) rhs =
     (nm = wname rhs \<and> fr = frozen rhs \<and> length fs = length (structFields rhs))"
| "attributesEqual (ReferenceArray e _ n) rhs = (n = arraySize rhs)"
| "attributesEqual (WTuple ls ns nm) rhs =
     (nm = wname rhs \<and> ns = wt_names rhs \<and> length ls = length (types rhs))"
| "attributesEqual lhs rhs = (wname lhs = wname rhs)"

definition components_size :: "(string \<times> wtype) list \<Rightarrow> nat" where
  "components_size cs = size_list (\<lambda>p. size (snd p)) cs"

lemma components_size_Cons [simp]:
  "components_size ((n, t) # cs) = Suc (size t + components_size cs)"
  by (simp add: components_size_def)

lemma size_components: "components_size (components t) \<le> size t"
proof -
  have "size_list (\<lambda>p. size (snd p)) fs \<le> size_list (size_prod (\<lambda>_. 0) size) (fs :: (string \<times> wtype) list)" for fs
    by (rule size_list_pointwise) (auto simp: size_prod_simp)
  then show ?thesis
    by (cases t) (auto simp: components_size_def size_list_map comp_def le_SucI)
qed

function (sequential) equivalentImpl ::
    "(wtype \<Rightarrow> wtype \<Rightarrow> bool) \<Rightarrow> wtype \<Rightarrow> wtype \<Rightarrow> wtype_pairs \<Rightarrow> bool \<times> wtype_pairs"
  and componentLoop ::
    "(wtype \<Rightarrow> wtype \<Rightarrow> bool) \<Rightarrow> (string \<times> wtype) list \<Rightarrow> (string \<times> wtype) list \<Rightarrow> wtype_pairs
       \<Rightarrow> bool \<times> wtype_pairs"
where
  "equivalentImpl same lhs rhs seen =
     (if same lhs rhs then (True, seen)
      else if kind lhs \<noteq> kind rhs \<or> immutable lhs \<noteq> immutable rhs then (False, seen)
      else if (\<exists>p \<in> set seen. same (fst p) lhs \<and> same (snd p) rhs) then (True, seen)
      else if attributesEqual lhs rhs
      then componentLoop same (components lhs) (components rhs) ((lhs, rhs) # seen)
      else (False, (lhs, rhs) # seen))"
| "componentLoop same ((n, l) # ls) ((m, r) # rs) seen =
     (if n \<noteq> m then (False, seen)
      else (case equivalentImpl same l r seen of
              (False, seen') \<Rightarrow> (False, seen')
            | (True, seen') \<Rightarrow> componentLoop same ls rs seen'))"
| "componentLoop same _ _ seen = (True, seen)"
  by pat_completeness auto

termination
  by (relation "measure (case_sum (\<lambda>(_, l, _, _). Suc (2 * size l)) (\<lambda>(_, ls, _, _). 2 * components_size ls))")
     (auto simp: size_components less_Suc_eq_le)

declare equivalentImpl.simps [simp del]

fun structurallyEquivalent ::
    "(wtype \<Rightarrow> wtype \<Rightarrow> bool) \<Rightarrow> wtype option \<Rightarrow> wtype option \<Rightarrow> bool" where
  "structurallyEquivalent same None None = True"
| "structurallyEquivalent same (Some l) (Some r) = fst (equivalentImpl same l r [])"
| "structurallyEquivalent same _ _ = False"

section \<open>What the equivalence decides\<close>

text \<open>
  The type with the distinctions removed that the names do not record: the AWST class of a basic
  type, and the transaction types that print as \<open>unknown\<close>.
\<close>

definition canonTxn :: "int option \<Rightarrow> int option" where
  "canonTxn t = map_option (\<lambda>n. if 1 \<le> n \<and> n \<le> 6 then n else 0) t"

primrec canon :: "wtype \<Rightarrow> wtype" where
  "canon (BasicWType n) = BasicWType n"
| "canon (ARC4BasicWType n) = BasicWType n"
| "canon (BytesWType n) = BytesWType n"
| "canon (ARC4UIntN n al) = ARC4UIntN n al"
| "canon (ARC4UFixedNxM n m) = ARC4UFixedNxM n m"
| "canon (ARC4Tuple ts) = ARC4Tuple (map canon ts)"
| "canon (ARC4DynamicArray e al im) = ARC4DynamicArray (canon e) al im"
| "canon (ARC4StaticArray e n al im) = ARC4StaticArray (canon e) n al im"
| "canon (ARC4Struct nm fs fr im) = ARC4Struct nm (map (map_prod id canon) fs) fr im"
| "canon (ReferenceArray e im n) = ReferenceArray (canon e) im n"
| "canon (WTuple ts ns nm) = WTuple (map canon ts) ns nm"
| "canon (WInnerTransactionFields t) = WInnerTransactionFields (canonTxn t)"
| "canon (WInnerTransaction t) = WInnerTransaction (canonTxn t)"

definition canon_components :: "(string \<times> wtype) list \<Rightarrow> (string \<times> wtype) list" where
  "canon_components = map (map_prod id canon)"

lemma canon_components_simps [simp]:
  "canon_components [] = []"
  "canon_components ((n, t) # cs) = (n, canon t) # canon_components cs"
  "length (canon_components cs) = length cs"
  by (simp_all add: canon_components_def)

lemma txn_suffix_canon:
  "txnTypeSuffix s = txnTypeSuffix t \<longleftrightarrow> canonTxn (Some s) = canonTxn (Some t)"
proof -
  have "1 \<le> n \<and> n \<le> 6 \<longleftrightarrow> n = 1 \<or> n = 2 \<or> n = 3 \<or> n = 4 \<or> n = 5 \<or> n = 6" for n :: int
    by arith
  then show ?thesis by (auto simp: txnTypeSuffix_def canonTxn_def)
qed

lemma inner_name_canon:
  "wname (WInnerTransaction s) = wname (WInnerTransaction t) \<longleftrightarrow> canonTxn s = canonTxn t"
  "wname (WInnerTransactionFields s) = wname (WInnerTransactionFields t) \<longleftrightarrow> canonTxn s = canonTxn t"
  using txn_suffix_canon by (cases s; cases t; auto simp: canonTxn_def)+

lemma canon_kind: "canon l = canon r \<Longrightarrow> kind l = kind r \<and> immutable l = immutable r"
  by (cases l; cases r) auto

lemma map_Pair_eq: "map (\<lambda>x. (a, f x)) xs = map (\<lambda>x. (a, f x)) ys \<longleftrightarrow> map f xs = map f ys"
proof (induction xs arbitrary: ys)
  case (Cons x xs)
  then show ?case by (cases ys) auto
qed auto

lemma canon_iff_components:
  assumes "kind l = kind r" and "immutable l = immutable r"
  shows "canon l = canon r \<longleftrightarrow>
    attributesEqual l r \<and> canon_components (components l) = canon_components (components r)"
  using assms
  by (cases l; cases r)
     (auto simp: canon_components_def inner_name_canon comp_def map_Pair_eq
       simp del: wname.simps(14-17) dest: map_eq_imp_length_eq)

lemma components_length:
  assumes "kind l = kind r" and "attributesEqual l r"
  shows "length (components l) = length (components r)"
  using assms by (cases l; cases r) auto

text \<open>
  The invariant of the memo set while a type of size \<open>k\<close> is compared: every recorded pair is
  either one already found equivalent, or an enclosing type, which is larger.
\<close>

definition memo_ok :: "nat \<Rightarrow> wtype_pairs \<Rightarrow> bool" where
  "memo_ok k seen \<longleftrightarrow> (\<forall>(x, y) \<in> set seen. canon x = canon y \<or> k < size x)"

lemma memo_ok_mono: "memo_ok k seen \<Longrightarrow> j \<le> k \<Longrightarrow> memo_ok j seen"
  by (auto simp: memo_ok_def)

lemma component_smaller: "(n, t) \<in> set (components l) \<Longrightarrow> size t < size l"
proof -
  assume "(n, t) \<in> set (components l)"
  then have "Suc (size t) \<le> components_size (components l)"
    by (induction "components l" rule: list.induct)
       (auto simp: components_size_def dest!: split_list)
  with size_components[of l] show ?thesis by simp
qed

text \<open>What one comparison may add to the memo set when it succeeds: equivalent pairs only.\<close>

definition memo_grows :: "wtype_pairs \<Rightarrow> wtype_pairs \<Rightarrow> bool" where
  "memo_grows seen seen' \<longleftrightarrow> (\<forall>(x, y) \<in> set seen'. (x, y) \<in> set seen \<or> canon x = canon y)"

lemma memo_grows_ok: "memo_grows seen seen' \<Longrightarrow> memo_ok k seen \<Longrightarrow> memo_ok k seen'"
  by (force simp: memo_grows_def memo_ok_def)

definition sound_identity :: "(wtype \<Rightarrow> wtype \<Rightarrow> bool) \<Rightarrow> bool" where
  "sound_identity same \<longleftrightarrow> (\<forall>a b. same a b \<longrightarrow> a = b)"

lemma memo_ok_component:
  assumes "memo_ok (size l) seen" and "(n, t) \<in> set (components l)"
  shows "memo_ok (size t) ((l, r) # seen)"
  using component_smaller[OF assms(2)] assms(1) by (auto simp: memo_ok_def)

lemma equivalence_correct:
  "sound_identity same \<Longrightarrow> memo_ok (size lhs) seen \<Longrightarrow>
     equivalentImpl same lhs rhs seen = (b, seen') \<Longrightarrow>
     b = (canon lhs = canon rhs) \<and> (b \<longrightarrow> memo_grows seen seen')"
  "sound_identity same \<Longrightarrow> (\<And>n t. (n, t) \<in> set ls \<Longrightarrow> memo_ok (size t) seen) \<Longrightarrow>
     length ls = length rs \<Longrightarrow> componentLoop same ls rs seen = (b, seen') \<Longrightarrow>
     b = (canon_components ls = canon_components rs) \<and> (b \<longrightarrow> memo_grows seen seen')"
proof (induction same lhs rhs seen and same ls rs seen
    arbitrary: b seen' and b seen' rule: equivalentImpl_componentLoop.induct)
  case (1 same lhs rhs seen)
  note eq = "1.prems"(3)[unfolded equivalentImpl.simps[of same lhs rhs seen]]
  have hit: "p \<in> set seen \<Longrightarrow> same (fst p) lhs \<Longrightarrow> same (snd p) rhs \<Longrightarrow> canon lhs = canon rhs" for p
  proof -
    assume p: "p \<in> set seen" "same (fst p) lhs" "same (snd p) rhs"
    with "1.prems"(1) have "p = (lhs, rhs)"
      by (auto simp: sound_identity_def prod_eq_iff)
    with p "1.prems"(2) show ?thesis by (auto simp: memo_ok_def)
  qed
  show ?case
  proof (cases "\<not> same lhs rhs \<and> kind lhs = kind rhs \<and> immutable lhs = immutable rhs
      \<and> \<not> (\<exists>p \<in> set seen. same (fst p) lhs \<and> same (snd p) rhs) \<and> attributesEqual lhs rhs")
    case False
    with eq hit "1.prems"(1) canon_kind[of lhs rhs] canon_iff_components[of lhs rhs] show ?thesis
      by (auto simp: sound_identity_def memo_grows_def split: if_splits)
  next
    case True
    then have "componentLoop same (components lhs) (components rhs) ((lhs, rhs) # seen) = (b, seen')"
      using eq by (auto split: if_splits)
    with True "1.prems"(1,2) have "b = (canon_components (components lhs) = canon_components (components rhs))
        \<and> (b \<longrightarrow> memo_grows ((lhs, rhs) # seen) seen')"
      by (intro "1.IH") (auto intro: memo_ok_component components_length)
    with True canon_iff_components[of lhs rhs] show ?thesis
      by (auto simp: memo_grows_def)
  qed
next
  case (2 same n l ls m r rs seen)
  show ?case
  proof (cases "n = m")
    case False
    with "2.prems" show ?thesis by auto
  next
    case True
    obtain b1 seen1 where e1: "equivalentImpl same l r seen = (b1, seen1)" by force
    with True "2.IH"(1) "2.prems"(1,2)
    have b1: "b1 = (canon l = canon r)" "b1 \<longrightarrow> memo_grows seen seen1" by auto
    show ?thesis
    proof (cases b1)
      case False
      with True e1 b1 "2.prems"(4) show ?thesis by auto
    next
      case b1T: True
      with b1 "2.prems"(2) have "\<And>n t. (n, t) \<in> set ls \<Longrightarrow> memo_ok (size t) seen1"
        by (meson list.set_intros(2) memo_grows_ok)
      with True b1T e1 "2.IH"(2)[OF _ e1[symmetric]] "2.prems"(1,3,4)
      have "b = (canon_components ls = canon_components rs)" "b \<longrightarrow> memo_grows seen1 seen'"
        by auto
      with True b1T b1 show ?thesis by (force simp: memo_grows_def)
    qed
  qed
qed (auto simp: memo_grows_def)

text \<open>
  (C1) \<open>structurallyEquivalent\<close> decides physical type equality: whatever two pointers compare
  equal (as long as equal pointers have equal contents), two types are reported equivalent exactly
  when they are both null or agree in every component up to \<open>canon\<close>.  The memo set never makes two
  different types equal.
\<close>

theorem structurallyEquivalent_iff:
  assumes "sound_identity same"
  shows "structurallyEquivalent same l r \<longleftrightarrow> map_option canon l = map_option canon r"
proof (cases "\<exists>a b. l = Some a \<and> r = Some b")
  case True
  then obtain a b where [simp]: "l = Some a" "r = Some b" by blast
  obtain x seen' where "equivalentImpl same a b [] = (x, seen')" by force
  with equivalence_correct(1)[OF assms _ this] show ?thesis by (simp add: memo_ok_def)
next
  case False
  then show ?thesis by (cases l; cases r) auto
qed

theorem structurallyEquivalent_iff_witness:
  "structurallyEquivalent (\<lambda>_ _. False) (Some (ARC4Tuple [uint64Type, ARC4UIntN 24 ''int24'']))
     (Some (ARC4Tuple [uint64Type, ARC4UIntN 24 ''int24'']))
   \<and> \<not> structurallyEquivalent (=) (Some (mkARC4DynamicArray uint64Type []))
     (Some (forceImmutable (mkARC4DynamicArray uint64Type [])))"
  by (subst (1 2) structurallyEquivalent_iff)
     (simp_all add: sound_identity_def mkARC4DynamicArray_def)

end
