(* ===== verification/Nodes.thy ===== *)
theory Nodes
  imports WTypes
begin

text \<open>
  The AWST node classes (\<open>src/src/awst/Node.h\<close>): one constructor per C++ node struct.  Every
  expression carries its \<open>wtype\<close>; source locations are left out, because no branch of the
  compiler depends on them.  A \<open>shared_ptr\<close> that the code lets be null is an \<open>option\<close>; a
  \<open>std::map\<close> keyed by field name is the list of its entries in key order.  The condition of an assertion
  is never null: the only place that makes an \<open>AssertExpression\<close> is \<open>makeAssert\<close> (Node.h:554), and all its
  callers pass a condition, so the branch of the serializer for a null one is not reached.
\<close>

section \<open>Enumerations\<close>

datatype UInt64BinaryOperator =
    U64Add | U64Sub | U64Mult | U64FloorDiv | U64Mod | U64Pow | U64LShift | U64RShift
  | U64BitOr | U64BitXor | U64BitAnd

datatype BigUIntBinaryOperator =
    BigAdd | BigSub | BigMult | BigFloorDiv | BigMod | BigBitOr | BigBitXor | BigBitAnd

datatype BytesBinaryOperator = BytesAdd | BytesBitOr | BytesBitXor | BytesBitAnd

datatype NumericComparison = Eq | Ne | Lt | Lte | Gt | Gte

datatype EqualityComparison = EqEq | EqNe

datatype BinaryBooleanOperator = And | Or

datatype BytesEncoding = EncUnknown | EncBase16 | EncBase32 | EncBase64 | EncUtf8

datatype BytesUnaryOperator = BitInvert

datatype AppStorageKind = AppGlobal | AccountLocal | Box

datatype SubroutineTarget =
    SubroutineID string
  | InstanceMethodTarget string
  | InstanceSuperMethodTarget string
  | ContractMethodTarget string string

datatype immediate = ImmStr string | ImmInt int

section \<open>Expressions\<close>

datatype (plugins only: code size) expr =
    IntegerConstant wtype string
  | BoolConstant wtype bool
  | BytesConstant wtype BytesEncoding bytes
  | StringConstant wtype string
  | VoidConstant wtype
  | VarExpression wtype string
  | UInt64BinaryOperation wtype expr UInt64BinaryOperator expr
  | BigUIntBinaryOperation wtype expr BigUIntBinaryOperator expr
  | BytesBinaryOperation wtype expr BytesBinaryOperator expr
  | BytesUnaryOperation wtype expr BytesUnaryOperator
  | NumericComparisonExpression wtype expr NumericComparison expr
  | BytesComparisonExpression wtype expr EqualityComparison expr
  | BooleanBinaryOperation wtype expr BinaryBooleanOperator expr
  | NotExpr wtype expr
  | AssertExpression wtype expr "string option" bool
  | AssignmentExpression wtype expr expr
  | ConditionalExpression wtype expr expr expr
  | SubroutineCallExpression wtype SubroutineTarget "(string option \<times> expr) list"
  | IntrinsicCall wtype string "immediate list" "expr list"
  | FieldExpression wtype expr string
  | IndexExpression wtype expr expr
  | TupleExpression wtype "expr list"
  | TupleItemExpression wtype expr int
  | ARC4Encode wtype expr
  | ARC4Decode wtype expr
  | ARC4FromBytes wtype expr bool
  | ARC4Router wtype
  | ReinterpretCast wtype expr
  | TemplateVar wtype string
  | CopyExpr wtype expr
  | SingleEvaluation wtype expr int
  | CheckedMaybe wtype expr string
  | EmitExpr wtype string expr
  | NewArray wtype "expr list"
  | ArrayLength wtype expr
  | ArrayPop wtype expr
  | ArrayConcat wtype expr expr
  | ArrayExtend wtype expr expr
  | ConvertArray wtype expr
  | NewStruct wtype "(string \<times> expr) list"
  | NamedTupleExpression wtype "(string \<times> expr) list"
  | StateGet wtype expr expr
  | StateExists wtype expr
  | StateDelete wtype expr
  | StateGetEx wtype expr
  | AppStateExpression wtype expr "string option"
  | AppAccountStateExpression wtype expr expr "string option"
  | BoxPrefixedKeyExpression wtype expr expr
  | BoxValueExpression wtype expr "string option"
  | CreateInnerTransaction wtype "(string \<times> expr) list"
  | SubmitInnerTransaction wtype "expr list"
  | InnerTransactionField wtype expr string "expr option"
  | CommaExpression wtype "expr list"
  | MethodConstant wtype string
  | AddressConstant wtype string
  | PuyaLibCall wtype string "(string option \<times> expr) list"

section \<open>Statements\<close>

datatype (plugins only: code size) stmt =
    Block "stmt list" "string option" "string option"
  | ExpressionStatement expr
  | ReturnStatement "expr option"
  | IfElse expr "stmt option" "stmt option"
  | WhileLoop expr "stmt option"
  | LoopExit
  | LoopContinue
  | AssignmentStatement expr expr
  | GotoStmt string
  | SwitchStmt expr "(expr \<times> stmt option) list" "stmt option"
  | ForInLoop expr expr "stmt option"
  | UInt64AugmentedAssignment expr UInt64BinaryOperator expr
  | BigUIntAugmentedAssignment expr BigUIntBinaryOperator expr

section \<open>The fields every node has\<close>

primrec wtypeOf :: "expr \<Rightarrow> wtype" where
  "wtypeOf (IntegerConstant t x1) = t"
| "wtypeOf (BoolConstant t x1) = t"
| "wtypeOf (BytesConstant t x1 x2) = t"
| "wtypeOf (StringConstant t x1) = t"
| "wtypeOf (VoidConstant t) = t"
| "wtypeOf (VarExpression t x1) = t"
| "wtypeOf (UInt64BinaryOperation t x1 x2 x3) = t"
| "wtypeOf (BigUIntBinaryOperation t x1 x2 x3) = t"
| "wtypeOf (BytesBinaryOperation t x1 x2 x3) = t"
| "wtypeOf (BytesUnaryOperation t x1 x2) = t"
| "wtypeOf (NumericComparisonExpression t x1 x2 x3) = t"
| "wtypeOf (BytesComparisonExpression t x1 x2 x3) = t"
| "wtypeOf (BooleanBinaryOperation t x1 x2 x3) = t"
| "wtypeOf (NotExpr t x1) = t"
| "wtypeOf (AssertExpression t x1 x2 x3) = t"
| "wtypeOf (AssignmentExpression t x1 x2) = t"
| "wtypeOf (ConditionalExpression t x1 x2 x3) = t"
| "wtypeOf (SubroutineCallExpression t x1 x2) = t"
| "wtypeOf (IntrinsicCall t x1 x2 x3) = t"
| "wtypeOf (FieldExpression t x1 x2) = t"
| "wtypeOf (IndexExpression t x1 x2) = t"
| "wtypeOf (TupleExpression t x1) = t"
| "wtypeOf (TupleItemExpression t x1 x2) = t"
| "wtypeOf (ARC4Encode t x1) = t"
| "wtypeOf (ARC4Decode t x1) = t"
| "wtypeOf (ARC4FromBytes t x1 x2) = t"
| "wtypeOf (ARC4Router t) = t"
| "wtypeOf (ReinterpretCast t x1) = t"
| "wtypeOf (TemplateVar t x1) = t"
| "wtypeOf (CopyExpr t x1) = t"
| "wtypeOf (SingleEvaluation t x1 x2) = t"
| "wtypeOf (CheckedMaybe t x1 x2) = t"
| "wtypeOf (EmitExpr t x1 x2) = t"
| "wtypeOf (NewArray t x1) = t"
| "wtypeOf (ArrayLength t x1) = t"
| "wtypeOf (ArrayPop t x1) = t"
| "wtypeOf (ArrayConcat t x1 x2) = t"
| "wtypeOf (ArrayExtend t x1 x2) = t"
| "wtypeOf (ConvertArray t x1) = t"
| "wtypeOf (NewStruct t x1) = t"
| "wtypeOf (NamedTupleExpression t x1) = t"
| "wtypeOf (StateGet t x1 x2) = t"
| "wtypeOf (StateExists t x1) = t"
| "wtypeOf (StateDelete t x1) = t"
| "wtypeOf (StateGetEx t x1) = t"
| "wtypeOf (AppStateExpression t x1 x2) = t"
| "wtypeOf (AppAccountStateExpression t x1 x2 x3) = t"
| "wtypeOf (BoxPrefixedKeyExpression t x1 x2) = t"
| "wtypeOf (BoxValueExpression t x1 x2) = t"
| "wtypeOf (CreateInnerTransaction t x1) = t"
| "wtypeOf (SubmitInnerTransaction t x1) = t"
| "wtypeOf (InnerTransactionField t x1 x2 x3) = t"
| "wtypeOf (CommaExpression t x1) = t"
| "wtypeOf (MethodConstant t x1) = t"
| "wtypeOf (AddressConstant t x1) = t"
| "wtypeOf (PuyaLibCall t x1 x2) = t"

primrec nodeType :: "expr \<Rightarrow> string" where
  "nodeType (IntegerConstant t x1) = ''IntegerConstant''"
| "nodeType (BoolConstant t x1) = ''BoolConstant''"
| "nodeType (BytesConstant t x1 x2) = ''BytesConstant''"
| "nodeType (StringConstant t x1) = ''StringConstant''"
| "nodeType (VoidConstant t) = ''VoidConstant''"
| "nodeType (VarExpression t x1) = ''VarExpression''"
| "nodeType (UInt64BinaryOperation t x1 x2 x3) = ''UInt64BinaryOperation''"
| "nodeType (BigUIntBinaryOperation t x1 x2 x3) = ''BigUIntBinaryOperation''"
| "nodeType (BytesBinaryOperation t x1 x2 x3) = ''BytesBinaryOperation''"
| "nodeType (BytesUnaryOperation t x1 x2) = ''BytesUnaryOperation''"
| "nodeType (NumericComparisonExpression t x1 x2 x3) = ''NumericComparisonExpression''"
| "nodeType (BytesComparisonExpression t x1 x2 x3) = ''BytesComparisonExpression''"
| "nodeType (BooleanBinaryOperation t x1 x2 x3) = ''BooleanBinaryOperation''"
| "nodeType (NotExpr t x1) = ''Not''"
| "nodeType (AssertExpression t x1 x2 x3) = ''AssertExpression''"
| "nodeType (AssignmentExpression t x1 x2) = ''AssignmentExpression''"
| "nodeType (ConditionalExpression t x1 x2 x3) = ''ConditionalExpression''"
| "nodeType (SubroutineCallExpression t x1 x2) = ''SubroutineCallExpression''"
| "nodeType (IntrinsicCall t x1 x2 x3) = ''IntrinsicCall''"
| "nodeType (FieldExpression t x1 x2) = ''FieldExpression''"
| "nodeType (IndexExpression t x1 x2) = ''IndexExpression''"
| "nodeType (TupleExpression t x1) = ''TupleExpression''"
| "nodeType (TupleItemExpression t x1 x2) = ''TupleItemExpression''"
| "nodeType (ARC4Encode t x1) = ''ARC4Encode''"
| "nodeType (ARC4Decode t x1) = ''ARC4Decode''"
| "nodeType (ARC4FromBytes t x1 x2) = ''ARC4FromBytes''"
| "nodeType (ARC4Router t) = ''ARC4Router''"
| "nodeType (ReinterpretCast t x1) = ''ReinterpretCast''"
| "nodeType (TemplateVar t x1) = ''TemplateVar''"
| "nodeType (CopyExpr t x1) = ''Copy''"
| "nodeType (SingleEvaluation t x1 x2) = ''SingleEvaluation''"
| "nodeType (CheckedMaybe t x1 x2) = ''CheckedMaybe''"
| "nodeType (EmitExpr t x1 x2) = ''Emit''"
| "nodeType (NewArray t x1) = ''NewArray''"
| "nodeType (ArrayLength t x1) = ''ArrayLength''"
| "nodeType (ArrayPop t x1) = ''ArrayPop''"
| "nodeType (ArrayConcat t x1 x2) = ''ArrayConcat''"
| "nodeType (ArrayExtend t x1 x2) = ''ArrayExtend''"
| "nodeType (ConvertArray t x1) = ''ConvertArray''"
| "nodeType (NewStruct t x1) = ''NewStruct''"
| "nodeType (NamedTupleExpression t x1) = ''NamedTupleExpression''"
| "nodeType (StateGet t x1 x2) = ''StateGet''"
| "nodeType (StateExists t x1) = ''StateExists''"
| "nodeType (StateDelete t x1) = ''StateDelete''"
| "nodeType (StateGetEx t x1) = ''StateGetEx''"
| "nodeType (AppStateExpression t x1 x2) = ''AppStateExpression''"
| "nodeType (AppAccountStateExpression t x1 x2 x3) = ''AppAccountStateExpression''"
| "nodeType (BoxPrefixedKeyExpression t x1 x2) = ''BoxPrefixedKeyExpression''"
| "nodeType (BoxValueExpression t x1 x2) = ''BoxValueExpression''"
| "nodeType (CreateInnerTransaction t x1) = ''CreateInnerTransaction''"
| "nodeType (SubmitInnerTransaction t x1) = ''SubmitInnerTransaction''"
| "nodeType (InnerTransactionField t x1 x2 x3) = ''InnerTransactionField''"
| "nodeType (CommaExpression t x1) = ''CommaExpression''"
| "nodeType (MethodConstant t x1) = ''MethodConstant''"
| "nodeType (AddressConstant t x1) = ''AddressConstant''"
| "nodeType (PuyaLibCall t x1 x2) = ''PuyaLibCall''"

fun isConstantExpression :: "expr \<Rightarrow> bool" where
  "isConstantExpression (IntegerConstant _ _) = True"
| "isConstantExpression (BoolConstant _ _) = True"
| "isConstantExpression (BytesConstant _ _ _) = True"
| "isConstantExpression (StringConstant _ _) = True"
| "isConstantExpression (VoidConstant _) = True"
| "isConstantExpression (MethodConstant _ _) = True"
| "isConstantExpression (AddressConstant _ _) = True"
| "isConstantExpression _ = False"

fun isRawStorageRead :: "expr \<Rightarrow> bool" where
  "isRawStorageRead (BoxValueExpression _ _ _) = True"
| "isRawStorageRead (AppStateExpression _ _ _) = True"
| "isRawStorageRead _ = False"

text \<open>The leaves that \<open>makeEvalOnce\<close> passes through unchanged.\<close>

fun duplicableLeaf :: "expr \<Rightarrow> bool" where
  "duplicableLeaf (SingleEvaluation _ _ _) = True"
| "duplicableLeaf (VarExpression _ _) = True"
| "duplicableLeaf (IntegerConstant _ _) = True"
| "duplicableLeaf (BoolConstant _ _) = True"
| "duplicableLeaf (BytesConstant _ _ _) = True"
| "duplicableLeaf (StringConstant _ _) = True"
| "duplicableLeaf _ = False"

end
