(* ===== verification/NodeFactory.thy ===== *)
theory NodeFactory
  imports Nodes
begin

text \<open>
  The node factories of \<open>src/src/awst/Node.h\<close>, in the order of the header, and the state
  they touch.  A factory that allocates a \<open>SingleEvaluation\<close> id, or that reports an unassignable
  target to the logger, runs in the state monad over \<open>bst\<close>; every other factory is a pure
  function.  Source locations are left out, and an overloaded factory gets one name per overload.
\<close>

section \<open>Builder state\<close>

text \<open>
  \<open>singleEvalId\<close> is the static counter of \<open>nextSingleEvalId\<close>; \<open>counters\<close> the per-prefix
  counters of \<open>NameGen\<close> (an absent entry of the C++ map reads as 0); \<open>preEffects\<close> the statement
  sink of the expression being built; \<open>errors\<close> the errors reported to the logger, one constructor
  per message.
\<close>

datatype builder_error =
    UnassignableTarget
  | NonScalarToBiguint string
  | RequiresArguments string nat
  | UnsupportedBuiltin string
  | MemoryReadBeyondSlots
  | MemoryWriteBeyondSlots
  | UnsupportedPackedType string

record bst =
  singleEvalId :: int
  counters :: "string \<Rightarrow> nat"
  preEffects :: "stmt list"
  errors :: "builder_error list"

type_synonym 'a builder = "(bst, 'a) state"

abbreviation ret :: "'a \<Rightarrow> 'a builder" where
  "ret \<equiv> State_Monad.return"

definition initialBst :: bst where
  "initialBst = \<lparr>singleEvalId = 2 ^ 20, counters = (\<lambda>_. 0), preEffects = [], errors = []\<rparr>"

definition nextSingleEvalId :: "int builder" where
  "nextSingleEvalId =
     State (\<lambda>s. (singleEvalId s + 1, s\<lparr>singleEvalId := singleEvalId s + 1\<rparr>))"

definition nameGenNext :: "string \<Rightarrow> nat builder" where
  "nameGenNext p = State (\<lambda>s. (counters s p, s\<lparr>counters := (counters s)(p := counters s p + 1)\<rparr>))"

definition nameGenResetAll :: "unit builder" where
  "nameGenResetAll = State (\<lambda>s. ((), s\<lparr>counters := (\<lambda>_. 0)\<rparr>))"

definition pushPreEffect :: "stmt \<Rightarrow> unit builder" where
  "pushPreEffect st = State (\<lambda>s. ((), s\<lparr>preEffects := preEffects s @ [st]\<rparr>))"

definition logError :: "builder_error \<Rightarrow> unit builder" where
  "logError msg = State (\<lambda>s. ((), s\<lparr>errors := errors s @ [msg]\<rparr>))"

lemmas builder_defs =
  nextSingleEvalId_def nameGenNext_def nameGenResetAll_def pushPreEffect_def logError_def

section \<open>Constants and variables\<close>

definition makeIntegerConstant :: "string \<Rightarrow> wtype \<Rightarrow> expr" where
  "makeIntegerConstant value wt = IntegerConstant wt value"

definition makeIntegerConstantU64 :: "nat \<Rightarrow> wtype \<Rightarrow> expr" where
  "makeIntegerConstantU64 value wt = makeIntegerConstant (dec_of_nat value) wt"

definition makeBiguintConstant :: "string \<Rightarrow> expr" where
  "makeBiguintConstant value = makeIntegerConstant value biguintType"

definition makeZero :: "wtype \<Rightarrow> expr" where
  "makeZero wt = makeIntegerConstant ''0'' wt"

definition makeOne :: "wtype \<Rightarrow> expr" where
  "makeOne wt = makeIntegerConstant ''1'' wt"

definition makeBoolConstant :: "bool \<Rightarrow> wtype \<Rightarrow> expr" where
  "makeBoolConstant value wt = BoolConstant wt value"

definition makeTrue :: expr where "makeTrue = makeBoolConstant True boolType"
definition makeFalse :: expr where "makeFalse = makeBoolConstant False boolType"

definition makeBytesConstant :: "bytes \<Rightarrow> BytesEncoding \<Rightarrow> wtype \<Rightarrow> expr" where
  "makeBytesConstant value enc wt = BytesConstant wt enc value"

definition string_bytes :: "string \<Rightarrow> bytes" where
  "string_bytes s = map of_char s"

definition makeUtf8BytesConstant :: "string \<Rightarrow> wtype \<Rightarrow> expr" where
  "makeUtf8BytesConstant str wt = makeBytesConstant (string_bytes str) EncUtf8 wt"

definition makeStringConstant :: "string \<Rightarrow> expr" where
  "makeStringConstant value = StringConstant stringType value"

definition makeVoidConstant :: expr where
  "makeVoidConstant = VoidConstant voidType"

definition makeVarExpression :: "string \<Rightarrow> wtype \<Rightarrow> expr" where
  "makeVarExpression name wt = VarExpression wt name"

section \<open>Operators\<close>

definition makeUInt64BinOp :: "expr \<Rightarrow> UInt64BinaryOperator \<Rightarrow> expr \<Rightarrow> expr" where
  "makeUInt64BinOp l oper r = UInt64BinaryOperation uint64Type l oper r"

definition makeBigUIntBinOp :: "expr \<Rightarrow> BigUIntBinaryOperator \<Rightarrow> expr \<Rightarrow> expr" where
  "makeBigUIntBinOp l oper r = BigUIntBinaryOperation biguintType l oper r"

definition makeBytesBinOp :: "expr \<Rightarrow> BytesBinaryOperator \<Rightarrow> expr \<Rightarrow> expr" where
  "makeBytesBinOp l oper r = BytesBinaryOperation bytesType l oper r"

definition makeBitInvert :: "expr \<Rightarrow> wtype \<Rightarrow> expr" where
  "makeBitInvert e wt = BytesUnaryOperation wt e BitInvert"

definition makeNumericCompare :: "expr \<Rightarrow> NumericComparison \<Rightarrow> expr \<Rightarrow> expr" where
  "makeNumericCompare l oper r = NumericComparisonExpression boolType l oper r"

definition makeBytesComparison :: "expr \<Rightarrow> EqualityComparison \<Rightarrow> expr \<Rightarrow> expr" where
  "makeBytesComparison l oper r = BytesComparisonExpression boolType l oper r"

definition makeBoolBinOp :: "expr \<Rightarrow> BinaryBooleanOperator \<Rightarrow> expr \<Rightarrow> expr" where
  "makeBoolBinOp l oper r = BooleanBinaryOperation boolType l oper r"

definition makeNot :: "expr \<Rightarrow> expr" where
  "makeNot e = NotExpr boolType e"

definition makeAssert :: "expr \<Rightarrow> string option \<Rightarrow> wtype \<Rightarrow> expr" where
  "makeAssert cond msg wt = AssertExpression wt cond msg True"

text \<open>Assigning into a constant node is reported to the logger; the node is built all the same.\<close>

definition checkAssignableTarget :: "expr \<Rightarrow> unit builder" where
  "checkAssignableTarget target =
     (if isConstantExpression target then logError UnassignableTarget else ret ())"

definition makeAssignmentExpression :: "expr \<Rightarrow> expr \<Rightarrow> wtype option \<Rightarrow> expr builder" where
  "makeAssignmentExpression target value wt = do {
     checkAssignableTarget target;
     ret (AssignmentExpression (case wt of None \<Rightarrow> wtypeOf target | Some t \<Rightarrow> t) target value)
   }"

definition makeConditional :: "expr \<Rightarrow> expr \<Rightarrow> expr \<Rightarrow> wtype \<Rightarrow> expr" where
  "makeConditional c t f wt = ConditionalExpression wt c t f"

definition makeSubroutineCall :: "SubroutineTarget \<Rightarrow> wtype \<Rightarrow> expr" where
  "makeSubroutineCall target returnType = SubroutineCallExpression returnType target []"

definition pushCallArgNamed ::
    "(string option \<times> expr) list \<Rightarrow> string \<Rightarrow> expr \<Rightarrow> (string option \<times> expr) list" where
  "pushCallArgNamed args name value = args @ [(Some name, value)]"

definition pushCallArg ::
    "(string option \<times> expr) list \<Rightarrow> expr \<Rightarrow> (string option \<times> expr) list" where
  "pushCallArg args value = args @ [(None, value)]"

section \<open>Intrinsic calls\<close>

definition makeIntrinsicCall :: "string \<Rightarrow> wtype \<Rightarrow> immediate list \<Rightarrow> expr list \<Rightarrow> expr" where
  "makeIntrinsicCall opCode wt imms stackArgs = IntrinsicCall wt opCode imms stackArgs"

definition makeItob :: "expr \<Rightarrow> expr" where
  "makeItob e = makeIntrinsicCall ''itob'' bytesType [] [e]"

definition makeBtoi :: "expr \<Rightarrow> wtype option \<Rightarrow> expr" where
  "makeBtoi e wt = makeIntrinsicCall ''btoi'' (case wt of None \<Rightarrow> uint64Type | Some t \<Rightarrow> t) [] [e]"

definition makeLen :: "expr \<Rightarrow> expr" where
  "makeLen e = makeIntrinsicCall ''len'' uint64Type [] [e]"

definition makeConcat :: "expr \<Rightarrow> expr \<Rightarrow> expr" where
  "makeConcat l r = makeIntrinsicCall ''concat'' bytesType [] [l, r]"

definition makeGlobal :: "string \<Rightarrow> wtype \<Rightarrow> expr" where
  "makeGlobal field wt = makeIntrinsicCall ''global'' wt [ImmStr field] []"

definition makeTxn :: "string \<Rightarrow> wtype \<Rightarrow> expr" where
  "makeTxn field wt = makeIntrinsicCall ''txn'' wt [ImmStr field] []"

definition makeAppArg :: "int \<Rightarrow> wtype option \<Rightarrow> expr" where
  "makeAppArg i wt =
     makeIntrinsicCall ''txna'' (case wt of None \<Rightarrow> bytesType | Some t \<Rightarrow> t)
       [ImmStr ''ApplicationArgs'', ImmInt i] []"

definition makeItxn :: "string \<Rightarrow> wtype \<Rightarrow> expr" where
  "makeItxn field wt = makeIntrinsicCall ''itxn'' wt [ImmStr field] []"

definition makeBlockField :: "string \<Rightarrow> expr \<Rightarrow> wtype \<Rightarrow> expr" where
  "makeBlockField field round wt = makeIntrinsicCall ''block'' wt [ImmStr field] [round]"

definition makeAppParamsGet :: "string \<Rightarrow> expr \<Rightarrow> wtype \<Rightarrow> expr" where
  "makeAppParamsGet field appId tupleType =
     makeIntrinsicCall ''app_params_get'' tupleType [ImmStr field] [appId]"

definition makeAssetParamsGet :: "string \<Rightarrow> expr \<Rightarrow> wtype \<Rightarrow> expr" where
  "makeAssetParamsGet field assetId tupleType =
     makeIntrinsicCall ''asset_params_get'' tupleType [ImmStr field] [assetId]"

definition makeGtxns :: "string \<Rightarrow> expr \<Rightarrow> wtype \<Rightarrow> expr" where
  "makeGtxns field groupIdx wt = makeIntrinsicCall ''gtxns'' wt [ImmStr field] [groupIdx]"

definition makeLoadSlot :: "int \<Rightarrow> expr" where
  "makeLoadSlot slot = makeIntrinsicCall ''load'' bytesType [ImmInt slot] []"

definition makeStoreSlot :: "int \<Rightarrow> expr \<Rightarrow> expr" where
  "makeStoreSlot slot value = makeIntrinsicCall ''store'' voidType [ImmInt slot] [value]"

definition makeBoxPut :: "expr \<Rightarrow> expr \<Rightarrow> expr" where
  "makeBoxPut key value = makeIntrinsicCall ''box_put'' voidType [] [key, value]"

definition makeBoxCreate :: "expr \<Rightarrow> expr \<Rightarrow> expr" where
  "makeBoxCreate key sz = makeIntrinsicCall ''box_create'' boolType [] [key, sz]"

definition makeBoxLen :: "expr \<Rightarrow> wtype \<Rightarrow> expr" where
  "makeBoxLen key tupleType = makeIntrinsicCall ''box_len'' tupleType [] [key]"

definition makeBoxExtract :: "expr \<Rightarrow> expr \<Rightarrow> expr \<Rightarrow> expr" where
  "makeBoxExtract key offset len = makeIntrinsicCall ''box_extract'' bytesType [] [key, offset, len]"

definition makeBoxReplace :: "expr \<Rightarrow> expr \<Rightarrow> expr \<Rightarrow> expr" where
  "makeBoxReplace key offset value = makeIntrinsicCall ''box_replace'' voidType [] [key, offset, value]"

definition makeBoxDel :: "expr \<Rightarrow> expr" where
  "makeBoxDel key = makeIntrinsicCall ''box_del'' boolType [] [key]"

definition makeAppGlobalPut :: "expr \<Rightarrow> expr \<Rightarrow> expr" where
  "makeAppGlobalPut key value = makeIntrinsicCall ''app_global_put'' voidType [] [key, value]"

definition makeExtract :: "expr \<Rightarrow> int \<Rightarrow> int \<Rightarrow> expr" where
  "makeExtract e offset len = makeIntrinsicCall ''extract'' bytesType [ImmInt offset, ImmInt len] [e]"

definition makeSingleEvaluation :: "expr \<Rightarrow> wtype \<Rightarrow> int \<Rightarrow> expr" where
  "makeSingleEvaluation source wt i = SingleEvaluation wt source i"

definition makeEvalOnce :: "expr \<Rightarrow> expr builder" where
  "makeEvalOnce e =
     (if duplicableLeaf e then ret e
      else do {
        i \<leftarrow> nextSingleEvalId;
        ret (makeSingleEvaluation e (wtypeOf e) i)
      })"

definition makeExtract3 :: "expr \<Rightarrow> expr \<Rightarrow> expr \<Rightarrow> wtype option \<Rightarrow> expr" where
  "makeExtract3 e offset len wt =
     makeIntrinsicCall ''extract3'' (case wt of None \<Rightarrow> bytesType | Some t \<Rightarrow> t) [] [e, offset, len]"

definition makeExtractLastN :: "expr \<Rightarrow> nat \<Rightarrow> expr builder" where
  "makeExtractLastN e n = do {
     b \<leftarrow> makeEvalOnce e;
     let nStr = dec_of_nat n;
     let offset = UInt64BinaryOperation uint64Type (makeLen b) U64Sub (makeIntegerConstant nStr uint64Type);
     ret (makeIntrinsicCall ''extract3'' bytesType [] [b, offset, makeIntegerConstant nStr uint64Type])
   }"

definition makeSetbit :: "expr \<Rightarrow> expr \<Rightarrow> expr \<Rightarrow> expr" where
  "makeSetbit b bitIdx value = makeIntrinsicCall ''setbit'' bytesType [] [b, bitIdx, value]"

definition makeGetbit :: "expr \<Rightarrow> expr \<Rightarrow> expr" where
  "makeGetbit b bitIdx = makeIntrinsicCall ''getbit'' uint64Type [] [b, bitIdx]"

definition makeExtractUInt64 :: "expr \<Rightarrow> expr \<Rightarrow> wtype option \<Rightarrow> expr" where
  "makeExtractUInt64 b offset wt =
     makeIntrinsicCall ''extract_uint64'' (case wt of None \<Rightarrow> uint64Type | Some t \<Rightarrow> t) [] [b, offset]"

definition makeExtractUInt16 :: "expr \<Rightarrow> expr \<Rightarrow> wtype option \<Rightarrow> expr" where
  "makeExtractUInt16 b offset wt =
     makeIntrinsicCall ''extract_uint16'' (case wt of None \<Rightarrow> uint64Type | Some t \<Rightarrow> t) [] [b, offset]"

definition makeUInt16Bytes :: "expr \<Rightarrow> expr" where
  "makeUInt16Bytes value =
     makeExtract3 (makeItob value) (makeIntegerConstant ''6'' uint64Type)
       (makeIntegerConstant ''2'' uint64Type) None"

definition makeReplace3 :: "expr \<Rightarrow> expr \<Rightarrow> expr \<Rightarrow> expr" where
  "makeReplace3 b offset replacement =
     makeIntrinsicCall ''replace3'' bytesType [] [b, offset, replacement]"

definition makeBzeroExpr :: "expr \<Rightarrow> expr" where
  "makeBzeroExpr count = makeIntrinsicCall ''bzero'' bytesType [] [count]"

definition makeBzero :: "nat \<Rightarrow> expr" where
  "makeBzero count = makeBzeroExpr (makeIntegerConstantU64 count uint64Type)"

definition makeRightPadTo32Multiple :: "expr \<Rightarrow> expr" where
  "makeRightPadTo32Multiple b =
     (let modPart = makeUInt64BinOp (makeLen b) U64Mod (makeIntegerConstant ''32'' uint64Type);
          sub = makeUInt64BinOp (makeIntegerConstant ''32'' uint64Type) U64Sub modPart;
          pad = makeUInt64BinOp sub U64Mod (makeIntegerConstant ''32'' uint64Type)
      in makeConcat b (makeBzeroExpr pad))"

definition makeBytesOr :: "expr \<Rightarrow> expr \<Rightarrow> expr" where
  "makeBytesOr l r = makeIntrinsicCall ''b|'' bytesType [] [l, r]"

definition makeLeftPad :: "expr \<Rightarrow> nat \<Rightarrow> expr" where
  "makeLeftPad value padBytes = makeConcat (makeBzero padBytes) value"

definition makeRightPad :: "expr \<Rightarrow> nat \<Rightarrow> expr" where
  "makeRightPad value padBytes = makeConcat value (makeBzero padBytes)"

definition makeZeroExtendToN :: "expr \<Rightarrow> nat \<Rightarrow> expr" where
  "makeZeroExtendToN value n = makeBytesOr (makeBzero n) value"

definition makeLeftPadToN :: "expr \<Rightarrow> nat \<Rightarrow> expr builder" where
  "makeLeftPadToN value n = do {
     padded \<leftarrow> makeEvalOnce (makeLeftPad value n);
     let offset = makeUInt64BinOp (makeLen padded) U64Sub (makeIntegerConstantU64 n uint64Type);
     ret (makeIntrinsicCall ''extract3'' bytesType [] [padded, offset, makeIntegerConstantU64 n uint64Type])
   }"

definition makeKeccak256 :: "expr \<Rightarrow> expr" where
  "makeKeccak256 input = makeIntrinsicCall ''keccak256'' bytesType [] [input]"

definition makeEnumRangeAssert :: "expr \<Rightarrow> nat \<Rightarrow> string \<Rightarrow> expr" where
  "makeEnumRangeAssert value numMembers message =
     makeAssert (makeNumericCompare value Lt (makeIntegerConstantU64 numMembers uint64Type))
       (Some message) voidType"

section \<open>Aggregates, ARC-4 and casts\<close>

definition makeTupleExpression :: "wtype \<Rightarrow> expr list \<Rightarrow> expr" where
  "makeTupleExpression wt items = TupleExpression wt items"

definition makeFieldExpression :: "expr \<Rightarrow> string \<Rightarrow> wtype \<Rightarrow> expr" where
  "makeFieldExpression base name wt = FieldExpression wt base name"

definition makeIndexExpression :: "expr \<Rightarrow> expr \<Rightarrow> wtype \<Rightarrow> expr" where
  "makeIndexExpression base index wt = IndexExpression wt base index"

definition makeTupleItem :: "expr \<Rightarrow> int \<Rightarrow> wtype \<Rightarrow> expr" where
  "makeTupleItem base index wt = TupleItemExpression wt base index"

definition makeARC4Decode :: "expr \<Rightarrow> wtype \<Rightarrow> expr" where
  "makeARC4Decode value wt = ARC4Decode wt value"

definition makeARC4FromBytes :: "expr \<Rightarrow> wtype \<Rightarrow> bool \<Rightarrow> expr" where
  "makeARC4FromBytes value wt validate = ARC4FromBytes wt value validate"

definition makeARC4Router :: "wtype \<Rightarrow> expr" where
  "makeARC4Router wt = ARC4Router wt"

definition makeReinterpretCast :: "expr \<Rightarrow> wtype \<Rightarrow> expr" where
  "makeReinterpretCast e targetType = ReinterpretCast targetType e"

definition makeAsBytes :: "expr \<Rightarrow> expr" where
  "makeAsBytes e = makeReinterpretCast e bytesType"

definition makeAsBiguint :: "expr \<Rightarrow> expr" where
  "makeAsBiguint e = makeReinterpretCast e biguintType"

definition makeAsAccount :: "expr \<Rightarrow> expr" where
  "makeAsAccount e = makeReinterpretCast e accountType"

definition makeAsApplication :: "expr \<Rightarrow> expr" where
  "makeAsApplication e = makeReinterpretCast e applicationType"

definition makeAsUInt64 :: "expr \<Rightarrow> expr" where
  "makeAsUInt64 e = makeReinterpretCast e uint64Type"

text \<open>
  \<open>makeARC4Encode\<close>: a \<open>uint64\<close> going to a signed \<open>arc4.intN\<close> is first made a \<open>biguint\<close> (its low
  \<open>n / 8\<close> bytes where \<open>n\<close> is below 64), and a \<open>biguint\<close> going to an \<open>arc4.uintN\<close> below 256 bits is
  trimmed to its low \<open>n / 8\<close> bytes.
\<close>

definition arc4SignedSource :: "expr \<Rightarrow> wtype \<Rightarrow> expr" where
  "arc4SignedSource value wt =
     (case wt of
        ARC4UIntN n al \<Rightarrow>
          (if wtypeOf value = uint64Type \<and> take 3 al = ''int'' then
             (if n < 64 \<and> n mod 8 = 0
              then makeAsBiguint (makeExtract (makeItob value) (8 - n div 8) (n div 8))
              else makeAsBiguint (makeItob value))
           else value)
      | _ \<Rightarrow> value)"

definition makeARC4Encode :: "expr \<Rightarrow> wtype \<Rightarrow> expr builder" where
  "makeARC4Encode value0 wt = do {
     let value = arc4SignedSource value0 wt;
     value' \<leftarrow>
       (case wt of
          ARC4UIntN n al \<Rightarrow>
            (if wtypeOf value = biguintType \<and> n < 256 \<and> n mod 8 = 0 then do {
               low \<leftarrow> makeExtractLastN (makeLeftPad (makeAsBytes value) (nat (n div 8))) (nat (n div 8));
               ret (makeAsBiguint low)
             } else ret value)
        | _ \<Rightarrow> ret value);
     ret (ARC4Encode wt value')
   }"

definition makeKeyBytes :: "expr \<Rightarrow> wtype \<Rightarrow> expr builder" where
  "makeKeyBytes value encType =
     (if encType = uint64Type then ret (makeItob value)
      else if encType = boolType then ret (makeItob (makeAsUInt64 value))
      else if encType = biguintType
      then makeExtractLastN (makeLeftPad (makeReinterpretCast value bytesType) 32) 32
      else if encType = stringType \<or> encType = bytesType
      then ret (makeIntrinsicCall ''sha256'' bytesType [] [makeReinterpretCast value bytesType])
      else ret (makeReinterpretCast value bytesType))"

definition makeBiguintToUInt64 :: "expr \<Rightarrow> expr" where
  "makeBiguintToUInt64 value =
     (let cat = makeLeftPad (makeReinterpretCast value bytesType) 8;
          start = makeIntrinsicCall ''-'' uint64Type [] [makeLen cat, makeIntegerConstant ''8'' uint64Type]
      in makeExtractUInt64 cat start None)"

definition makeWord32ToUInt64 :: "expr \<Rightarrow> expr" where
  "makeWord32ToUInt64 word32 = makeBtoi (makeExtract word32 24 8) None"

definition makeMappingKeyLayer :: "expr \<Rightarrow> wtype \<Rightarrow> expr \<Rightarrow> expr builder" where
  "makeMappingKeyLayer value encType pfx = do {
     keyBytes \<leftarrow> makeKeyBytes value encType;
     ret (makeIntrinsicCall ''sha256'' boxKeyType [] [makeConcat keyBytes pfx])
   }"

definition makeTemplateVar :: "string \<Rightarrow> wtype \<Rightarrow> expr" where
  "makeTemplateVar name wt = TemplateVar wt name"

definition makeEmit :: "string \<Rightarrow> expr \<Rightarrow> expr" where
  "makeEmit signature value = EmitExpr voidType signature value"

definition makeNewArray :: "wtype \<Rightarrow> expr list \<Rightarrow> expr" where
  "makeNewArray wt values = NewArray wt values"

definition makeArrayLength :: "expr \<Rightarrow> wtype \<Rightarrow> expr" where
  "makeArrayLength array wt = ArrayLength wt array"

definition makeArrayPop :: "expr \<Rightarrow> wtype \<Rightarrow> expr" where
  "makeArrayPop base wt = ArrayPop wt base"

definition makeArrayExtend :: "expr \<Rightarrow> expr \<Rightarrow> expr" where
  "makeArrayExtend base other = ArrayExtend voidType base other"

definition makeArrayPushOne :: "expr \<Rightarrow> expr \<Rightarrow> wtype \<Rightarrow> expr" where
  "makeArrayPushOne base elem arrWType = makeArrayExtend base (makeNewArray arrWType [elem])"

definition makeArrayPopDecode :: "expr \<Rightarrow> wtype \<Rightarrow> wtype \<Rightarrow> expr" where
  "makeArrayPopDecode base arc4ElemType nativeElemType =
     makeARC4Decode (makeArrayPop base arc4ElemType) nativeElemType"

definition makeConvertArray :: "expr \<Rightarrow> wtype \<Rightarrow> expr" where
  "makeConvertArray e wt = ConvertArray wt e"

definition makeNewStruct :: "wtype \<Rightarrow> (string \<times> expr) list \<Rightarrow> expr" where
  "makeNewStruct wt values = NewStruct wt values"

text \<open>The loop over the declared fields, filling the (ordered) value map.\<close>

definition makeStructWithReplacedField :: "wtype \<Rightarrow> expr \<Rightarrow> string \<Rightarrow> expr \<Rightarrow> expr" where
  "makeStructWithReplacedField structType readBase fieldName newValue =
     makeNewStruct structType
       (fold (\<lambda>(fname, ftype) m.
            smap_put fname
              (if fname = fieldName then newValue else makeFieldExpression readBase fname ftype) m)
          (structFields structType) [])"

definition makeNamedTupleExpression :: "wtype \<Rightarrow> (string \<times> expr) list \<Rightarrow> expr" where
  "makeNamedTupleExpression wt values = NamedTupleExpression wt values"

section \<open>State access\<close>

definition makeStateGet :: "expr \<Rightarrow> expr \<Rightarrow> wtype \<Rightarrow> expr" where
  "makeStateGet field defaultValue wt = StateGet wt field defaultValue"

fun unwrapStateGet :: "expr \<Rightarrow> expr" where
  "unwrapStateGet (StateGet _ field _) = field"
| "unwrapStateGet e = e"

definition makeStateDelete :: "expr \<Rightarrow> expr" where
  "makeStateDelete field = StateDelete boolType field"

fun makeWritableTarget :: "expr \<Rightarrow> expr" where
  "makeWritableTarget (IndexExpression wt base index) = IndexExpression wt (makeWritableTarget base) index"
| "makeWritableTarget (FieldExpression wt base name) = FieldExpression wt (makeWritableTarget base) name"
| "makeWritableTarget (StateGet _ field _) = makeWritableTarget field"
| "makeWritableTarget (ARC4Decode _ value) = makeWritableTarget value"
| "makeWritableTarget e = e"

definition makeAppStateExpression :: "expr \<Rightarrow> wtype \<Rightarrow> expr" where
  "makeAppStateExpression key wt = AppStateExpression wt key None"

definition makeBoxPrefixedKey :: "expr \<Rightarrow> expr \<Rightarrow> expr" where
  "makeBoxPrefixedKey pfx key = BoxPrefixedKeyExpression boxKeyType pfx key"

definition makeBoxValueExpression :: "expr \<Rightarrow> wtype \<Rightarrow> expr" where
  "makeBoxValueExpression key wt = BoxValueExpression wt key None"

definition makeCreateInnerTransaction :: "wtype \<Rightarrow> (string \<times> expr) list \<Rightarrow> expr" where
  "makeCreateInnerTransaction wt fs = CreateInnerTransaction wt fs"

definition makeSubmitInnerTransaction :: "wtype \<Rightarrow> expr list \<Rightarrow> expr" where
  "makeSubmitInnerTransaction wt itxns = SubmitInnerTransaction wt itxns"

definition makeCommaExpression :: "wtype \<Rightarrow> expr list \<Rightarrow> expr" where
  "makeCommaExpression wt es = CommaExpression wt es"

definition makeMethodConstant :: "string \<Rightarrow> wtype \<Rightarrow> expr" where
  "makeMethodConstant value wt = MethodConstant wt value"

definition makeAddressConstant :: "string \<Rightarrow> expr" where
  "makeAddressConstant value = AddressConstant accountType value"

definition makePuyaLibCall :: "string \<Rightarrow> (string option \<times> expr) list \<Rightarrow> wtype \<Rightarrow> expr" where
  "makePuyaLibCall f args wt = PuyaLibCall wt f args"

section \<open>Statements\<close>

definition makeBlock :: "stmt list \<Rightarrow> stmt" where
  "makeBlock body = Block body None None"

definition makeExpressionStatement :: "expr \<Rightarrow> stmt" where
  "makeExpressionStatement e = ExpressionStatement e"

definition makeReturnStatement :: "expr option \<Rightarrow> stmt" where
  "makeReturnStatement value = ReturnStatement value"

definition makeIfElse :: "expr \<Rightarrow> stmt option \<Rightarrow> stmt option \<Rightarrow> stmt" where
  "makeIfElse c ifBranch elseBranch = IfElse c ifBranch elseBranch"

definition makeWhileLoop :: "expr \<Rightarrow> stmt \<Rightarrow> stmt" where
  "makeWhileLoop c loopBody = WhileLoop c (Some loopBody)"

definition makeLoopExit :: stmt where "makeLoopExit = LoopExit"
definition makeLoopContinue :: stmt where "makeLoopContinue = LoopContinue"

definition makeAssignmentStatement :: "expr \<Rightarrow> expr \<Rightarrow> stmt builder" where
  "makeAssignmentStatement target value = do {
     checkAssignableTarget target;
     ret (AssignmentStatement target value)
   }"

definition queuePreExpression :: "expr \<Rightarrow> unit builder" where
  "queuePreExpression e = pushPreEffect (makeExpressionStatement e)"

end
