(* ===== verification/AwstSemantics.thy ===== *)
theory AwstSemantics
  imports NodeFactory
begin

text \<open>
  What the compiler relies on from its backend.  The meaning of an AWST tree is fixed by puya and
  the AVM, which are not part of this repository, so the evaluator is a parameter \<open>ev\<close>, and
  the locale \<open>avm\<close> lists the documented behaviour the generated code depends on: the AVM opcodes on
  64-bit integers and byte strings, the 64-byte limit of byte arithmetic, the 4096-byte limit of
  stack values, traps (\<open>None\<close>), left-to-right evaluation, lazy conditionals, and the cache of
  \<open>SingleEvaluation\<close> nodes keyed by source and id (Node.h, \<open>nextSingleEvalId\<close>).
  The backend turns such a node into a temporary defined at its first occurrence, so \<open>sem_single\<close>, which
  fills the cache at run time, is its meaning where that occurrence is evaluated before the others are.
  BigUIntMathHelpers.cpp:331 and :397 name the two places where it would not be (under a short-circuited
  operand of the signed division); the builders bind a local variable or repeat the operand there, and
  the models do what the builders do.
  \<open>AwstReference\<close> instantiates the locale with an executable evaluator.
\<close>

named_theorems value_intros \<open>stable values of AWST nodes\<close>

section \<open>Values and machine states\<close>

datatype val = VU nat | VB bytes | VTuple "val list" | VVoid

record menv =
  vars :: "string \<rightharpoonup> val"
  cache :: "expr \<times> int \<rightharpoonup> val"
  scratch :: "nat \<Rightarrow> val"

type_synonym 'z evaluator = "'z menv_scheme \<Rightarrow> expr \<Rightarrow> (val \<times> 'z menv_scheme) option"

definition bind_var :: "string \<Rightarrow> val \<Rightarrow> 'z menv_scheme \<Rightarrow> 'z menv_scheme" where
  "bind_var x v \<sigma> = \<sigma>\<lparr>vars := (vars \<sigma>)(x \<mapsto> v)\<rparr>"

lemma bind_var_sel:
  "vars (bind_var x v \<sigma>) = (vars \<sigma>)(x \<mapsto> v)" "cache (bind_var x v \<sigma>) = cache \<sigma>"
  "scratch (bind_var x v \<sigma>) = scratch \<sigma>"
  by (simp_all add: bind_var_def)

lemma keep_cache: "cache \<tau> = c \<Longrightarrow> \<tau>\<lparr>cache := c\<rparr> = \<tau>"
  by auto

definition set_scratch :: "nat \<Rightarrow> val \<Rightarrow> 'z menv_scheme \<Rightarrow> 'z menv_scheme" where
  "set_scratch n v \<sigma> = \<sigma>\<lparr>scratch := (scratch \<sigma>)(n := v)\<rparr>"

section \<open>The AVM operations\<close>

fun u64_op :: "UInt64BinaryOperator \<Rightarrow> nat \<Rightarrow> nat \<Rightarrow> nat option" where
  "u64_op U64Add a b = (if a + b < 2 ^ 64 then Some (a + b) else None)"
| "u64_op U64Sub a b = (if b \<le> a then Some (a - b) else None)"
| "u64_op U64Mult a b = (if a * b < 2 ^ 64 then Some (a * b) else None)"
| "u64_op U64FloorDiv a b = (if b = 0 then None else Some (a div b))"
| "u64_op U64Mod a b = (if b = 0 then None else Some (a mod b))"
| "u64_op U64Pow a b = (if (a = 0 \<and> b = 0) \<or> \<not> a ^ b < 2 ^ 64 then None else Some (a ^ b))"
| "u64_op U64LShift a b = (if 64 \<le> b then None else Some (a * 2 ^ b mod 2 ^ 64))"
| "u64_op U64RShift a b = (if 64 \<le> b then None else Some (a div 2 ^ b))"
| "u64_op U64BitOr a b = Some (a OR b)"
| "u64_op U64BitXor a b = Some (a XOR b)"
| "u64_op U64BitAnd a b = Some (a AND b)"

text \<open>Byte arithmetic takes at most 64 bytes per operand and returns the shortest encoding; the
  bitwise operations have no such limit and keep the longer operand's length.\<close>

definition byte_math :: "(nat \<Rightarrow> nat \<Rightarrow> nat option) \<Rightarrow> bytes \<Rightarrow> bytes \<Rightarrow> bytes option" where
  "byte_math f a b =
     (if length a \<le> 64 \<and> length b \<le> 64 then map_option be_min (f (be_nat a) (be_nat b)) else None)"

fun big_op :: "BigUIntBinaryOperator \<Rightarrow> bytes \<Rightarrow> bytes \<Rightarrow> bytes option" where
  "big_op BigAdd a b = byte_math (\<lambda>x y. Some (x + y)) a b"
| "big_op BigSub a b = byte_math (\<lambda>x y. if y \<le> x then Some (x - y) else None) a b"
| "big_op BigMult a b = byte_math (\<lambda>x y. Some (x * y)) a b"
| "big_op BigFloorDiv a b = byte_math (\<lambda>x y. if y = 0 then None else Some (x div y)) a b"
| "big_op BigMod a b = byte_math (\<lambda>x y. if y = 0 then None else Some (x mod y)) a b"
| "big_op BigBitOr a b = Some (bytes_bitop (OR) a b)"
| "big_op BigBitXor a b = Some (bytes_bitop (XOR) a b)"
| "big_op BigBitAnd a b = Some (bytes_bitop (AND) a b)"

fun num_cmp :: "NumericComparison \<Rightarrow> nat \<Rightarrow> nat \<Rightarrow> bool" where
  "num_cmp Eq a b = (a = b)"
| "num_cmp Ne a b = (a \<noteq> b)"
| "num_cmp Lt a b = (a < b)"
| "num_cmp Lte a b = (a \<le> b)"
| "num_cmp Gt a b = (a > b)"
| "num_cmp Gte a b = (a \<ge> b)"

fun cmp_val :: "NumericComparison \<Rightarrow> val \<Rightarrow> val \<Rightarrow> val option" where
  "cmp_val c (VU a) (VU b) = Some (VU (of_bool (num_cmp c a b)))"
| "cmp_val c (VB a) (VB b) =
     (if length a \<le> 64 \<and> length b \<le> 64
      then Some (VU (of_bool (num_cmp c (be_nat a) (be_nat b)))) else None)"
| "cmp_val c _ _ = None"

fun bytes_cmp :: "EqualityComparison \<Rightarrow> val \<Rightarrow> val \<Rightarrow> val option" where
  "bytes_cmp EqEq (VB a) (VB b) = Some (VU (of_bool (a = b)))"
| "bytes_cmp EqNe (VB a) (VB b) = Some (VU (of_bool (a \<noteq> b)))"
| "bytes_cmp _ _ _ = None"

definition slice :: "bytes \<Rightarrow> nat \<Rightarrow> nat \<Rightarrow> bytes option" where
  "slice b off n = (if off + n \<le> length b then Some (take n (drop off b)) else None)"

definition stack_bytes :: "bytes \<Rightarrow> val option" where
  "stack_bytes b = (if length b \<le> 4096 then Some (VB b) else None)"

text \<open>The opcodes without side effects that the modelled builders emit.\<close>

definition pure_ops :: "string list" where
  "pure_ops = [''itob'', ''btoi'', ''len'', ''concat'', ''bzero'', ''extract'', ''extract3'',
     ''extract_uint64'', ''extract_uint16'', ''setbit'', ''getbit'', ''replace3'', ''-'',
     ''b|'', ''b&'', ''b^'', ''b~'', ''getbyte'', ''setbyte'']"

definition avm_op :: "string \<Rightarrow> immediate list \<Rightarrow> val list \<Rightarrow> val option" where
  "avm_op oper imms vs =
     (if oper = ''itob'' then
        (case vs of [VU n] \<Rightarrow> Some (VB (be_fixed 8 n)) | _ \<Rightarrow> None)
      else if oper = ''btoi'' then
        (case vs of [VB b] \<Rightarrow> if length b \<le> 8 then Some (VU (be_nat b)) else None | _ \<Rightarrow> None)
      else if oper = ''len'' then
        (case vs of [VB b] \<Rightarrow> Some (VU (length b)) | _ \<Rightarrow> None)
      else if oper = ''concat'' then
        (case vs of [VB a, VB b] \<Rightarrow> stack_bytes (a @ b) | _ \<Rightarrow> None)
      else if oper = ''bzero'' then
        (case vs of [VU n] \<Rightarrow> stack_bytes (replicate n 0) | _ \<Rightarrow> None)
      else if oper = ''extract'' then
        (case (imms, vs) of
           ([ImmInt s, ImmInt l], [VB b]) \<Rightarrow>
             if nat s > length b then None
             else map_option VB (slice b (nat s) (if l = 0 then length b - nat s else nat l))
         | _ \<Rightarrow> None)
      else if oper = ''extract3'' then
        (case vs of [VB b, VU s, VU l] \<Rightarrow> map_option VB (slice b s l) | _ \<Rightarrow> None)
      else if oper = ''extract_uint64'' then
        (case vs of [VB b, VU s] \<Rightarrow> map_option (\<lambda>x. VU (be_nat x)) (slice b s 8) | _ \<Rightarrow> None)
      else if oper = ''extract_uint16'' then
        (case vs of [VB b, VU s] \<Rightarrow> map_option (\<lambda>x. VU (be_nat x)) (slice b s 2) | _ \<Rightarrow> None)
      else if oper = ''setbit'' then
        (case vs of [VB b, VU i, VU v] \<Rightarrow>
           if i < 8 * length b \<and> v \<le> 1 then Some (VB (bytes_setbit b i (v = 1))) else None
         | _ \<Rightarrow> None)
      else if oper = ''getbit'' then
        (case vs of [VB b, VU i] \<Rightarrow>
           if i < 8 * length b then Some (VU (of_bool (bytes_getbit b i))) else None
         | _ \<Rightarrow> None)
      else if oper = ''replace3'' then
        (case vs of [VB b, VU s, VB r] \<Rightarrow>
           if s + length r \<le> length b then Some (VB (take s b @ r @ drop (s + length r) b)) else None
         | _ \<Rightarrow> None)
      else if oper = ''-'' then
        (case vs of [VU a, VU b] \<Rightarrow> map_option VU (u64_op U64Sub a b) | _ \<Rightarrow> None)
      else if oper = ''b|'' then
        (case vs of [VB a, VB b] \<Rightarrow> Some (VB (bytes_bitop (OR) a b)) | _ \<Rightarrow> None)
      else if oper = ''b&'' then
        (case vs of [VB a, VB b] \<Rightarrow> Some (VB (bytes_bitop (AND) a b)) | _ \<Rightarrow> None)
      else if oper = ''b^'' then
        (case vs of [VB a, VB b] \<Rightarrow> Some (VB (bytes_bitop (XOR) a b)) | _ \<Rightarrow> None)
      else if oper = ''b~'' then
        (case vs of [VB a] \<Rightarrow> Some (VB (map NOT a)) | _ \<Rightarrow> None)
      else if oper = ''getbyte'' then
        (case vs of [VB b, VU i] \<Rightarrow> if i < length b then Some (VU (unat (b ! i))) else None | _ \<Rightarrow> None)
      else if oper = ''setbyte'' then
        (case vs of [VB b, VU i, VU v] \<Rightarrow>
           if i < length b \<and> v < 256 then Some (VB (b[i := word_of_nat v])) else None
         | _ \<Rightarrow> None)
      else None)"

text \<open>The opcodes on the 256 scratch slots, which hold a 64-bit integer or a byte string each.\<close>

definition scratch_ops :: "string list" where
  "scratch_ops = [''load'', ''loads'', ''store'', ''stores'']"

fun stack_value :: "val \<Rightarrow> bool" where
  "stack_value (VU _) = True"
| "stack_value (VB _) = True"
| "stack_value _ = False"

definition load_slot :: "nat \<Rightarrow> 'z menv_scheme \<Rightarrow> (val \<times> 'z menv_scheme) option" where
  "load_slot n \<sigma> = (if n < 256 then Some (scratch \<sigma> n, \<sigma>) else None)"

definition store_slot :: "nat \<Rightarrow> val \<Rightarrow> 'z menv_scheme \<Rightarrow> (val \<times> 'z menv_scheme) option" where
  "store_slot n v \<sigma> = (if n < 256 \<and> stack_value v then Some (VVoid, set_scratch n v \<sigma>) else None)"

definition scratch_op ::
    "string \<Rightarrow> immediate list \<Rightarrow> val list \<Rightarrow> 'z menv_scheme \<Rightarrow> (val \<times> 'z menv_scheme) option" where
  "scratch_op oper imms vs \<sigma> =
     (if oper = ''load'' then
        (case (imms, vs) of ([ImmInt i], []) \<Rightarrow> if i < 0 then None else load_slot (nat i) \<sigma> | _ \<Rightarrow> None)
      else if oper = ''loads'' then
        (case vs of [VU n] \<Rightarrow> load_slot n \<sigma> | _ \<Rightarrow> None)
      else if oper = ''store'' then
        (case (imms, vs) of ([ImmInt i], [v]) \<Rightarrow> if i < 0 then None else store_slot (nat i) v \<sigma> | _ \<Rightarrow> None)
      else if oper = ''stores'' then
        (case vs of [VU n, v] \<Rightarrow> store_slot n v \<sigma> | _ \<Rightarrow> None)
      else None)"

fun eval_args :: "'z evaluator \<Rightarrow> 'z menv_scheme \<Rightarrow> expr list \<Rightarrow> (val list \<times> 'z menv_scheme) option" where
  "eval_args ev \<sigma> [] = Some ([], \<sigma>)"
| "eval_args ev \<sigma> (e # es) =
     (case ev \<sigma> e of None \<Rightarrow> None
      | Some (v, \<sigma>1) \<Rightarrow>
          (case eval_args ev \<sigma>1 es of None \<Rightarrow> None | Some (vs, \<sigma>2) \<Rightarrow> Some (v # vs, \<sigma>2)))"

text \<open>Evaluate two operands left to right, then combine.\<close>

definition bin_eval ::
    "'z evaluator \<Rightarrow> 'z menv_scheme \<Rightarrow> expr \<Rightarrow> expr \<Rightarrow> (val \<Rightarrow> val \<Rightarrow> val option)
       \<Rightarrow> (val \<times> 'z menv_scheme) option" where
  "bin_eval ev \<sigma> l r f =
     (case ev \<sigma> l of None \<Rightarrow> None
      | Some (a, \<sigma>1) \<Rightarrow>
          (case ev \<sigma>1 r of None \<Rightarrow> None
           | Some (b, \<sigma>2) \<Rightarrow> map_option (\<lambda>v. (v, \<sigma>2)) (f a b)))"

text \<open>Evaluate in order and keep the last value.\<close>

fun eval_seq :: "'z evaluator \<Rightarrow> 'z menv_scheme \<Rightarrow> expr list \<Rightarrow> (val \<times> 'z menv_scheme) option" where
  "eval_seq ev \<sigma> [] = None"
| "eval_seq ev \<sigma> [e] = ev \<sigma> e"
| "eval_seq ev \<sigma> (e # f # es) =
     (case ev \<sigma> e of None \<Rightarrow> None | Some (_, \<sigma>') \<Rightarrow> eval_seq ev \<sigma>' (f # es))"

fun lift_u64 :: "(nat \<Rightarrow> nat \<Rightarrow> nat option) \<Rightarrow> val \<Rightarrow> val \<Rightarrow> val option" where
  "lift_u64 f (VU a) (VU b) = map_option VU (f a b)"
| "lift_u64 f _ _ = None"

fun lift_bytes :: "(bytes \<Rightarrow> bytes \<Rightarrow> bytes option) \<Rightarrow> val \<Rightarrow> val \<Rightarrow> val option" where
  "lift_bytes f (VB a) (VB b) = map_option VB (f a b)"
| "lift_bytes f _ _ = None"

fun truth :: "val \<Rightarrow> bool option" where
  "truth (VU n) = Some (n \<noteq> 0)"
| "truth _ = None"

section \<open>The interface\<close>

locale avm =
  fixes ev :: "'z evaluator"
  assumes sem_int64: "nat_of_dec s = Some n \<Longrightarrow> n < 2 ^ 64 \<Longrightarrow>
      ev \<sigma> (IntegerConstant uint64Type s) = Some (VU n, \<sigma>)"
    and sem_int64_inv: "ev \<sigma> (IntegerConstant uint64Type s) = Some (v, \<sigma>') \<Longrightarrow>
      \<exists>n. nat_of_dec s = Some n \<and> n < 2 ^ 64 \<and> v = VU n \<and> \<sigma>' = \<sigma>"
    and sem_bigint: "nat_of_dec s = Some n \<Longrightarrow> n < 2 ^ 512 \<Longrightarrow>
      ev \<sigma> (IntegerConstant biguintType s) = Some (VB (be_min n), \<sigma>)"
    and sem_bigint_inv: "ev \<sigma> (IntegerConstant biguintType s) = Some (v, \<sigma>') \<Longrightarrow>
      \<exists>n. nat_of_dec s = Some n \<and> n < 2 ^ 512 \<and> v = VB (be_min n) \<and> \<sigma>' = \<sigma>"
    and sem_bool: "ev \<sigma> (BoolConstant t tf) = Some (VU (of_bool tf), \<sigma>)"
    and sem_bytes: "length bs \<le> 4096 \<Longrightarrow> ev \<sigma> (BytesConstant t enc bs) = Some (VB bs, \<sigma>)"
    and sem_var: "vars \<sigma> x = Some v \<Longrightarrow> ev \<sigma> (VarExpression t x) = Some (v, \<sigma>)"
    and sem_assign: "ev \<sigma> (AssignmentExpression t (VarExpression t' x) e) =
      map_option (\<lambda>(v, \<sigma>'). (v, bind_var x v \<sigma>')) (ev \<sigma> e)"
    and sem_comma: "ev \<sigma> (CommaExpression t es) = eval_seq ev \<sigma> es"
    and sem_cond: "ev \<sigma> (ConditionalExpression t c a b) =
      (case ev \<sigma> c of None \<Rightarrow> None
       | Some (v, \<sigma>') \<Rightarrow> (case truth v of None \<Rightarrow> None | Some p \<Rightarrow> ev \<sigma>' (if p then a else b)))"
    and sem_not: "ev \<sigma> (NotExpr t c) =
      (case ev \<sigma> c of None \<Rightarrow> None
       | Some (v, \<sigma>') \<Rightarrow> map_option (\<lambda>p. (VU (of_bool (\<not> p)), \<sigma>')) (truth v))"
    and sem_and: "ev \<sigma> (BooleanBinaryOperation t a And b) =
      (case ev \<sigma> a of None \<Rightarrow> None
       | Some (v, \<sigma>') \<Rightarrow>
           (case truth v of None \<Rightarrow> None
            | Some p \<Rightarrow> if p then
                (case ev \<sigma>' b of None \<Rightarrow> None
                 | Some (w, \<sigma>'') \<Rightarrow> map_option (\<lambda>q. (VU (of_bool q), \<sigma>'')) (truth w))
              else Some (VU 0, \<sigma>')))"
    and sem_or: "ev \<sigma> (BooleanBinaryOperation t a Or b) =
      (case ev \<sigma> a of None \<Rightarrow> None
       | Some (v, \<sigma>') \<Rightarrow>
           (case truth v of None \<Rightarrow> None
            | Some p \<Rightarrow> if p then Some (VU 1, \<sigma>')
              else (case ev \<sigma>' b of None \<Rightarrow> None
                 | Some (w, \<sigma>'') \<Rightarrow> map_option (\<lambda>q. (VU (of_bool q), \<sigma>'')) (truth w))))"
    and sem_cmp: "ev \<sigma> (NumericComparisonExpression t l nc r) = bin_eval ev \<sigma> l r (cmp_val nc)"
    and sem_bytes_cmp: "ev \<sigma> (BytesComparisonExpression t l ec r) = bin_eval ev \<sigma> l r (bytes_cmp ec)"
    and sem_u64: "ev \<sigma> (UInt64BinaryOperation t l o64 r) = bin_eval ev \<sigma> l r (lift_u64 (u64_op o64))"
    and sem_big: "ev \<sigma> (BigUIntBinaryOperation t l ob r) = bin_eval ev \<sigma> l r (lift_bytes (big_op ob))"
    and sem_cast: "ev \<sigma> (ReinterpretCast t e) = ev \<sigma> e"
    and sem_assert: "ev \<sigma> (AssertExpression t c m expl) =
      (case ev \<sigma> c of None \<Rightarrow> None
       | Some (v, \<sigma>') \<Rightarrow> if truth v = Some True then Some (VVoid, \<sigma>') else None)"
    and sem_single: "ev \<sigma> (SingleEvaluation t e i) =
      (case cache \<sigma> (e, i) of Some v \<Rightarrow> Some (v, \<sigma>)
       | None \<Rightarrow> map_option (\<lambda>(v, \<sigma>'). (v, \<sigma>'\<lparr>cache := (cache \<sigma>')((e, i) \<mapsto> v)\<rparr>)) (ev \<sigma> e))"
    and sem_op: "oper \<in> set pure_ops \<Longrightarrow> ev \<sigma> (IntrinsicCall t oper imms args) =
      (case eval_args ev \<sigma> args of None \<Rightarrow> None
       | Some (vs, \<sigma>') \<Rightarrow> map_option (\<lambda>v. (v, \<sigma>')) (avm_op oper imms vs))"
    and sem_leaf: "duplicableLeaf e \<Longrightarrow> ev \<sigma> e = Some (v, \<sigma>') \<Longrightarrow> ev \<sigma>' e = Some (v, \<sigma>')"

text \<open>The code for EVM memory also relies on the opcodes for scratch space.\<close>

locale avm_scratch = avm +
  assumes sem_scratch: "oper \<in> set scratch_ops \<Longrightarrow> ev \<sigma> (IntrinsicCall t oper imms args) =
      (case eval_args ev \<sigma> args of None \<Rightarrow> None
       | Some (vs, \<sigma>') \<Rightarrow> scratch_op oper imms vs \<sigma>')"

section \<open>Stable values\<close>

text \<open>
  An expression has the stable value \<open>v\<close> in \<open>\<sigma>\<close> when it evaluates to \<open>v\<close> and changes nothing but
  the cache entries with keys in \<open>K\<close> (the ids allocated while the expression was built), from every
  cache that holds no wrong entry for those keys.  Stable values compose: an operand may be
  referenced several times, in any order and under any conditional.
\<close>

definition denotes :: "'z evaluator \<Rightarrow> (expr \<times> int) set \<Rightarrow> 'z menv_scheme \<Rightarrow> expr \<Rightarrow> val \<Rightarrow> bool" where
  "denotes ev K \<sigma> e v \<longleftrightarrow> (\<exists>\<sigma>'. ev (\<sigma>\<lparr>cache := cache \<sigma> |` (- K)\<rparr>) e = Some (v, \<sigma>'))"

definition ok_cache ::
    "'z evaluator \<Rightarrow> (expr \<times> int) set \<Rightarrow> 'z menv_scheme \<Rightarrow> (expr \<times> int \<rightharpoonup> val) \<Rightarrow> bool" where
  "ok_cache ev K \<sigma> c \<longleftrightarrow>
     (\<forall>k. k \<notin> K \<longrightarrow> c k = cache \<sigma> k) \<and>
     (\<forall>e i w. (e, i) \<in> K \<longrightarrow> c (e, i) = Some w \<longrightarrow> denotes ev K \<sigma> e w)"

definition sval :: "'z evaluator \<Rightarrow> (expr \<times> int) set \<Rightarrow> 'z menv_scheme \<Rightarrow> expr \<Rightarrow> val \<Rightarrow> bool" where
  "sval ev K \<sigma> e v \<longleftrightarrow>
     (\<forall>c. ok_cache ev K \<sigma> c \<longrightarrow>
        (\<exists>c'. ev (\<sigma>\<lparr>cache := c\<rparr>) e = Some (v, \<sigma>\<lparr>cache := c'\<rparr>) \<and> ok_cache ev K \<sigma> c'))"

definition sbig :: "'z evaluator \<Rightarrow> (expr \<times> int) set \<Rightarrow> 'z menv_scheme \<Rightarrow> expr \<Rightarrow> nat \<Rightarrow> bool" where
  "sbig ev K \<sigma> e n \<longleftrightarrow> (\<exists>b. sval ev K \<sigma> e (VB b) \<and> be_nat b = n \<and> length b \<le> 64)"

abbreviation su64 :: "'z evaluator \<Rightarrow> (expr \<times> int) set \<Rightarrow> 'z menv_scheme \<Rightarrow> expr \<Rightarrow> nat \<Rightarrow> bool" where
  "su64 ev K \<sigma> e n \<equiv> sval ev K \<sigma> e (VU n)"

abbreviation sbool :: "'z evaluator \<Rightarrow> (expr \<times> int) set \<Rightarrow> 'z menv_scheme \<Rightarrow> expr \<Rightarrow> bool \<Rightarrow> bool" where
  "sbool ev K \<sigma> e p \<equiv> sval ev K \<sigma> e (VU (of_bool p))"

abbreviation sbytes :: "'z evaluator \<Rightarrow> (expr \<times> int) set \<Rightarrow> 'z menv_scheme \<Rightarrow> expr \<Rightarrow> bytes \<Rightarrow> bool" where
  "sbytes ev K \<sigma> e b \<equiv> sval ev K \<sigma> e (VB b)"

lemma ok_cache_fresh: "(\<And>k. k \<in> K \<Longrightarrow> cache \<sigma> k = None) \<Longrightarrow> ok_cache ev K \<sigma> (cache \<sigma>)"
  by (auto simp: ok_cache_def)

lemma ok_cache_base: "ok_cache ev K \<sigma> (cache \<sigma> |` (- K))"
  by (auto simp: ok_cache_def restrict_map_def)

lemma sval_eval:
  assumes "sval ev K \<sigma> e v" and "ok_cache ev K \<sigma> (cache \<sigma>)"
  obtains c where "ev \<sigma> e = Some (v, \<sigma>\<lparr>cache := c\<rparr>)"
  using assms unfolding sval_def by (metis menv.surjective menv.update_convs(2))

lemma sval_denotes: "sval ev K \<sigma> e v \<Longrightarrow> denotes ev K \<sigma> e v"
  using ok_cache_base unfolding sval_def denotes_def by blast

lemma denotes_sval: "sval ev K \<sigma> e v \<Longrightarrow> denotes ev K \<sigma> e w \<Longrightarrow> w = v"
  using ok_cache_base[of ev K \<sigma>] unfolding sval_def denotes_def by fastforce

lemma svalI:
  assumes "\<And>c. ok_cache ev K \<sigma> c \<Longrightarrow>
    \<exists>c'. ev (\<sigma>\<lparr>cache := c\<rparr>) e = Some (v, \<sigma>\<lparr>cache := c'\<rparr>) \<and> ok_cache ev K \<sigma> c'"
  shows "sval ev K \<sigma> e v"
  using assms by (simp add: sval_def)

lemma svalE:
  assumes "sval ev K \<sigma> e v" and "ok_cache ev K \<sigma> c"
  obtains c' where "ev (\<sigma>\<lparr>cache := c\<rparr>) e = Some (v, \<sigma>\<lparr>cache := c'\<rparr>)" and "ok_cache ev K \<sigma> c'"
  using assms by (auto simp: sval_def)

lemma sval_args:
  assumes "list_all2 (sval ev K \<sigma>) es vs" and "ok_cache ev K \<sigma> c"
  shows "\<exists>c'. eval_args ev (\<sigma>\<lparr>cache := c\<rparr>) es = Some (vs, \<sigma>\<lparr>cache := c'\<rparr>) \<and> ok_cache ev K \<sigma> c'"
  using assms
proof (induction es vs arbitrary: c rule: list_all2_induct)
  case Nil
  then show ?case by auto
next
  case (Cons e es v vs)
  from svalE[OF Cons.hyps(1) Cons.prems] obtain c1 where
    "ev (\<sigma>\<lparr>cache := c\<rparr>) e = Some (v, \<sigma>\<lparr>cache := c1\<rparr>)" "ok_cache ev K \<sigma> c1" .
  with Cons.IH show ?case by fastforce
qed

lemma sbigI: "sval ev K \<sigma> e (VB b) \<Longrightarrow> length b \<le> 64 \<Longrightarrow> sbig ev K \<sigma> e (be_nat b)"
  by (auto simp: sbig_def)

lemma sbig_bound: "sbig ev K \<sigma> e n \<Longrightarrow> n < 2 ^ 512"
proof -
  assume "sbig ev K \<sigma> e n"
  then obtain b where b: "be_nat b = n" "length b \<le> 64" by (auto simp: sbig_def)
  have "n < 256 ^ length b" using be_nat_bound[of b] b by simp
  also have "\<dots> \<le> 256 ^ 64" using b(2) by (intro power_increasing) simp_all
  finally show ?thesis by simp
qed

lemma sval_empty: "sval ev {} \<sigma> e v \<longleftrightarrow> ev \<sigma> e = Some (v, \<sigma>)"
proof -
  have "ok_cache ev {} \<sigma> c \<longleftrightarrow> c = cache \<sigma>" for c by (auto simp: ok_cache_def)
  then show ?thesis by (simp add: sval_def)
qed

text \<open>The value of a numeric expression of AWST type \<open>t\<close>.\<close>

fun num_val :: "wtype \<Rightarrow> val \<Rightarrow> nat \<Rightarrow> bool" where
  "num_val t (VB b) n = (t = biguintType \<and> be_nat b = n \<and> length b \<le> 64)"
| "num_val t (VU m) n = (t = uint64Type \<and> m = n \<and> n < 2 ^ 64)"
| "num_val t _ n = False"

lemma length_be_min64: "n < 2 ^ 512 \<Longrightarrow> length (be_min n) \<le> 64"
  by (rule length_be_min_le) simp

context avm
begin

lemma sval_int64 [value_intros]:
  "nat_of_dec s = Some n \<Longrightarrow> n < 2 ^ 64 \<Longrightarrow> su64 ev K \<sigma> (IntegerConstant uint64Type s) n"
  by (rule svalI) (auto simp: sem_int64)

lemma sbig_int [value_intros]:
  "nat_of_dec s = Some n \<Longrightarrow> n < 2 ^ 512 \<Longrightarrow> sbig ev K \<sigma> (IntegerConstant biguintType s) n"
proof -
  assume n: "nat_of_dec s = Some n" "n < 2 ^ 512"
  have "sval ev K \<sigma> (IntegerConstant biguintType s) (VB (be_min n))"
    by (rule svalI) (use sem_bigint[OF n] in blast)
  from sbigI[OF this length_be_min64[OF n(2)]] show ?thesis by simp
qed

lemma sval_var [value_intros]: "vars \<sigma> x = Some v \<Longrightarrow> sval ev K \<sigma> (VarExpression t x) v"
  by (rule svalI) (auto simp: sem_var)

lemma sval_true [value_intros]: "sbool ev K \<sigma> (BoolConstant t p) p"
  by (rule svalI) (auto simp: sem_bool)

lemma sval_bytes [value_intros]: "length b \<le> 4096 \<Longrightarrow> sbytes ev K \<sigma> (BytesConstant t enc b) b"
  by (rule svalI) (auto simp: sem_bytes)

lemma sval_cast [value_intros]: "sval ev K \<sigma> e v \<Longrightarrow> sval ev K \<sigma> (ReinterpretCast t e) v"
  by (simp add: sval_def sem_cast)

lemma sval_bin:
  assumes "sval ev K \<sigma> l a" and "sval ev K \<sigma> r b" and "f a b = Some v"
    and "\<And>\<sigma>. ev \<sigma> e = bin_eval ev \<sigma> l r f"
  shows "sval ev K \<sigma> e v"
proof (rule svalI)
  fix c assume "ok_cache ev K \<sigma> c"
  with assms(1) obtain c1 where 1: "ev (\<sigma>\<lparr>cache := c\<rparr>) l = Some (a, \<sigma>\<lparr>cache := c1\<rparr>)" "ok_cache ev K \<sigma> c1"
    by (rule svalE)
  from assms(2) 1(2) obtain c2 where "ev (\<sigma>\<lparr>cache := c1\<rparr>) r = Some (b, \<sigma>\<lparr>cache := c2\<rparr>)" "ok_cache ev K \<sigma> c2"
    by (rule svalE)
  with 1 assms(3,4) show "\<exists>c'. ev (\<sigma>\<lparr>cache := c\<rparr>) e = Some (v, \<sigma>\<lparr>cache := c'\<rparr>) \<and> ok_cache ev K \<sigma> c'"
    by (auto simp: bin_eval_def)
qed

lemma sval_cmp_u64 [value_intros]:
  "su64 ev K \<sigma> l m \<Longrightarrow> su64 ev K \<sigma> r n \<Longrightarrow>
   sbool ev K \<sigma> (NumericComparisonExpression t l nc r) (num_cmp nc m n)"
  by (erule (1) sval_bin[where f = "cmp_val nc"]) (simp_all add: sem_cmp)

lemma sval_cmp_big [value_intros]:
  "sbig ev K \<sigma> l m \<Longrightarrow> sbig ev K \<sigma> r n \<Longrightarrow>
   sbool ev K \<sigma> (NumericComparisonExpression t l nc r) (num_cmp nc m n)"
  unfolding sbig_def
  by (elim exE conjE, erule (1) sval_bin[where f = "cmp_val nc"]) (simp_all add: sem_cmp)

lemma sval_u64_bin [value_intros]:
  "su64 ev K \<sigma> l m \<Longrightarrow> su64 ev K \<sigma> r n \<Longrightarrow> u64_op oper m n = Some k \<Longrightarrow>
   su64 ev K \<sigma> (UInt64BinaryOperation t l oper r) k"
  by (erule (1) sval_bin[where f = "lift_u64 (u64_op oper)"]) (simp_all add: sem_u64)

lemma sbig_math:
  assumes "sbig ev K \<sigma> l m" and "sbig ev K \<sigma> r n"
    and "\<And>a b. big_op oper a b = byte_math f a b" and "f m n = Some k" and "k < 2 ^ 512"
  shows "sbig ev K \<sigma> (BigUIntBinaryOperation t l oper r) k"
proof -
  from assms(1,2) obtain a b where ab: "sval ev K \<sigma> l (VB a)" "sval ev K \<sigma> r (VB b)"
    "be_nat a = m" "be_nat b = n" "length a \<le> 64" "length b \<le> 64"
    by (auto simp: sbig_def)
  have f: "lift_bytes (big_op oper) (VB a) (VB b) = Some (VB (be_min k))"
    using ab(3-6) by (simp add: assms(3,4) byte_math_def)
  have "sval ev K \<sigma> (BigUIntBinaryOperation t l oper r) (VB (be_min k))"
    by (rule sval_bin[where f = "lift_bytes (big_op oper)", OF ab(1,2) f]) (rule sem_big)
  from sbigI[OF this length_be_min64[OF assms(5)]] show ?thesis by simp
qed

lemma sbig_add [value_intros]: "sbig ev K \<sigma> l m \<Longrightarrow> sbig ev K \<sigma> r n \<Longrightarrow> m + n < 2 ^ 512 \<Longrightarrow>
    sbig ev K \<sigma> (BigUIntBinaryOperation t l BigAdd r) (m + n)"
  by (erule (1) sbig_math) simp_all

lemma sbig_sub [value_intros]: "sbig ev K \<sigma> l m \<Longrightarrow> sbig ev K \<sigma> r n \<Longrightarrow> n \<le> m \<Longrightarrow>
    sbig ev K \<sigma> (BigUIntBinaryOperation t l BigSub r) (m - n)"
  by (rule sbig_math, assumption+) (simp, simp, rule le_less_trans[OF diff_le_self sbig_bound])

lemma sbig_mult [value_intros]: "sbig ev K \<sigma> l m \<Longrightarrow> sbig ev K \<sigma> r n \<Longrightarrow> m * n < 2 ^ 512 \<Longrightarrow>
    sbig ev K \<sigma> (BigUIntBinaryOperation t l BigMult r) (m * n)"
  by (erule (1) sbig_math) simp_all

lemma sbig_div [value_intros]: "sbig ev K \<sigma> l m \<Longrightarrow> sbig ev K \<sigma> r n \<Longrightarrow> n \<noteq> 0 \<Longrightarrow>
    sbig ev K \<sigma> (BigUIntBinaryOperation t l BigFloorDiv r) (m div n)"
  by (rule sbig_math, assumption+) (simp, simp, rule le_less_trans[OF div_le_dividend sbig_bound])

lemma sbig_mod [value_intros]: "sbig ev K \<sigma> l m \<Longrightarrow> sbig ev K \<sigma> r n \<Longrightarrow> n \<noteq> 0 \<Longrightarrow>
    sbig ev K \<sigma> (BigUIntBinaryOperation t l BigMod r) (m mod n)"
  by (rule sbig_math, assumption+) (simp, simp, rule le_less_trans[OF mod_less_eq_dividend sbig_bound])

lemma sbig_bit:
  assumes "sbig ev K \<sigma> l m" and "sbig ev K \<sigma> r n"
    and "\<And>a b. big_op oper a b = Some (bytes_bitop f a b)"
    and "\<And>a b. be_nat (bytes_bitop f a b) = g (be_nat a) (be_nat b)"
  shows "sbig ev K \<sigma> (BigUIntBinaryOperation t l oper r) (g m n)"
proof -
  from assms(1,2) obtain a b where ab: "sval ev K \<sigma> l (VB a)" "sval ev K \<sigma> r (VB b)"
    "be_nat a = m" "be_nat b = n" "length a \<le> 64" "length b \<le> 64"
    by (auto simp: sbig_def)
  have f: "lift_bytes (big_op oper) (VB a) (VB b) = Some (VB (bytes_bitop f a b))"
    by (simp add: assms(3))
  have "sval ev K \<sigma> (BigUIntBinaryOperation t l oper r) (VB (bytes_bitop f a b))"
    by (rule sval_bin[where f = "lift_bytes (big_op oper)", OF ab(1,2) f]) (rule sem_big)
  from sbigI[OF this] ab show ?thesis by (simp add: assms(4))
qed

lemmas sbig_or = sbig_bit[where oper = BigBitOr and f = "(OR)" and g = "(OR)", simplified, OF _ _ be_nat_bytes_or]
lemmas sbig_and = sbig_bit[where oper = BigBitAnd and f = "(AND)" and g = "(AND)", simplified, OF _ _ be_nat_bytes_and]

lemma sval_cond:
  assumes "sbool ev K \<sigma> c p" and "p \<Longrightarrow> sval ev K \<sigma> a v" and "\<not> p \<Longrightarrow> sval ev K \<sigma> b v"
  shows "sval ev K \<sigma> (ConditionalExpression t c a b) v"
proof (rule svalI)
  fix k assume "ok_cache ev K \<sigma> k"
  with assms(1) obtain c1 where
    1: "ev (\<sigma>\<lparr>cache := k\<rparr>) c = Some (VU (of_bool p), \<sigma>\<lparr>cache := c1\<rparr>)" "ok_cache ev K \<sigma> c1"
    by (rule svalE)
  have "sval ev K \<sigma> (if p then a else b) v" using assms(2,3) by simp
  with 1(2) obtain c2 where "ev (\<sigma>\<lparr>cache := c1\<rparr>) (if p then a else b) = Some (v, \<sigma>\<lparr>cache := c2\<rparr>)"
      "ok_cache ev K \<sigma> c2"
    by (blast elim: svalE)
  with 1 show "\<exists>c'. ev (\<sigma>\<lparr>cache := k\<rparr>) (ConditionalExpression t c a b) = Some (v, \<sigma>\<lparr>cache := c'\<rparr>)
      \<and> ok_cache ev K \<sigma> c'"
    by (auto simp: sem_cond)
qed

lemma sbig_cond:
  assumes "sbool ev K \<sigma> c p" and "p \<Longrightarrow> sbig ev K \<sigma> a m" and "\<not> p \<Longrightarrow> sbig ev K \<sigma> b n"
  shows "sbig ev K \<sigma> (ConditionalExpression t c a b) (if p then m else n)"
proof (cases p)
  case True
  with assms(2) obtain x where "sval ev K \<sigma> a (VB x)" "be_nat x = m" "length x \<le> 64"
    by (auto simp: sbig_def)
  with sval_cond[OF assms(1), of a "VB x" b t] True show ?thesis by (auto simp: sbig_def)
next
  case False
  with assms(3) obtain x where "sval ev K \<sigma> b (VB x)" "be_nat x = n" "length x \<le> 64"
    by (auto simp: sbig_def)
  with sval_cond[OF assms(1), of a "VB x" b t] False show ?thesis by (auto simp: sbig_def)
qed

lemma sbig_cast [value_intros]: "sbig ev K \<sigma> e n \<Longrightarrow> sbig ev K \<sigma> (ReinterpretCast t e) n"
  by (auto simp: sbig_def intro: sval_cast)

lemma sval_not [value_intros]: "sbool ev K \<sigma> c p \<Longrightarrow> sbool ev K \<sigma> (NotExpr t c) (\<not> p)"
  by (rule svalI) (auto simp: sem_not elim!: svalE)

lemma sval_single:
  assumes "sval ev K \<sigma> e v" and "(e, i) \<in> K"
  shows "sval ev K \<sigma> (SingleEvaluation t e i) v"
proof (rule svalI)
  fix c assume ok: "ok_cache ev K \<sigma> c"
  show "\<exists>c'. ev (\<sigma>\<lparr>cache := c\<rparr>) (SingleEvaluation t e i) = Some (v, \<sigma>\<lparr>cache := c'\<rparr>) \<and> ok_cache ev K \<sigma> c'"
  proof (cases "c (e, i)")
    case (Some w)
    with ok assms(2) have "denotes ev K \<sigma> e w" by (auto simp: ok_cache_def)
    with assms(1) have "w = v" by (rule denotes_sval)
    with Some ok show ?thesis by (auto simp: sem_single)
  next
    case None
    from svalE[OF assms(1) ok] obtain c1 where
      "ev (\<sigma>\<lparr>cache := c\<rparr>) e = Some (v, \<sigma>\<lparr>cache := c1\<rparr>)" "ok_cache ev K \<sigma> c1" .
    moreover from this(2) assms have "ok_cache ev K \<sigma> (c1((e, i) \<mapsto> v))"
      by (auto simp: ok_cache_def sval_denotes)
    ultimately show ?thesis using None by (auto simp: sem_single)
  qed
qed

lemma sval_op:
  assumes "oper \<in> set pure_ops" and "list_all2 (sval ev K \<sigma>) args vs" and "avm_op oper imms vs = Some v"
  shows "sval ev K \<sigma> (IntrinsicCall t oper imms args) v"
proof (rule svalI)
  fix c assume "ok_cache ev K \<sigma> c"
  from sval_args[OF assms(2) this] assms(1,3)
  show "\<exists>c'. ev (\<sigma>\<lparr>cache := c\<rparr>) (IntrinsicCall t oper imms args) = Some (v, \<sigma>\<lparr>cache := c'\<rparr>)
      \<and> ok_cache ev K \<sigma> c'"
    by (auto simp: sem_op)
qed

lemma sval_and [value_intros]:
  assumes "sbool ev K \<sigma> a p" and "p \<Longrightarrow> sbool ev K \<sigma> b q"
  shows "sbool ev K \<sigma> (BooleanBinaryOperation t a And b) (p \<and> q)"
proof (rule svalI)
  fix c assume "ok_cache ev K \<sigma> c"
  with assms(1) obtain c1 where 1: "ev (\<sigma>\<lparr>cache := c\<rparr>) a = Some (VU (of_bool p), \<sigma>\<lparr>cache := c1\<rparr>)"
    "ok_cache ev K \<sigma> c1" by (rule svalE)
  show "\<exists>c'. ev (\<sigma>\<lparr>cache := c\<rparr>) (BooleanBinaryOperation t a And b) = Some (VU (of_bool (p \<and> q)), \<sigma>\<lparr>cache := c'\<rparr>)
      \<and> ok_cache ev K \<sigma> c'"
  proof (cases p)
    case True
    from svalE[OF assms(2)[OF True] 1(2)] True 1 show ?thesis by (fastforce simp: sem_and)
  qed (use 1 in \<open>auto simp: sem_and\<close>)
qed

lemma sval_or [value_intros]:
  assumes "sbool ev K \<sigma> a p" and "\<not> p \<Longrightarrow> sbool ev K \<sigma> b q"
  shows "sbool ev K \<sigma> (BooleanBinaryOperation t a Or b) (p \<or> q)"
proof (rule svalI)
  fix c assume "ok_cache ev K \<sigma> c"
  with assms(1) obtain c1 where 1: "ev (\<sigma>\<lparr>cache := c\<rparr>) a = Some (VU (of_bool p), \<sigma>\<lparr>cache := c1\<rparr>)"
    "ok_cache ev K \<sigma> c1" by (rule svalE)
  show "\<exists>c'. ev (\<sigma>\<lparr>cache := c\<rparr>) (BooleanBinaryOperation t a Or b) = Some (VU (of_bool (p \<or> q)), \<sigma>\<lparr>cache := c'\<rparr>)
      \<and> ok_cache ev K \<sigma> c'"
  proof (cases p)
    case False
    from svalE[OF assms(2)[OF False] 1(2)] False 1 show ?thesis by (fastforce simp: sem_or)
  qed (use 1 in \<open>auto simp: sem_or\<close>)
qed

end

end
