(* ===== verification/AwstReference.thy ===== *)
theory AwstReference
  imports AwstSemantics
begin

text \<open>
  An executable evaluator for the AWST fragment that the modelled builders emit.  It satisfies
  the interface \<open>avm\<close>, so the hypotheses of that locale can hold, and it evaluates the built trees
  on concrete inputs.  A node outside the fragment has no value here (\<open>None\<close>).
\<close>

lemma eval_args_cong [fundef_cong]:
  assumes "es = es'" and "\<sigma> = \<sigma>'" and "\<And>e s. e \<in> set es' \<Longrightarrow> ev s e = ev' s e"
  shows "eval_args ev \<sigma> es = eval_args ev' \<sigma>' es'"
  using assms(3) unfolding assms(1,2)
  by (induction es' arbitrary: \<sigma>') (auto split: option.splits)

lemma eval_seq_cong [fundef_cong]:
  assumes "es = es'" and "\<sigma> = \<sigma>'" and "\<And>e s. e \<in> set es' \<Longrightarrow> ev s e = ev' s e"
  shows "eval_seq ev \<sigma> es = eval_seq ev' \<sigma>' es'"
  using assms(3) unfolding assms(1,2)
  by (induction ev \<sigma>' es' rule: eval_seq.induct) (auto split: option.splits)

lemma bin_eval_cong [fundef_cong]:
  assumes "l = l'" and "r = r'" and "\<sigma> = \<sigma>'" and "f = f'"
    and "\<And>s. ev s l' = ev' s l'" and "\<And>s. ev s r' = ev' s r'"
  shows "bin_eval ev \<sigma> l r f = bin_eval ev' \<sigma>' l' r' f'"
  using assms by (simp add: bin_eval_def split: option.splits)

definition int_const :: "wtype \<Rightarrow> string \<Rightarrow> val option" where
  "int_const t s =
     (case nat_of_dec s of None \<Rightarrow> None
      | Some n \<Rightarrow>
          if t = biguintType then (if n < 2 ^ 512 then Some (VB (be_min n)) else None)
          else (if n < 2 ^ 64 then Some (VU n) else None))"

definition fill_cache :: "expr \<times> int \<Rightarrow> val \<times> 'z menv_scheme \<Rightarrow> val \<times> 'z menv_scheme" where
  "fill_cache k p = (fst p, (snd p)\<lparr>cache := (cache (snd p))(k \<mapsto> fst p)\<rparr>)"

fun bind_target :: "expr \<Rightarrow> val \<times> 'z menv_scheme \<Rightarrow> (val \<times> 'z menv_scheme) option" where
  "bind_target (VarExpression _ x) (v, \<sigma>) = Some (v, bind_var x v \<sigma>)"
| "bind_target _ _ = None"

lemma size_mem: "e \<in> set es \<Longrightarrow> size e < Suc (size_list size es)"
  by (induction es) auto

function aeval :: "'z menv_scheme \<Rightarrow> expr \<Rightarrow> (val \<times> 'z menv_scheme) option" where
  "aeval \<sigma> (IntegerConstant t s) = map_option (\<lambda>v. (v, \<sigma>)) (int_const t s)"
| "aeval \<sigma> (BoolConstant t p) = Some (VU (of_bool p), \<sigma>)"
| "aeval \<sigma> (BytesConstant t enc bs) = (if length bs \<le> 4096 then Some (VB bs, \<sigma>) else None)"
| "aeval \<sigma> (VarExpression t x) = map_option (\<lambda>v. (v, \<sigma>)) (vars \<sigma> x)"
| "aeval \<sigma> (AssignmentExpression t tgt e) =
     (case aeval \<sigma> e of None \<Rightarrow> None | Some p \<Rightarrow> bind_target tgt p)"
| "aeval \<sigma> (CommaExpression t es) = eval_seq aeval \<sigma> es"
| "aeval \<sigma> (ConditionalExpression t c a b) =
     (case aeval \<sigma> c of None \<Rightarrow> None
      | Some (v, \<sigma>') \<Rightarrow>
          (case truth v of None \<Rightarrow> None | Some p \<Rightarrow> if p then aeval \<sigma>' a else aeval \<sigma>' b))"
| "aeval \<sigma> (NotExpr t c) =
     (case aeval \<sigma> c of None \<Rightarrow> None
      | Some (v, \<sigma>') \<Rightarrow> map_option (\<lambda>p. (VU (of_bool (\<not> p)), \<sigma>')) (truth v))"
| "aeval \<sigma> (BooleanBinaryOperation t a oper b) =
     (case aeval \<sigma> a of None \<Rightarrow> None
      | Some (v, \<sigma>') \<Rightarrow>
          (case truth v of None \<Rightarrow> None
           | Some p \<Rightarrow> if p = (oper = And) then
               (case aeval \<sigma>' b of None \<Rightarrow> None
                | Some (w, \<sigma>'') \<Rightarrow> map_option (\<lambda>q. (VU (of_bool q), \<sigma>'')) (truth w))
             else Some (VU (of_bool p), \<sigma>')))"
| "aeval \<sigma> (NumericComparisonExpression t l nc r) = bin_eval aeval \<sigma> l r (cmp_val nc)"
| "aeval \<sigma> (BytesComparisonExpression t l ec r) = bin_eval aeval \<sigma> l r (bytes_cmp ec)"
| "aeval \<sigma> (UInt64BinaryOperation t l o64 r) = bin_eval aeval \<sigma> l r (lift_u64 (u64_op o64))"
| "aeval \<sigma> (BigUIntBinaryOperation t l ob r) = bin_eval aeval \<sigma> l r (lift_bytes (big_op ob))"
| "aeval \<sigma> (ReinterpretCast t e) = aeval \<sigma> e"
| "aeval \<sigma> (AssertExpression t c m expl) =
     (case aeval \<sigma> c of None \<Rightarrow> None
      | Some (v, \<sigma>') \<Rightarrow> if truth v = Some True then Some (VVoid, \<sigma>') else None)"
| "aeval \<sigma> (SingleEvaluation t e i) =
     (case cache \<sigma> (e, i) of Some v \<Rightarrow> Some (v, \<sigma>)
      | None \<Rightarrow> map_option (fill_cache (e, i)) (aeval \<sigma> e))"
| "aeval \<sigma> (IntrinsicCall t oper imms args) =
     (case eval_args aeval \<sigma> args of None \<Rightarrow> None
      | Some (vs, \<sigma>') \<Rightarrow>
          if oper \<in> set scratch_ops then scratch_op oper imms vs \<sigma>'
          else map_option (\<lambda>v. (v, \<sigma>')) (avm_op oper imms vs))"
| "aeval \<sigma> (StringConstant t s) = None"
| "aeval \<sigma> (VoidConstant t) = Some (VVoid, \<sigma>)"
| "aeval \<sigma> (BytesBinaryOperation t l bo r) = None"
| "aeval \<sigma> (BytesUnaryOperation t e u) = None"
| "aeval \<sigma> (SubroutineCallExpression t tgt args) = None"
| "aeval \<sigma> (FieldExpression t b n) = None"
| "aeval \<sigma> (IndexExpression t b i) = None"
| "aeval \<sigma> (TupleExpression t es) = None"
| "aeval \<sigma> (TupleItemExpression t b i) = None"
| "aeval \<sigma> (ARC4Encode t e) = None"
| "aeval \<sigma> (ARC4Decode t e) = None"
| "aeval \<sigma> (ARC4FromBytes t e p) = None"
| "aeval \<sigma> (ARC4Router t) = None"
| "aeval \<sigma> (TemplateVar t n) = None"
| "aeval \<sigma> (CopyExpr t e) = None"
| "aeval \<sigma> (CheckedMaybe t e n) = None"
| "aeval \<sigma> (EmitExpr t s e) = None"
| "aeval \<sigma> (NewArray t es) = None"
| "aeval \<sigma> (ArrayLength t e) = None"
| "aeval \<sigma> (ArrayPop t e) = None"
| "aeval \<sigma> (ArrayConcat t l r) = None"
| "aeval \<sigma> (ArrayExtend t l r) = None"
| "aeval \<sigma> (ConvertArray t e) = None"
| "aeval \<sigma> (NewStruct t fs) = None"
| "aeval \<sigma> (NamedTupleExpression t fs) = None"
| "aeval \<sigma> (StateGet t f d) = None"
| "aeval \<sigma> (StateExists t f) = None"
| "aeval \<sigma> (StateDelete t f) = None"
| "aeval \<sigma> (StateGetEx t f) = None"
| "aeval \<sigma> (AppStateExpression t k m) = None"
| "aeval \<sigma> (AppAccountStateExpression t k a m) = None"
| "aeval \<sigma> (BoxPrefixedKeyExpression t p k) = None"
| "aeval \<sigma> (BoxValueExpression t k m) = None"
| "aeval \<sigma> (CreateInnerTransaction t fs) = None"
| "aeval \<sigma> (SubmitInnerTransaction t es) = None"
| "aeval \<sigma> (InnerTransactionField t e f a) = None"
| "aeval \<sigma> (MethodConstant t s) = None"
| "aeval \<sigma> (AddressConstant t s) = None"
| "aeval \<sigma> (PuyaLibCall t f args) = None"
  by pat_completeness auto

termination
  by (relation "measure (\<lambda>(\<sigma>, e). size e)") (auto dest: size_mem)

lemma aeval_leaf: "duplicableLeaf e \<Longrightarrow> aeval \<sigma> e = Some (v, \<sigma>') \<Longrightarrow> aeval \<sigma>' e = Some (v, \<sigma>')"
  by (cases e) (auto simp: fill_cache_def split: option.splits if_splits)

lemma pure_not_scratch: "oper \<in> set pure_ops \<Longrightarrow> oper \<notin> set scratch_ops"
  by (auto simp: pure_ops_def scratch_ops_def)

interpretation ref: avm_scratch aeval
proof unfold_locales
qed (auto dest: pure_not_scratch aeval_leaf simp: int_const_def fill_cache_def basic_type_defs case_prod_beta map_option_case split: option.splits prod.splits if_splits)

text \<open>A machine state given by its local variables.\<close>

definition env_of :: "(string \<times> val) list \<Rightarrow> menv" where
  "env_of xs = \<lparr>vars = map_of xs, cache = Map.empty, scratch = (\<lambda>_. VU 0)\<rparr>"

lemma env_of_sel [simp]:
  "vars (env_of xs) = map_of xs" "cache (env_of xs) = Map.empty" "scratch (env_of xs) = (\<lambda>_. VU 0)"
  by (simp_all add: env_of_def)

end
