(* ===== verification/AwstExec.thy ===== *)
theory AwstExec
  imports AwstReference
begin

text \<open>
  The meaning of AWST statements over an evaluator \<open>ev\<close>, as a big-step relation: a statement
  falls through, returns, leaves or continues the enclosing loop, ends the program, or traps.
  A \<open>SingleEvaluation\<close> node is evaluated where it first occurs in the text, so the nodes of a loop
  body are evaluated again in every iteration: an iteration starts with the cache of the loop entry.
  An assignment to a local variable binds it; an assignment to any other place is what the evaluator
  makes of the assignment expression, and an augmented assignment assigns the binary operation on the
  target.  A for-in loop evaluates its sequence once, at its entry, and assigns the items in order.
  Only \<open>goto\<close> has no rule: the compiler never creates one (\<open>GotoStmt\<close> occurs in Node.h and the
  serializer alone), and \<open>Termination\<close> states where it is left out.
\<close>

datatype (plugins only: code size) 'm outcome =
    Normal 'm
  | Returned "val option" 'm
  | Broke 'm
  | Continued 'm
  | Halted 'm
  | Trap

fun falls_through :: "'m outcome \<Rightarrow> bool" where
  "falls_through (Normal _) = True"
| "falls_through _ = False"

text \<open>The AVM \<open>return\<close> opcode as a statement: it ends the whole program.\<close>

fun is_exit :: "expr \<Rightarrow> bool" where
  "is_exit (IntrinsicCall _ oper _ _) = (oper = ''return'')"
| "is_exit _ = False"

fun exit_args :: "expr \<Rightarrow> expr list" where
  "exit_args (IntrinsicCall _ _ _ args) = args"
| "exit_args _ = []"

text \<open>The branch of a switch: the first case whose value equals the scrutinee, else the default.\<close>

fun pick_case ::
    "'z evaluator \<Rightarrow> 'z menv_scheme \<Rightarrow> val \<Rightarrow> (expr \<times> 'b) list \<Rightarrow> 'b \<Rightarrow> ('b \<times> 'z menv_scheme) option" where
  "pick_case ev \<sigma> v [] d = Some (d, \<sigma>)"
| "pick_case ev \<sigma> v ((e, b) # cs) d =
     (case ev \<sigma> e of None \<Rightarrow> None
      | Some (w, \<sigma>') \<Rightarrow> if w = v then Some (b, \<sigma>') else pick_case ev \<sigma>' v cs d)"

text \<open>The targets that are local variables.\<close>

fun is_local :: "expr \<Rightarrow> bool" where
  "is_local (VarExpression _ _) = True"
| "is_local _ = False"

text \<open>
  The sequence of a for-in loop is evaluated once: it is read through a cache entry of its own, with an
  id the compiler never allocates (its ids count up from 0), emptied at the entry of the loop.
\<close>

definition for_sequence :: "expr \<Rightarrow> expr" where
  "for_sequence xs = SingleEvaluation (wtypeOf xs) xs (- 1)"

definition for_entry :: "expr \<Rightarrow> 'z menv_scheme \<Rightarrow> 'z menv_scheme" where
  "for_entry xs \<sigma> = \<sigma>\<lparr>cache := (cache \<sigma>)((xs, - 1) := None)\<rparr>"

text \<open>The assignment of the \<open>k\<close>-th item to the target \<open>it\<close>.\<close>

definition for_item :: "expr \<Rightarrow> expr \<Rightarrow> nat \<Rightarrow> stmt" where
  "for_item xs it k = AssignmentStatement it
     (IndexExpression (wtypeOf it) (for_sequence xs) (IntegerConstant uint64Type (dec_of_nat k)))"

inductive exec :: "'z evaluator \<Rightarrow> 'z menv_scheme \<Rightarrow> stmt \<Rightarrow> 'z menv_scheme outcome \<Rightarrow> bool"
  and execs :: "'z evaluator \<Rightarrow> 'z menv_scheme \<Rightarrow> stmt list \<Rightarrow> 'z menv_scheme outcome \<Rightarrow> bool"
  and exec_branch ::
    "'z evaluator \<Rightarrow> 'z menv_scheme \<Rightarrow> stmt option \<Rightarrow> 'z menv_scheme outcome \<Rightarrow> bool"
  and exec_items :: "'z evaluator \<Rightarrow> 'z menv_scheme \<Rightarrow> expr \<Rightarrow> expr \<Rightarrow> nat \<Rightarrow> nat \<Rightarrow> stmt option \<Rightarrow>
     'z menv_scheme outcome \<Rightarrow> bool"
  for ev where
  Block: "execs ev \<sigma> body out \<Longrightarrow> exec ev \<sigma> (Block body l c) out"
| Expr: "\<not> is_exit e \<Longrightarrow> ev \<sigma> e = Some (v, \<sigma>') \<Longrightarrow> exec ev \<sigma> (ExpressionStatement e) (Normal \<sigma>')"
| ExprTrap: "\<not> is_exit e \<Longrightarrow> ev \<sigma> e = None \<Longrightarrow> exec ev \<sigma> (ExpressionStatement e) Trap"
| Exit: "is_exit e \<Longrightarrow> eval_args ev \<sigma> (exit_args e) = Some (vs, \<sigma>') \<Longrightarrow>
    exec ev \<sigma> (ExpressionStatement e) (Halted \<sigma>')"
| ExitTrap: "is_exit e \<Longrightarrow> eval_args ev \<sigma> (exit_args e) = None \<Longrightarrow>
    exec ev \<sigma> (ExpressionStatement e) Trap"
| ReturnVoid: "exec ev \<sigma> (ReturnStatement None) (Returned None \<sigma>)"
| Return: "ev \<sigma> e = Some (v, \<sigma>') \<Longrightarrow> exec ev \<sigma> (ReturnStatement (Some e)) (Returned (Some v) \<sigma>')"
| ReturnTrap: "ev \<sigma> e = None \<Longrightarrow> exec ev \<sigma> (ReturnStatement (Some e)) Trap"
| IfTrue: "ev \<sigma> c = Some (v, \<sigma>') \<Longrightarrow> truth v = Some True \<Longrightarrow> exec_branch ev \<sigma>' i out \<Longrightarrow>
    exec ev \<sigma> (IfElse c i e) out"
| IfFalse: "ev \<sigma> c = Some (v, \<sigma>') \<Longrightarrow> truth v = Some False \<Longrightarrow> exec_branch ev \<sigma>' e out \<Longrightarrow>
    exec ev \<sigma> (IfElse c i e) out"
| IfTrap: "ev \<sigma> c = None \<Longrightarrow> exec ev \<sigma> (IfElse c i e) Trap"
| WhileDone: "ev \<sigma> c = Some (v, \<sigma>') \<Longrightarrow> truth v = Some False \<Longrightarrow>
    exec ev \<sigma> (WhileLoop c b) (Normal \<sigma>')"
| WhileTrap: "ev \<sigma> c = None \<Longrightarrow> exec ev \<sigma> (WhileLoop c b) Trap"
| WhileStep: "ev \<sigma> c = Some (v, \<sigma>1) \<Longrightarrow> truth v = Some True \<Longrightarrow> exec_branch ev \<sigma>1 b r \<Longrightarrow>
    r = Normal \<sigma>2 \<or> r = Continued \<sigma>2 \<Longrightarrow> exec ev (\<sigma>2\<lparr>cache := cache \<sigma>\<rparr>) (WhileLoop c b) out \<Longrightarrow>
    exec ev \<sigma> (WhileLoop c b) out"
| WhileBreak: "ev \<sigma> c = Some (v, \<sigma>1) \<Longrightarrow> truth v = Some True \<Longrightarrow>
    exec_branch ev \<sigma>1 b (Broke \<sigma>2) \<Longrightarrow> exec ev \<sigma> (WhileLoop c b) (Normal \<sigma>2)"
| WhileExit: "ev \<sigma> c = Some (v, \<sigma>1) \<Longrightarrow> truth v = Some True \<Longrightarrow> exec_branch ev \<sigma>1 b out \<Longrightarrow>
    (\<exists>w \<sigma>2. out = Returned w \<sigma>2) \<or> (\<exists>\<sigma>2. out = Halted \<sigma>2) \<or> out = Trap \<Longrightarrow>
    exec ev \<sigma> (WhileLoop c b) out"
| Break: "exec ev \<sigma> LoopExit (Broke \<sigma>)"
| Continue: "exec ev \<sigma> LoopContinue (Continued \<sigma>)"
| Assign: "ev \<sigma> e = Some (v, \<sigma>') \<Longrightarrow>
    exec ev \<sigma> (AssignmentStatement (VarExpression t x) e) (Normal (bind_var x v \<sigma>'))"
| AssignTrap: "ev \<sigma> e = None \<Longrightarrow> exec ev \<sigma> (AssignmentStatement (VarExpression t x) e) Trap"
| AssignPlace: "\<not> is_local p \<Longrightarrow> ev \<sigma> (AssignmentExpression (wtypeOf p) p e) = Some (v, \<sigma>') \<Longrightarrow>
    exec ev \<sigma> (AssignmentStatement p e) (Normal \<sigma>')"
| AssignPlaceTrap: "\<not> is_local p \<Longrightarrow> ev \<sigma> (AssignmentExpression (wtypeOf p) p e) = None \<Longrightarrow>
    exec ev \<sigma> (AssignmentStatement p e) Trap"
| UInt64Augmented: "exec ev \<sigma> (AssignmentStatement p (UInt64BinaryOperation (wtypeOf p) p o64 e)) out \<Longrightarrow>
    exec ev \<sigma> (UInt64AugmentedAssignment p o64 e) out"
| BigUIntAugmented: "exec ev \<sigma> (AssignmentStatement p (BigUIntBinaryOperation (wtypeOf p) p ob e)) out \<Longrightarrow>
    exec ev \<sigma> (BigUIntAugmentedAssignment p ob e) out"
| ForIn: "ev (for_entry xs \<sigma>) (ArrayLength uint64Type (for_sequence xs)) = Some (VU n, \<sigma>1) \<Longrightarrow>
    exec_items ev \<sigma>1 xs it 0 n b out \<Longrightarrow> exec ev \<sigma> (ForInLoop xs it b) out"
| ForInTrap: "ev (for_entry xs \<sigma>) (ArrayLength uint64Type (for_sequence xs)) = None \<Longrightarrow>
    exec ev \<sigma> (ForInLoop xs it b) Trap"
| Switch: "ev \<sigma> e = Some (v, \<sigma>1) \<Longrightarrow> pick_case ev \<sigma>1 v cs d = Some (b, \<sigma>2) \<Longrightarrow>
    exec_branch ev \<sigma>2 b out \<Longrightarrow> exec ev \<sigma> (SwitchStmt e cs d) out"
| SwitchTrap: "ev \<sigma> e = None \<or> (\<exists>v \<sigma>1. ev \<sigma> e = Some (v, \<sigma>1) \<and> pick_case ev \<sigma>1 v cs d = None) \<Longrightarrow>
    exec ev \<sigma> (SwitchStmt e cs d) Trap"
| BranchNone: "exec_branch ev \<sigma> None (Normal \<sigma>)"
| BranchSome: "exec ev \<sigma> s out \<Longrightarrow> exec_branch ev \<sigma> (Some s) out"
| Nil: "execs ev \<sigma> [] (Normal \<sigma>)"
| Cons: "exec ev \<sigma> s (Normal \<sigma>1) \<Longrightarrow> execs ev \<sigma>1 ss out \<Longrightarrow> execs ev \<sigma> (s # ss) out"
| Stop: "exec ev \<sigma> s out \<Longrightarrow> \<not> falls_through out \<Longrightarrow> execs ev \<sigma> (s # ss) out"
| ItemsDone: "n \<le> k \<Longrightarrow> exec_items ev \<sigma> xs it k n b (Normal \<sigma>)"
| ItemTrap: "k < n \<Longrightarrow> exec ev \<sigma> (for_item xs it k) Trap \<Longrightarrow> exec_items ev \<sigma> xs it k n b Trap"
| ItemStep: "k < n \<Longrightarrow> exec ev \<sigma> (for_item xs it k) (Normal \<sigma>1) \<Longrightarrow> exec_branch ev \<sigma>1 b r \<Longrightarrow>
    r = Normal \<sigma>2 \<or> r = Continued \<sigma>2 \<Longrightarrow>
    exec_items ev (\<sigma>2\<lparr>cache := cache \<sigma>\<rparr>) xs it (Suc k) n b out \<Longrightarrow> exec_items ev \<sigma> xs it k n b out"
| ItemBreak: "k < n \<Longrightarrow> exec ev \<sigma> (for_item xs it k) (Normal \<sigma>1) \<Longrightarrow> exec_branch ev \<sigma>1 b (Broke \<sigma>2) \<Longrightarrow>
    exec_items ev \<sigma> xs it k n b (Normal \<sigma>2)"
| ItemExit: "k < n \<Longrightarrow> exec ev \<sigma> (for_item xs it k) (Normal \<sigma>1) \<Longrightarrow> exec_branch ev \<sigma>1 b out \<Longrightarrow>
    (\<exists>w \<sigma>2. out = Returned w \<sigma>2) \<or> (\<exists>\<sigma>2. out = Halted \<sigma>2) \<or> out = Trap \<Longrightarrow>
    exec_items ev \<sigma> xs it k n b out"

inductive_cases exec_BlockE: "exec ev \<sigma> (Block body l c) out"
inductive_cases exec_ExprE: "exec ev \<sigma> (ExpressionStatement e) out"
inductive_cases exec_ReturnE: "exec ev \<sigma> (ReturnStatement e) out"
inductive_cases exec_IfE: "exec ev \<sigma> (IfElse c i e) out"
inductive_cases exec_WhileE: "exec ev \<sigma> (WhileLoop c b) out"
inductive_cases exec_BreakE: "exec ev \<sigma> LoopExit out"
inductive_cases exec_ContinueE: "exec ev \<sigma> LoopContinue out"
inductive_cases exec_AssignE: "exec ev \<sigma> (AssignmentStatement t e) out"
inductive_cases exec_U64AugE: "exec ev \<sigma> (UInt64AugmentedAssignment p o64 e) out"
inductive_cases exec_BigAugE: "exec ev \<sigma> (BigUIntAugmentedAssignment p ob e) out"
inductive_cases exec_ForInE: "exec ev \<sigma> (ForInLoop xs it b) out"
inductive_cases exec_itemsE: "exec_items ev \<sigma> xs it k n b out"
inductive_cases exec_SwitchE: "exec ev \<sigma> (SwitchStmt e cs d) out"
inductive_cases execs_NilE: "execs ev \<sigma> [] out"
inductive_cases execs_ConsE: "execs ev \<sigma> (s # ss) out"

inductive_simps exec_Block [simp]: "exec ev \<sigma> (Block body l c) out"
inductive_simps execs_Nil [simp]: "execs ev \<sigma> [] out"
inductive_simps execs_Cons: "execs ev \<sigma> (s # ss) out"
inductive_simps exec_branch_None [simp]: "exec_branch ev \<sigma> None out"
inductive_simps exec_branch_Some [simp]: "exec_branch ev \<sigma> (Some s) out"
inductive_simps exec_If: "exec ev \<sigma> (IfElse c i e) out"
inductive_simps exec_Switch: "exec ev \<sigma> (SwitchStmt e cs d) out"
inductive_simps exec_ForIn: "exec ev \<sigma> (ForInLoop xs it b) out"
inductive_simps exec_U64Aug: "exec ev \<sigma> (UInt64AugmentedAssignment p o64 e) out"
inductive_simps exec_BigAug: "exec ev \<sigma> (BigUIntAugmentedAssignment p ob e) out"

text \<open>Every statement has at most one outcome.\<close>

theorem exec_deterministic:
  "exec ev \<sigma> s out \<Longrightarrow> exec ev \<sigma> s out' \<Longrightarrow> out' = out"
  "execs ev \<sigma> ss out \<Longrightarrow> execs ev \<sigma> ss out' \<Longrightarrow> out' = out"
  "exec_branch ev \<sigma> b out \<Longrightarrow> exec_branch ev \<sigma> b out' \<Longrightarrow> out' = out"
  "exec_items ev \<sigma> xs it k n b out \<Longrightarrow> exec_items ev \<sigma> xs it k n b out' \<Longrightarrow> out' = out"
proof (induction arbitrary: out' and out' and out' and out' rule: exec_execs_exec_branch_exec_items.inducts)
  case (WhileStep \<sigma> c v \<sigma>1 b r \<sigma>2 out)
  from WhileStep.prems show ?case
    by (rule exec_WhileE) (use WhileStep.hyps WhileStep.IH(1) in \<open>auto dest!: WhileStep.IH(3,5)\<close>)
next
  case (WhileBreak \<sigma> c v \<sigma>1 b \<sigma>2)
  from WhileBreak.prems show ?case
    by (rule exec_WhileE) (use WhileBreak.hyps WhileBreak.IH(1) in \<open>auto dest!: WhileBreak.IH(3)\<close>)
next
  case (WhileExit \<sigma> c v \<sigma>1 b out)
  from WhileExit.prems show ?case
    by (rule exec_WhileE) (use WhileExit.hyps WhileExit.IH(1) in \<open>auto dest!: WhileExit.IH(3)\<close>)
next
  case (Cons \<sigma> s \<sigma>1 ss out)
  from Cons.prems show ?case
    by (rule execs_ConsE) (auto dest!: Cons.IH(2,4))
next
  case (Stop \<sigma> s out ss)
  from Stop.prems show ?case
    by (rule execs_ConsE) (use Stop.hyps in \<open>auto dest!: Stop.IH(2)\<close>)
next
  case (WhileDone \<sigma> c v \<sigma>' b)
  from WhileDone.prems show ?case
    by (rule exec_WhileE) (use WhileDone.IH WhileDone.hyps in auto)
next
  case (WhileTrap \<sigma> c b)
  from WhileTrap.prems show ?case
    by (rule exec_WhileE) (use WhileTrap.IH in auto)
next
  case (IfTrue \<sigma> c v \<sigma>' i out e)
  from IfTrue.prems show ?case
    by (rule exec_IfE) (use IfTrue.hyps IfTrue.IH(1) in \<open>auto dest!: IfTrue.IH(3)\<close>)
next
  case (IfFalse \<sigma> c v \<sigma>' e out i)
  from IfFalse.prems show ?case
    by (rule exec_IfE) (use IfFalse.hyps IfFalse.IH(1) in \<open>auto dest!: IfFalse.IH(3)\<close>)
next
  case (Switch \<sigma> e v \<sigma>1 cs d b \<sigma>2 out)
  from Switch.prems show ?case
    by (rule exec_SwitchE) (use Switch.IH(1,2) in \<open>auto dest!: Switch.IH(4)\<close>)
next
  case (UInt64Augmented \<sigma> p o64 e out)
  from UInt64Augmented.prems show ?case by (rule exec_U64AugE) (rule UInt64Augmented.IH)
next
  case (BigUIntAugmented \<sigma> p ob e out)
  from BigUIntAugmented.prems show ?case by (rule exec_BigAugE) (rule BigUIntAugmented.IH)
next
  case (ForIn xs \<sigma> n \<sigma>1 it b out)
  from ForIn.prems show ?case
    by (rule exec_ForInE) (use ForIn.IH(1) in \<open>auto dest!: ForIn.IH(3)\<close>)
next
  case (ForInTrap xs \<sigma> it b)
  from ForInTrap.prems show ?case
    by (rule exec_ForInE) (use ForInTrap.IH in auto)
next
  case (ItemsDone n k \<sigma> xs it b)
  from ItemsDone.prems ItemsDone.hyps show ?case by (auto elim: exec_itemsE)
next
  case (ItemTrap k n \<sigma> xs it b)
  from ItemTrap.prems show ?case
    by (rule exec_itemsE) (use ItemTrap.hyps in \<open>auto dest!: ItemTrap.IH(2)\<close>)
next
  case (ItemStep k n \<sigma> xs it \<sigma>1 b r \<sigma>2 out)
  from ItemStep.prems show ?case
    by (rule exec_itemsE) (use ItemStep.hyps in \<open>auto dest!: ItemStep.IH(2,4,6)\<close>)
next
  case (ItemBreak k n \<sigma> xs it \<sigma>1 b \<sigma>2)
  from ItemBreak.prems show ?case
    by (rule exec_itemsE) (use ItemBreak.hyps in \<open>auto dest!: ItemBreak.IH(2,4)\<close>)
next
  case (ItemExit k n \<sigma> xs it \<sigma>1 b out)
  from ItemExit.prems show ?case
    by (rule exec_itemsE) (use ItemExit.hyps in \<open>auto dest!: ItemExit.IH(2,4)\<close>)
qed (auto elim!: exec_ExprE exec_ReturnE exec_IfE exec_BreakE exec_ContinueE exec_AssignE exec_SwitchE)

lemma execs_append_Normal:
  "execs ev \<sigma> ss (Normal \<sigma>1) \<Longrightarrow> execs ev \<sigma>1 ts out \<Longrightarrow> execs ev \<sigma> (ss @ ts) out"
proof (induction ss arbitrary: \<sigma>)
  case (Cons s ss)
  from Cons.prems(1) obtain \<sigma>2 where "exec ev \<sigma> s (Normal \<sigma>2)" "execs ev \<sigma>2 ss (Normal \<sigma>1)"
    by (auto elim: execs_ConsE)
  with Cons show ?case by (auto intro: exec_execs_exec_branch_exec_items.Cons)
qed simp

lemma execs_single [simp]: "execs ev \<sigma> [s] out \<longleftrightarrow> exec ev \<sigma> s out"
  by (cases out) (auto simp: execs_Cons)

lemmas execs_then = exec_execs_exec_branch_exec_items.Cons

end
