(* ===== verification/Coercion.thy ===== *)
theory Coercion
  imports AwstExec
begin

text \<open>
  Numeric coercions (\<open>src/src/builder/sol-types/TypeCoercion.cpp\<close>) and the shorthands of
  \<open>src/src/builder/AwstShorthand.h\<close>.  A \<open>uint64\<close>-typed expression is an AVM integer, a
  \<open>biguint\<close>-typed one a big-endian byte string of at most 64 bytes.  Signed values of at most 64 bits
  are kept as 64-bit two's complement, wider ones as 256-bit two's complement.
\<close>

declare One_nat_def [simp del]

section \<open>Weakest preconditions for builders\<close>

definition built :: "'a builder \<Rightarrow> bst \<Rightarrow> ('a \<Rightarrow> bst \<Rightarrow> bool) \<Rightarrow> bool" where
  "built m s Q \<longleftrightarrow> (case run_state m s of (a, s') \<Rightarrow> Q a s')"

lemma built_ret [simp]: "built (ret a) s Q \<longleftrightarrow> Q a s"
  by (simp add: built_def State_Monad.return_def)

lemma built_bind [simp]: "built (State_Monad.bind m f) s Q \<longleftrightarrow> built m s (\<lambda>a s'. built (f a) s' Q)"
  by (simp add: built_def State_Monad.bind_def split: prod.splits)

lemma built_mono: "built m s P \<Longrightarrow> (\<And>a s'. P a s' \<Longrightarrow> Q a s') \<Longrightarrow> built m s Q"
  by (auto simp: built_def)

lemma built_if [simp]: "built (if c then m else m') s Q \<longleftrightarrow> (if c then built m s Q else built m' s Q)"
  by simp

lemma built_run: "built m s Q \<Longrightarrow> run_state m s = (a, s') \<Longrightarrow> Q a s'"
  by (simp add: built_def)

lemma built_nextSingleEvalId [simp]:
  "built nextSingleEvalId s Q \<longleftrightarrow> Q (singleEvalId s + 1) (s\<lparr>singleEvalId := singleEvalId s + 1\<rparr>)"
  by (simp add: built_def builder_defs)

lemma built_nameGenNext [simp]:
  "built (nameGenNext p) s Q \<longleftrightarrow>
     Q (counters s p) (s\<lparr>counters := (counters s)(p := counters s p + 1)\<rparr>)"
  by (simp add: built_def builder_defs)

lemma built_pushPreEffect [simp]:
  "built (pushPreEffect st) s Q \<longleftrightarrow> Q () (s\<lparr>preEffects := preEffects s @ [st]\<rparr>)"
  by (simp add: built_def builder_defs)

text \<open>Every \<open>SingleEvaluation\<close> id still to be allocated is in \<open>K\<close>.\<close>

definition covers :: "(expr \<times> int) set \<Rightarrow> bst \<Rightarrow> bool" where
  "covers K s \<longleftrightarrow> (\<forall>e i. singleEvalId s < i \<longrightarrow> (e, i) \<in> K)"

lemma covers_update [simp]:
  "covers K (s\<lparr>counters := c\<rparr>) = covers K s"
  "covers K (s\<lparr>preEffects := p\<rparr>) = covers K s"
  "covers K s \<Longrightarrow> covers K (s\<lparr>singleEvalId := singleEvalId s + 1\<rparr>)"
  by (simp_all add: covers_def)

section \<open>Definitions\<close>

text \<open>Fixed-width arithmetic of \<open>solidity::u256\<close>.\<close>

definition u256_pow2 :: "nat \<Rightarrow> nat" where
  "u256_pow2 n = 2 ^ n mod 2 ^ 256"

definition u256_sub :: "nat \<Rightarrow> nat \<Rightarrow> nat" where
  "u256_sub a b = (a + (2 ^ 256 - b mod 2 ^ 256)) mod 2 ^ 256"

definition kPow2_256 :: string where
  "kPow2_256 = ''115792089237316195423570985008687907853269984665640564039457584007913129639936''"

definition kHalfMax_256 :: string where
  "kHalfMax_256 = ''57896044618658097711785492504343953926634992332820282019728792003956564819968''"

definition makePow256 :: expr where
  "makePow256 = makeIntegerConstant kPow2_256 biguintType"

definition u64 :: "nat \<Rightarrow> expr" where "u64 value = makeIntegerConstantU64 value uint64Type"
definition u64_str :: "string \<Rightarrow> expr" where "u64_str value = makeIntegerConstant value uint64Type"
definition add :: "expr \<Rightarrow> expr \<Rightarrow> expr" where "add l r = makeUInt64BinOp l U64Add r"
definition u64Var :: "string \<Rightarrow> expr" where "u64Var name = makeVarExpression name uint64Type"
definition bytesVar :: "string \<Rightarrow> expr" where "bytesVar name = makeVarExpression name bytesType"
definition biguintConst :: "string \<Rightarrow> expr" where "biguintConst value = makeIntegerConstant value biguintType"

fun isCurrentAppAddressGlobal :: "expr \<Rightarrow> bool" where
  "isCurrentAppAddressGlobal (IntrinsicCall _ oper (ImmStr f # _) _) =
     (oper = ''global'' \<and> f = ''CurrentApplicationAddress'')"
| "isCurrentAppAddressGlobal _ = False"

definition stringToBytesN :: "expr \<Rightarrow> wtype \<Rightarrow> int \<Rightarrow> expr option" where
  "stringToBytesN src targetType n =
     (case src of
        StringConstant _ s \<Rightarrow>
          if n \<le> 0 \<or> int (length s) > n then None
          else Some (makeBytesConstant (string_bytes s @ replicate (nat n - length s) 0) EncBase16 targetType)
      | _ \<Rightarrow> None)"

text \<open>The constant branches of the cast to \<open>bytes[N]\<close>: a string or bytes constant is right-padded.\<close>

definition constToBytesN :: "expr \<Rightarrow> wtype \<Rightarrow> int \<Rightarrow> expr option" where
  "constToBytesN e targetType n =
     (case stringToBytesN e targetType n of
        Some p \<Rightarrow> Some p
      | None \<Rightarrow>
          (case e of
             BytesConstant _ _ v \<Rightarrow>
               if int (length v) \<le> n
               then Some (makeBytesConstant (v @ replicate (nat n - length v) 0) EncBase16 targetType)
               else None
           | _ \<Rightarrow> None))"

definition implicitNumericCast :: "expr \<Rightarrow> wtype \<Rightarrow> expr builder" where
  "implicitNumericCast e targetType =
     (if structurallyEquivalent (=) (Some (wtypeOf e)) (Some targetType) then ret e
      else if targetType = accountType \<and> wtypeOf e = applicationType then
        ret (makeReinterpretCast (makeLeftPad (makeItob (makeAsUInt64 e)) 24) targetType)
      else if targetType = accountType \<and> (wtypeOf e = biguintType \<or> wtypeOf e = uint64Type) then do {
        let asBytes = (if wtypeOf e = uint64Type then makeItob e else makeAsBytes e);
        last32 \<leftarrow> makeExtractLastN (makeLeftPad asBytes 32) 32;
        ret (makeReinterpretCast last32 accountType)
      }
      else if wtypeOf e = uint64Type \<and> targetType = biguintType then ret (makeAsBiguint (makeItob e))
      else if wtypeOf e = biguintType \<and> targetType = uint64Type then do {
        low \<leftarrow> makeExtractLastN (makeLeftPad (makeAsBytes e) 8) 8;
        ret (makeBtoi low None)
      }
      else case targetType of
        BytesWType (Some n) \<Rightarrow>
          if n > 0 then
            (case constToBytesN e targetType n of
               Some p \<Rightarrow> ret p
             | None \<Rightarrow>
                 if wtypeOf e = biguintType then do {
                   padded \<leftarrow> makeLeftPadToN (makeAsBytes e) (nat n);
                   ret (makeReinterpretCast padded targetType)
                 }
                 else if wtypeOf e = uint64Type then do {
                   padded \<leftarrow> makeLeftPadToN (makeItob e) (nat n);
                   ret (makeReinterpretCast padded targetType)
                 }
                 else ret e)
          else ret e
      | _ \<Rightarrow> ret e)"

definition calldataPointerValueRead :: "string \<Rightarrow> expr builder" where
  "calldataPointerValueRead name = do {
     off \<leftarrow> implicitNumericCast (makeVarExpression (''__cd_off_'' @ name) biguintType) uint64Type;
     len \<leftarrow> implicitNumericCast (makeVarExpression (''__cd_len_'' @ name) biguintType) uint64Type;
     ret (makeExtract3 (makeVarExpression ''__cd_blob'' bytesType) off len None)
   }"

definition signExtendToUint256 :: "expr \<Rightarrow> nat \<Rightarrow> expr builder" where
  "signExtendToUint256 value bits = do {
     promoted \<leftarrow> implicitNumericCast value biguintType;
     if bits = 256 then ret promoted
     else do {
       let promoted' =
         (if bits < 256
          then makeBigUIntBinOp promoted BigBitAnd
                 (makeIntegerConstant (dec_of_nat (u256_sub (u256_pow2 bits) 1)) biguintType)
          else promoted);
       k \<leftarrow> nameGenNext ''TypeCoercion.s_signExtTempId'';
       let tempName = ''__signext_tmp_'' @ dec_of_nat (k + 1);
       let tempVar = makeVarExpression tempName biguintType;
       bind \<leftarrow> makeAssignmentExpression tempVar promoted' (Some biguintType);
       let tempRead = makeVarExpression tempName biguintType;
       let threshold = u256_pow2 (bits - 1);
       let offset = 2 ^ 256 - 2 ^ bits;
       let cond = makeNumericCompare tempRead Gte (makeIntegerConstant (dec_of_nat threshold) biguintType);
       let addend = makeBigUIntBinOp tempRead BigAdd (makeIntegerConstant (dec_of_nat offset) biguintType);
       let conditional = makeConditional cond addend tempRead biguintType;
       ret (makeCommaExpression biguintType [bind, conditional])
     }
   }"

definition signExtendToUint64 :: "expr \<Rightarrow> nat \<Rightarrow> expr builder" where
  "signExtendToUint64 value bits =
     (if bits = 0 \<or> bits \<ge> 64 then ret value
      else do {
        k \<leftarrow> nameGenNext ''TypeCoercion.s_signExt64TempId'';
        let tempName = ''__signext64_tmp_'' @ dec_of_nat (k + 1);
        let masked = makeUInt64BinOp value U64Mod (makeIntegerConstantU64 (2 ^ bits) uint64Type);
        bind \<leftarrow> makeAssignmentExpression (makeVarExpression tempName uint64Type) masked (Some uint64Type);
        let tempRead = makeVarExpression tempName uint64Type;
        let threshold = 2 ^ (bits - 1);
        let offset = 2 ^ 64 - 2 ^ bits;
        let cond = makeNumericCompare tempRead Gte (makeIntegerConstantU64 threshold uint64Type);
        let extended = makeUInt64BinOp tempRead U64Add (makeIntegerConstantU64 offset uint64Type);
        let conditional = makeConditional cond extended tempRead uint64Type;
        ret (makeCommaExpression uint64Type [bind, conditional])
      })"

definition maskUnsignedToWidth :: "expr \<Rightarrow> nat \<Rightarrow> expr" where
  "maskUnsignedToWidth value bits =
     makeBigUIntBinOp value BigMod (makeIntegerConstant (dec_of_nat (u256_pow2 bits)) biguintType)"

definition pow2NAndHalf :: "nat \<Rightarrow> string \<times> string" where
  "pow2NAndHalf bits =
     (if bits = 256 then (kPow2_256, kHalfMax_256)
      else (dec_of_nat (u256_pow2 bits), dec_of_nat (u256_pow2 (bits - 1))))"

definition isNegativeSigned :: "expr \<Rightarrow> nat \<Rightarrow> expr" where
  "isNegativeSigned value bits =
     makeNumericCompare value Gte (makeIntegerConstant (snd (pow2NAndHalf bits)) biguintType)"

text \<open>An integer type of the source language, when the Solidity type is one: signedness and width.\<close>

record SolIntType =
  sit_signed :: bool
  sit_bits :: nat

definition coerceToCommonInt :: "expr \<Rightarrow> SolIntType option \<Rightarrow> wtype \<Rightarrow> expr builder" where
  "coerceToCommonInt value srcSol commonW = do {
     v \<leftarrow> implicitNumericCast value commonW;
     case srcSol of
       Some t \<Rightarrow>
         if sit_signed t then
           (if commonW = biguintType then signExtendToUint256 v (sit_bits t)
            else signExtendToUint64 v (sit_bits t))
         else ret v
     | None \<Rightarrow> ret v
   }"

definition canonicalIntConstant :: "nat \<Rightarrow> nat \<Rightarrow> expr" where
  "canonicalIntConstant tcValue bits =
     (if bits \<le> 64 then makeIntegerConstant (dec_of_nat (tcValue mod 2 ^ 64)) uint64Type
      else makeIntegerConstant (dec_of_nat tcValue) biguintType)"

definition rationalIntConstant :: "nat \<Rightarrow> wtype \<Rightarrow> expr" where
  "rationalIntConstant value mappedType =
     makeIntegerConstant (dec_of_nat value)
       (if mappedType = uint64Type \<and> value > 18446744073709551615 then biguintType else mappedType)"

definition signExtendSignedElement :: "expr \<Rightarrow> SolIntType option \<Rightarrow> expr builder" where
  "signExtendSignedElement value solElemType =
     (case solElemType of
        Some t \<Rightarrow>
          if sit_signed t \<and> sit_bits t > 64 \<and> sit_bits t < 256
          then signExtendToUint256 value (sit_bits t) else ret value
      | None \<Rightarrow> ret value)"

text \<open>The two bounds-checked narrowings differ in the name of the temporary and in the message.\<close>

definition checkedIndexToUint64 :: "expr \<Rightarrow> expr builder" where
  "checkedIndexToUint64 idx = do {
     idx' \<leftarrow>
       (if wtypeOf idx = biguintType then do {
          k \<leftarrow> nameGenNext ''TypeCoercion.checkedIndex'';
          let nm = ''__ckidx_'' @ dec_of_nat k;
          asg \<leftarrow> makeAssignmentStatement (makeVarExpression nm biguintType) idx;
          pushPreEffect asg;
          let fits = makeNumericCompare (makeVarExpression nm biguintType) Lt
            (makeIntegerConstant ''18446744073709551616'' biguintType);
          pushPreEffect (makeExpressionStatement
            (makeAssert fits (Some ''array index out of bounds'') voidType));
          ret (makeVarExpression nm biguintType)
        } else ret idx);
     implicitNumericCast idx' uint64Type
   }"

definition checkedAmountToUint64 :: "expr \<Rightarrow> expr builder" where
  "checkedAmountToUint64 amount = do {
     amount' \<leftarrow>
       (if wtypeOf amount = biguintType then do {
          k \<leftarrow> nameGenNext ''TypeCoercion.checkedAmount'';
          let nm = ''__ckamt_'' @ dec_of_nat k;
          asg \<leftarrow> makeAssignmentStatement (makeVarExpression nm biguintType) amount;
          pushPreEffect asg;
          let fits = makeNumericCompare (makeVarExpression nm biguintType) Lt
            (makeIntegerConstant ''18446744073709551616'' biguintType);
          pushPreEffect (makeExpressionStatement
            (makeAssert fits (Some ''transfer amount exceeds uint64 (AVM amounts are 64-bit)'') voidType));
          ret (makeVarExpression nm biguintType)
        } else ret amount);
     implicitNumericCast amount' uint64Type
   }"

text \<open>The numeric part of \<open>signExtendSignedWiden\<close>; the internal consistency check it makes first
  (\<open>assertImplicitlyConvertible\<close>) only logs.\<close>

definition signExtendSignedWiden :: "expr \<Rightarrow> SolIntType option \<Rightarrow> SolIntType option \<Rightarrow> expr builder" where
  "signExtendSignedWiden value src tgt =
     (case (src, tgt) of
        (Some a, Some b) \<Rightarrow>
          if \<not> sit_signed a \<or> \<not> sit_signed b then ret value
          else if sit_bits a \<ge> sit_bits b then ret value
          else if sit_bits b > 64 \<and> wtypeOf value = biguintType then signExtendToUint256 value (sit_bits a)
          else if wtypeOf value = uint64Type then signExtendToUint64 value (sit_bits a)
          else ret value
      | _ \<Rightarrow> ret value)"

lemma bigconst_simps [simp]:
  "nat_of_dec kPow2_256 = Some (2 ^ 256)" "nat_of_dec kHalfMax_256 = Some (2 ^ 255)"
  "nat_of_dec ''18446744073709551616'' = Some (2 ^ 64)"
  "nat_of_dec ''0'' = Some 0" "nat_of_dec ''1'' = Some 1" "nat_of_dec ''2'' = Some 2"
  "nat_of_dec ''8'' = Some 8" "nat_of_dec ''255'' = Some 255" "nat_of_dec ''256'' = Some 256"
  by (simp_all add: nat_of_dec_def dec_value_def is_digit_def kPow2_256_def kHalfMax_256_def)

section \<open>Values of the built expressions\<close>

lemmas node_defs =
  makeIntegerConstant_def makeIntegerConstantU64_def makeBiguintConstant_def makeZero_def makeOne_def
  makeBoolConstant_def makeVarExpression_def makeUInt64BinOp_def makeBigUIntBinOp_def
  makeNumericCompare_def makeBytesComparison_def makeBoolBinOp_def makeNot_def makeAssert_def
  makeConditional_def makeIntrinsicCall_def makeItob_def makeBtoi_def makeLen_def makeConcat_def
  makeExtract_def makeExtract3_def makeSingleEvaluation_def makeSetbit_def makeGetbit_def
  makeExtractUInt64_def makeBzeroExpr_def makeBzero_def makeLeftPad_def makeReinterpretCast_def
  makeAsBytes_def makeAsBiguint_def makeAsUInt64_def makeCommaExpression_def makeBytesConstant_def
  makeBytesOr_def

lemma wtype_distinct [simp]:
  "uint64Type \<noteq> biguintType" "biguintType \<noteq> uint64Type"
  "uint64Type \<noteq> accountType" "accountType \<noteq> uint64Type"
  "biguintType \<noteq> accountType" "accountType \<noteq> biguintType"
  "boolType \<noteq> biguintType" "biguintType \<noteq> boolType" "boolType \<noteq> uint64Type" "uint64Type \<noteq> boolType"
  "bytesType \<noteq> biguintType" "biguintType \<noteq> bytesType" "bytesType \<noteq> uint64Type" "uint64Type \<noteq> bytesType"
  "bytesType \<noteq> boolType" "boolType \<noteq> bytesType" "bytesType \<noteq> accountType" "accountType \<noteq> bytesType"
  "boolType \<noteq> accountType" "accountType \<noteq> boolType"
  "applicationType \<noteq> biguintType" "applicationType \<noteq> uint64Type"
  "biguintType \<noteq> applicationType" "uint64Type \<noteq> applicationType"
  by (simp_all add: basic_type_defs)

lemma structurallyEquivalent_eq:
  "structurallyEquivalent (=) (Some a) (Some b) \<longleftrightarrow> canon a = canon b"
proof -
  obtain x seen' where "equivalentImpl (=) a b [] = (x, seen')" by force
  with equivalence_correct(1)[OF _ _ this] show ?thesis by (simp add: memo_ok_def sound_identity_def)
qed

declare structurallyEquivalent.simps [simp del]

lemma canon_basic [simp]:
  "canon uint64Type = uint64Type" "canon biguintType = biguintType" "canon accountType = accountType"
  "canon boolType = boolType"
  by (simp_all add: basic_type_defs)

lemma bind_var_env [simp]:
  "vars (bind_var x v \<sigma>) = (vars \<sigma>)(x \<mapsto> v)" "cache (bind_var x v \<sigma>) = cache \<sigma>"
  by (simp_all add: bind_var_def)

lemma u256_pow2_less: "n < 256 \<Longrightarrow> u256_pow2 n = 2 ^ n"
  using power_strict_increasing[of n 256 "2::nat"] by (simp add: u256_pow2_def)

lemma u256_sub_one: "0 < a \<Longrightarrow> a < 2 ^ 256 \<Longrightarrow> u256_sub a 1 = a - 1"
proof -
  assume "0 < a" "a < 2 ^ 256"
  then have "a + (2 ^ 256 - 1 mod 2 ^ 256) = (a - 1) + 2 ^ 256" by simp
  then have "u256_sub a 1 = (a - 1) mod 2 ^ 256" by (simp only: u256_sub_def mod_add_self2)
  with \<open>a < 2 ^ 256\<close> show ?thesis by simp
qed

lemma pow2_512: "n \<le> 256 \<Longrightarrow> (2::nat) ^ n < 2 ^ 512"
  by (rule power_strict_increasing) simp_all

text \<open>Casting only allocates \<open>SingleEvaluation\<close> ids.\<close>

lemma evalOnce_keeps_preEffects:
  "(\<And>e' s'. preEffects s' = preEffects s \<Longrightarrow> Q e' s') \<Longrightarrow> built (makeEvalOnce e) s Q"
  by (simp add: makeEvalOnce_def)

lemma cast_keeps_preEffects:
  "built (implicitNumericCast e t) s (\<lambda>_ s'. preEffects s' = preEffects s)"
  unfolding implicitNumericCast_def makeExtractLastN_def makeLeftPadToN_def
  by (auto simp: Let_def intro!: evalOnce_keeps_preEffects split: wtype.split option.split)

definition narrowStmts :: "string \<Rightarrow> string \<Rightarrow> expr \<Rightarrow> stmt list" where
  "narrowStmts nm msg e =
     [AssignmentStatement (VarExpression biguintType nm) e,
      ExpressionStatement (AssertExpression voidType (NumericComparisonExpression boolType
        (VarExpression biguintType nm) Lt (IntegerConstant biguintType ''18446744073709551616'')) (Some msg) True)]"

text \<open>A numeric expression of either representation with value \<open>n\<close>.\<close>

definition snum :: "'z evaluator \<Rightarrow> (expr \<times> int) set \<Rightarrow> 'z menv_scheme \<Rightarrow> expr \<Rightarrow> nat \<Rightarrow> bool" where
  "snum ev K \<sigma> e n \<longleftrightarrow>
     (wtypeOf e = biguintType \<and> sbig ev K \<sigma> e n) \<or>
     (wtypeOf e = uint64Type \<and> su64 ev K \<sigma> e n \<and> n < 2 ^ 64)"

definition ids_free :: "bst \<Rightarrow> 'z menv_scheme \<Rightarrow> bool" where
  "ids_free s \<sigma> \<longleftrightarrow> (\<forall>e i. singleEvalId s < i \<longrightarrow> cache \<sigma> (e, i) = None)"

lemma run_check_var [simp]: "checkAssignableTarget (VarExpression t x) = ret ()"
  by (simp add: checkAssignableTarget_def)

lemma assign_expr_var [simp]:
  "makeAssignmentExpression (VarExpression t x) e (Some u) = ret (AssignmentExpression u (VarExpression t x) e)"
  by (simp add: makeAssignmentExpression_def)

lemma assign_stmt_var [simp]:
  "makeAssignmentStatement (VarExpression t x) e = ret (AssignmentStatement (VarExpression t x) e)"
  by (simp add: makeAssignmentStatement_def)

lemma drop_pad: "drop (length b) (replicate n 0 @ b) = be_fixed n (be_nat b)"
proof -
  have "be_nat (drop (length b) (replicate n 0 @ b)) = be_nat b mod 256 ^ n"
    by (subst be_nat_drop) (simp_all add: be_nat_append)
  then show ?thesis
    using be_fixed_be_nat[of "drop (length b) (replicate n 0 @ b)" n] be_fixed_be_nat[of "be_fixed n (be_nat b)" n]
    by (simp add: be_nat_be_fixed)
qed

context avm
begin

lemma su64_const [value_intros]: "n < 2 ^ 64 \<Longrightarrow> su64 ev K \<sigma> (makeIntegerConstantU64 n uint64Type) n"
  by (simp only: node_defs) (rule sval_int64, simp_all)

lemma sbytes_itob [value_intros]: "su64 ev K \<sigma> e n \<Longrightarrow> sbytes ev K \<sigma> (makeItob e) (be_fixed 8 n)"
  unfolding node_defs by (rule sval_op[where vs = "[VU n]"]) (simp_all add: pure_ops_def avm_op_def)

lemma sbig_itob [value_intros]:
  assumes "su64 ev K \<sigma> e n" and "n < 2 ^ 64"
  shows "sbig ev K \<sigma> (makeAsBiguint (makeItob e)) n"
proof -
  have "sbytes ev K \<sigma> (makeAsBiguint (makeItob e)) (be_fixed 8 n)"
    unfolding makeAsBiguint_def makeReinterpretCast_def by (intro sval_cast sbytes_itob assms)
  from sbigI[OF this] assms(2) show ?thesis by (simp add: be_nat_be_fixed)
qed

lemma su64_len [value_intros]: "sbytes ev K \<sigma> e b \<Longrightarrow> su64 ev K \<sigma> (makeLen e) (length b)"
  unfolding node_defs by (rule sval_op[where vs = "[VB b]"]) (simp_all add: pure_ops_def avm_op_def)

lemma su64_btoi [value_intros]:
  "sbytes ev K \<sigma> e b \<Longrightarrow> length b \<le> 8 \<Longrightarrow> su64 ev K \<sigma> (makeBtoi e t) (be_nat b)"
  unfolding node_defs by (rule sval_op[where vs = "[VB b]"]) (simp_all add: pure_ops_def avm_op_def)

lemma sbytes_bzero [value_intros]: "n \<le> 4096 \<Longrightarrow> sbytes ev K \<sigma> (makeBzero n) (replicate n 0)"
  unfolding makeBzero_def makeBzeroExpr_def makeIntrinsicCall_def
  by (rule sval_op[where vs = "[VU n]"])
     (simp_all add: su64_const pure_ops_def avm_op_def stack_bytes_def)

lemma sbytes_concat [value_intros]:
  "sbytes ev K \<sigma> l a \<Longrightarrow> sbytes ev K \<sigma> r b \<Longrightarrow> length a + length b \<le> 4096 \<Longrightarrow>
   sbytes ev K \<sigma> (makeConcat l r) (a @ b)"
  unfolding makeConcat_def makeIntrinsicCall_def
  by (rule sval_op[where vs = "[VB a, VB b]"]) (simp_all add: pure_ops_def avm_op_def stack_bytes_def)

lemma sbytes_leftPad [value_intros]:
  "sbytes ev K \<sigma> e b \<Longrightarrow> n + length b \<le> 4096 \<Longrightarrow> sbytes ev K \<sigma> (makeLeftPad e n) (replicate n 0 @ b)"
  unfolding makeLeftPad_def by (intro value_intros) simp_all

lemma sbytes_extract3:
  "sbytes ev K \<sigma> e b \<Longrightarrow> su64 ev K \<sigma> off i \<Longrightarrow> su64 ev K \<sigma> len n \<Longrightarrow> i + n \<le> length b \<Longrightarrow>
   sbytes ev K \<sigma> (IntrinsicCall t ''extract3'' [] [e, off, len]) (take n (drop i b))"
  by (rule sval_op[where vs = "[VB b, VU i, VU n]"]) (simp_all add: pure_ops_def avm_op_def slice_def)

lemma built_evalOnce:
  assumes "sval ev K \<sigma> e v" and "covers K s"
    and "\<And>e' s'. sval ev K \<sigma> e' v \<Longrightarrow> covers K s' \<Longrightarrow> wtypeOf e' = wtypeOf e \<Longrightarrow>
      preEffects s' = preEffects s \<Longrightarrow> Q e' s'"
  shows "built (makeEvalOnce e) s Q"
proof (cases "duplicableLeaf e")
  case True
  with assms show ?thesis by (simp add: makeEvalOnce_def)
next
  case False
  have "(e, singleEvalId s + 1) \<in> K" using assms(2) by (simp add: covers_def)
  with assms(1) have "sval ev K \<sigma> (SingleEvaluation (wtypeOf e) e (singleEvalId s + 1)) v"
    by (rule sval_single)
  with False assms(2,3) show ?thesis by (simp add: makeEvalOnce_def makeSingleEvaluation_def)
qed

lemma built_extractLastN:
  assumes "sbytes ev K \<sigma> e b" and "n \<le> length b" and "length b \<le> 4096" and "covers K s"
    and "\<And>e' s'. sbytes ev K \<sigma> e' (drop (length b - n) b) \<Longrightarrow> covers K s' \<Longrightarrow>
      preEffects s' = preEffects s \<Longrightarrow> wtypeOf e' = bytesType \<Longrightarrow> Q e' s'"
  shows "built (makeExtractLastN e n) s Q"
  unfolding makeExtractLastN_def built_bind
proof (rule built_evalOnce[OF assms(1,4)])
  fix e' s' assume e': "sbytes ev K \<sigma> e' b" "covers K s'" "preEffects s' = preEffects s"
  have n: "su64 ev K \<sigma> (makeIntegerConstant (dec_of_nat n) uint64Type) n"
    using su64_const[of n K \<sigma>] assms(2,3) by (simp add: makeIntegerConstantU64_def)
  have off: "su64 ev K \<sigma> (UInt64BinaryOperation uint64Type (makeLen e') U64Sub
      (makeIntegerConstant (dec_of_nat n) uint64Type)) (length b - n)"
    by (rule sval_u64_bin[OF su64_len[OF e'(1)] n]) (simp add: assms(2))
  from sbytes_extract3[OF e'(1) off n] assms(2) e'(2,3)
  show "built (let nStr = dec_of_nat n; offset = UInt64BinaryOperation uint64Type (makeLen e') U64Sub
      (makeIntegerConstant nStr uint64Type) in ret (makeIntrinsicCall ''extract3'' bytesType []
        [e', offset, makeIntegerConstant nStr uint64Type])) s' Q"
    by (auto simp: Let_def makeIntrinsicCall_def intro!: assms(5))
qed

lemma built_leftPadToN:
  assumes "sbytes ev K \<sigma> e b" and "n + length b \<le> 4096" and "covers K s"
    and "\<And>e' s'. sbytes ev K \<sigma> e' (be_fixed n (be_nat b)) \<Longrightarrow> covers K s' \<Longrightarrow>
      preEffects s' = preEffects s \<Longrightarrow> Q e' s'"
  shows "built (makeLeftPadToN e n) s Q"
  unfolding makeLeftPadToN_def built_bind
proof (rule built_evalOnce[OF sbytes_leftPad[OF assms(1,2)] assms(3)])
  let ?b = "replicate n 0 @ b"
  fix e' s' assume e': "sbytes ev K \<sigma> e' ?b" "covers K s'" "preEffects s' = preEffects s"
  have n: "su64 ev K \<sigma> (makeIntegerConstantU64 n uint64Type) n"
    using su64_const[of n K \<sigma>] assms(2) by simp
  have off: "su64 ev K \<sigma> (makeUInt64BinOp (makeLen e') U64Sub (makeIntegerConstantU64 n uint64Type)) (length ?b - n)"
    unfolding makeUInt64BinOp_def by (rule sval_u64_bin[OF su64_len[OF e'(1)] n]) simp
  have "drop (length b) ?b = be_fixed n (be_nat b)" by (rule drop_pad)
  with sbytes_extract3[OF e'(1) off n] e'(2,3)
  show "built (let offset = makeUInt64BinOp (makeLen e') U64Sub (makeIntegerConstantU64 n uint64Type)
      in ret (makeIntrinsicCall ''extract3'' bytesType [] [e', offset, makeIntegerConstantU64 n uint64Type])) s' Q"
    by (auto simp: Let_def makeIntrinsicCall_def intro!: assms(4))
qed

lemma su64_biguintToUInt64 [value_intros]:
  assumes "sbig ev K \<sigma> e n"
  shows "su64 ev K \<sigma> (makeBiguintToUInt64 e) (n mod 2 ^ 64)"
proof -
  from assms obtain b where b: "sbytes ev K \<sigma> e b" "be_nat b = n" "length b \<le> 64"
    by (auto simp: sbig_def)
  let ?c = "makeLeftPad (makeReinterpretCast e bytesType) 8"
  have c: "sbytes ev K \<sigma> ?c (replicate 8 0 @ b)"
    unfolding makeReinterpretCast_def using b by (intro value_intros) simp_all
  have off: "su64 ev K \<sigma> (IntrinsicCall uint64Type ''-'' []
      [makeLen ?c, makeIntegerConstant ''8'' uint64Type]) (length b)"
    by (rule sval_op[where vs = "[VU (8 + length b), VU 8]"])
       (use su64_len[OF c] in \<open>simp_all add: pure_ops_def avm_op_def makeIntegerConstant_def sval_int64\<close>)
  have "be_nat (drop (length b) (replicate 8 0 @ b)) = n mod 2 ^ 64"
    by (simp only: drop_pad be_nat_be_fixed b) simp
  then show ?thesis
    unfolding makeBiguintToUInt64_def Let_def makeExtractUInt64_def makeIntrinsicCall_def
    by (intro sval_op[where vs = "[VB (replicate 8 0 @ b), VU (length b)]"])
       (use c off in \<open>simp_all add: pure_ops_def avm_op_def slice_def\<close>)
qed

lemma built_cast_biguint:
  assumes "snum ev K \<sigma> e n" and "covers K s"
    and "\<And>e' s'. sbig ev K \<sigma> e' n \<Longrightarrow> wtypeOf e' = biguintType \<Longrightarrow> covers K s' \<Longrightarrow>
      preEffects s' = preEffects s \<Longrightarrow> Q e' s'"
  shows "built (implicitNumericCast e biguintType) s Q"
proof (cases "wtypeOf e = biguintType")
  case True
  with assms show ?thesis
    by (simp add: implicitNumericCast_def structurallyEquivalent_eq snum_def)
next
  case False
  with assms(1) have "wtypeOf e = uint64Type" "sbig ev K \<sigma> (makeAsBiguint (makeItob e)) n"
    by (auto simp: snum_def intro: sbig_itob)
  with assms(2,3) show ?thesis
    by (simp add: implicitNumericCast_def structurallyEquivalent_eq makeAsBiguint_def makeReinterpretCast_def)
qed

lemma sbytes_pad_cast:
  "sbig ev K \<sigma> e n \<Longrightarrow> m \<le> 4000 \<Longrightarrow>
   \<exists>b. sbytes ev K \<sigma> (makeLeftPad (makeAsBytes e) m) (replicate m 0 @ b) \<and> be_nat b = n \<and> length b \<le> 64"
  unfolding sbig_def makeAsBytes_def makeReinterpretCast_def
  by (elim exE conjE, intro exI conjI, erule sbytes_leftPad[OF sval_cast]) simp_all

lemma built_cast_uint64:
  assumes "snum ev K \<sigma> e n" and "covers K s"
    and "\<And>e' s'. su64 ev K \<sigma> e' (n mod 2 ^ 64) \<Longrightarrow> wtypeOf e' = uint64Type \<Longrightarrow> covers K s' \<Longrightarrow>
      preEffects s' = preEffects s \<Longrightarrow> Q e' s'"
  shows "built (implicitNumericCast e uint64Type) s Q"
proof (cases "wtypeOf e = uint64Type")
  case True
  with assms(1) have "su64 ev K \<sigma> e (n mod 2 ^ 64)" by (simp add: snum_def)
  with True assms(2,3) show ?thesis
    by (simp add: implicitNumericCast_def structurallyEquivalent_eq)
next
  case False
  with assms(1) have t: "wtypeOf e = biguintType" and n: "sbig ev K \<sigma> e n" by (auto simp: snum_def)
  from sbytes_pad_cast[OF n, of 8] obtain b where
    b: "sbytes ev K \<sigma> (makeLeftPad (makeAsBytes e) 8) (replicate 8 0 @ b)" "be_nat b = n" "length b \<le> 64"
    by auto
  have "built (makeExtractLastN (makeLeftPad (makeAsBytes e) 8) 8) s
      (\<lambda>low s'. Q (makeBtoi low None) s')"
  proof (rule built_extractLastN[OF b(1) _ _ assms(2)])
    fix e' s' assume e': "sbytes ev K \<sigma> e' (drop (length (replicate 8 (0::byte) @ b) - 8) (replicate 8 0 @ b))"
      "covers K s'" "preEffects s' = preEffects s"
    have "sbytes ev K \<sigma> e' (be_fixed 8 n)"
      using e'(1) drop_pad[of b 8] b(2) by simp
    from su64_btoi[OF this, of None] have "su64 ev K \<sigma> (makeBtoi e' None) (n mod 2 ^ 64)"
      by (simp add: be_nat_be_fixed)
    with e' show "Q (makeBtoi e' None) s'"
      by (intro assms(3)) (simp_all add: makeBtoi_def makeIntrinsicCall_def)
  qed (use b(3) in simp_all)
  with t show ?thesis by (simp add: implicitNumericCast_def structurallyEquivalent_eq)
qed

lemma cast_biguint_eval:
  assumes "ev \<sigma> e = Some (v, \<sigma>1)" and "num_val (wtypeOf e) v n"
  obtains e' b where "implicitNumericCast e biguintType = ret e'" and "ev \<sigma> e' = Some (VB b, \<sigma>1)"
    and "be_nat b = n" and "length b \<le> 64"
proof (cases "wtypeOf e = biguintType")
  case True
  with assms obtain b where "v = VB b" "be_nat b = n" "length b \<le> 64" by (cases v) auto
  with True assms(1) show thesis
    by (intro that[of e b]) (simp_all add: implicitNumericCast_def structurallyEquivalent_eq)
next
  case False
  with assms(2) have v: "wtypeOf e = uint64Type" "v = VU n" "n < 2 ^ 64" by (cases v; simp)+
  have "ev \<sigma> (makeAsBiguint (makeItob e)) = Some (VB (be_fixed 8 n), \<sigma>1)"
    by (simp add: node_defs sem_cast sem_op pure_ops_def avm_op_def assms(1) v)
  with v show thesis
    by (intro that[of "makeAsBiguint (makeItob e)" "be_fixed 8 n"])
       (simp_all add: implicitNumericCast_def structurallyEquivalent_eq be_nat_be_fixed)
qed

text \<open>Reading a temporary that holds a big integer.\<close>

lemma sbig_temp [value_intros]:
  "vars \<sigma> x = Some (VB b) \<Longrightarrow> be_nat b = n \<Longrightarrow> length b \<le> 64 \<Longrightarrow>
   sbig ev K \<sigma> (VarExpression t x) n"
  using sbigI[OF sval_var] by blast

lemma sbig_decimal [value_intros]:
  "n < 2 ^ 512 \<Longrightarrow> sbig ev K \<sigma> (IntegerConstant biguintType (dec_of_nat n)) n"
  by (rule sbig_int) simp_all

lemma sbig_eval:
  assumes "sbig ev {} \<sigma> e n"
  obtains b where "ev \<sigma> e = Some (VB b, \<sigma>)" and "be_nat b = n" and "length b \<le> 64"
  using assms by (auto simp: sbig_def sval_empty)

lemma big_const_eval:
  "n < 2 ^ 512 \<Longrightarrow> ev \<sigma> (IntegerConstant biguintType (dec_of_nat n)) = Some (VB (be_min n), \<sigma>)"
  by (rule sem_bigint) simp_all

lemma mask_eval:
  assumes "ev \<sigma> e = Some (VB b, \<sigma>1)" and "length b \<le> 64" and "bits < 256"
  obtains m where
    "ev \<sigma> (makeBigUIntBinOp e BigBitAnd (makeIntegerConstant (dec_of_nat (2 ^ bits - 1)) biguintType))
       = Some (VB m, \<sigma>1)"
    and "be_nat m = be_nat b mod 2 ^ bits" and "length m \<le> 64"
proof -
  have c: "(2::nat) ^ bits - 1 < 2 ^ 512"
    by (rule le_less_trans[OF diff_le_self pow2_512]) (use assms(3) in simp)
  let ?m = "bytes_bitop (AND) b (be_min (2 ^ bits - 1))"
  have "ev \<sigma> (makeBigUIntBinOp e BigBitAnd (makeIntegerConstant (dec_of_nat (2 ^ bits - 1)) biguintType))
       = Some (VB ?m, \<sigma>1)"
    unfolding makeBigUIntBinOp_def makeIntegerConstant_def sem_big bin_eval_def
    by (simp add: assms(1) big_const_eval[OF c])
  moreover have "be_nat ?m = be_nat b mod 2 ^ bits"
    by (simp only: be_nat_bytes_and be_nat_be_min nat_and_mask)
  moreover have "length ?m \<le> 64" using assms(2) length_be_min64[OF c] by simp
  ultimately show thesis by (rule that)
qed

lemma signExtend256_eval:
  assumes "0 < bits" "bits < 256"
    and "ev \<sigma> value = Some (v, \<sigma>1)" and "num_val (wtypeOf value) v n"
  shows "built (signExtendToUint256 value bits) s (\<lambda>e' s'. \<exists>b x w.
    ev \<sigma> e' = Some (VB b, bind_var x w \<sigma>1) \<and> length b \<le> 64 \<and>
    be_nat b = twos 256 (signed_of bits (n mod 2 ^ bits)))"
proof -
  from cast_biguint_eval[OF assms(3,4)] obtain p b where p: "implicitNumericCast value biguintType = ret p"
    "ev \<sigma> p = Some (VB b, \<sigma>1)" "be_nat b = n" "length b \<le> 64" by metis
  from mask_eval[OF p(2,4) assms(2)] obtain m where
    m: "ev \<sigma> (makeBigUIntBinOp p BigBitAnd (makeIntegerConstant (dec_of_nat (2 ^ bits - 1)) biguintType))
       = Some (VB m, \<sigma>1)" "be_nat m = n mod 2 ^ bits" "length m \<le> 64"
    unfolding p(3) by metis
  let ?x = "''__signext_tmp_'' @ dec_of_nat (counters s ''TypeCoercion.s_signExtTempId'' + 1)"
  let ?\<sigma> = "bind_var ?x (VB m) \<sigma>1"
  let ?r = "VarExpression biguintType ?x" and ?k = "\<lambda>n. IntegerConstant biguintType (dec_of_nat n)"
  let ?v = "n mod 2 ^ bits" and ?off = "2 ^ 256 - 2 ^ bits :: nat"
  have pw: "(2::nat) ^ bits < 2 ^ 256" using assms(2) by (intro power_strict_increasing) simp_all
  have v: "?v < 2 ^ bits" by simp
  then have s: "?v + ?off < 2 ^ 512" using pw pow2_512[of 256] by linarith
  have off: "?off < 2 ^ 512" using pow2_512[of 256] by linarith
  have r: "sbig ev {} ?\<sigma> ?r ?v" by (rule sbig_temp[of _ _ m]) (simp_all add: m)
  have c: "sbool ev {} ?\<sigma> (NumericComparisonExpression boolType ?r Gte (?k (2 ^ (bits - 1)))) (num_cmp Gte ?v (2 ^ (bits - 1)))"
    by (rule sval_cmp_big[OF r sbig_decimal]) (rule pow2_512, use assms(2) in simp)
  have "sbig ev {} ?\<sigma> (ConditionalExpression biguintType (NumericComparisonExpression boolType ?r Gte (?k (2 ^ (bits - 1))))
      (BigUIntBinaryOperation biguintType ?r BigAdd (?k ?off)) ?r)
      (if num_cmp Gte ?v (2 ^ (bits - 1)) then ?v + ?off else ?v)"
    by (rule sbig_cond[OF c sbig_add[OF r sbig_decimal[OF off] s] r])
  also have "(if num_cmp Gte ?v (2 ^ (bits - 1)) then ?v + ?off else ?v) = twos 256 (signed_of bits ?v)"
    using twos_extend[OF assms(1) _ v, of 256] assms(2) by auto
  finally obtain c where "ev ?\<sigma> (ConditionalExpression biguintType (NumericComparisonExpression boolType ?r Gte
      (?k (2 ^ (bits - 1)))) (BigUIntBinaryOperation biguintType ?r BigAdd (?k ?off)) ?r) = Some (VB c, ?\<sigma>)"
    "be_nat c = twos 256 (signed_of bits ?v)" "length c \<le> 64" by (rule sbig_eval)
  with m(1) assms(1,2) pw show ?thesis
    unfolding signExtendToUint256_def p(1) Let_def
    by (auto simp add: u256_pow2_less u256_sub_one node_defs sem_comma sem_assign)
qed

lemma signExtend64_eval:
  assumes "0 < bits" "bits < 64" and "ev \<sigma> value = Some (VU n, \<sigma>1)"
  shows "built (signExtendToUint64 value bits) s (\<lambda>e' s'. \<exists>x w.
    ev \<sigma> e' = Some (VU (twos 64 (signed_of bits (n mod 2 ^ bits))), bind_var x w \<sigma>1))"
proof -
  let ?x = "''__signext64_tmp_'' @ dec_of_nat (counters s ''TypeCoercion.s_signExt64TempId'' + 1)"
  let ?v = "n mod 2 ^ bits" and ?off = "2 ^ 64 - 2 ^ bits :: nat"
  let ?\<sigma> = "bind_var ?x (VU ?v) \<sigma>1"
  let ?r = "VarExpression uint64Type ?x" and ?k = "\<lambda>n. IntegerConstant uint64Type (dec_of_nat n)"
  have pw: "(2::nat) ^ bits < 2 ^ 64" using assms(2) by (intro power_strict_increasing) simp_all
  have pw1: "(2::nat) ^ (bits - 1) < 2 ^ 64" using assms(2) by (intro power_strict_increasing) simp_all
  have k: "su64 ev {} \<rho> (?k m) m" if "m < 2 ^ 64" for m \<rho> by (rule sval_int64) (use that in simp_all)
  have v: "?v < 2 ^ bits" by simp
  have m: "ev \<sigma> (UInt64BinaryOperation uint64Type value U64Mod (?k (2 ^ bits))) = Some (VU ?v, \<sigma>1)"
    using k[OF pw, of \<sigma>1] by (simp add: sem_u64 bin_eval_def assms(3) sval_empty)
  have r: "su64 ev {} ?\<sigma> ?r ?v" by (rule sval_var) simp
  let ?c = "NumericComparisonExpression boolType ?r Gte (?k (2 ^ (bits - 1)))"
  have c: "sbool ev {} ?\<sigma> ?c (num_cmp Gte ?v (2 ^ (bits - 1)))"
    by (rule sval_cmp_u64[OF r k[OF pw1]])
  have a: "su64 ev {} ?\<sigma> (UInt64BinaryOperation uint64Type ?r U64Add (?k ?off)) (?v + ?off)"
    by (rule sval_u64_bin[OF r k]) (use pw v in \<open>auto simp del: mod_less_divisor\<close>)
  have t: "twos 64 (signed_of bits ?v) = (if num_cmp Gte ?v (2 ^ (bits - 1)) then ?v + ?off else ?v)"
    using twos_extend[OF assms(1) _ v, of 64] assms(2) by auto
  have "su64 ev {} ?\<sigma> (ConditionalExpression uint64Type ?c
      (UInt64BinaryOperation uint64Type ?r U64Add (?k ?off)) ?r) (twos 64 (signed_of bits ?v))"
    unfolding t by (rule sval_cond[OF c]) (use a r in simp_all)
  with m assms(1,2) show ?thesis
    unfolding signExtendToUint64_def Let_def sval_empty
    by (auto simp add: node_defs sem_comma sem_assign)
qed

text \<open>The bounds check before a narrowing: bind the operand, then assert that it fits.\<close>

lemma narrow_check:
  assumes "ev \<sigma> e = Some (VB b, \<sigma>1)" and "length b \<le> 64"
  shows "execs ev \<sigma> [AssignmentStatement (VarExpression biguintType nm) e,
      ExpressionStatement (AssertExpression voidType (NumericComparisonExpression boolType
        (VarExpression biguintType nm) Lt (IntegerConstant biguintType ''18446744073709551616'')) msg True)]
      (if be_nat b < 2 ^ 64 then Normal (bind_var nm (VB b) \<sigma>1) else Trap)"
proof -
  let ?\<sigma> = "bind_var nm (VB b) \<sigma>1"
  let ?c = "NumericComparisonExpression boolType (VarExpression biguintType nm) Lt
    (IntegerConstant biguintType ''18446744073709551616'')"
  have v: "sbig ev {} ?\<sigma> (VarExpression biguintType nm) (be_nat b)"
    by (rule sbig_temp[of _ _ b]) (simp_all add: assms(2))
  have "sbig ev {} ?\<sigma> (IntegerConstant biguintType ''18446744073709551616'') (2 ^ 64)"
    by (rule sbig_int) simp_all
  from sval_cmp_big[OF v this, of boolType Lt]
  have "ev ?\<sigma> ?c = Some (VU (of_bool (be_nat b < 2 ^ 64)), ?\<sigma>)" unfolding sval_empty num_cmp.simps .
  then have "exec ev ?\<sigma> (ExpressionStatement (AssertExpression voidType ?c msg True))
      (if be_nat b < 2 ^ 64 then Normal ?\<sigma> else Trap)"
    by (auto simp: sem_assert intro: Expr ExprTrap)
  then have "execs ev ?\<sigma> [ExpressionStatement (AssertExpression voidType ?c msg True)]
      (if be_nat b < 2 ^ 64 then Normal ?\<sigma> else Trap)" by (simp only: execs_single)
  moreover have "exec ev \<sigma> (AssignmentStatement (VarExpression biguintType nm) e) (Normal ?\<sigma>)"
    by (rule Assign) (rule assms(1))
  ultimately show ?thesis by (rule execs_then[rotated])
qed

lemma narrow_value:
  assumes "vars \<sigma> nm = Some (VB b)" and "be_nat b < 2 ^ 64" and "length b \<le> 64"
    and "ids_free s \<sigma>"
  shows "built (implicitNumericCast (VarExpression biguintType nm) uint64Type) s
    (\<lambda>e' s'. preEffects s' = preEffects s \<and> (\<exists>c. ev \<sigma> e' = Some (VU (be_nat b), \<sigma>\<lparr>cache := c\<rparr>)))"
proof -
  let ?K = "{(e, i). singleEvalId s < i}"
  have ok: "ok_cache ev ?K \<sigma> (cache \<sigma>)" using assms(4) by (auto simp: ids_free_def intro: ok_cache_fresh)
  have "snum ev ?K \<sigma> (VarExpression biguintType nm) (be_nat b)"
    unfolding snum_def by (intro disjI1 conjI sbig_temp[of _ _ b]) (simp_all add: assms)
  then show ?thesis
  proof (rule built_cast_uint64)
    fix e' s'
    assume "su64 ev ?K \<sigma> e' (be_nat b mod 2 ^ 64)" "preEffects s' = preEffects s"
    with sval_eval[OF this(1) ok] assms(2)
    show "preEffects s' = preEffects s \<and> (\<exists>c. ev \<sigma> e' = Some (VU (be_nat b), \<sigma>\<lparr>cache := c\<rparr>))"
      by auto
  qed (simp add: covers_def)
qed

lemma narrow_correct:
  assumes "ev \<sigma> e = Some (VB b, \<sigma>1)" "length b \<le> 64" and "ids_free s \<sigma>1"
    and "run_state (implicitNumericCast (VarExpression biguintType nm) uint64Type)
      (s\<lparr>counters := cs, preEffects := preEffects s @ narrowStmts nm msg e\<rparr>) = (e', s')"
  shows "\<exists>checks. preEffects s' = preEffects s @ checks \<and>
    (if be_nat b < 2 ^ 64
     then \<exists>\<sigma>2 c. execs ev \<sigma> checks (Normal \<sigma>2) \<and> ev \<sigma>2 e' = Some (VU (be_nat b), \<sigma>2\<lparr>cache := c\<rparr>)
     else execs ev \<sigma> checks Trap)"
proof (intro exI conjI)
  let ?s = "s\<lparr>counters := cs, preEffects := preEffects s @ narrowStmts nm msg e\<rparr>"
  show "preEffects s' = preEffects s @ narrowStmts nm msg e"
    using built_run[OF cast_keeps_preEffects assms(4)] by simp
  have chk: "execs ev \<sigma> (narrowStmts nm msg e) (if be_nat b < 2 ^ 64 then Normal (bind_var nm (VB b) \<sigma>1) else Trap)"
    unfolding narrowStmts_def by (rule narrow_check[OF assms(1,2)])
  show "if be_nat b < 2 ^ 64
     then \<exists>\<sigma>2 c. execs ev \<sigma> (narrowStmts nm msg e) (Normal \<sigma>2) \<and> ev \<sigma>2 e' = Some (VU (be_nat b), \<sigma>2\<lparr>cache := c\<rparr>)
     else execs ev \<sigma> (narrowStmts nm msg e) Trap"
  proof (cases "be_nat b < 2 ^ 64")
    case True
    have free: "ids_free ?s (bind_var nm (VB b) \<sigma>1)" using assms(3) by (simp add: ids_free_def)
    from built_run[OF narrow_value[where b = b, OF _ True assms(2) free] assms(4)] True chk show ?thesis by auto
  qed (use chk in simp)
qed

end

section \<open>Properties\<close>

text \<open>
  (C2) Casts between the two integer representations: to \<open>biguint\<close> the value is unchanged, to
  \<open>uint64\<close> it is taken modulo \<open>2^64\<close>, whatever the operand's byte length (at most 64), and the
  result has the target type.
\<close>

theorem implicitNumericCast_value:
  assumes "avm ev" and "covers K s" and "snum ev K \<sigma> e n"
    and "target = uint64Type \<or> target = biguintType"
    and "run_state (implicitNumericCast e target) s = (e', s')"
  shows "wtypeOf e' = target \<and> snum ev K \<sigma> e' (if target = uint64Type then n mod 2 ^ 64 else n)"
proof (cases "target = uint64Type")
  case True
  have "built (implicitNumericCast e uint64Type) s
      (\<lambda>e' _. wtypeOf e' = uint64Type \<and> snum ev K \<sigma> e' (n mod 2 ^ 64))"
    by (rule avm.built_cast_uint64[OF assms(1,3,2)]) (simp add: snum_def)
  from built_run[OF this] True assms(5) show ?thesis by simp
next
  case False
  have "built (implicitNumericCast e biguintType) s (\<lambda>e' _. wtypeOf e' = biguintType \<and> snum ev K \<sigma> e' n)"
    by (rule avm.built_cast_biguint[OF assms(1,3,2)]) (simp add: snum_def)
  from built_run[OF this] False assms(4,5) show ?thesis by auto
qed

theorem implicitNumericCast_value_witness:
  "snum aeval UNIV (env_of [(''x'', VB [1, 0, 0, 0, 0, 0, 0, 0, 5])])
     (fst (run_state (implicitNumericCast (VarExpression biguintType ''x'') uint64Type) initialBst)) 5"
proof -
  let ?e = "VarExpression biguintType ''x''" and ?\<sigma> = "env_of [(''x'', VB [1, 0, 0, 0, 0, 0, 0, 0, 5])]"
  obtain e' s' where r: "run_state (implicitNumericCast ?e uint64Type) initialBst = (e', s')" by force
  have "snum aeval UNIV ?\<sigma> ?e (2 ^ 64 + 5)"
    by (auto simp: snum_def be_nat_def intro!: ref.sbig_temp)
  from implicitNumericCast_value[OF ref.avm_axioms _ this _ r] r show ?thesis
    by (simp add: covers_def)
qed

text \<open>
  (C3) \<open>signExtendToUint256\<close> reads the low \<open>bits\<close> bits of its operand as a signed number and
  returns its 256-bit two's complement.  The operand is evaluated exactly once, first, and may have
  effects; the only other change of state is the temporary.
\<close>

theorem signExtendToUint256_correct:
  assumes "avm ev" and "0 < bits" "bits < 256"
    and "ev \<sigma> value = Some (v, \<sigma>1)" and "num_val (wtypeOf value) v n"
    and "run_state (signExtendToUint256 value bits) s = (e', s')"
  shows "\<exists>b x w. ev \<sigma> e' = Some (VB b, bind_var x w \<sigma>1) \<and> length b \<le> 64 \<and>
    be_nat b = twos 256 (signed_of bits (n mod 2 ^ bits))"
  using built_run[OF avm.signExtend256_eval[OF assms(1-5)] assms(6)] .

theorem signExtendToUint256_correct_witness:
  "\<exists>b \<sigma>'. aeval (env_of [(''x'', VU (2 ^ 64 - 2))])
      (fst (run_state (signExtendToUint256 (VarExpression uint64Type ''x'') 8) initialBst)) = Some (VB b, \<sigma>') \<and>
    be_nat b = 2 ^ 256 - 2"
proof -
  let ?e = "VarExpression uint64Type ''x''" and ?\<sigma> = "env_of [(''x'', VU (2 ^ 64 - 2))]"
  obtain e' s' where r: "run_state (signExtendToUint256 ?e 8) initialBst = (e', s')" by force
  have "\<exists>b x w. aeval ?\<sigma> e' = Some (VB b, bind_var x w ?\<sigma>) \<and> length b \<le> 64 \<and>
      be_nat b = twos 256 (signed_of 8 ((2 ^ 64 - 2) mod 2 ^ 8))"
    by (rule signExtendToUint256_correct[where v = "VU (2 ^ 64 - 2)", OF ref.avm_axioms _ _ _ _ r]) simp_all
  with r show ?thesis by (auto simp: twos_def signed_of_def)
qed

text \<open>
  (C4) \<open>signExtendToUint64\<close> reads the low \<open>bits\<close> bits (fewer than 64) of its operand as a signed
  number and returns its 64-bit two's complement; an operand that is already sign-extended is
  unchanged.  No addition of the emitted code overflows.
\<close>

theorem signExtendToUint64_correct:
  assumes "avm ev" and "0 < bits" "bits < 64" and "ev \<sigma> value = Some (VU n, \<sigma>1)"
    and "run_state (signExtendToUint64 value bits) s = (e', s')"
  shows "\<exists>x w. ev \<sigma> e' = Some (VU (twos 64 (signed_of bits (n mod 2 ^ bits))), bind_var x w \<sigma>1)"
  using built_run[OF avm.signExtend64_eval[OF assms(1-4)] assms(5)] .

theorem signExtendToUint64_correct_witness:
  "\<exists>\<sigma>'. aeval (env_of [(''x'', VU 254)])
     (fst (run_state (signExtendToUint64 (VarExpression uint64Type ''x'') 8) initialBst)) = Some (VU (2 ^ 64 - 2), \<sigma>')"
proof -
  let ?e = "VarExpression uint64Type ''x''" and ?\<sigma> = "env_of [(''x'', VU 254)]"
  obtain e' s' where r: "run_state (signExtendToUint64 ?e 8) initialBst = (e', s')" by force
  have "\<exists>x w. aeval ?\<sigma> e' = Some (VU (twos 64 (signed_of 8 (254 mod 2 ^ 8))), bind_var x w ?\<sigma>)"
    by (rule signExtendToUint64_correct[OF ref.avm_axioms _ _ _ r]) simp_all
  with r show ?thesis by (auto simp: twos_def signed_of_def)
qed

text \<open>
  (C5) A wide array index is evaluated once and checked before it is narrowed: when it fits in 64
  bits the checks pass and the returned expression has its value; otherwise the checks trap, so the
  index is never truncated silently.
\<close>

theorem checkedIndexToUint64_correct:
  assumes "avm ev" and "wtypeOf idx = biguintType"
    and "ev \<sigma> idx = Some (VB b, \<sigma>1)" "length b \<le> 64" and "ids_free s \<sigma>1"
    and "run_state (checkedIndexToUint64 idx) s = (e', s')"
  shows "\<exists>checks. preEffects s' = preEffects s @ checks \<and>
    (if be_nat b < 2 ^ 64
     then \<exists>\<sigma>2 c. execs ev \<sigma> checks (Normal \<sigma>2) \<and> ev \<sigma>2 e' = Some (VU (be_nat b), \<sigma>2\<lparr>cache := c\<rparr>)
     else execs ev \<sigma> checks Trap)"
proof -
  let ?nm = "''__ckidx_'' @ dec_of_nat (counters s ''TypeCoercion.checkedIndex'')"
  let ?st = "narrowStmts ?nm ''array index out of bounds'' idx"
  let ?s = "s\<lparr>counters := (counters s)(''TypeCoercion.checkedIndex'' := counters s ''TypeCoercion.checkedIndex'' + 1),
      preEffects := preEffects s @ ?st\<rparr>"
  have r: "run_state (implicitNumericCast (VarExpression biguintType ?nm) uint64Type) ?s = (e', s')"
    using assms(6) unfolding checkedIndexToUint64_def assms(2) narrowStmts_def
    by (simp add: Let_def node_defs makeExpressionStatement_def builder_defs State_Monad.bind_def)
  show ?thesis
    using avm.narrow_correct[OF assms(1,3,4,5) r] by simp
qed

theorem checkedIndexToUint64_correct_witness:
  "(\<exists>\<sigma>2. execs aeval (env_of [(''i'', VB [7])])
      (preEffects (snd (run_state (checkedIndexToUint64 (VarExpression biguintType ''i'')) initialBst))) (Normal \<sigma>2))
   \<and> execs aeval (env_of [(''i'', VB [1, 0, 0, 0, 0, 0, 0, 0, 5])])
      (preEffects (snd (run_state (checkedIndexToUint64 (VarExpression biguintType ''i'')) initialBst))) Trap"
proof -
  let ?e = "VarExpression biguintType ''i''"
  obtain e' s' where r: "run_state (checkedIndexToUint64 ?e) initialBst = (e', s')" by force
  have free: "ids_free initialBst (env_of xs)" for xs by (simp add: ids_free_def)
  have a: "aeval (env_of [(''i'', VB [7])]) ?e = Some (VB [7], env_of [(''i'', VB [7])])" by simp
  have b: "aeval (env_of [(''i'', VB [1, 0, 0, 0, 0, 0, 0, 0, 5])]) ?e
      = Some (VB [1, 0, 0, 0, 0, 0, 0, 0, 5], env_of [(''i'', VB [1, 0, 0, 0, 0, 0, 0, 0, 5])])" by simp
  show ?thesis
    using checkedIndexToUint64_correct[OF ref.avm_axioms _ a _ free r]
      checkedIndexToUint64_correct[OF ref.avm_axioms _ b _ free r] r
    by (auto simp: be_nat_def initialBst_def)
qed

text \<open>
  The same for a transferred amount: an amount of \<open>2^64\<close> or more makes the transaction fail
  instead of sending the amount modulo \<open>2^64\<close>.
\<close>

theorem checkedAmountToUint64_correct:
  assumes "avm ev" and "wtypeOf amount = biguintType"
    and "ev \<sigma> amount = Some (VB b, \<sigma>1)" "length b \<le> 64" and "ids_free s \<sigma>1"
    and "run_state (checkedAmountToUint64 amount) s = (e', s')"
  shows "\<exists>checks. preEffects s' = preEffects s @ checks \<and>
    (if be_nat b < 2 ^ 64
     then \<exists>\<sigma>2 c. execs ev \<sigma> checks (Normal \<sigma>2) \<and> ev \<sigma>2 e' = Some (VU (be_nat b), \<sigma>2\<lparr>cache := c\<rparr>)
     else execs ev \<sigma> checks Trap)"
proof -
  let ?nm = "''__ckamt_'' @ dec_of_nat (counters s ''TypeCoercion.checkedAmount'')"
  let ?st = "narrowStmts ?nm ''transfer amount exceeds uint64 (AVM amounts are 64-bit)'' amount"
  let ?s = "s\<lparr>counters := (counters s)(''TypeCoercion.checkedAmount'' := counters s ''TypeCoercion.checkedAmount'' + 1),
      preEffects := preEffects s @ ?st\<rparr>"
  have r: "run_state (implicitNumericCast (VarExpression biguintType ?nm) uint64Type) ?s = (e', s')"
    using assms(6) unfolding checkedAmountToUint64_def assms(2) narrowStmts_def
    by (simp add: Let_def node_defs makeExpressionStatement_def builder_defs State_Monad.bind_def)
  show ?thesis
    using avm.narrow_correct[OF assms(1,3,4,5) r] by simp
qed

theorem checkedAmountToUint64_correct_witness:
  "execs aeval (env_of [(''a'', VB [1, 0, 0, 0, 0, 0, 0, 0, 5])])
      (preEffects (snd (run_state (checkedAmountToUint64 (VarExpression biguintType ''a'')) initialBst))) Trap"
proof -
  let ?e = "VarExpression biguintType ''a''"
  obtain e' s' where r: "run_state (checkedAmountToUint64 ?e) initialBst = (e', s')" by force
  have free: "ids_free initialBst (env_of xs)" for xs by (simp add: ids_free_def)
  have b: "aeval (env_of [(''a'', VB [1, 0, 0, 0, 0, 0, 0, 0, 5])]) ?e
      = Some (VB [1, 0, 0, 0, 0, 0, 0, 0, 5], env_of [(''a'', VB [1, 0, 0, 0, 0, 0, 0, 0, 5])])" by simp
  show ?thesis
    using checkedAmountToUint64_correct[OF ref.avm_axioms _ b _ free r] r
    by (auto simp: be_nat_def initialBst_def)
qed

end
