(* ===== verification/TwosComplement.thy ===== *)
theory TwosComplement
  imports Prelude "HOL-Library.Signed_Division"
begin

text \<open>
  Two's-complement arithmetic on numbers below \<open>2^n\<close>: what the unsigned operations emitted by the
  compiler compute on the signed readings, and when the sign tests it emits detect an overflow.
\<close>

declare One_nat_def [simp del]

lemma power2_half: "0 < n \<Longrightarrow> (2::'a::semiring_1) ^ n = 2 * 2 ^ (n - 1)"
  by (cases n) simp_all

definition in_range :: "nat \<Rightarrow> int \<Rightarrow> bool" where
  "in_range n x \<longleftrightarrow> - (2 ^ (n - 1)) \<le> x \<and> x < 2 ^ (n - 1)"

lemma twos_int: "twos n (int v) = v mod 2 ^ n"
  by (simp add: twos_def nat_mod_distrib nat_power_eq)

lemma twos_cong: "x mod 2 ^ n = y mod 2 ^ n \<Longrightarrow> twos n x = twos n y"
  by (simp add: twos_def)

lemma signed_of_cong: "signed_of n v mod 2 ^ n = int v mod 2 ^ n"
  by (simp add: signed_of_def)

lemma twos_signed_add: "twos n (signed_of n a + signed_of n b) = (a + b) mod 2 ^ n"
proof -
  have "(signed_of n a + signed_of n b) mod 2 ^ n = int (a + b) mod 2 ^ n"
    by (metis mod_add_eq of_nat_add signed_of_cong)
  then show ?thesis by (metis twos_cong twos_int)
qed

lemma twos_signed_mult: "twos n (signed_of n a * signed_of n b) = (a * b) mod 2 ^ n"
proof -
  have "(signed_of n a * signed_of n b) mod 2 ^ n = int (a * b) mod 2 ^ n"
    by (metis mod_mult_eq of_nat_mult signed_of_cong)
  then show ?thesis by (metis twos_cong twos_int)
qed

lemma twos_signed_diff:
  assumes "b \<le> 2 ^ n"
  shows "twos n (signed_of n a - signed_of n b) = (a + 2 ^ n - b) mod 2 ^ n"
proof -
  have "int (a + 2 ^ n - b) = int a - int b + 2 ^ n" using assms by (simp add: of_nat_diff)
  then have "int (a + 2 ^ n - b) mod 2 ^ n = (int a - int b) mod 2 ^ n" by simp
  also have "\<dots> = (signed_of n a - signed_of n b) mod 2 ^ n"
    by (metis mod_diff_eq signed_of_cong)
  finally show ?thesis by (metis twos_cong twos_int)
qed

lemma twos_minus:
  assumes "q \<le> 2 ^ n"
  shows "twos n (- int q) = (if q = 0 then 0 else 2 ^ n - q)"
proof (cases "q = 0")
  case False
  have "twos n (- int q) = twos n (int (2 ^ n - q))"
    using assms by (intro twos_cong) (simp add: of_nat_diff minus_mod_self1)
  also have "\<dots> = 2 ^ n - q" unfolding twos_int using False by (intro mod_less) simp
  finally show ?thesis using False by simp
qed (simp add: twos_def)

lemma signed_of_twos:
  assumes "0 < n" "in_range n x"
  shows "signed_of n (twos n x) = x"
proof (cases "0 \<le> x")
  case True
  then obtain v where v: "x = int v" using nonneg_int_cases by blast
  with assms(2) have "v < 2 ^ (n - 1)" by (simp only: in_range_def int_less_power2)
  moreover from this have "v < 2 ^ n" using power2_half[OF assms(1), where 'a = nat] by linarith
  ultimately show ?thesis by (simp add: v twos_int signed_of_def)
next
  case False
  then have "x < 0" by simp
  then obtain q where q: "x = - int q" "0 < q" by (rule neg_int_cases)
  with assms(2) have "int q \<le> 2 ^ (n - 1)" by (simp add: in_range_def)
  then have le: "q \<le> 2 ^ (n - 1)" by (metis of_nat_le_iff of_nat_numeral of_nat_power)
  have n: "(2::nat) ^ n = 2 * 2 ^ (n - 1)" by (rule power2_half[OF assms(1)])
  with le q have "twos n x = 2 ^ n - q" using twos_minus[of q n] by simp
  moreover have "\<not> 2 ^ n - q < 2 ^ (n - 1)" "q \<le> 2 ^ n" using n le by linarith+
  ultimately show ?thesis by (simp add: q signed_of_def of_nat_diff)
qed

section \<open>Overflow tests\<close>

abbreviation neg_at :: "nat \<Rightarrow> nat \<Rightarrow> bool" where
  "neg_at n v \<equiv> \<not> v < 2 ^ (n - 1)"

lemma mod_double:
  fixes a :: nat
  shows "a < 4 * h \<Longrightarrow> a mod (2 * h) = (if a < 2 * h then a else a - 2 * h)"
  by (simp add: le_mod_geq)

lemma half_signed:
  assumes "0 < n"
  obtains h :: nat where "(2::nat) ^ n = 2 * h" "(2::nat) ^ (n - 1) = h" "(2::int) ^ (n - 1) = int h"
    "(2::int) ^ n = 2 * int h" "\<And>v. signed_of n v = (if v < h then int v else int v - 2 * int h)"
proof
  have n: "(2::nat) ^ n = 2 * 2 ^ (n - 1)" "(2::int) ^ n = 2 * 2 ^ (n - 1)"
    using power2_half[OF assms] by blast+
  then show "(2::nat) ^ n = 2 * 2 ^ (n - 1)" "(2::int) ^ n = 2 * int (2 ^ (n - 1))" by simp_all
  show "signed_of n v = (if v < 2 ^ (n - 1) then int v else int v - 2 * int (2 ^ (n - 1)))" for v
    using n by (simp add: signed_of_def)
qed simp_all

lemma add_overflow_test:
  assumes "0 < n" "a < 2 ^ n" "b < 2 ^ n"
  shows "neg_at n a \<noteq> neg_at n b \<or> neg_at n a = neg_at n ((a + b) mod 2 ^ n) \<longleftrightarrow>
    in_range n (signed_of n a + signed_of n b)"
proof -
  from half_signed[OF assms(1)] obtain h where h: "(2::nat) ^ n = 2 * h" "(2::nat) ^ (n - 1) = h"
    "(2::int) ^ (n - 1) = int h" "\<And>v. signed_of n v = (if v < h then int v else int v - 2 * int h)" by metis
  have "(a + b) mod (2 * h) = (if a + b < 2 * h then a + b else a + b - 2 * h)"
    using assms(2,3) by (intro mod_double) (simp add: h)
  with assms(2,3) show ?thesis unfolding h in_range_def
    by (cases "a < h"; cases "b < h") (simp_all, linarith+)
qed

lemma sub_overflow_test:
  assumes "0 < n" "a < 2 ^ n" "b < 2 ^ n"
  shows "neg_at n a = neg_at n b \<or> neg_at n a = neg_at n ((a + 2 ^ n - b) mod 2 ^ n) \<longleftrightarrow>
    in_range n (signed_of n a - signed_of n b)"
proof -
  from half_signed[OF assms(1)] obtain h where h: "(2::nat) ^ n = 2 * h" "(2::nat) ^ (n - 1) = h"
    "(2::int) ^ (n - 1) = int h" "\<And>v. signed_of n v = (if v < h then int v else int v - 2 * int h)" by metis
  have "(a + 2 * h - b) mod (2 * h) = (if b \<le> a then a - b else a + 2 * h - b)"
    using assms(2,3) mod_double[of "a + 2 * h - b" h] by (auto simp: h)
  with assms(2,3) show ?thesis unfolding h in_range_def
    by (cases "a < h"; cases "b < h") (simp_all, linarith+)
qed

definition mag :: "nat \<Rightarrow> nat \<Rightarrow> nat" where
  "mag n v = (if neg_at n v then 2 ^ n - v else v)"

lemma int_mag:
  assumes "0 < n" "v < 2 ^ n"
  shows "int (mag n v) = \<bar>signed_of n v\<bar>"
  using assms(2) by (rule_tac half_signed[OF assms(1)]) (auto simp: mag_def of_nat_diff)

lemma mag_le: "0 < n \<Longrightarrow> v < 2 ^ n \<Longrightarrow> mag n v \<le> 2 ^ (n - 1)"
  using power2_half[of n, where 'a = nat] by (auto simp: mag_def)

lemma signed_of_mag:
  assumes "0 < n" "v < 2 ^ n"
  shows "signed_of n v = (if neg_at n v then - int (mag n v) else int (mag n v))"
  using assms(2) by (rule_tac half_signed[OF assms(1)]) (auto simp: mag_def of_nat_diff)

lemma mult_overflow_test:
  assumes "0 < n" "a < 2 ^ n" "b < 2 ^ n"
  shows "b = 0 \<or> (if neg_at n a = neg_at n b then mag n a * mag n b < 2 ^ (n - 1)
      else \<not> 2 ^ (n - 1) < mag n a * mag n b) \<longleftrightarrow>
    in_range n (signed_of n a * signed_of n b)"
proof -
  have z: "signed_of n b = 0" if "b = 0" using that by (simp add: signed_of_def)
  have p: "(0::int) < 2 ^ (n - 1)" by simp
  have s: "signed_of n a * signed_of n b =
      (if neg_at n a = neg_at n b then int (mag n a * mag n b) else - int (mag n a * mag n b))"
    by (simp add: signed_of_mag[OF assms(1,2)] signed_of_mag[OF assms(1,3)])
  have i: "(mag n a * mag n b < 2 ^ (n - 1)) = (int (mag n a * mag n b) < 2 ^ (n - 1))"
    "(2 ^ (n - 1) < mag n a * mag n b) = (2 ^ (n - 1) < int (mag n a * mag n b))"
    by (metis of_nat_less_iff of_nat_numeral of_nat_power)+
  show ?thesis
  proof (cases "b = 0")
    case True
    with z show ?thesis by (simp add: in_range_def)
  next
    case False
    have nn: "0 \<le> int (mag n a * mag n b)" by (rule of_nat_0_le_iff)
    from False nn p show ?thesis unfolding s i in_range_def
      by (cases "neg_at n a = neg_at n b") (simp_all only: if_True if_False simp_thms, linarith+)
  qed
qed

section \<open>Truncating division\<close>

lemma twos_sdiv:
  assumes "0 < n" "a < 2 ^ n" "b < 2 ^ n"
  shows "twos n (signed_of n a sdiv signed_of n b) =
    (if neg_at n a \<noteq> neg_at n b \<and> mag n a div mag n b \<noteq> 0 then 2 ^ n - mag n a div mag n b
     else mag n a div mag n b)"
proof -
  let ?q = "mag n a div mag n b"
  have le: "?q \<le> 2 ^ (n - 1)" using mag_le[OF assms(1,2)] by (rule order_trans[OF div_le_dividend])
  have lt: "(2::nat) ^ (n - 1) < 2 ^ n" using assms(1) by simp
  have s: "signed_of n a sdiv signed_of n b = (if neg_at n a = neg_at n b then int ?q else - int ?q)"
    unfolding signed_of_mag[OF assms(1,2)] signed_of_mag[OF assms(1,3)]
    by (auto simp: signed_divide_int_def sgn_if zdiv_int)
  show ?thesis
  proof (cases "neg_at n a = neg_at n b")
    case True
    with le_less_trans[OF le lt] show ?thesis by (simp add: s twos_int)
  next
    case False
    from le lt have "?q \<le> 2 ^ n" by linarith
    from twos_minus[OF this] False show ?thesis by (auto simp: s)
  qed
qed

lemma twos_smod:
  assumes "0 < n" "a < 2 ^ n" "b < 2 ^ n" "b \<noteq> 0"
  shows "twos n (signed_of n a smod signed_of n b) =
    (if neg_at n a \<and> mag n a mod mag n b \<noteq> 0 then 2 ^ n - mag n a mod mag n b
     else mag n a mod mag n b)"
proof -
  let ?q = "mag n a mod mag n b"
  have le: "?q \<le> 2 ^ (n - 1)" using mag_le[OF assms(1,2)] by (rule order_trans[OF mod_less_eq_dividend])
  have lt: "(2::nat) ^ (n - 1) < 2 ^ n" using assms(1) by simp
  have s: "signed_of n a smod signed_of n b = (if neg_at n a then - int ?q else int ?q)"
    unfolding signed_of_mag[OF assms(1,2)] signed_of_mag[OF assms(1,3)]
    by (auto simp: smod_int_alt_def sgn_if zmod_int)
  show ?thesis
  proof (cases "neg_at n a")
    case False
    with le_less_trans[OF le lt] show ?thesis by (simp add: s twos_int)
  next
    case True
    from le lt have "?q \<le> 2 ^ n" by linarith
    from twos_minus[OF this] True show ?thesis by (auto simp: s)
  qed
qed

section \<open>Arithmetic shift\<close>

text \<open>Filling the \<open>k\<close> vacated bits with ones is floor division by \<open>2^k\<close>.\<close>

lemma twos_sar:
  assumes "0 < n" "v < 2 ^ n" "k \<le> n" "neg_at n v"
  shows "twos n (signed_of n v div 2 ^ k) = v div 2 ^ k + (2 ^ n - 2 ^ (n - k))"
proof -
  have pw: "(2::nat) ^ n = 2 ^ (n - k) * 2 ^ k" using assms(3) by (simp flip: power_add)
  have le: "(2::nat) ^ (n - k) \<le> 2 ^ n" by (rule power_increasing) simp_all
  have vd: "v div 2 ^ k < 2 ^ (n - k)" using assms(2) by (simp add: pw less_mult_imp_div_less)
  have "signed_of n v = int v - 2 ^ (n - k) * 2 ^ k"
    using assms(4) pw by (simp add: signed_of_def) (metis of_nat_mult of_nat_numeral of_nat_power)
  moreover have "(int v - 2 ^ (n - k) * 2 ^ k) div 2 ^ k = int v div 2 ^ k - 2 ^ (n - k)"
    using div_mult_self1[of "2 ^ k" "int v" "- (2 ^ (n - k))"] by (simp add: algebra_simps)
  ultimately have "signed_of n v div 2 ^ k = int (v div 2 ^ k) - 2 ^ (n - k)"
    by (simp add: zdiv_int)
  also have "\<dots> = - int (2 ^ (n - k) - v div 2 ^ k)" using vd by (simp add: of_nat_diff)
  finally have s: "signed_of n v div 2 ^ k = - int (2 ^ (n - k) - v div 2 ^ k)" .
  have "2 ^ (n - k) - v div 2 ^ k \<le> 2 ^ n" using le by linarith
  from twos_minus[OF this] vd le show ?thesis unfolding s by auto
qed

lemma signed_div_pos:
  assumes "0 < n" "v < 2 ^ n" "\<not> neg_at n v"
  shows "twos n (signed_of n v div 2 ^ k) = v div 2 ^ k"
proof -
  have "signed_of n v div 2 ^ k = int (v div 2 ^ k)" using assms(3) by (simp add: signed_of_def zdiv_int)
  moreover have "v div 2 ^ k < 2 ^ n" using assms(2) by (rule le_less_trans[OF div_le_dividend])
  ultimately show ?thesis by (simp add: twos_int)
qed

lemma or_high_ones:
  assumes "a < 2 ^ k" "k \<le> n"
  shows "(a::nat) OR (2 ^ n - 2 ^ k) = a + (2 ^ n - 2 ^ k)"
proof -
  have "(2::nat) ^ n - 2 ^ k = push_bit k (mask (n - k))"
    using assms(2) by (simp add: push_bit_eq_mult mask_eq_exp_minus_1 diff_mult_distrib flip: power_add)
  moreover have hi: "\<not> bit a m" if "k \<le> m" for m
  proof -
    have "a < 2 ^ m" using less_le_trans[OF assms(1) power_increasing[OF that, of "2::nat"]] by simp
    then show ?thesis by (simp add: bit_iff_odd)
  qed
  have "a AND push_bit k (mask (n - k)) = 0"
  proof (rule bit_eqI)
    fix m show "bit (a AND push_bit k (mask (n - k))) m = bit 0 m"
      using hi[of m] by (auto simp: bit_and_iff bit_push_bit_iff)
  qed
  ultimately show ?thesis by (simp add: disjunctive_add_eq_or)
qed

text \<open>Shifting a signed \<open>n\<close>-bit value by \<open>n - 1\<close> or more leaves only its sign.\<close>

lemma signed_div_saturates:
  assumes "0 < n" "v < 2 ^ n" "n - 1 \<le> k"
  shows "signed_of n v div 2 ^ k = (if neg_at n v then - 1 else 0)"
proof -
  note r = signed_of_range[OF assms(1,2)]
  have "(2::int) ^ (n - 1) \<le> 2 ^ k" using assms(3) by (intro power_increasing) simp_all
  with r have b: "- (2 ^ k) \<le> signed_of n v" "signed_of n v < 2 ^ k" by linarith+
  show ?thesis
  proof (cases "neg_at n v")
    case True
    have "int v < 2 ^ n" using assms(2) by (simp only: int_less_power2)
    with True have "signed_of n v < 0" by (simp add: signed_of_def)
    with b have "(signed_of n v + 2 ^ k) div 2 ^ k = 0" by (intro div_pos_pos_trivial) simp_all
    moreover have "(signed_of n v + 2 ^ k) div 2 ^ k = signed_of n v div 2 ^ k + 1" by (rule div_add_self2) simp
    ultimately show ?thesis using True by simp
  next
    case False
    with b show ?thesis by (simp add: signed_of_def)
  qed
qed

end
