(* ===== verification/BigUIntMath.thy ===== *)
theory BigUIntMath
  imports Coercion TwosComplement
begin

text \<open>
  256-bit and signed integer arithmetic (\<open>src/src/builder/sol-eb/BigUIntMathHelpers.cpp\<close>).
  Each builder returns the expression it builds; what it queues in front of the current statement
  goes to \<open>preEffects\<close>.
\<close>

section \<open>Definitions\<close>

datatype BuilderBinaryOp =
    OpAdd | OpSub | OpMult | OpDiv | OpFloorDiv | OpMod | OpPow | OpLShift | OpRShift
  | OpBitOr | OpBitXor | OpBitAnd

definition wrapMod256 :: "expr \<Rightarrow> expr" where
  "wrapMod256 e = makeBigUIntBinOp e BigMod makePow256"

definition promoteToBiguint :: "expr \<Rightarrow> expr" where
  "promoteToBiguint e =
     (if wtypeOf e = biguintType then e
      else case e of
        IntegerConstant _ v \<Rightarrow> makeIntegerConstant v biguintType
      | _ \<Rightarrow>
          if wtypeOf e = accountType \<or> kind (wtypeOf e) = KBytes
          then makeAsBiguint (if wtypeOf e = accountType then makeAsBytes e else e)
          else makeAsBiguint (makeItob e))"

definition shiftAmountToUint64 :: "expr \<Rightarrow> expr builder" where
  "shiftAmountToUint64 amount =
     (if wtypeOf amount \<noteq> biguintType then implicitNumericCast amount uint64Type
      else do {
        amt \<leftarrow> makeEvalOnce amount;
        let lt256 = makeNumericCompare amt Lt (makeIntegerConstant ''256'' biguintType);
        low64 \<leftarrow> implicitNumericCast amt uint64Type;
        ret (makeConditional lt256 low64 (makeIntegerConstant ''256'' uint64Type) uint64Type)
      })"

definition buildBigUIntShift :: "expr \<Rightarrow> expr \<Rightarrow> bool \<Rightarrow> expr builder" where
  "buildBigUIntShift value shiftAmt isLeftShift = do {
     k \<leftarrow> nameGenNext ''BigUIntMath.shift'';
     let vName = ''__shift_v_'' @ dec_of_nat k;
     let vRead = makeVarExpression vName biguintType;
     bindV \<leftarrow> makeAssignmentExpression (makeVarExpression vName biguintType) value (Some biguintType);
     shift \<leftarrow> makeEvalOnce shiftAmt;
     let clampedShift = makeUInt64BinOp shift U64Mod (makeIntegerConstant ''256'' uint64Type);
     let bitIdx = makeUInt64BinOp (makeIntegerConstant ''255'' uint64Type) U64Sub clampedShift;
     let castPow = makeAsBiguint (makeSetbit (makeBzero 32) bitIdx (makeOne uint64Type));
     let result = makeBigUIntBinOp vRead (if isLeftShift then BigMult else BigFloorDiv) castPow;
     let result' = (if isLeftShift then wrapMod256 result else result);
     let lt256 = makeNumericCompare shift Lt (makeIntegerConstant ''256'' uint64Type);
     let cond = makeConditional lt256 result' (makeIntegerConstant ''0'' biguintType) biguintType;
     ret (makeCommaExpression biguintType [bindV, cond])
   }"

text \<open>\<open>2^n\<close> as a 32-byte string, for an expression \<open>n\<close> with value at most 255.\<close>

definition asrPow2n :: "expr \<Rightarrow> expr" where
  "asrPow2n nRead =
     makeAsBiguint (makeSetbit (makeBzero 32)
       (makeUInt64BinOp (makeIntegerConstant ''255'' uint64Type) U64Sub nRead) (makeOne uint64Type))"

definition buildBigUIntArithmeticShiftRight :: "expr \<Rightarrow> expr \<Rightarrow> expr builder" where
  "buildBigUIntArithmeticShiftRight value shiftAmt = do {
     i \<leftarrow> nameGenNext ''BigUIntMath.asr'';
     let vName = ''__asr_v_'' @ dec_of_nat i;
     let nrName = ''__asr_nr_'' @ dec_of_nat i;
     let nName = ''__asr_n_'' @ dec_of_nat i;
     let sName = ''__asr_s_'' @ dec_of_nat i;
     let vRead = makeVarExpression vName biguintType;
     let nrRead = makeVarExpression nrName uint64Type;
     let nRead = makeVarExpression nName uint64Type;
     let sRead = makeVarExpression sName biguintType;
     bindV \<leftarrow> makeAssignmentExpression vRead value (Some biguintType);
     bindNraw \<leftarrow> makeAssignmentExpression nrRead shiftAmt (Some uint64Type);
     let nLt256 = makeNumericCompare nrRead Lt (makeIntegerConstant ''256'' uint64Type);
     let clampedN = makeConditional nLt256 nrRead (makeIntegerConstant ''255'' uint64Type) uint64Type;
     bindN \<leftarrow> makeAssignmentExpression nRead clampedN (Some uint64Type);
     let shifted = makeBigUIntBinOp vRead BigFloorDiv (asrPow2n nRead);
     bindS \<leftarrow> makeAssignmentExpression sRead shifted (Some biguintType);
     let fill = makeBigUIntBinOp makePow256 BigSub
       (makeBigUIntBinOp makePow256 BigFloorDiv (asrPow2n nRead));
     let neg = isNegativeSigned vRead 256;
     let orFill = makeBigUIntBinOp sRead BigBitOr fill;
     let result = makeConditional neg orFill sRead biguintType;
     ret (makeCommaExpression biguintType [bindV, bindNraw, bindN, bindS, result])
   }"

text \<open>The loop of \<open>buildBigUIntExpInto\<close>, over the names of its three temporaries.\<close>

definition expVar :: "string \<Rightarrow> expr" where "expVar name = makeVarExpression name biguintType"
definition expConst :: "string \<Rightarrow> expr" where "expConst value = makeIntegerConstant value biguintType"

definition expWrap :: "bool \<Rightarrow> expr \<Rightarrow> expr" where
  "expWrap wrapMod v = (if wrapMod then makeBigUIntBinOp v BigMod (expConst kPow2_256) else v)"

definition expLoop :: "bool \<Rightarrow> string \<Rightarrow> string \<Rightarrow> string \<Rightarrow> stmt builder" where
  "expLoop isUnchecked resultVar baseVar exponentVar = do {
     let loopCond = makeNumericCompare (expVar exponentVar) Gt (expConst ''0'');
     let isOdd = makeNumericCompare (makeBigUIntBinOp (expVar exponentVar) BigBitAnd (expConst ''1''))
       Ne (expConst ''0'');
     let product = expWrap isUnchecked (makeBigUIntBinOp (expVar resultVar) BigMult (expVar baseVar));
     setResult \<leftarrow> makeAssignmentStatement (expVar resultVar) product;
     let ifBlock = makeBlock [setResult];
     halve \<leftarrow> makeAssignmentStatement (expVar exponentVar)
       (makeBigUIntBinOp (expVar exponentVar) BigFloorDiv (expConst ''2''));
     square \<leftarrow> makeAssignmentStatement (expVar baseVar)
       (expWrap isUnchecked (makeBigUIntBinOp (expVar baseVar) BigMult (expVar baseVar)));
     ret (makeWhileLoop loopCond (makeBlock [makeIfElse isOdd (Some ifBlock) None, halve, square]))
   }"

definition buildBigUIntExpInto :: "bool \<Rightarrow> expr \<Rightarrow> expr \<Rightarrow> expr builder" where
  "buildBigUIntExpInto isUnchecked base0 exponent0 = do {
     base \<leftarrow> implicitNumericCast base0 biguintType;
     exponent \<leftarrow> implicitNumericCast exponent0 biguintType;
     i \<leftarrow> nameGenNext ''BigUIntMathHelpers.expCounter'';
     let resultVar = ''__biguint_exp_result_'' @ dec_of_nat i;
     let baseVar = ''__biguint_exp_base_'' @ dec_of_nat i;
     let exponentVar = ''__biguint_exp_exp_'' @ dec_of_nat i;
     a1 \<leftarrow> makeAssignmentStatement (expVar resultVar) (expConst ''1'');
     pushPreEffect a1;
     a2 \<leftarrow> makeAssignmentStatement (expVar baseVar) base;
     pushPreEffect a2;
     a3 \<leftarrow> makeAssignmentStatement (expVar exponentVar) exponent;
     pushPreEffect a3;
     loop \<leftarrow> expLoop isUnchecked resultVar baseVar exponentVar;
     pushPreEffect loop;
     ret (expVar resultVar)
   }"

definition buildBigUIntExp :: "bool \<Rightarrow> expr \<Rightarrow> expr \<Rightarrow> expr builder" where
  "buildBigUIntExp isUnchecked base exponent = buildBigUIntExpInto isUnchecked base exponent"

definition buildWrappingSubtract :: "bool \<Rightarrow> expr \<Rightarrow> expr \<Rightarrow> expr builder" where
  "buildWrappingSubtract isUnchecked left0 right0 = do {
     left \<leftarrow> makeEvalOnce left0;
     right \<leftarrow> makeEvalOnce right0;
     (if \<not> isUnchecked
      then pushPreEffect (makeExpressionStatement
        (makeAssert (makeNumericCompare left Gte right) (Some ''underflow'') voidType))
      else ret ());
     let addPow = makeBigUIntBinOp left BigAdd makePow256;
     let diff = makeBigUIntBinOp addPow BigSub right;
     ret (wrapMod256 diff)
   }"

text \<open>The guard of a checked signed division: not the minimum divided by minus one.\<close>

definition smdOverflowAssert :: "string \<Rightarrow> string \<Rightarrow> nat \<Rightarrow> expr" where
  "smdOverflowAssert lName rName resultBits =
     (let minStr = dec_of_nat (u256_sub 0 (u256_pow2 (resultBits - 1)));
          negOneStr = dec_of_nat (u256_sub 0 1);
          xIsMin = makeNumericCompare (makeVarExpression lName biguintType) Eq
            (makeIntegerConstant minStr biguintType);
          yIsNeg1 = makeNumericCompare (makeVarExpression rName biguintType) Eq
            (makeIntegerConstant negOneStr biguintType);
          bothTrue = makeBoolBinOp xIsMin And yIsNeg1
      in makeAssert (makeNot bothTrue) (Some ''signed division overflow'') voidType)"

text \<open>The value part: magnitudes, unsigned operation, sign.\<close>

definition smdResult :: "expr \<Rightarrow> expr \<Rightarrow> BuilderBinaryOp \<Rightarrow> expr" where
  "smdResult left right oper =
     (let isLeftNeg = isNegativeSigned left 256;
          negLeft = makeBigUIntBinOp (makeIntegerConstant kPow2_256 biguintType) BigSub left;
          absLeft = makeConditional isLeftNeg negLeft left biguintType;
          isRightNeg = isNegativeSigned right 256;
          negRight = makeBigUIntBinOp (makeIntegerConstant kPow2_256 biguintType) BigSub right;
          absRight = makeConditional isRightNeg negRight right biguintType;
          absResult = makeBigUIntBinOp absLeft (if oper = OpMod then BigMod else BigFloorDiv) absRight;
          negResult = makeBigUIntBinOp (makeIntegerConstant kPow2_256 biguintType) BigSub absResult;
          shouldNegate =
            (if oper = OpMod then isLeftNeg
             else makeBoolBinOp (makeBoolBinOp isLeftNeg Or isRightNeg) And
               (makeNot (makeBoolBinOp isLeftNeg And isRightNeg)));
          isZero = makeNumericCompare absResult Eq (makeIntegerConstant ''0'' biguintType)
      in makeConditional (makeBoolBinOp shouldNegate And (makeNot isZero)) negResult absResult biguintType)"

definition buildSignedModDiv :: "expr \<Rightarrow> expr \<Rightarrow> BuilderBinaryOp \<Rightarrow> nat \<Rightarrow> bool \<Rightarrow> expr builder" where
  "buildSignedModDiv left0 right0 oper resultBits checked = do {
     let isDiv = (oper \<noteq> OpMod);
     i \<leftarrow> nameGenNext ''BigUIntMath.signedMulDiv'';
     let lName = ''__smd_l_'' @ dec_of_nat i;
     let rName = ''__smd_r_'' @ dec_of_nat i;
     bindL \<leftarrow> makeAssignmentExpression (makeVarExpression lName biguintType) left0 (Some biguintType);
     bindR \<leftarrow> makeAssignmentExpression (makeVarExpression rName biguintType) right0 (Some biguintType);
     let left = makeVarExpression lName biguintType;
     let right = makeVarExpression rName biguintType;
     let overflowAssert = (if isDiv \<and> checked then [smdOverflowAssert lName rName resultBits] else []);
     let result = smdResult left right oper;
     let result' = (if resultBits \<le> 64 then makeBiguintToUInt64 result else result);
     ret (makeCommaExpression (wtypeOf result') ([bindL, bindR] @ overflowAssert @ [result']))
   }"

text \<open>The sign test and the magnitude used by the overflow check of \<open>buildSignedArithmetic\<close>.\<close>

definition saIsNeg :: "string \<Rightarrow> expr \<Rightarrow> expr" where
  "saIsNeg halfN val = makeNot (makeNumericCompare (promoteToBiguint val) Lt (biguintConst halfN))"

definition saAbs :: "string \<Rightarrow> string \<Rightarrow> expr \<Rightarrow> expr" where
  "saAbs pow2N halfN val =
     makeConditional (saIsNeg halfN val) (makeBigUIntBinOp (biguintConst pow2N) BigSub val) val biguintType"

definition saOverflowCond :: "BuilderBinaryOp \<Rightarrow> string \<Rightarrow> string \<Rightarrow> expr \<Rightarrow> expr \<Rightarrow> expr \<Rightarrow> expr" where
  "saOverflowCond oper pow2N halfN left right rawResult =
     (if oper = OpSub then
        makeBoolBinOp (makeNumericCompare (saIsNeg halfN left) Eq (saIsNeg halfN right)) Or
          (makeNumericCompare (saIsNeg halfN left) Eq (saIsNeg halfN rawResult))
      else if oper = OpMult then
        (let absProduct = makeBigUIntBinOp (saAbs pow2N halfN left) BigMult (saAbs pow2N halfN right);
             sameSign = makeNumericCompare (saIsNeg halfN left) Eq (saIsNeg halfN right);
             ltHalf = makeNumericCompare absProduct Lt (biguintConst halfN);
             leHalf = makeNot (makeNumericCompare (biguintConst halfN) Lt absProduct);
             rangeCheck = makeConditional sameSign ltHalf leHalf boolType;
             bZero = makeNumericCompare right Eq (biguintConst ''0'')
         in makeBoolBinOp bZero Or rangeCheck)
      else
        makeBoolBinOp (makeNumericCompare (saIsNeg halfN left) Ne (saIsNeg halfN right)) Or
          (makeNumericCompare (saIsNeg halfN left) Eq (saIsNeg halfN rawResult)))"

definition saRaw :: "BuilderBinaryOp \<Rightarrow> string \<Rightarrow> expr \<Rightarrow> expr \<Rightarrow> expr" where
  "saRaw oper pow2N left right =
     makeBigUIntBinOp
       (if oper = OpSub
        then makeBigUIntBinOp (makeBigUIntBinOp left BigAdd (biguintConst pow2N)) BigSub right
        else makeBigUIntBinOp left (if oper = OpMult then BigMult else BigAdd) right)
       BigMod (biguintConst pow2N)"

definition buildSignedArithmetic :: "bool \<Rightarrow> BuilderBinaryOp \<Rightarrow> expr \<Rightarrow> expr \<Rightarrow> nat \<Rightarrow> expr builder" where
  "buildSignedArithmetic isUnchecked oper left0 right0 bits = do {
     let pow2N = fst (pow2NAndHalf bits);
     let halfN = snd (pow2NAndHalf bits);
     left1 \<leftarrow> makeEvalOnce left0;
     right1 \<leftarrow> makeEvalOnce right0;
     let maskOp = (\<lambda>v. if bits < 256 then makeBigUIntBinOp v BigMod (biguintConst pow2N) else v);
     let left = maskOp (promoteToBiguint left1);
     let right = maskOp (promoteToBiguint right1);
     let rawResult = saRaw oper pow2N left right;
     (if \<not> isUnchecked
      then pushPreEffect (makeExpressionStatement
        (makeAssert (saOverflowCond oper pow2N halfN left right rawResult)
          (Some ''signed arithmetic overflow'') voidType))
      else ret ());
     (if \<not> bits > 64 then ret (makeBiguintToUInt64 rawResult)
      else if bits < 256 then signExtendToUint256 rawResult bits
      else ret rawResult)
   }"

definition guardUIncOverflow :: "expr \<Rightarrow> nat \<Rightarrow> expr builder" where
  "guardUIncOverflow bin bits = do {
     let wt = wtypeOf bin;
     k \<leftarrow> nameGenNext ''SolUnaryOperation.s_uincCounter'';
     let tmpName = ''__uinc_'' @ dec_of_nat k;
     let maxV = (if bits \<ge> 256 then u256_sub 0 1 else u256_sub (u256_pow2 bits) 1);
     bind \<leftarrow> makeAssignmentExpression (makeVarExpression tmpName wt) bin (Some wt);
     let cmp = makeNumericCompare (makeVarExpression tmpName wt) Lte (makeIntegerConstant (dec_of_nat maxV) wt);
     ret (makeCommaExpression wt [bind, makeAssert cmp (Some ''overflow'') voidType,
       makeVarExpression tmpName wt])
   }"

definition pow256Minus1 :: string where
  "pow256Minus1 = ''115792089237316195423570985008687907853269984665640564039457584007913129639935''"

definition buildIncDec :: "bool \<Rightarrow> bool \<Rightarrow> nat \<Rightarrow> nat \<Rightarrow> expr \<Rightarrow> expr builder" where
  "buildIncDec isUnchecked isInc signedBits unsignedBits base =
     (if signedBits > 0 then do {
        let pow2N = fst (pow2NAndHalf signedBits);
        let halfN = snd (pow2NAndHalf signedBits);
        let val = promoteToBiguint base;
        let val' = (if signedBits < 256 then makeBigUIntBinOp val BigMod (biguintConst pow2N) else val);
        let limit = (if isInc then dec_of_nat (u256_sub (u256_pow2 (signedBits - 1)) 1) else halfN);
        (if \<not> isUnchecked
         then queuePreExpression (makeAssert (makeNumericCompare val' Ne (biguintConst limit))
           (Some ''signed inc/dec overflow'') voidType)
         else ret ());
        let decOffset = (if signedBits = 256 then pow256Minus1
          else dec_of_nat (u256_sub (u256_pow2 signedBits) 1));
        let added = makeBigUIntBinOp val' BigAdd (biguintConst (if isInc then ''1'' else decOffset));
        let modded = makeBigUIntBinOp added BigMod (biguintConst pow2N);
        ret (if signedBits \<le> 64 then makeBiguintToUInt64 modded else modded)
      }
      else if isUnchecked \<and> unsignedBits > 0 then do {
        let val = promoteToBiguint base;
        let maxStr = (if unsignedBits \<ge> 256 then pow256Minus1
          else dec_of_nat (u256_sub (u256_pow2 unsignedBits) 1));
        let added = makeBigUIntBinOp val BigAdd (biguintConst (if isInc then ''1'' else maxStr));
        let pow2N = (if unsignedBits \<ge> 256 then kPow2_256 else dec_of_nat (u256_pow2 unsignedBits));
        let modded = makeBigUIntBinOp added BigMod (biguintConst pow2N);
        ret (if wtypeOf base \<noteq> biguintType then makeBiguintToUInt64 modded else modded)
      }
      else if wtypeOf base = biguintType then do {
        let bin = makeBigUIntBinOp base (if isInc then BigAdd else BigSub) (makeOne biguintType);
        (if isInc \<and> \<not> isUnchecked \<and> unsignedBits > 0 then guardUIncOverflow bin unsignedBits else ret bin)
      }
      else do {
        let bin = makeUInt64BinOp base (if isInc then U64Add else U64Sub) (makeOne uint64Type);
        (if isInc \<and> \<not> isUnchecked \<and> unsignedBits > 0 \<and> unsignedBits < 64
         then guardUIncOverflow bin unsignedBits else ret bin)
      })"

definition buildSignedNegate :: "bool \<Rightarrow> nat \<Rightarrow> string \<Rightarrow> string \<Rightarrow> int \<Rightarrow> expr \<Rightarrow> expr builder" where
  "buildSignedNegate isUnchecked bits pow2N halfN nodeId operand0 = do {
     let operand = (if bits < 256 then makeBigUIntBinOp operand0 BigMod (biguintConst pow2N) else operand0);
     (if \<not> isUnchecked
      then queuePreExpression (makeAssert (makeNumericCompare operand Ne (biguintConst halfN))
        (Some ''signed negation overflow'') voidType)
      else ret ());
     let sub = makeBigUIntBinOp (biguintConst pow2N) BigSub operand;
     let modded = makeBigUIntBinOp sub BigMod (biguintConst pow2N);
     negated \<leftarrow>
       (if bits = 256 then do {
          let tmpVar = makeVarExpression (''__neg_tmp_'' @ int_to_string nodeId) biguintType;
          initStmt \<leftarrow> makeAssignmentStatement tmpVar (biguintConst ''0'');
          pushPreEffect initStmt;
          let isNonZero = makeNumericCompare operand Ne (biguintConst ''0'');
          assignTmp \<leftarrow> makeAssignmentStatement tmpVar modded;
          pushPreEffect (makeIfElse isNonZero (Some (makeBlock [assignTmp])) None);
          ret tmpVar
        } else ret modded);
     ret (if bits \<le> 64 then makeBiguintToUInt64 negated else negated)
   }"

section \<open>The product of two bounded big integers\<close>

text \<open>What one multiplication of the exponentiation loop yields: a trap when an operand of the
  multiplication, or of the reduction after it, is longer than 64 bytes.\<close>

definition mulw :: "bool \<Rightarrow> bytes \<Rightarrow> bytes \<Rightarrow> bytes option" where
  "mulw wrap a b =
     (if length a \<le> 64 \<and> length b \<le> 64 then
        (let p = be_min (be_nat a * be_nat b)
         in if wrap then (if length p \<le> 64 then Some (be_min (be_nat p mod 2 ^ 256)) else None)
            else Some p)
      else None)"

lemma mulw_wrap:
  assumes "length a \<le> 64" "length b \<le> 64" "be_nat a < 2 ^ 256" "be_nat b < 2 ^ 256"
  obtains p where "mulw True a b = Some p" "be_nat p = be_nat a * be_nat b mod 2 ^ 256" "length p \<le> 64"
proof -
  have "be_nat a * be_nat b < 2 ^ 256 * 2 ^ 256" using assms(3,4) by (rule mult_strict_mono') simp_all
  then have "be_nat a * be_nat b < 2 ^ 512" by (simp flip: power_add)
  moreover have "be_nat a * be_nat b mod 2 ^ 256 < 2 ^ 512"
    by (rule less_trans[OF mod_less_divisor pow2_512]) simp_all
  ultimately show thesis
    using assms(1,2) by (intro that[of "be_min (be_nat a * be_nat b mod 2 ^ 256)"]) (simp_all only: mulw_def Let_def be_nat_be_min if_True simp_thms length_be_min64)
qed

lemma mulw_plain:
  assumes "length a \<le> 64" "length b \<le> 64"
  shows "mulw False a b = Some (be_min (be_nat a * be_nat b))"
  using assms by (simp add: mulw_def)

text \<open>The body of the exponentiation loop.\<close>

definition exp_body :: "bool \<Rightarrow> string \<Rightarrow> string \<Rightarrow> string \<Rightarrow> stmt" where
  "exp_body wrap rv bv xv = Block
     [IfElse (makeNumericCompare (makeBigUIntBinOp (expVar xv) BigBitAnd (expConst ''1'')) Ne (expConst ''0''))
        (Some (Block [AssignmentStatement (expVar rv)
          (expWrap wrap (makeBigUIntBinOp (expVar rv) BigMult (expVar bv)))] None None)) None,
      AssignmentStatement (expVar xv) (makeBigUIntBinOp (expVar xv) BigFloorDiv (expConst ''2'')),
      AssignmentStatement (expVar bv) (expWrap wrap (makeBigUIntBinOp (expVar bv) BigMult (expVar bv)))]
     None None"

lemma expLoop_eq: "expLoop wrap rv bv xv = ret (WhileLoop
    (makeNumericCompare (expVar xv) Gt (expConst ''0'')) (Some (exp_body wrap rv bv xv)))"
  by (simp add: expLoop_def exp_body_def Let_def expVar_def makeVarExpression_def makeBlock_def
      makeIfElse_def makeWhileLoop_def)

lemma power_step: "(if odd x then r * b else r) * (b * b) ^ (x div 2) = (r::nat) * b ^ x"
proof -
  have "b ^ x = (if odd x then b else 1) * (b * b) ^ (x div 2)"
    by (cases "odd x") (auto simp: power_mult_distrib power_mult power_add power2_eq_square elim!: oddE evenE)
  then show ?thesis by simp
qed

lemma mult_power_mod: "(x::nat) * y ^ k mod m = (x mod m) * ((y mod m) ^ k mod m) mod m"
  by (simp add: power_mod mod_mult_eq)

lemma power_step_mod:
  "(if odd x then r * b mod m else r) * (b * b mod m) ^ (x div 2) mod m = (r::nat) * b ^ x mod m"
proof -
  have "(if odd x then r * b mod m else r) mod m = (if odd x then r * b else r) mod m" by simp
  then have "(if odd x then r * b mod m else r) * (b * b mod m) ^ (x div 2) mod m =
      (if odd x then r * b else r) * (b * b) ^ (x div 2) mod m"
    unfolding mult_power_mod[of "if odd x then r * b mod m else r"] mult_power_mod[of "if odd x then r * b else r"]
    by simp
  then show ?thesis by (simp only: power_step)
qed

definition holds_big :: "'z menv_scheme \<Rightarrow> string \<Rightarrow> nat \<Rightarrow> bool" where
  "holds_big \<sigma> x n \<longleftrightarrow> (\<exists>b. vars \<sigma> x = Some (VB b) \<and> be_nat b = n \<and> length b \<le> 64)"

text \<open>The statements that \<open>buildBigUIntExpInto\<close> queues.\<close>

definition exp_stmts :: "bool \<Rightarrow> string \<Rightarrow> expr \<Rightarrow> expr \<Rightarrow> stmt list" where
  "exp_stmts wrap i base exponent =
     [AssignmentStatement (expVar (''__biguint_exp_result_'' @ i)) (expConst ''1''),
      AssignmentStatement (expVar (''__biguint_exp_base_'' @ i)) base,
      AssignmentStatement (expVar (''__biguint_exp_exp_'' @ i)) exponent,
      WhileLoop (makeNumericCompare (expVar (''__biguint_exp_exp_'' @ i)) Gt (expConst ''0''))
        (Some (exp_body wrap (''__biguint_exp_result_'' @ i) (''__biguint_exp_base_'' @ i)
          (''__biguint_exp_exp_'' @ i)))]"

lemma exp_run:
  assumes "wtypeOf base = biguintType" "wtypeOf exponent = biguintType"
    and "i = dec_of_nat (counters s ''BigUIntMathHelpers.expCounter'')"
    and "run_state (buildBigUIntExp wrap base exponent) s = (e', s')"
  shows "e' = expVar (''__biguint_exp_result_'' @ i) \<and>
    preEffects s' = preEffects s @ exp_stmts wrap i base exponent"
proof -
  have cast: "implicitNumericCast e biguintType = ret e" if "wtypeOf e = biguintType" for e
    using that by (simp add: implicitNumericCast_def structurallyEquivalent_eq)
  show ?thesis
    using assms(4)
    unfolding buildBigUIntExp_def buildBigUIntExpInto_def cast[OF assms(1)] cast[OF assms(2)] expLoop_eq exp_stmts_def
    by (auto simp: Let_def assms(3) expVar_def makeVarExpression_def builder_defs State_Monad.bind_def)
qed

section \<open>Values\<close>

context avm
begin

lemma sbig_pow256 [value_intros]: "sbig ev K \<sigma> makePow256 (2 ^ 256)"
  unfolding makePow256_def makeIntegerConstant_def by (rule sbig_int[OF _ pow2_512]) simp_all

lemma sbig_wrapMod256 [value_intros]: "sbig ev K \<sigma> e n \<Longrightarrow> sbig ev K \<sigma> (wrapMod256 e) (n mod 2 ^ 256)"
  unfolding wrapMod256_def makeBigUIntBinOp_def by (rule sbig_mod[OF _ sbig_pow256]) simp_all

lemma sbig_setbit:
  assumes "su64 ev K \<sigma> idx (255 - n)" and "n \<le> 255"
  shows "sbig ev K \<sigma> (makeAsBiguint (makeSetbit (makeBzero 32) idx (makeOne uint64Type))) (2 ^ n)"
proof -
  let ?b = "bytes_setbit (replicate 32 0) (8 * 32 - 1 - n) True"
  have one: "su64 ev K \<sigma> (makeOne uint64Type) 1"
    unfolding makeOne_def makeIntegerConstant_def by (rule sval_int64) simp_all
  have "sbytes ev K \<sigma> (makeSetbit (makeBzero 32) idx (makeOne uint64Type)) ?b"
    unfolding makeSetbit_def makeIntrinsicCall_def
    by (rule sval_op[where vs = "[VB (replicate 32 0), VU (255 - n), VU 1]"])
       (use assms one sbytes_bzero[of 32 K \<sigma>] in \<open>simp_all add: pure_ops_def avm_op_def\<close>)
  then have "sbytes ev K \<sigma> (makeAsBiguint (makeSetbit (makeBzero 32) idx (makeOne uint64Type))) ?b"
    unfolding makeAsBiguint_def makeReinterpretCast_def by (rule sval_cast)
  from sbigI[OF this] be_nat_setbit0[of n 32] assms(2) show ?thesis by simp
qed

text \<open>An operand that may have effects: after its first evaluation it is stable.\<close>

lemma eval_evalOnce:
  assumes "ev \<sigma> e = Some (v, \<sigma>1)" and "ids_free s \<sigma>"
    and "\<And>e' s' c. ev \<sigma> e' = Some (v, \<sigma>1\<lparr>cache := c\<rparr>) \<Longrightarrow> sval ev {} (\<sigma>1\<lparr>cache := c\<rparr>) e' v \<Longrightarrow>
      wtypeOf e' = wtypeOf e \<Longrightarrow> preEffects s' = preEffects s \<Longrightarrow> Q e' s'"
  shows "built (makeEvalOnce e) s Q"
proof (cases "duplicableLeaf e")
  case True
  have "\<sigma>1\<lparr>cache := cache \<sigma>1\<rparr> = \<sigma>1" by simp
  with assms(3)[of e "cache \<sigma>1" s] True sem_leaf[OF True assms(1)] assms(1)
  show ?thesis by (simp add: makeEvalOnce_def sval_empty)
next
  case False
  have "cache \<sigma> (e, singleEvalId s + 1) = None" using assms(2) by (simp add: ids_free_def)
  with assms(1) have 1: "ev \<sigma> (SingleEvaluation (wtypeOf e) e (singleEvalId s + 1)) =
      Some (v, \<sigma>1\<lparr>cache := (cache \<sigma>1)((e, singleEvalId s + 1) \<mapsto> v)\<rparr>)" by (simp add: sem_single)
  from assms(3)[OF 1] False show ?thesis
    by (simp add: makeEvalOnce_def makeSingleEvaluation_def sval_empty sem_single)
qed

lemma shift_result:
  assumes "vars \<sigma> x = Some (VB b)" "be_nat b = v" "length b \<le> 64" "v < 2 ^ 256"
    and "su64 ev K \<sigma> shift n" "n < 256"
  shows "sbig ev K \<sigma>
     (let pow = makeAsBiguint (makeSetbit (makeBzero 32) (makeUInt64BinOp (makeIntegerConstant ''255'' uint64Type)
            U64Sub (makeUInt64BinOp shift U64Mod (makeIntegerConstant ''256'' uint64Type))) (makeOne uint64Type));
          r = makeBigUIntBinOp (makeVarExpression x biguintType) (if left then BigMult else BigFloorDiv) pow
      in if left then wrapMod256 r else r)
     (if left then v * 2 ^ n mod 2 ^ 256 else v div 2 ^ n)"
proof -
  have i: "su64 ev K \<sigma> (makeUInt64BinOp shift U64Mod (makeIntegerConstant ''256'' uint64Type)) n"
    unfolding makeUInt64BinOp_def makeIntegerConstant_def
    by (rule sval_u64_bin[OF assms(5) sval_int64[of _ 256]]) (use assms(6) in simp_all)
  have "su64 ev K \<sigma> (makeUInt64BinOp (makeIntegerConstant ''255'' uint64Type) U64Sub
      (makeUInt64BinOp shift U64Mod (makeIntegerConstant ''256'' uint64Type))) (255 - n)"
    unfolding makeUInt64BinOp_def[of "makeIntegerConstant ''255'' uint64Type"]
    by (rule sval_u64_bin[OF _ i, of _ 255]) (use assms(6) in \<open>simp_all add: makeIntegerConstant_def sval_int64\<close>)
  from sbig_setbit[OF this] assms(6)
  have p: "sbig ev K \<sigma> (makeAsBiguint (makeSetbit (makeBzero 32) (makeUInt64BinOp
      (makeIntegerConstant ''255'' uint64Type) U64Sub (makeUInt64BinOp shift U64Mod
      (makeIntegerConstant ''256'' uint64Type))) (makeOne uint64Type))) (2 ^ n)" by simp
  have r: "sbig ev K \<sigma> (makeVarExpression x biguintType) v"
    unfolding makeVarExpression_def by (rule sbig_temp[OF assms(1-3)])
  have "(2::nat) ^ n \<le> 2 ^ 255" using assms(6) by (intro power_increasing) simp_all
  with assms(4) have "v * 2 ^ n < 2 ^ 256 * 2 ^ 255" by (intro mult_less_le_imp_less) simp_all
  then have "v * 2 ^ n < 2 ^ 512" by (rule less_le_trans) (simp flip: power_add)
  then show ?thesis
    using sbig_wrapMod256[OF sbig_mult[OF r p]] sbig_div[OF r p]
    by (cases left) (simp_all add: Let_def makeBigUIntBinOp_def)
qed

lemma shift_eval:
  fixes s :: bst
  defines "x \<equiv> ''__shift_v_'' @ dec_of_nat (counters s ''BigUIntMath.shift'')"
  assumes "ev \<sigma> value = Some (VB b, \<sigma>1)" "length b \<le> 64" "be_nat b < 2 ^ 256"
    and "ev (bind_var x (VB b) \<sigma>1) amount = Some (VU n, \<sigma>2)" "vars \<sigma>2 x = Some (VB b)"
    and "ids_free s \<sigma>1"
  shows "built (buildBigUIntShift value amount left) s (\<lambda>e' s'. \<exists>r c.
    ev \<sigma> e' = Some (VB r, \<sigma>2\<lparr>cache := c\<rparr>) \<and> length r \<le> 64 \<and>
    be_nat r = (if n < 256 then (if left then be_nat b * 2 ^ n mod 2 ^ 256 else be_nat b div 2 ^ n) else 0))"
proof -
  let ?s = "s\<lparr>counters := (counters s)(''BigUIntMath.shift'' := counters s ''BigUIntMath.shift'' + 1)\<rparr>"
  let ?\<sigma> = "bind_var x (VB b) \<sigma>1"
  have free: "ids_free ?s ?\<sigma>" using assms(7) by (simp add: ids_free_def)
  let ?res = "\<lambda>shift. let pow = makeAsBiguint (makeSetbit (makeBzero 32) (makeUInt64BinOp
        (makeIntegerConstant ''255'' uint64Type) U64Sub (makeUInt64BinOp shift U64Mod
        (makeIntegerConstant ''256'' uint64Type))) (makeOne uint64Type));
          r = makeBigUIntBinOp (makeVarExpression x biguintType) (if left then BigMult else BigFloorDiv) pow
      in if left then wrapMod256 r else r"
  let ?cond = "\<lambda>shift. ConditionalExpression biguintType (NumericComparisonExpression boolType shift Lt
      (IntegerConstant uint64Type ''256'')) (?res shift) (IntegerConstant biguintType ''0'')"
  have "built (makeEvalOnce amount) ?s (\<lambda>shift s'. \<exists>r c. ev ?\<sigma> (?cond shift) = Some (VB r, \<sigma>2\<lparr>cache := c\<rparr>) \<and>
      length r \<le> 64 \<and>
      be_nat r = (if n < 256 then (if left then be_nat b * 2 ^ n mod 2 ^ 256 else be_nat b div 2 ^ n) else 0))"
  proof (rule eval_evalOnce[OF assms(5) free])
    fix shift s' c
    assume sh: "ev ?\<sigma> shift = Some (VU n, \<sigma>2\<lparr>cache := c\<rparr>)" "su64 ev {} (\<sigma>2\<lparr>cache := c\<rparr>) shift n"
    let ?\<tau> = "\<sigma>2\<lparr>cache := c\<rparr>"
    have "ev ?\<tau> (IntegerConstant uint64Type ''256'') = Some (VU 256, ?\<tau>)" by (rule sem_int64) simp_all
    with sh(1) have c: "ev ?\<sigma> (?cond shift) = ev ?\<tau> (if n < 256 then ?res shift else IntegerConstant biguintType ''0'')"
      by (simp add: sem_cond sem_cmp bin_eval_def)
    have "sbig ev {} ?\<tau> (if n < 256 then ?res shift else IntegerConstant biguintType ''0'')
      (if n < 256 then (if left then be_nat b * 2 ^ n mod 2 ^ 256 else be_nat b div 2 ^ n) else 0)"
    proof (cases "n < 256")
      case True
      from shift_result[OF _ refl assms(3,4) sh(2) True, of x left] assms(6) True show ?thesis by simp
    qed (simp add: sbig_int)
    from sbig_eval[OF this] c show "\<exists>r c. ev ?\<sigma> (?cond shift) = Some (VB r, \<sigma>2\<lparr>cache := c\<rparr>) \<and> length r \<le> 64 \<and>
      be_nat r = (if n < 256 then (if left then be_nat b * 2 ^ n mod 2 ^ 256 else be_nat b div 2 ^ n) else 0)"
      by metis
  qed
  then show ?thesis
    unfolding buildBigUIntShift_def built_bind built_nameGenNext Let_def x_def[symmetric]
    by (simp add: makeVarExpression_def makeNumericCompare_def makeConditional_def makeCommaExpression_def
        sem_comma sem_assign assms(2) makeIntegerConstant_def)
qed

lemma sbig_asrPow2n:
  assumes "vars \<sigma> x = Some (VU m)" "m \<le> 255"
  shows "sbig ev K \<sigma> (asrPow2n (VarExpression uint64Type x)) (2 ^ m)"
proof -
  have "su64 ev K \<sigma> (makeUInt64BinOp (makeIntegerConstant ''255'' uint64Type) U64Sub (VarExpression uint64Type x)) (255 - m)"
    unfolding makeUInt64BinOp_def makeIntegerConstant_def
    by (rule sval_u64_bin[OF sval_int64[of _ 255] sval_var[OF assms(1)]]) (use assms(2) in simp_all)
  from sbig_setbit[OF this assms(2)] show ?thesis unfolding asrPow2n_def .
qed

lemma sbool_isNegative256:
  "sbig ev K \<sigma> e v \<Longrightarrow> sbool ev K \<sigma> (isNegativeSigned e 256) (2 ^ 255 \<le> v)"
  using sval_cmp_big[of K \<sigma> e v "IntegerConstant biguintType kHalfMax_256" "2 ^ 255" boolType Gte]
    sbig_int[of kHalfMax_256 "2 ^ 255" K \<sigma>]
  by (simp add: isNegativeSigned_def pow2NAndHalf_def makeNumericCompare_def makeIntegerConstant_def)

lemma asr_result:
  assumes "vars \<sigma> xv = Some (VB b)" "be_nat b = v" "length b \<le> 64" "v < 2 ^ 256"
    and "vars \<sigma> xn = Some (VU m)" "m \<le> 255"
    and "vars \<sigma> xs = Some (VB sb)" "be_nat sb = v div 2 ^ m" "length sb \<le> 64"
  shows "sbig ev K \<sigma> (makeConditional (isNegativeSigned (VarExpression biguintType xv) 256)
      (makeBigUIntBinOp (VarExpression biguintType xs) BigBitOr (makeBigUIntBinOp makePow256 BigSub
         (makeBigUIntBinOp makePow256 BigFloorDiv (asrPow2n (VarExpression uint64Type xn)))))
      (VarExpression biguintType xs) biguintType) (twos 256 (signed_of 256 v div 2 ^ m))"
proof -
  let ?c = "2 ^ 255 \<le> v" and ?s = "VarExpression biguintType xs"
  have s: "sbig ev K \<sigma> ?s (v div 2 ^ m)" by (rule sbig_temp[OF assms(7-9)])
  have d: "sbig ev K \<sigma> (makeBigUIntBinOp makePow256 BigFloorDiv (asrPow2n (VarExpression uint64Type xn)))
      (2 ^ 256 div 2 ^ m)"
    unfolding makeBigUIntBinOp_def by (rule sbig_div[OF sbig_pow256 sbig_asrPow2n[OF assms(5,6)]]) simp
  have q: "(2::nat) ^ 256 div 2 ^ m = 2 ^ (256 - m)"
    using assms(6) by (intro power_diff[symmetric]) simp_all
  have f: "sbig ev K \<sigma> (makeBigUIntBinOp makePow256 BigSub
      (makeBigUIntBinOp makePow256 BigFloorDiv (asrPow2n (VarExpression uint64Type xn)))) (2 ^ 256 - 2 ^ (256 - m))"
    unfolding makeBigUIntBinOp_def[of makePow256 BigSub]
    by (rule sbig_sub[OF sbig_pow256 d[unfolded q]]) (rule power_increasing, simp_all)
  have "(2::nat) ^ 256 = 2 ^ (256 - m) * 2 ^ m" using assms(6) by (simp flip: power_add)
  with assms(4) have "v div 2 ^ m < 2 ^ (256 - m)" by (intro less_mult_imp_div_less) simp
  from or_high_ones[OF this, of 256]
  have o: "sbig ev K \<sigma> (makeBigUIntBinOp ?s BigBitOr (makeBigUIntBinOp makePow256 BigSub
      (makeBigUIntBinOp makePow256 BigFloorDiv (asrPow2n (VarExpression uint64Type xn)))))
      (v div 2 ^ m + (2 ^ 256 - 2 ^ (256 - m)))"
    using sbig_or[OF s f, of biguintType] unfolding makeBigUIntBinOp_def[of ?s] by simp
  have "twos 256 (signed_of 256 v div 2 ^ m) =
      (if ?c then v div 2 ^ m + (2 ^ 256 - 2 ^ (256 - m)) else v div 2 ^ m)"
    using twos_sar[of 256 v m] signed_div_pos[of 256 v m] assms(4,6) by auto
  moreover have "sbig ev K \<sigma> (makeConditional (isNegativeSigned (VarExpression biguintType xv) 256)
      (makeBigUIntBinOp ?s BigBitOr (makeBigUIntBinOp makePow256 BigSub
         (makeBigUIntBinOp makePow256 BigFloorDiv (asrPow2n (VarExpression uint64Type xn))))) ?s biguintType)
      (if ?c then v div 2 ^ m + (2 ^ 256 - 2 ^ (256 - m)) else v div 2 ^ m)"
    unfolding makeConditional_def
    by (rule sbig_cond[OF sbool_isNegative256[OF sbig_temp[OF assms(1-3)]] o s])
  ultimately show ?thesis by simp
qed

lemma asr_eval:
  fixes s :: bst
  defines "i \<equiv> dec_of_nat (counters s ''BigUIntMath.asr'')"
  defines "xv \<equiv> ''__asr_v_'' @ i"
  assumes "ev \<sigma> value = Some (VB b, \<sigma>1)" "length b \<le> 64" "be_nat b < 2 ^ 256"
    and "ev (bind_var xv (VB b) \<sigma>1) amount = Some (VU n, \<sigma>2)" "vars \<sigma>2 xv = Some (VB b)"
  shows "built (buildBigUIntArithmeticShiftRight value amount) s (\<lambda>e' s'. \<exists>r \<sigma>3.
    ev \<sigma> e' = Some (VB r, \<sigma>3) \<and> length r \<le> 64 \<and>
    be_nat r = twos 256 (signed_of 256 (be_nat b) div 2 ^ n))"
proof -
  define xr xn xs where x_defs: "xr = ''__asr_nr_'' @ i" "xn = ''__asr_n_'' @ i" "xs = ''__asr_s_'' @ i"
  have ne: "xv \<noteq> xr" "xv \<noteq> xn" "xv \<noteq> xs" "xn \<noteq> xs" "xr \<noteq> xn" by (simp_all add: x_defs xv_def)
  define m where "m = (if n < 256 then n else 255)"
  define \<sigma>3 where "\<sigma>3 = bind_var xr (VU n) \<sigma>2"
  define \<sigma>4 where "\<sigma>4 = bind_var xn (VU m) \<sigma>3"
  have m: "m \<le> 255" by (simp add: m_def)
  have "sbool ev {} \<sigma>3 (NumericComparisonExpression boolType (VarExpression uint64Type xr) Lt
      (IntegerConstant uint64Type ''256'')) (num_cmp Lt n 256)"
    by (rule sval_cmp_u64[OF sval_var sval_int64]) (simp_all add: \<sigma>3_def)
  then have clamp: "ev \<sigma>3 (ConditionalExpression uint64Type (NumericComparisonExpression boolType
      (VarExpression uint64Type xr) Lt (IntegerConstant uint64Type ''256''))
      (VarExpression uint64Type xr) (IntegerConstant uint64Type ''255'')) = Some (VU m, \<sigma>3)"
    by (auto simp: sval_empty sem_cond \<sigma>3_def m_def sem_var sem_int64)
  have v4: "vars \<sigma>4 xv = Some (VB b)" "vars \<sigma>4 xn = Some (VU m)"
    using ne assms(7) by (simp_all add: \<sigma>4_def \<sigma>3_def)
  have "sbig ev {} \<sigma>4 (makeBigUIntBinOp (VarExpression biguintType xv) BigFloorDiv
      (asrPow2n (VarExpression uint64Type xn))) (be_nat b div 2 ^ m)"
    unfolding makeBigUIntBinOp_def
    by (rule sbig_div[OF sbig_temp[OF v4(1) refl assms(4)] sbig_asrPow2n[OF v4(2) m]]) simp
  then obtain sb where sb: "ev \<sigma>4 (makeBigUIntBinOp (VarExpression biguintType xv) BigFloorDiv
      (asrPow2n (VarExpression uint64Type xn))) = Some (VB sb, \<sigma>4)" "be_nat sb = be_nat b div 2 ^ m"
      "length sb \<le> 64" by (rule sbig_eval)
  define \<sigma>5 where "\<sigma>5 = bind_var xs (VB sb) \<sigma>4"
  have v5: "vars \<sigma>5 xv = Some (VB b)" "vars \<sigma>5 xn = Some (VU m)" "vars \<sigma>5 xs = Some (VB sb)"
    using ne v4 by (simp_all add: \<sigma>5_def)
  from asr_result[OF v5(1) refl assms(4,5) v5(2) m v5(3) sb(2,3), of "{}"]
  obtain r where r: "ev \<sigma>5 (makeConditional (isNegativeSigned (VarExpression biguintType xv) 256)
      (makeBigUIntBinOp (VarExpression biguintType xs) BigBitOr (makeBigUIntBinOp makePow256 BigSub
         (makeBigUIntBinOp makePow256 BigFloorDiv (asrPow2n (VarExpression uint64Type xn)))))
      (VarExpression biguintType xs) biguintType) = Some (VB r, \<sigma>5)"
    "be_nat r = twos 256 (signed_of 256 (be_nat b) div 2 ^ m)" "length r \<le> 64" by (rule sbig_eval)
  have "signed_of 256 (be_nat b) div 2 ^ m = signed_of 256 (be_nat b) div 2 ^ n"
    using signed_div_saturates[of 256 "be_nat b" 255] signed_div_saturates[of 256 "be_nat b" n] assms(5)
    by (cases "n < 256") (simp_all add: m_def)
  with r(2) have r2: "be_nat r = twos 256 (signed_of 256 (be_nat b) div 2 ^ n)" by simp
  show ?thesis
    unfolding buildBigUIntArithmeticShiftRight_def built_bind built_nameGenNext Let_def
      i_def[symmetric] xv_def[symmetric] x_defs[symmetric]
    using r(1,3) r2 clamp sb(1) assms(3,6)
    by (simp add: makeVarExpression_def makeNumericCompare_def makeCommaExpression_def
        makeIntegerConstant_def makeConditional_def[of "NumericComparisonExpression _ _ _ _"]
        sem_comma sem_assign flip: \<sigma>3_def \<sigma>4_def \<sigma>5_def)
qed

lemma product_eval:
  assumes "vars \<sigma> x = Some (VB a)" "vars \<sigma> y = Some (VB b)"
  shows "ev \<sigma> (expWrap wrap (makeBigUIntBinOp (expVar x) BigMult (expVar y))) =
    map_option (\<lambda>p. (VB p, \<sigma>)) (mulw wrap a b)"
proof -
  have "ev \<sigma> (IntegerConstant biguintType kPow2_256) = Some (VB (be_min (2 ^ 256)), \<sigma>)"
    by (rule sem_bigint[OF _ pow2_512]) simp_all
  moreover have "length (be_min (2 ^ 256)) \<le> 64" by (rule length_be_min64[OF pow2_512]) simp
  moreover have "(2::nat) ^ 256 \<noteq> 0" by simp
  ultimately show ?thesis
    using assms unfolding expWrap_def expVar_def expConst_def makeVarExpression_def
      makeBigUIntBinOp_def makeIntegerConstant_def
    by (cases wrap)
       (simp_all add: sem_big bin_eval_def sem_var mulw_def byte_math_def Let_def
         del: power_numeral)
qed

lemma exp_body_exec:
  assumes v: "vars \<sigma> rv = Some (VB rb)" "vars \<sigma> bv = Some (VB bb)" "vars \<sigma> xv = Some (VB xb)"
    and "be_nat xb = x" "length xb \<le> 64" and ne: "rv \<noteq> bv" "rv \<noteq> xv" "bv \<noteq> xv"
  shows "exec ev \<sigma> (exp_body wrap rv bv xv)
    (case (if odd x then mulw wrap rb bb else Some rb) of None \<Rightarrow> Trap
     | Some rb' \<Rightarrow>
         (case mulw wrap bb bb of None \<Rightarrow> Trap
          | Some bb' \<Rightarrow> Normal (bind_var bv (VB bb') (bind_var xv (VB (be_min (x div 2)))
              (if odd x then bind_var rv (VB rb') \<sigma> else \<sigma>)))))"
    (is "exec ev \<sigma> _ ?out")
proof -
  let ?r = "AssignmentStatement (expVar rv) (expWrap wrap (makeBigUIntBinOp (expVar rv) BigMult (expVar bv)))"
  let ?x = "AssignmentStatement (expVar xv) (makeBigUIntBinOp (expVar xv) BigFloorDiv (expConst ''2''))"
  let ?b = "AssignmentStatement (expVar bv) (expWrap wrap (makeBigUIntBinOp (expVar bv) BigMult (expVar bv)))"
  let ?c = "makeNumericCompare (makeBigUIntBinOp (expVar xv) BigBitAnd (expConst ''1'')) Ne (expConst ''0'')"
  have var: "sbig ev {} \<tau> (expVar xv) x" if "vars \<tau> xv = Some (VB xb)" for \<tau>
    unfolding expVar_def makeVarExpression_def by (rule sbig_temp[OF that assms(4,5)])
  have const: "sbig ev {} \<tau> (expConst s) n" if "nat_of_dec s = Some n" "n < 2 ^ 512" for \<tau> s n
    unfolding expConst_def makeIntegerConstant_def using that by (rule sbig_int)
  have "sbool ev {} \<sigma> ?c (num_cmp Ne (x AND 1) 0)"
    unfolding makeNumericCompare_def makeBigUIntBinOp_def
    by (rule sval_cmp_big[OF sbig_and[OF var[OF v(3)] const] const]) simp_all
  then have c: "ev \<sigma> ?c = Some (VU (of_bool (odd x)), \<sigma>)"
    by (simp add: sval_empty and_one_eq odd_iff_mod_2_eq_one)
  have r: "exec ev \<sigma> ?r (case mulw wrap rb bb of None \<Rightarrow> Trap | Some p \<Rightarrow> Normal (bind_var rv (VB p) \<sigma>))"
    using product_eval[OF v(1,2), of wrap] unfolding expVar_def makeVarExpression_def
    by (auto split: option.split intro: Assign AssignTrap)
  have tail: "execs ev \<tau> [?x, ?b] (case mulw wrap bb bb of None \<Rightarrow> Trap
      | Some bb' \<Rightarrow> Normal (bind_var bv (VB bb') (bind_var xv (VB (be_min (x div 2))) \<tau>)))"
    if \<tau>: "vars \<tau> bv = Some (VB bb)" "vars \<tau> xv = Some (VB xb)" for \<tau>
  proof (rule execs_then)
    have "ev \<tau> (expConst ''2'') = Some (VB (be_min 2), \<tau>)"
      unfolding expConst_def makeIntegerConstant_def by (rule sem_bigint) simp_all
    moreover have "length (be_min 2) \<le> 64" by (rule length_be_min64) simp
    ultimately have "ev \<tau> (makeBigUIntBinOp (expVar xv) BigFloorDiv (expConst ''2'')) = Some (VB (be_min (x div 2)), \<tau>)"
      using \<tau> assms(4,5)
      by (simp add: makeBigUIntBinOp_def sem_big bin_eval_def expVar_def makeVarExpression_def sem_var byte_math_def)
    then show "exec ev \<tau> ?x (Normal (bind_var xv (VB (be_min (x div 2))) \<tau>))"
      unfolding expVar_def makeVarExpression_def by (rule Assign)
    let ?\<tau> = "bind_var xv (VB (be_min (x div 2))) \<tau>"
    have b: "vars ?\<tau> bv = Some (VB bb)" using ne \<tau> by simp
    show "execs ev ?\<tau> [?b] (case mulw wrap bb bb of None \<Rightarrow> Trap
        | Some bb' \<Rightarrow> Normal (bind_var bv (VB bb') ?\<tau>))"
      using product_eval[OF b b, of wrap] unfolding execs_single expVar_def makeVarExpression_def
      by (auto split: option.split intro: Assign AssignTrap)
  qed
  show ?thesis unfolding exp_body_def exec_Block
  proof (cases "odd x")
    case True
    have "exec ev \<sigma> (IfElse ?c (Some (Block [?r] None None)) None)
        (case mulw wrap rb bb of None \<Rightarrow> Trap | Some p \<Rightarrow> Normal (bind_var rv (VB p) \<sigma>))"
      using c r True by (intro IfTrue[where v = "VU 1" and \<sigma>' = \<sigma>]) simp_all
    moreover have "vars (bind_var rv (VB p) \<sigma>) bv = Some (VB bb)" "vars (bind_var rv (VB p) \<sigma>) xv = Some (VB xb)" for p
      using v ne by simp_all
    ultimately show "execs ev \<sigma> [IfElse ?c (Some (Block [?r] None None)) None, ?x, ?b] ?out"
      using True tail[of "bind_var rv (VB _) \<sigma>"]
      by (cases "mulw wrap rb bb") (auto intro: execs_then Stop)
  next
    case False
    have "exec ev \<sigma> (IfElse ?c (Some (Block [?r] None None)) None) (Normal \<sigma>)"
      using c False by (intro IfFalse[where v = "VU 0" and \<sigma>' = \<sigma>]) simp_all
    with tail[OF v(2,3)] False
    show "execs ev \<sigma> [IfElse ?c (Some (Block [?r] None None)) None, ?x, ?b] ?out" by (auto intro: execs_then)
  qed
qed

lemma exp_cond_eval:
  assumes "vars \<sigma> xv = Some (VB xb)" "be_nat xb = x" "length xb \<le> 64"
  shows "ev \<sigma> (makeNumericCompare (expVar xv) Gt (expConst ''0'')) = Some (VU (of_bool (0 < x)), \<sigma>)"
proof -
  have "sbool ev {} \<sigma> (makeNumericCompare (expVar xv) Gt (expConst ''0'')) (num_cmp Gt x 0)"
    unfolding makeNumericCompare_def expVar_def makeVarExpression_def expConst_def makeIntegerConstant_def
    by (rule sval_cmp_big[OF sbig_temp[OF assms] sbig_int]) simp_all
  then show ?thesis by (simp add: sval_empty)
qed

text \<open>The loop, unrolled once.\<close>

lemma exp_loop_unroll:
  assumes "vars \<sigma> rv = Some (VB rb)" "vars \<sigma> bv = Some (VB bb)" "vars \<sigma> xv = Some (VB xb)"
    and "be_nat xb = x" "length xb \<le> 64" and "rv \<noteq> bv" "rv \<noteq> xv" "bv \<noteq> xv" and "0 < x"
    and "(if odd x then mulw wrap rb bb else Some rb) = Some rb'" "mulw wrap bb bb = Some bb'"
    and "\<And>\<sigma>'. vars \<sigma>' rv = Some (VB rb') \<Longrightarrow> vars \<sigma>' bv = Some (VB bb') \<Longrightarrow>
      vars \<sigma>' xv = Some (VB (be_min (x div 2))) \<Longrightarrow>
      \<exists>out. exec ev \<sigma>' (WhileLoop (makeNumericCompare (expVar xv) Gt (expConst ''0'')) (Some (exp_body wrap rv bv xv))) out \<and> P out"
  shows "\<exists>out. exec ev \<sigma> (WhileLoop (makeNumericCompare (expVar xv) Gt (expConst ''0'')) (Some (exp_body wrap rv bv xv))) out \<and> P out"
proof -
  let ?\<sigma> = "bind_var bv (VB bb') (bind_var xv (VB (be_min (x div 2))) (if odd x then bind_var rv (VB rb') \<sigma> else \<sigma>))"
  have body: "exec ev \<sigma> (exp_body wrap rv bv xv) (Normal ?\<sigma>)"
    using exp_body_exec[OF assms(1-8), of wrap] assms(10,11) by simp
  have "vars ?\<sigma> rv = Some (VB rb')" using assms(1,6,7,10) by (cases "odd x") auto
  then obtain out where "exec ev ?\<sigma> (WhileLoop (makeNumericCompare (expVar xv) Gt (expConst ''0''))
      (Some (exp_body wrap rv bv xv))) out" "P out" using assms(12)[of ?\<sigma>] assms(6,7,8) by auto
  moreover have "ev \<sigma> (makeNumericCompare (expVar xv) Gt (expConst ''0'')) = Some (VU 1, \<sigma>)"
    using exp_cond_eval[OF assms(3-5)] assms(9) by simp
  moreover have "?\<sigma>\<lparr>cache := cache \<sigma>\<rparr> = ?\<sigma>" by (rule keep_cache) (simp add: bind_var_sel)
  moreover note body
  moreover define \<tau> where "\<tau> = ?\<sigma>"
  ultimately show ?thesis unfolding \<tau>_def[symmetric]
    by (intro exI[of _ out] conjI WhileStep[of ev \<sigma> _ "VU 1" \<sigma> _ "Normal \<tau>" \<tau>]) simp_all
qed

lemma exp_loop_done:
  assumes "vars \<sigma> xv = Some (VB xb)" "be_nat xb = 0" "length xb \<le> 64"
  shows "exec ev \<sigma> (WhileLoop (makeNumericCompare (expVar xv) Gt (expConst ''0'')) b) (Normal \<sigma>)"
  using exp_cond_eval[OF assms] by (intro WhileDone[where v = "VU 0"]) simp_all

lemma length_be_min_half: "length (be_min (be_nat xb div 2)) \<le> 64" if "length xb \<le> 64"
proof -
  have "be_nat xb < 256 ^ 64"
    using be_nat_bound[of xb] power_increasing[OF that, of "256::nat"] by linarith
  then show ?thesis by (intro length_be_min_le le_less_trans[OF div_le_dividend])
qed

lemma exp_loop_wrap:
  assumes ne: "rv \<noteq> bv" "rv \<noteq> xv" "bv \<noteq> xv"
    and "holds_big \<sigma> rv r" "r < 2 ^ 256" "holds_big \<sigma> bv b" "b < 2 ^ 256" "holds_big \<sigma> xv x"
  shows "\<exists>out. exec ev \<sigma> (WhileLoop (makeNumericCompare (expVar xv) Gt (expConst ''0'')) (Some (exp_body True rv bv xv))) out
    \<and> (\<exists>\<sigma>'. out = Normal \<sigma>' \<and> holds_big \<sigma>' rv (r * b ^ x mod 2 ^ 256))"
  using assms(4-)
proof (induction x arbitrary: \<sigma> r b rule: less_induct)
  case (less x)
  from less.prems obtain rb bb xb where
    v: "vars \<sigma> rv = Some (VB rb)" "vars \<sigma> bv = Some (VB bb)" "vars \<sigma> xv = Some (VB xb)"
    and n: "be_nat rb = r" "be_nat bb = b" "be_nat xb = x"
    and l: "length rb \<le> 64" "length bb \<le> 64" "length xb \<le> 64" by (auto simp: holds_big_def)
  show ?case
  proof (cases "x = 0")
    case True
    with exp_loop_done[OF v(3)] n(3) l(3) less.prems(1,2) show ?thesis by auto
  next
    case False
    from mulw_wrap[OF l(2,2)] n(2) less.prems(4) obtain bb' where
      bb': "mulw True bb bb = Some bb'" "be_nat bb' = b * b mod 2 ^ 256" "length bb' \<le> 64" by metis
    from mulw_wrap[OF l(1,2)] n(1,2) less.prems(2,4) obtain p where
      p: "mulw True rb bb = Some p" "be_nat p = r * b mod 2 ^ 256" "length p \<le> 64" by metis
    define rb' where "rb' = (if odd x then p else rb)"
    have rb': "(if odd x then mulw True rb bb else Some rb) = Some rb'"
      "be_nat rb' = (if odd x then r * b mod 2 ^ 256 else r)" "length rb' \<le> 64"
      using p n(1) l(1) by (simp_all add: rb'_def)
    show ?thesis
    proof (rule exp_loop_unroll[OF v n(3) l(3) ne _ rb'(1) bb'(1)])
      fix \<sigma>' :: "'z menv_scheme" assume \<sigma>': "vars \<sigma>' rv = Some (VB rb')" "vars \<sigma>' bv = Some (VB bb')"
        "vars \<sigma>' xv = Some (VB (be_min (x div 2)))"
      have h: "holds_big \<sigma>' rv (if odd x then r * b mod 2 ^ 256 else r)" "holds_big \<sigma>' bv (b * b mod 2 ^ 256)"
        "holds_big \<sigma>' xv (x div 2)"
        using \<sigma>' rb' bb' length_be_min_half[OF l(3)] n(3) by (auto simp: holds_big_def)
      from False have d: "x div 2 < x" by simp
      have s: "(if odd x then r * b mod 2 ^ 256 else r) < 2 ^ 256" using less.prems(2) by simp
      have t: "b * b mod 2 ^ 256 < 2 ^ 256" by simp
      from less.IH[OF d h(1) s h(2) t h(3)] power_step_mod[of x r b "2 ^ 256"]
      show "\<exists>out. exec ev \<sigma>' (WhileLoop (makeNumericCompare (expVar xv) Gt (expConst ''0''))
          (Some (exp_body True rv bv xv))) out \<and> (\<exists>\<sigma>'. out = Normal \<sigma>' \<and> holds_big \<sigma>' rv (r * b ^ x mod 2 ^ 256))"
        by (simp only:)
    qed (use False in simp)
  qed
qed

lemma exp_loop_checked:
  assumes ne: "rv \<noteq> bv" "rv \<noteq> xv" "bv \<noteq> xv"
    and "holds_big \<sigma> rv r" "holds_big \<sigma> bv b" "holds_big \<sigma> xv x"
    and "r * b ^ x < 2 ^ 256" "0 < x \<Longrightarrow> b < 2 ^ 256" "0 < r \<or> b = 0"
  shows "\<exists>out. exec ev \<sigma> (WhileLoop (makeNumericCompare (expVar xv) Gt (expConst ''0'')) (Some (exp_body False rv bv xv))) out
    \<and> (\<exists>\<sigma>'. out = Normal \<sigma>' \<and> holds_big \<sigma>' rv (r * b ^ x))"
  using assms(4-)
proof (induction x arbitrary: \<sigma> r b rule: less_induct)
  case (less x)
  from less.prems obtain rb bb xb where
    v: "vars \<sigma> rv = Some (VB rb)" "vars \<sigma> bv = Some (VB bb)" "vars \<sigma> xv = Some (VB xb)"
    and n: "be_nat rb = r" "be_nat bb = b" "be_nat xb = x"
    and l: "length rb \<le> 64" "length bb \<le> 64" "length xb \<le> 64" by (auto simp: holds_big_def)
  show ?case
  proof (cases "x = 0")
    case True
    with exp_loop_done[OF v(3)] n(3) l(3) less.prems(1) show ?thesis by auto
  next
    case False
    then have bl: "b < 2 ^ 256" using less.prems(5) by simp
    have "b * b < 2 ^ 256 * 2 ^ 256" using bl by (intro mult_strict_mono') simp_all
    then have bb: "b * b < 2 ^ 512" by (simp flip: power_add)
    have "b \<le> b ^ x" using False by (cases "b = 0") (simp_all add: self_le_power)
    then have "r * b \<le> r * b ^ x" by simp
    with less.prems(4) have rl: "r * b < 2 ^ 512" using pow2_512[of 256] by linarith
    have sq: "b * b < 2 ^ 256" if "0 < x div 2"
    proof (cases "b = 0")
      case False
      with less.prems(6) have "0 < r" by simp
      have "b ^ 2 \<le> b ^ x" using that False by (intro power_increasing) simp_all
      also have "\<dots> \<le> r * b ^ x" using \<open>0 < r\<close> by simp
      finally show ?thesis using less.prems(4) by (simp add: power2_eq_square)
    qed simp
    define rb' where "rb' = (if odd x then be_min (r * b) else rb)"
    have rb': "(if odd x then mulw False rb bb else Some rb) = Some rb'"
      "be_nat rb' = (if odd x then r * b else r)" "length rb' \<le> 64"
      using mulw_plain[OF l(1,2)] n l length_be_min64[OF rl] by (simp_all add: rb'_def)
    show ?thesis
    proof (rule exp_loop_unroll[OF v n(3) l(3) ne _ rb'(1) mulw_plain[OF l(2,2), unfolded n]])
      fix \<sigma>' :: "'z menv_scheme" assume \<sigma>': "vars \<sigma>' rv = Some (VB rb')"
        "vars \<sigma>' bv = Some (VB (be_min (b * b)))" "vars \<sigma>' xv = Some (VB (be_min (x div 2)))"
      have h: "holds_big \<sigma>' rv (if odd x then r * b else r)" "holds_big \<sigma>' bv (b * b)"
        "holds_big \<sigma>' xv (x div 2)"
        using \<sigma>' rb' length_be_min64[OF bb] length_be_min_half[OF l(3)] n(3) by (auto simp: holds_big_def)
      from False have d: "x div 2 < x" by simp
      have z: "0 < (if odd x then r * b else r) \<or> b * b = 0" using less.prems(6) by auto
      from less.IH[OF d h _ sq z] less.prems(4)
      show "\<exists>out. exec ev \<sigma>' (WhileLoop (makeNumericCompare (expVar xv) Gt (expConst ''0''))
          (Some (exp_body False rv bv xv))) out \<and> (\<exists>\<sigma>'. out = Normal \<sigma>' \<and> holds_big \<sigma>' rv (r * b ^ x))"
        by (simp only: power_step)
    qed (use False in simp)
  qed
qed

lemma exp_loop_exact:
  assumes ne: "rv \<noteq> bv" "rv \<noteq> xv" "bv \<noteq> xv"
    and "vars \<sigma> rv = Some (VB rb)" "vars \<sigma> bv = Some (VB bb)" "vars \<sigma> xv = Some (VB xb)"
    and "be_nat xb = x" "length xb \<le> 64"
  shows "\<exists>out. exec ev \<sigma> (WhileLoop (makeNumericCompare (expVar xv) Gt (expConst ''0'')) (Some (exp_body False rv bv xv))) out
    \<and> (out = Trap \<or> (\<exists>\<sigma>' p. out = Normal \<sigma>' \<and> vars \<sigma>' rv = Some (VB p) \<and> be_nat p = be_nat rb * be_nat bb ^ x))"
  using assms(4-)
proof (induction x arbitrary: \<sigma> rb bb xb rule: less_induct)
  case (less x)
  note v = less.prems(1-3) and x = less.prems(4) and l = less.prems(5)
  let ?r = "if odd x then mulw False rb bb else Some rb" and ?b = "mulw False bb bb"
  consider (zero) "x = 0" | (trap) "0 < x" "?r = None \<or> ?b = None"
    | (step) rb' bb' where "0 < x" "?r = Some rb'" "?b = Some bb'"
    by (metis neq0_conv not_None_eq)
  then show ?case
  proof cases
    case zero
    with exp_loop_done[OF v(3)] x l v(1) show ?thesis by auto
  next
    case trap
    have "exec ev \<sigma> (exp_body False rv bv xv) Trap"
      using exp_body_exec[OF v x l ne, of False] trap(2) by (auto split: option.splits if_splits)
    then have "exec_branch ev \<sigma> (Some (exp_body False rv bv xv)) Trap" by simp
    moreover have "ev \<sigma> (makeNumericCompare (expVar xv) Gt (expConst ''0'')) = Some (VU 1, \<sigma>)"
      using exp_cond_eval[OF v(3) x l] trap(1) by simp
    ultimately show ?thesis
      by (intro exI[of _ Trap] conjI WhileExit[of ev \<sigma> _ "VU 1" \<sigma>]) simp_all
  next
    case step
    from step(3) have lb: "length bb \<le> 64" and bb': "be_nat bb' = be_nat bb * be_nat bb"
      by (auto simp: mulw_def split: if_splits)
    from step(2) have rb': "be_nat rb' = (if odd x then be_nat rb * be_nat bb else be_nat rb)"
      by (auto simp: mulw_def split: if_splits)
    show ?thesis
    proof (rule exp_loop_unroll[OF v x l ne step])
      fix \<sigma>' :: "'z menv_scheme" assume \<sigma>': "vars \<sigma>' rv = Some (VB rb')"
        "vars \<sigma>' bv = Some (VB bb')" "vars \<sigma>' xv = Some (VB (be_min (x div 2)))"
      have d: "x div 2 < x" using step(1) by simp
      from less.IH[OF d \<sigma>' be_nat_be_min] length_be_min_half[OF l] x
      show "\<exists>out. exec ev \<sigma>' (WhileLoop (makeNumericCompare (expVar xv) Gt (expConst ''0'')) (Some (exp_body False rv bv xv))) out
        \<and> (out = Trap \<or> (\<exists>\<sigma>' p. out = Normal \<sigma>' \<and> vars \<sigma>' rv = Some (VB p) \<and> be_nat p = be_nat rb * be_nat bb ^ x))"
        unfolding bb' rb' by (simp only: power_step)
    qed
  qed
qed

lemma exp_execs:
  fixes i :: string
  defines "rv \<equiv> ''__biguint_exp_result_'' @ i" and "bv \<equiv> ''__biguint_exp_base_'' @ i"
    and "xv \<equiv> ''__biguint_exp_exp_'' @ i"
  assumes "ev (bind_var rv (VB [1]) \<sigma>) base = Some (VB bb, \<sigma>1)"
    and "ev (bind_var bv (VB bb) \<sigma>1) exponent = Some (VB xb, \<sigma>2)"
    and "exec ev (bind_var xv (VB xb) \<sigma>2) (WhileLoop (makeNumericCompare (expVar xv) Gt (expConst ''0''))
      (Some (exp_body wrap rv bv xv))) out"
  shows "execs ev \<sigma> (exp_stmts wrap i base exponent) out"
proof -
  have "be_min 1 = [1]" by (simp add: be_min.simps[of 1] be_min.simps[of 0])
  then have "ev \<sigma> (expConst ''1'') = Some (VB [1], \<sigma>)"
    unfolding expConst_def makeIntegerConstant_def using sem_bigint[of "''1''" 1 \<sigma>] by simp
  then have a1: "exec ev \<sigma> (AssignmentStatement (expVar rv) (expConst ''1'')) (Normal (bind_var rv (VB [1]) \<sigma>))"
    unfolding expVar_def makeVarExpression_def by (rule Assign)
  have a2: "exec ev (bind_var rv (VB [1]) \<sigma>) (AssignmentStatement (expVar bv) base) (Normal (bind_var bv (VB bb) \<sigma>1))"
    unfolding expVar_def makeVarExpression_def by (rule Assign) (rule assms(4))
  have a3: "exec ev (bind_var bv (VB bb) \<sigma>1) (AssignmentStatement (expVar xv) exponent) (Normal (bind_var xv (VB xb) \<sigma>2))"
    unfolding expVar_def makeVarExpression_def by (rule Assign) (rule assms(5))
  show ?thesis
    unfolding exp_stmts_def rv_def[symmetric] bv_def[symmetric] xv_def[symmetric]
    by (rule execs_then[OF a1 execs_then[OF a2 execs_then[OF a3]]]) (simp only: execs_single assms(6))
qed

lemma exp_names:
  "''__biguint_exp_result_'' @ i \<noteq> ''__biguint_exp_base_'' @ i"
  "''__biguint_exp_result_'' @ i \<noteq> ''__biguint_exp_exp_'' @ i"
  "''__biguint_exp_base_'' @ i \<noteq> ''__biguint_exp_exp_'' @ i"
  by simp_all

end

section \<open>Properties\<close>

text \<open>
  (C6) Shifts of 256-bit values: a left shift multiplies by \<open>2^n\<close> modulo \<open>2^256\<close>, a right shift
  divides by \<open>2^n\<close>, and every shift by 256 or more yields 0 instead of a trap.  Value and amount may
  have effects; the value is evaluated first, exactly once and even when the shift saturates, and
  the amount exactly once.
\<close>

theorem buildBigUIntShift_correct:
  assumes "avm ev" and "x = ''__shift_v_'' @ dec_of_nat (counters s ''BigUIntMath.shift'')"
    and "ev \<sigma> value = Some (VB b, \<sigma>1)" "length b \<le> 64" "be_nat b < 2 ^ 256"
    and "ev (bind_var x (VB b) \<sigma>1) amount = Some (VU n, \<sigma>2)" "vars \<sigma>2 x = Some (VB b)"
    and "ids_free s \<sigma>1" and "run_state (buildBigUIntShift value amount left) s = (e', s')"
  shows "\<exists>r c. ev \<sigma> e' = Some (VB r, \<sigma>2\<lparr>cache := c\<rparr>) \<and> length r \<le> 64 \<and>
    be_nat r = (if n < 256 then (if left then be_nat b * 2 ^ n mod 2 ^ 256 else be_nat b div 2 ^ n) else 0)"
  by (rule built_run[OF avm.shift_eval assms(9)]) (use assms(1-8) in simp_all)

theorem buildBigUIntShift_correct_witness:
  "\<exists>r \<sigma>'. aeval (env_of [(''v'', VB [5]), (''n'', VU 255)])
     (fst (run_state (buildBigUIntShift (VarExpression biguintType ''v'') (VarExpression uint64Type ''n'') True) initialBst))
     = Some (VB r, \<sigma>') \<and> be_nat r = 2 ^ 255"
proof -
  let ?v = "VarExpression biguintType ''v''" and ?n = "VarExpression uint64Type ''n''"
  let ?\<sigma> = "env_of [(''v'', VB [5]), (''n'', VU 255)]"
  obtain e' s' where r: "run_state (buildBigUIntShift ?v ?n True) initialBst = (e', s')" by force
  let ?x = "''__shift_v_'' @ dec_of_nat (counters initialBst ''BigUIntMath.shift'')"
  have "\<exists>r c. aeval ?\<sigma> e' = Some (VB r, (bind_var ?x (VB [5]) ?\<sigma>)\<lparr>cache := c\<rparr>) \<and> length r \<le> 64 \<and>
    be_nat r = (if 255 < (256::nat) then (if True then be_nat [5] * 2 ^ 255 mod 2 ^ 256 else be_nat [5] div 2 ^ 255) else 0)"
    by (rule buildBigUIntShift_correct[OF ref.avm_axioms refl _ _ _ _ _ _ r, where b = "[5]" and ?\<sigma>1.0 = ?\<sigma>])
       (simp_all add: be_nat_def ids_free_def bind_var_def)
  with r show ?thesis by (auto simp: be_nat_def)
qed

text \<open>
  (C7) The arithmetic right shift of a 256-bit two's-complement value is floor division of the signed
  value by \<open>2^n\<close>, for every amount: amounts above 255 leave 0 or -1.
\<close>

theorem buildBigUIntArithmeticShiftRight_correct:
  assumes "avm ev" and "x = ''__asr_v_'' @ dec_of_nat (counters s ''BigUIntMath.asr'')"
    and "ev \<sigma> value = Some (VB b, \<sigma>1)" "length b \<le> 64" "be_nat b < 2 ^ 256"
    and "ev (bind_var x (VB b) \<sigma>1) amount = Some (VU n, \<sigma>2)" "vars \<sigma>2 x = Some (VB b)"
    and "run_state (buildBigUIntArithmeticShiftRight value amount) s = (e', s')"
  shows "\<exists>r \<sigma>3. ev \<sigma> e' = Some (VB r, \<sigma>3) \<and> length r \<le> 64 \<and>
    be_nat r = twos 256 (signed_of 256 (be_nat b) div 2 ^ n)"
  by (rule built_run[OF avm.asr_eval assms(8)]) (use assms(1-7) in simp_all)

theorem buildBigUIntArithmeticShiftRight_correct_witness:
  "\<exists>r \<sigma>'. aeval (env_of [(''v'', VB (be_fixed 32 (2 ^ 256 - 5))), (''n'', VU 1)])
     (fst (run_state (buildBigUIntArithmeticShiftRight (VarExpression biguintType ''v'') (VarExpression uint64Type ''n'')) initialBst))
     = Some (VB r, \<sigma>') \<and> be_nat r = 2 ^ 256 - 3"
proof -
  let ?v = "VarExpression biguintType ''v''" and ?n = "VarExpression uint64Type ''n''"
  let ?b = "be_fixed 32 (2 ^ 256 - 5)"
  let ?\<sigma> = "env_of [(''v'', VB ?b), (''n'', VU 1)]"
  have b: "be_nat ?b = 2 ^ 256 - 5" unfolding be_nat_be_fixed by simp
  obtain e' s' where r: "run_state (buildBigUIntArithmeticShiftRight ?v ?n) initialBst = (e', s')" by force
  let ?x = "''__asr_v_'' @ dec_of_nat (counters initialBst ''BigUIntMath.asr'')"
  have "\<exists>r \<sigma>3. aeval ?\<sigma> e' = Some (VB r, \<sigma>3) \<and> length r \<le> 64 \<and>
    be_nat r = twos 256 (signed_of 256 (be_nat ?b) div 2 ^ 1)"
    by (rule buildBigUIntArithmeticShiftRight_correct[OF ref.avm_axioms refl _ _ _ _ _ r, where b = ?b and ?\<sigma>1.0 = ?\<sigma> and ?\<sigma>2.0 = "bind_var ?x (VB ?b) ?\<sigma>"])
       (simp_all add: be_nat_be_fixed del: be_fixed.simps)
  with r show ?thesis unfolding b by (auto simp: twos_def signed_of_def)
qed

text \<open>
  (C8) Unchecked exponentiation: the queued square-and-multiply loop terminates, without a trap, with
  \<open>base ^ exponent mod 2^256\<close> in the returned variable, for every exponent of up to 64 bytes.
\<close>

theorem buildBigUIntExp_unchecked:
  assumes "avm ev" and "wtypeOf base = biguintType" "wtypeOf exponent = biguintType"
    and "i = dec_of_nat (counters s ''BigUIntMathHelpers.expCounter'')"
    and "ev (bind_var (''__biguint_exp_result_'' @ i) (VB [1]) \<sigma>) base = Some (VB bb, \<sigma>1)"
    and "ev (bind_var (''__biguint_exp_base_'' @ i) (VB bb) \<sigma>1) exponent = Some (VB xb, \<sigma>2)"
    and "vars \<sigma>2 (''__biguint_exp_result_'' @ i) = Some (VB [1])"
    and "vars \<sigma>2 (''__biguint_exp_base_'' @ i) = Some (VB bb)"
    and "be_nat bb < 2 ^ 256" "length bb \<le> 64" "length xb \<le> 64"
    and "run_state (buildBigUIntExp True base exponent) s = (e', s')"
  shows "\<exists>queued \<sigma>3 r. preEffects s' = preEffects s @ queued \<and> execs ev \<sigma> queued (Normal \<sigma>3) \<and>
    ev \<sigma>3 e' = Some (VB r, \<sigma>3) \<and> length r \<le> 64 \<and> be_nat r = be_nat bb ^ be_nat xb mod 2 ^ 256"
proof -
  let ?\<sigma> = "bind_var (''__biguint_exp_exp_'' @ i) (VB xb) \<sigma>2"
  have h: "holds_big ?\<sigma> (''__biguint_exp_result_'' @ i) 1" "holds_big ?\<sigma> (''__biguint_exp_base_'' @ i) (be_nat bb)"
    "holds_big ?\<sigma> (''__biguint_exp_exp_'' @ i) (be_nat xb)"
    using assms(7,8,10,11) by (simp_all add: holds_big_def be_nat_def)
  from avm.exp_loop_wrap[OF assms(1) avm.exp_names[OF assms(1)] h(1) _ h(2) assms(9) h(3)]
  obtain \<sigma>3 where "exec ev ?\<sigma> (WhileLoop (makeNumericCompare (expVar (''__biguint_exp_exp_'' @ i)) Gt (expConst ''0''))
      (Some (exp_body True (''__biguint_exp_result_'' @ i) (''__biguint_exp_base_'' @ i) (''__biguint_exp_exp_'' @ i)))) (Normal \<sigma>3)"
    and r: "holds_big \<sigma>3 (''__biguint_exp_result_'' @ i) (be_nat bb ^ be_nat xb mod 2 ^ 256)" by auto
  from avm.exp_execs[OF assms(1,5,6) this(1)] exp_run[OF assms(2,3,4,12)] r
  show ?thesis
    by (auto simp: holds_big_def expVar_def makeVarExpression_def avm.sem_var[OF assms(1)])
qed

theorem buildBigUIntExp_unchecked_witness:
  "\<exists>\<sigma>3 r. execs aeval (env_of [(''b'', VB [3]), (''x'', VB [200])])
      (preEffects (snd (run_state (buildBigUIntExp True (VarExpression biguintType ''b'') (VarExpression biguintType ''x'')) initialBst)))
      (Normal \<sigma>3) \<and>
    aeval \<sigma>3 (fst (run_state (buildBigUIntExp True (VarExpression biguintType ''b'') (VarExpression biguintType ''x'')) initialBst))
      = Some (VB r, \<sigma>3) \<and> be_nat r = 3 ^ 200 mod 2 ^ 256"
proof -
  let ?b = "VarExpression biguintType ''b''" and ?x = "VarExpression biguintType ''x''"
  let ?\<sigma> = "env_of [(''b'', VB [3]), (''x'', VB [200])]"
  have n: "be_nat [3] = 3" "be_nat [200] = 200" by (simp_all add: be_nat_def One_nat_def)
  obtain e' s' where r: "run_state (buildBigUIntExp True ?b ?x) initialBst = (e', s')" by force
  let ?i = "dec_of_nat (counters initialBst ''BigUIntMathHelpers.expCounter'')"
  let ?\<sigma>1 = "bind_var (''__biguint_exp_result_'' @ ?i) (VB [1]) ?\<sigma>"
  let ?\<sigma>2 = "bind_var (''__biguint_exp_base_'' @ ?i) (VB [3]) ?\<sigma>1"
  from buildBigUIntExp_unchecked[OF ref.avm_axioms _ _ refl _ _ _ _ _ _ _ r,
      where bb = "[3]" and xb = "[200]" and \<sigma> = ?\<sigma> and ?\<sigma>1.0 = ?\<sigma>1 and ?\<sigma>2.0 = ?\<sigma>2] r
  show ?thesis by (auto simp: n initialBst_def)
qed

text \<open>
  (C9) Checked exponentiation, no false alarm: whenever \<open>base ^ exponent\<close> fits in 256 bits the loop
  does not trap and returns it, although the loop squares the base once more than it needs.
\<close>

theorem buildBigUIntExp_checked:
  assumes "avm ev" and "wtypeOf base = biguintType" "wtypeOf exponent = biguintType"
    and "i = dec_of_nat (counters s ''BigUIntMathHelpers.expCounter'')"
    and "ev (bind_var (''__biguint_exp_result_'' @ i) (VB [1]) \<sigma>) base = Some (VB bb, \<sigma>1)"
    and "ev (bind_var (''__biguint_exp_base_'' @ i) (VB bb) \<sigma>1) exponent = Some (VB xb, \<sigma>2)"
    and "vars \<sigma>2 (''__biguint_exp_result_'' @ i) = Some (VB [1])"
    and "vars \<sigma>2 (''__biguint_exp_base_'' @ i) = Some (VB bb)"
    and "be_nat bb < 2 ^ 256" "length bb \<le> 64" "length xb \<le> 64"
    and "be_nat bb ^ be_nat xb < 2 ^ 256"
    and "run_state (buildBigUIntExp False base exponent) s = (e', s')"
  shows "\<exists>queued \<sigma>3 r. preEffects s' = preEffects s @ queued \<and> execs ev \<sigma> queued (Normal \<sigma>3) \<and>
    ev \<sigma>3 e' = Some (VB r, \<sigma>3) \<and> length r \<le> 64 \<and> be_nat r = be_nat bb ^ be_nat xb"
proof -
  let ?\<sigma> = "bind_var (''__biguint_exp_exp_'' @ i) (VB xb) \<sigma>2"
  have h: "holds_big ?\<sigma> (''__biguint_exp_result_'' @ i) 1" "holds_big ?\<sigma> (''__biguint_exp_base_'' @ i) (be_nat bb)"
    "holds_big ?\<sigma> (''__biguint_exp_exp_'' @ i) (be_nat xb)"
    using assms(7,8,10,11) by (simp_all add: holds_big_def be_nat_def)
  from avm.exp_loop_checked[OF assms(1) avm.exp_names[OF assms(1)] h] assms(9,12)
  obtain \<sigma>3 where "exec ev ?\<sigma> (WhileLoop (makeNumericCompare (expVar (''__biguint_exp_exp_'' @ i)) Gt (expConst ''0''))
      (Some (exp_body False (''__biguint_exp_result_'' @ i) (''__biguint_exp_base_'' @ i) (''__biguint_exp_exp_'' @ i)))) (Normal \<sigma>3)"
    and r: "holds_big \<sigma>3 (''__biguint_exp_result_'' @ i) (be_nat bb ^ be_nat xb)" by auto
  from avm.exp_execs[OF assms(1,5,6) this(1)] exp_run[OF assms(2,3,4,13)] r
  show ?thesis
    by (auto simp: holds_big_def expVar_def makeVarExpression_def avm.sem_var[OF assms(1)])
qed

theorem buildBigUIntExp_checked_witness:
  "\<exists>\<sigma>3 r. execs aeval (env_of [(''b'', VB [3]), (''x'', VB [5])])
      (preEffects (snd (run_state (buildBigUIntExp False (VarExpression biguintType ''b'') (VarExpression biguintType ''x'')) initialBst)))
      (Normal \<sigma>3) \<and>
    aeval \<sigma>3 (fst (run_state (buildBigUIntExp False (VarExpression biguintType ''b'') (VarExpression biguintType ''x'')) initialBst))
      = Some (VB r, \<sigma>3) \<and> be_nat r = 243"
proof -
  let ?b = "VarExpression biguintType ''b''" and ?x = "VarExpression biguintType ''x''"
  let ?\<sigma> = "env_of [(''b'', VB [3]), (''x'', VB [5])]"
  have n: "be_nat [3] = 3" "be_nat [5] = 5" by (simp_all add: be_nat_def One_nat_def)
  obtain e' s' where r: "run_state (buildBigUIntExp False ?b ?x) initialBst = (e', s')" by force
  let ?i = "dec_of_nat (counters initialBst ''BigUIntMathHelpers.expCounter'')"
  let ?\<sigma>1 = "bind_var (''__biguint_exp_result_'' @ ?i) (VB [1]) ?\<sigma>"
  let ?\<sigma>2 = "bind_var (''__biguint_exp_base_'' @ ?i) (VB [3]) ?\<sigma>1"
  from buildBigUIntExp_checked[OF ref.avm_axioms _ _ refl _ _ _ _ _ _ _ _ r,
      where bb = "[3]" and xb = "[5]" and \<sigma> = ?\<sigma> and ?\<sigma>1.0 = ?\<sigma>1 and ?\<sigma>2.0 = ?\<sigma>2] r
  show ?thesis by (auto simp: n initialBst_def)
qed

text \<open>
  (C10) Checked exponentiation, no wrong result: for every base and exponent the queued statements
  have an outcome, which is a trap or the exact power, never a wrapped value, so the caller's range
  check decides on the true result.
\<close>

theorem buildBigUIntExp_checked_exact:
  assumes "avm ev" and "wtypeOf base = biguintType" "wtypeOf exponent = biguintType"
    and "i = dec_of_nat (counters s ''BigUIntMathHelpers.expCounter'')"
    and "ev (bind_var (''__biguint_exp_result_'' @ i) (VB [1]) \<sigma>) base = Some (VB bb, \<sigma>1)"
    and "ev (bind_var (''__biguint_exp_base_'' @ i) (VB bb) \<sigma>1) exponent = Some (VB xb, \<sigma>2)"
    and "vars \<sigma>2 (''__biguint_exp_result_'' @ i) = Some (VB [1])"
    and "vars \<sigma>2 (''__biguint_exp_base_'' @ i) = Some (VB bb)" and "length xb \<le> 64"
    and "run_state (buildBigUIntExp False base exponent) s = (e', s')"
  shows "\<exists>queued out. preEffects s' = preEffects s @ queued \<and> execs ev \<sigma> queued out \<and>
    (out = Trap \<or>
     (\<exists>\<sigma>3 r. out = Normal \<sigma>3 \<and> ev \<sigma>3 e' = Some (VB r, \<sigma>3) \<and> be_nat r = be_nat bb ^ be_nat xb))"
proof -
  let ?\<sigma> = "bind_var (''__biguint_exp_exp_'' @ i) (VB xb) \<sigma>2"
  have v: "vars ?\<sigma> (''__biguint_exp_result_'' @ i) = Some (VB [1])" "vars ?\<sigma> (''__biguint_exp_base_'' @ i) = Some (VB bb)"
    "vars ?\<sigma> (''__biguint_exp_exp_'' @ i) = Some (VB xb)" using assms(7,8) by simp_all
  have one: "be_nat [1] = 1" by (simp add: be_nat_def)
  from avm.exp_loop_exact[OF assms(1) avm.exp_names[OF assms(1)] v refl assms(9)]
  obtain out where "exec ev ?\<sigma> (WhileLoop (makeNumericCompare (expVar (''__biguint_exp_exp_'' @ i)) Gt (expConst ''0''))
      (Some (exp_body False (''__biguint_exp_result_'' @ i) (''__biguint_exp_base_'' @ i) (''__biguint_exp_exp_'' @ i)))) out"
    and r: "out = Trap \<or> (\<exists>\<sigma>' p. out = Normal \<sigma>' \<and> vars \<sigma>' (''__biguint_exp_result_'' @ i) = Some (VB p) \<and>
        be_nat p = be_nat bb ^ be_nat xb)" unfolding one by auto
  from avm.exp_execs[OF assms(1,5,6) this(1)] exp_run[OF assms(2,3,4,10)] r
  show ?thesis
    by (auto simp: expVar_def makeVarExpression_def avm.sem_var[OF assms(1)])
qed

theorem buildBigUIntExp_checked_exact_witness:
  "\<exists>out. execs aeval (env_of [(''b'', VB [3]), (''x'', VB [5])])
      (preEffects (snd (run_state (buildBigUIntExp False (VarExpression biguintType ''b'') (VarExpression biguintType ''x'')) initialBst)))
      out \<and>
    (out = Trap \<or> (\<exists>\<sigma>3 r. out = Normal \<sigma>3 \<and> aeval \<sigma>3 (fst (run_state (buildBigUIntExp False (VarExpression biguintType ''b'') (VarExpression biguintType ''x'')) initialBst))
      = Some (VB r, \<sigma>3) \<and> be_nat r = 243))"
proof -
  let ?b = "VarExpression biguintType ''b''" and ?x = "VarExpression biguintType ''x''"
  let ?\<sigma> = "env_of [(''b'', VB [3]), (''x'', VB [5])]"
  have n: "be_nat [3] = 3" "be_nat [5] = 5" by (simp_all add: be_nat_def One_nat_def)
  obtain e' s' where r: "run_state (buildBigUIntExp False ?b ?x) initialBst = (e', s')" by force
  let ?i = "dec_of_nat (counters initialBst ''BigUIntMathHelpers.expCounter'')"
  let ?\<sigma>1 = "bind_var (''__biguint_exp_result_'' @ ?i) (VB [1]) ?\<sigma>"
  let ?\<sigma>2 = "bind_var (''__biguint_exp_base_'' @ ?i) (VB [3]) ?\<sigma>1"
  from buildBigUIntExp_checked_exact[OF ref.avm_axioms _ _ refl _ _ _ _ _ r,
      where bb = "[3]" and xb = "[5]" and \<sigma> = ?\<sigma> and ?\<sigma>1.0 = ?\<sigma>1 and ?\<sigma>2.0 = ?\<sigma>2] r
  show ?thesis by (auto simp: n initialBst_def)
qed

end
