(* ===== verification/SignedMath.thy ===== *)
theory SignedMath
  imports BigUIntMath
begin

text \<open>
  Correctness of the signed builders of \<open>BigUIntMath\<close>: truncating division and remainder, checked
  and unchecked addition, subtraction and multiplication at every width, increment, decrement and
  negation.
\<close>

lemma signed_of_inject: "a < 2 ^ n \<Longrightarrow> b < 2 ^ n \<Longrightarrow> signed_of n a = signed_of n b \<longleftrightarrow> a = b"
  by (metis twos_signed_of)

lemma twos_mod: "m \<le> n \<Longrightarrow> twos n x mod 2 ^ m = twos m x"
proof -
  assume "m \<le> n"
  then have d: "(2::int) ^ m dvd 2 ^ n" by (rule le_imp_power_dvd)
  have "int (twos n x mod 2 ^ m) = int (twos m x)"
    by (simp add: twos_def zmod_int mod_mod_cancel[OF d])
  then show ?thesis by (simp only: of_nat_eq_iff)
qed

lemma signed_zero: "0 < n \<Longrightarrow> v < 2 ^ n \<Longrightarrow> signed_of n v = 0 \<longleftrightarrow> v = 0"
  using signed_of_inject[of v n 0] by (simp add: signed_of_def)

lemma eval_seq_comma2 [simp]: "es \<noteq> [] \<Longrightarrow> eval_seq ev \<sigma> (e # es) =
    (case ev \<sigma> e of None \<Rightarrow> None | Some (_, \<sigma>') \<Rightarrow> eval_seq ev \<sigma>' es)"
  by (cases es) (auto split: option.split)

lemma guarded_result:
  assumes "z \<Longrightarrow> X = None" and "\<not> z \<Longrightarrow> \<exists>w. X = Some (w, \<tau>) \<and> P w"
  shows "if z \<or> G then (if G then None else X) = None
    else \<exists>v \<sigma>. (if G then None else X) = Some (v, \<sigma>) \<and> P v"
  using assms by auto

lemma pow2NAndHalf_values:
  assumes "0 < bits" "bits \<le> 256"
  shows "nat_of_dec (fst (pow2NAndHalf bits)) = Some (2 ^ bits)"
    and "nat_of_dec (snd (pow2NAndHalf bits)) = Some (2 ^ (bits - 1))"
  using assms u256_pow2_less[of bits] u256_pow2_less[of "bits - 1"]
  by (auto simp: pow2NAndHalf_def)

text \<open>The exact integer result of a signed operation.\<close>

definition signed_op :: "BuilderBinaryOp \<Rightarrow> int \<Rightarrow> int \<Rightarrow> int" where
  "signed_op oper x y = (if oper = OpSub then x - y else if oper = OpMult then x * y else x + y)"

definition raw_op :: "BuilderBinaryOp \<Rightarrow> nat \<Rightarrow> nat \<Rightarrow> nat \<Rightarrow> nat" where
  "raw_op oper bits a b =
     (if oper = OpSub then a + 2 ^ bits - b else if oper = OpMult then a * b else a + b) mod 2 ^ bits"

lemma raw_op_twos:
  "b \<le> 2 ^ bits \<Longrightarrow> raw_op oper bits a b = twos bits (signed_op oper (signed_of bits a) (signed_of bits b))"
  by (simp add: raw_op_def signed_op_def twos_signed_add twos_signed_mult twos_signed_diff)

text \<open>
  The contract of a builder that queues a check and returns an expression: when \<open>ok\<close> holds the
  queued statements run through and the expression then has a value in \<open>P\<close>; otherwise they trap.
\<close>

definition checked_value ::
    "'z evaluator \<Rightarrow> 'z menv_scheme \<Rightarrow> stmt list \<Rightarrow> expr \<Rightarrow> bool \<Rightarrow> (val \<Rightarrow> bool) \<Rightarrow> bool" where
  "checked_value ev \<sigma> checks e ok P \<longleftrightarrow>
     (if ok then \<exists>k v \<sigma>2. execs ev \<sigma> checks (Normal (\<sigma>\<lparr>cache := k\<rparr>)) \<and>
        ev (\<sigma>\<lparr>cache := k\<rparr>) e = Some (v, \<sigma>2) \<and> P v
      else execs ev \<sigma> checks Trap)"

abbreviation check_stmt :: "bool \<Rightarrow> expr \<Rightarrow> string \<Rightarrow> stmt list" where
  "check_stmt nochk c msg \<equiv>
     (if nochk then [] else [ExpressionStatement (makeAssert c (Some msg) voidType)])"

context avm
begin

lemma sbig_kPow: "sbig ev K \<sigma> (makeIntegerConstant kPow2_256 biguintType) (2 ^ 256)"
  using sbig_pow256 unfolding makePow256_def .

lemma sbig_magnitude:
  assumes "sbig ev K \<sigma> e v" "v < 2 ^ 256"
  shows "sbig ev K \<sigma> (makeConditional (isNegativeSigned e 256)
    (makeBigUIntBinOp (makeIntegerConstant kPow2_256 biguintType) BigSub e) e biguintType) (mag 256 v)"
proof -
  have "sbig ev K \<sigma> (makeBigUIntBinOp (makeIntegerConstant kPow2_256 biguintType) BigSub e) (2 ^ 256 - v)"
    unfolding makeBigUIntBinOp_def by (rule sbig_sub[OF sbig_kPow assms(1)]) (use assms(2) in simp)
  from sbig_cond[OF sbool_isNegative256[OF assms(1)] this assms(1)]
  have "sbig ev K \<sigma> (makeConditional (isNegativeSigned e 256)
    (makeBigUIntBinOp (makeIntegerConstant kPow2_256 biguintType) BigSub e) e biguintType)
    (if 2 ^ 255 \<le> v then 2 ^ 256 - v else v)" unfolding makeConditional_def .
  then show ?thesis by (simp add: mag_def not_less)
qed

lemma sbig_neg_nonzero:
  assumes "sbool ev K \<sigma> c p" "sbig ev K \<sigma> e q" "q \<le> 2 ^ 256"
  shows "sbig ev K \<sigma> (makeConditional (makeBoolBinOp c And (makeNot (makeNumericCompare e Eq
      (makeIntegerConstant ''0'' biguintType))))
    (makeBigUIntBinOp (makeIntegerConstant kPow2_256 biguintType) BigSub e) e biguintType)
    (if p \<and> q \<noteq> 0 then 2 ^ 256 - q else q)"
proof -
  have z: "sbig ev K \<sigma> (makeIntegerConstant ''0'' biguintType) 0"
    unfolding makeIntegerConstant_def by (rule sbig_int) simp_all
  have "sbool ev K \<sigma> (makeNot (makeNumericCompare e Eq (makeIntegerConstant ''0'' biguintType))) (\<not> num_cmp Eq q 0)"
    unfolding makeNot_def makeNumericCompare_def by (rule sval_not[OF sval_cmp_big[OF assms(2) z]])
  from sval_and[OF assms(1) this]
  have c: "sbool ev K \<sigma> (makeBoolBinOp c And (makeNot (makeNumericCompare e Eq
      (makeIntegerConstant ''0'' biguintType)))) (p \<and> \<not> num_cmp Eq q 0)"
    unfolding makeBoolBinOp_def by simp
  have "sbig ev K \<sigma> (makeBigUIntBinOp (makeIntegerConstant kPow2_256 biguintType) BigSub e) (2 ^ 256 - q)"
    unfolding makeBigUIntBinOp_def by (rule sbig_sub[OF sbig_kPow assms(2,3)])
  from sbig_cond[OF c this assms(2)] show ?thesis unfolding makeConditional_def by simp
qed

lemma sbool_xor:
  assumes "sbool ev K \<sigma> c p" "sbool ev K \<sigma> d q"
  shows "sbool ev K \<sigma> (makeBoolBinOp (makeBoolBinOp c Or d) And (makeNot (makeBoolBinOp c And d))) (p \<noteq> q)"
proof -
  have "sbool ev K \<sigma> (makeBoolBinOp (makeBoolBinOp c Or d) And (makeNot (makeBoolBinOp c And d)))
      ((p \<or> q) \<and> \<not> (p \<and> q))"
    unfolding makeBoolBinOp_def makeNot_def by (rule sval_and[OF sval_or sval_not[OF sval_and]]) (rule assms)+
  moreover have "((p \<or> q) \<and> \<not> (p \<and> q)) = (p \<noteq> q)" by blast
  ultimately show ?thesis by (simp only:)
qed

lemma sbig_smdResult:
  assumes "sbig ev K \<sigma> l a" "a < 2 ^ 256" "sbig ev K \<sigma> r b" "b < 2 ^ 256" "b \<noteq> 0"
  shows "sbig ev K \<sigma> (smdResult l r oper)
    (twos 256 (if oper = OpMod then signed_of 256 a smod signed_of 256 b else signed_of 256 a sdiv signed_of 256 b))"
proof -
  let ?al = "makeConditional (isNegativeSigned l 256)
    (makeBigUIntBinOp (makeIntegerConstant kPow2_256 biguintType) BigSub l) l biguintType"
  let ?ar = "makeConditional (isNegativeSigned r 256)
    (makeBigUIntBinOp (makeIntegerConstant kPow2_256 biguintType) BigSub r) r biguintType"
  note m = sbig_magnitude[OF assms(1,2)] sbig_magnitude[OF assms(3,4)]
  have nz: "mag 256 b \<noteq> 0" using assms(4,5) by (simp add: mag_def)
  have ml: "mag 256 a \<le> 2 ^ 256" using mag_le[OF _ assms(2)] by simp
  show ?thesis
  proof (cases "oper = OpMod")
    case True
    have q: "sbig ev K \<sigma> (makeBigUIntBinOp ?al BigMod ?ar) (mag 256 a mod mag 256 b)"
      unfolding makeBigUIntBinOp_def[of ?al] by (rule sbig_mod[OF m nz])
    from sbig_neg_nonzero[OF sbool_isNegative256[OF assms(1)] q order_trans[OF mod_less_eq_dividend ml]]
      twos_smod[OF _ assms(2,4,5)] True
    show ?thesis by (simp add: smdResult_def Let_def not_less)
  next
    case False
    have q: "sbig ev K \<sigma> (makeBigUIntBinOp ?al BigFloorDiv ?ar) (mag 256 a div mag 256 b)"
      unfolding makeBigUIntBinOp_def[of ?al] by (rule sbig_div[OF m nz])
    have x: "sbool ev K \<sigma> (makeBoolBinOp (makeBoolBinOp (isNegativeSigned l 256) Or (isNegativeSigned r 256)) And
        (makeNot (makeBoolBinOp (isNegativeSigned l 256) And (isNegativeSigned r 256)))) ((2 ^ 255 \<le> a) \<noteq> (2 ^ 255 \<le> b))"
      by (rule sbool_xor) (rule sbool_isNegative256[OF assms(1)], rule sbool_isNegative256[OF assms(3)])
    from sbig_neg_nonzero[OF x q order_trans[OF div_le_dividend ml]] twos_sdiv[OF _ assms(2,4)] False
    show ?thesis by (simp add: smdResult_def Let_def not_less)
  qed
qed

lemma neg_nonzero_trap:
  "ev \<sigma> c = Some (VU (of_bool p), \<sigma>) \<Longrightarrow> ev \<sigma> e = None \<Longrightarrow>
   ev \<sigma> (makeConditional (makeBoolBinOp c And (makeNot (makeNumericCompare e Eq z))) n e t) = None"
  by (cases p) (simp_all add: makeConditional_def makeBoolBinOp_def makeNot_def makeNumericCompare_def
    sem_cond sem_and sem_not sem_cmp bin_eval_def)

lemma smdResult_zero_divisor:
  assumes "sbig ev {} \<sigma> l a" "a < 2 ^ 256" "sbig ev {} \<sigma> r 0"
  shows "ev \<sigma> (smdResult l r oper) = None"
proof -
  let ?al = "makeConditional (isNegativeSigned l 256)
    (makeBigUIntBinOp (makeIntegerConstant kPow2_256 biguintType) BigSub l) l biguintType"
  let ?ar = "makeConditional (isNegativeSigned r 256)
    (makeBigUIntBinOp (makeIntegerConstant kPow2_256 biguintType) BigSub r) r biguintType"
  obtain x where x: "ev \<sigma> ?al = Some (VB x, \<sigma>)" "be_nat x = mag 256 a" "length x \<le> 64"
    by (rule sbig_eval[OF sbig_magnitude[OF assms(1,2)]])
  have "sbig ev {} \<sigma> ?ar 0" using sbig_magnitude[OF assms(3)] by (simp add: mag_def)
  then obtain y where y: "ev \<sigma> ?ar = Some (VB y, \<sigma>)" "be_nat y = 0" "length y \<le> 64" by (rule sbig_eval)
  have n: "ev \<sigma> (makeBigUIntBinOp ?al (if oper = OpMod then BigMod else BigFloorDiv) ?ar) = None"
    unfolding makeBigUIntBinOp_def[of ?al] sem_big bin_eval_def using x y by (simp add: byte_math_def)
  define c where "c = (if oper = OpMod then isNegativeSigned l 256
    else makeBoolBinOp (makeBoolBinOp (isNegativeSigned l 256) Or (isNegativeSigned r 256)) And
        (makeNot (makeBoolBinOp (isNegativeSigned l 256) And (isNegativeSigned r 256))))"
  have "\<exists>p. sbool ev {} \<sigma> c p"
    unfolding c_def
    using sbool_isNegative256[OF assms(1)] sbool_xor[OF sbool_isNegative256[OF assms(1)] sbool_isNegative256[OF assms(3)]]
    by (cases "oper = OpMod") (simp_all only: simp_thms if_True if_False, blast+)
  then obtain p where "ev \<sigma> c = Some (VU (of_bool p), \<sigma>)" by (auto simp: sval_empty)
  then show ?thesis
    unfolding smdResult_def Let_def c_def[symmetric] using n by (rule neg_nonzero_trap)
qed

lemma biguintToUInt64_trap: "ev \<sigma> e = None \<Longrightarrow> ev \<sigma> (makeBiguintToUInt64 e) = None"
proof -
  assume "ev \<sigma> e = None"
  moreover have "ev \<sigma> (makeBzero 8) = Some (VB (replicate 8 0), \<sigma>)"
    using sbytes_bzero[of 8 "{}" \<sigma>] by (simp add: sval_empty)
  ultimately have "ev \<sigma> (makeLeftPad (makeReinterpretCast e bytesType) 8) = None"
    unfolding makeLeftPad_def makeConcat_def makeIntrinsicCall_def makeReinterpretCast_def
    by (simp add: sem_op pure_ops_def sem_cast)
  then show ?thesis
    unfolding makeBiguintToUInt64_def Let_def makeExtractUInt64_def makeIntrinsicCall_def
    by (simp add: sem_op pure_ops_def)
qed

lemma smd_guard:
  assumes "vars \<sigma> lx = Some (VB lb)" "be_nat lb = a" "length lb \<le> 64" "a < 2 ^ 256"
    and "vars \<sigma> rx = Some (VB rb)" "be_nat rb = b" "length rb \<le> 64" "b < 2 ^ 256"
    and "0 < bits" "bits \<le> 256"
  shows "ev \<sigma> (smdOverflowAssert lx rx bits) =
    (if signed_of 256 a = - (2 ^ (bits - 1)) \<and> signed_of 256 b = - 1 then None else Some (VVoid, \<sigma>))"
proof -
  have pw: "(2::nat) ^ (bits - 1) \<le> 2 ^ 255" using assms(10) by (intro power_increasing) simp_all
  have p: "u256_pow2 (bits - 1) = 2 ^ (bits - 1)" using assms(9,10) by (intro u256_pow2_less) simp
  have lt: "(2::nat) ^ (bits - 1) < 2 ^ 256" using pw by (rule le_less_trans) (rule power_strict_increasing, simp_all)
  have m: "u256_sub 0 (u256_pow2 (bits - 1)) = 2 ^ 256 - 2 ^ (bits - 1)" (is "_ = ?m")
    unfolding p u256_sub_def using lt by simp
  have o: "u256_sub 0 1 = 2 ^ 256 - 1" by (simp add: u256_sub_def)
  have l: "sbig ev {} \<sigma> (makeVarExpression lx biguintType) a" "sbig ev {} \<sigma> (makeVarExpression rx biguintType) b"
    unfolding makeVarExpression_def by (rule sbig_temp[OF assms(1-3)], rule sbig_temp[OF assms(5-7)])
  have k: "sbig ev {} \<sigma> (makeIntegerConstant (dec_of_nat n) biguintType) n" if "n \<le> 2 ^ 256" for n
    unfolding makeIntegerConstant_def by (rule sbig_decimal[OF le_less_trans[OF that pow2_512]]) simp
  have "sbool ev {} \<sigma> (makeNot (makeBoolBinOp
      (makeNumericCompare (makeVarExpression lx biguintType) Eq (makeIntegerConstant (dec_of_nat ?m) biguintType)) And
      (makeNumericCompare (makeVarExpression rx biguintType) Eq (makeIntegerConstant (dec_of_nat (2 ^ 256 - 1)) biguintType))))
      (\<not> (num_cmp Eq a ?m \<and> num_cmp Eq b (2 ^ 256 - 1)))"
    unfolding makeNot_def makeBoolBinOp_def makeNumericCompare_def
    by (intro sval_not sval_and sval_cmp_big l k diff_le_self)
  then have "ev \<sigma> (smdOverflowAssert lx rx bits) = (if a = ?m \<and> b = 2 ^ 256 - 1 then None else Some (VVoid, \<sigma>))"
    unfolding smdOverflowAssert_def Let_def m o makeAssert_def sem_assert sval_empty by simp
  moreover have "a = ?m \<longleftrightarrow> signed_of 256 a = - (2 ^ (bits - 1))"
  proof -
    have "(2::int) ^ (bits - 1) \<le> 2 ^ (256 - 1)" using assms(10) by (intro power_increasing) simp_all
    then have "in_range 256 (- int (2 ^ (bits - 1)))"
      unfolding in_range_def of_nat_power of_nat_numeral by (intro conjI) (linarith, rule less_trans[of _ 0], simp_all)
    from signed_of_twos[OF _ this] twos_minus[of "2 ^ (bits - 1)" 256] lt
    have "signed_of 256 ?m = - (2 ^ (bits - 1))" by simp
    moreover have "?m < 2 ^ 256" by simp
    ultimately show ?thesis using signed_of_inject[OF assms(4), of ?m] by simp
  qed
  moreover have "b = 2 ^ 256 - 1 \<longleftrightarrow> signed_of 256 b = - 1"
    using assms(8) by (auto simp: signed_of_def)
  ultimately show ?thesis by simp
qed

lemma smd_value:
  fixes s :: bst
  defines "i \<equiv> dec_of_nat (counters s ''BigUIntMath.signedMulDiv'')"
  defines "lx \<equiv> ''__smd_l_'' @ i" and "rx \<equiv> ''__smd_r_'' @ i"
  assumes "ev \<sigma> left = Some (VB lb, \<sigma>1)" "ev (bind_var lx (VB lb) \<sigma>1) right = Some (VB rb, \<sigma>2)"
    and "vars \<sigma>2 lx = Some (VB lb)"
    and lb: "be_nat lb = a" "length lb \<le> 64" "a < 2 ^ 256" and rb: "be_nat rb = b" "length rb \<le> 64" "b < 2 ^ 256"
    and "0 < bits" "bits \<le> 256"
  shows "built (buildSignedModDiv left right oper bits checked) s (\<lambda>e' s'.
    if b = 0 \<or> checked \<and> oper \<noteq> OpMod \<and> signed_of 256 a = - (2 ^ (bits - 1)) \<and> signed_of 256 b = - 1
    then ev \<sigma> e' = None
    else \<exists>v \<sigma>3. ev \<sigma> e' = Some (v, \<sigma>3) \<and>
      num_val (if bits \<le> 64 then uint64Type else biguintType) v
        (twos (if bits \<le> 64 then 64 else 256)
          (if oper = OpMod then signed_of 256 a smod signed_of 256 b else signed_of 256 a sdiv signed_of 256 b)))"
proof -
  let ?\<sigma> = "bind_var rx (VB rb) \<sigma>2"
  let ?res = "smdResult (VarExpression biguintType lx) (VarExpression biguintType rx) oper"
  let ?res' = "if bits \<le> 64 then makeBiguintToUInt64 ?res else ?res"
  let ?z = "if oper = OpMod then signed_of 256 a smod signed_of 256 b else signed_of 256 a sdiv signed_of 256 b"
  have v: "vars ?\<sigma> lx = Some (VB lb)" "vars ?\<sigma> rx = Some (VB rb)" using assms(6) by (simp_all add: lx_def rx_def)
  have l: "sbig ev {} ?\<sigma> (VarExpression biguintType lx) a" by (rule sbig_temp[OF v(1) lb(1,2)])
  have r: "sbig ev {} ?\<sigma> (VarExpression biguintType rx) b" by (rule sbig_temp[OF v(2) rb(1,2)])
  have guard: "ev ?\<sigma> (smdOverflowAssert lx rx bits) =
      (if signed_of 256 a = - (2 ^ (bits - 1)) \<and> signed_of 256 b = - 1 then None else Some (VVoid, ?\<sigma>))"
    by (rule smd_guard[OF v(1) lb v(2) rb assms(13,14)])
  have zero: "ev ?\<sigma> ?res' = None" if "b = 0"
    using smdResult_zero_divisor[OF l lb(3)] r that biguintToUInt64_trap by simp
  have ok: "\<exists>w. ev ?\<sigma> ?res' = Some (w, ?\<sigma>) \<and> num_val (if bits \<le> 64 then uint64Type else biguintType) w
      (twos (if bits \<le> 64 then 64 else 256) ?z)" if "b \<noteq> 0"
  proof -
    have b: "sbig ev {} ?\<sigma> ?res (twos 256 ?z)" by (rule sbig_smdResult[OF l lb(3) r rb(3) that])
    show ?thesis
    proof (cases "bits \<le> 64")
      case True
      from su64_biguintToUInt64[OF b] True twos_mod[of 64 256 ?z] twos_less[of 64 ?z]
      show ?thesis by (simp add: sval_empty del: twos_less)
    next
      case False
      from b obtain w where "ev ?\<sigma> ?res = Some (VB w, ?\<sigma>)" "be_nat w = twos 256 ?z" "length w \<le> 64"
        by (rule sbig_eval)
      with False show ?thesis by (intro exI[of _ "VB w"]) simp
    qed
  qed
  have seq: "ev \<sigma> (CommaExpression t ([AssignmentExpression biguintType (VarExpression biguintType lx) left,
      AssignmentExpression biguintType (VarExpression biguintType rx) right] @ as @ [?res'])) =
      eval_seq ev ?\<sigma> (as @ [?res'])" for t as
    by (simp add: sem_comma sem_assign assms(4,5))
  have guarded: "eval_seq ev ?\<sigma> ((if oper \<noteq> OpMod \<and> checked then [smdOverflowAssert lx rx bits] else []) @ [?res']) =
      (if checked \<and> oper \<noteq> OpMod \<and> signed_of 256 a = - (2 ^ (bits - 1)) \<and> signed_of 256 b = - 1 then None
       else ev ?\<sigma> ?res')"
    using guard by auto
  show ?thesis
    unfolding buildSignedModDiv_def Let_def built_bind built_nameGenNext i_def[symmetric] lx_def[symmetric] rx_def[symmetric]
      makeVarExpression_def assign_expr_var built_ret makeCommaExpression_def seq guarded
    using zero ok by (rule guarded_result)
qed

lemma sbig_promote:
  assumes "snum ev K \<sigma> e n"
  shows "sbig ev K \<sigma> (promoteToBiguint e) n" and "wtypeOf (promoteToBiguint e) = biguintType"
proof -
  show "sbig ev K \<sigma> (promoteToBiguint e) n"
  proof (cases "wtypeOf e = biguintType")
    case True
    with assms show ?thesis by (auto simp: snum_def promoteToBiguint_def)
  next
    case False
    with assms have u: "wtypeOf e = uint64Type" "su64 ev K \<sigma> e n" "n < 2 ^ 64" by (auto simp: snum_def)
    have k: "kind uint64Type \<noteq> KBytes" by (simp add: uint64Type_def)
    show ?thesis
    proof (cases "\<exists>t v. e = IntegerConstant t v")
      case True
      with u(1) obtain v where e: "e = IntegerConstant uint64Type v" by auto
      from svalE[OF u(2) ok_cache_base] obtain c where
        "ev (\<sigma>\<lparr>cache := cache \<sigma> |` (- K)\<rparr>) e = Some (VU n, \<sigma>\<lparr>cache := c\<rparr>)" by metis
      with sem_int64_inv[of _ v "VU n"] e have "nat_of_dec v = Some n" by fastforce
      moreover have "n < 2 ^ 512" using u(3) by (rule less_trans) simp
      ultimately show ?thesis
        unfolding e promoteToBiguint_def makeIntegerConstant_def by (simp add: sbig_int)
    next
      case f: False
      from sbig_itob[OF u(2,3)] u(1) f False k show ?thesis
        by (cases e) (simp_all add: promoteToBiguint_def)
    qed
  qed
  show "wtypeOf (promoteToBiguint e) = biguintType"
    by (cases e) (simp_all add: promoteToBiguint_def makeAsBiguint_def makeReinterpretCast_def makeIntegerConstant_def)
qed

lemma sbig_const: "nat_of_dec s = Some n \<Longrightarrow> n \<le> 2 ^ 256 \<Longrightarrow> sbig ev K \<sigma> (biguintConst s) n"
  unfolding biguintConst_def makeIntegerConstant_def using pow2_512[of 256] by (intro sbig_int) simp_all

lemma pow_le_256: "bits \<le> 256 \<Longrightarrow> (2::nat) ^ bits \<le> 2 ^ 256"
  by (rule power_increasing) simp_all

lemma sbool_saIsNeg:
  assumes "sbig ev K \<sigma> e v" "wtypeOf e = biguintType" "nat_of_dec halfN = Some (2 ^ (bits - 1))" "bits \<le> 256"
  shows "sbool ev K \<sigma> (saIsNeg halfN e) (neg_at bits v)"
proof -
  have "(2::nat) ^ (bits - 1) \<le> 2 ^ 256" by (rule pow_le_256) (use assms(4) in simp)
  from sval_cmp_big[OF assms(1) sbig_const[OF assms(3) this], of boolType Lt]
  have "sbool ev K \<sigma> (NotExpr boolType (NumericComparisonExpression boolType e Lt (biguintConst halfN)))
      (\<not> num_cmp Lt v (2 ^ (bits - 1)))" by (rule sval_not)
  then show ?thesis
    using assms(2) by (simp add: saIsNeg_def promoteToBiguint_def makeNot_def makeNumericCompare_def)
qed

lemma sbool_cmp_bool:
  assumes "sbool ev K \<sigma> c p" "sbool ev K \<sigma> d q"
  shows "sbool ev K \<sigma> (makeNumericCompare c Eq d) (p = q)" "sbool ev K \<sigma> (makeNumericCompare c Ne d) (p \<noteq> q)"
  using sval_cmp_u64[OF assms, of boolType Eq] sval_cmp_u64[OF assms, of boolType Ne]
  by (cases p; cases q; simp add: makeNumericCompare_def)+

lemma sbool_cond:
  assumes "sbool ev K \<sigma> c p" and "sbool ev K \<sigma> a q" and "sbool ev K \<sigma> b r"
  shows "sbool ev K \<sigma> (ConditionalExpression t c a b) (if p then q else r)"
  by (rule sval_cond[OF assms(1)]) (use assms(2,3) in simp_all)

lemma sbig_saAbs:
  assumes "sbig ev K \<sigma> e v" "wtypeOf e = biguintType" "v < 2 ^ bits" "bits \<le> 256"
    and "nat_of_dec pow2N = Some (2 ^ bits)" "nat_of_dec halfN = Some (2 ^ (bits - 1))"
  shows "sbig ev K \<sigma> (saAbs pow2N halfN e) (mag bits v)"
proof -
  have s: "sbig ev K \<sigma> (makeBigUIntBinOp (biguintConst pow2N) BigSub e) (2 ^ bits - v)"
    unfolding makeBigUIntBinOp_def
    by (rule sbig_sub[OF sbig_const[OF assms(5) pow_le_256[OF assms(4)]] assms(1)]) (use assms(3) in simp)
  from sbig_cond[OF sbool_saIsNeg[OF assms(1,2,6,4)] s assms(1), of biguintType] show ?thesis
    unfolding saAbs_def makeConditional_def mag_def .
qed

lemma sbig_saRaw:
  assumes "sbig ev K \<sigma> l a" "a < 2 ^ bits" "sbig ev K \<sigma> r b" "b < 2 ^ bits" "bits \<le> 256"
    and "nat_of_dec pow2N = Some (2 ^ bits)"
  shows "sbig ev K \<sigma> (saRaw oper pow2N l r) (raw_op oper bits a b)"
proof -
  have k: "sbig ev K \<sigma> (biguintConst pow2N) (2 ^ bits)" by (rule sbig_const[OF assms(6) pow_le_256[OF assms(5)]])
  note le = pow_le_256[OF assms(5)]
  have "(2::nat) ^ 256 + 2 ^ 256 \<le> 2 ^ 512" by simp
  with assms(2,4) le have s: "a + 2 ^ bits < 2 ^ 512" "a + b < 2 ^ 512" by linarith+
  have "a * b < 2 ^ 256 * 2 ^ 256" using assms(2,4) le by (intro mult_strict_mono') simp_all
  then have m: "a * b < 2 ^ 512" by (simp flip: power_add)
  have "sbig ev K \<sigma> (if oper = OpSub then makeBigUIntBinOp (makeBigUIntBinOp l BigAdd (biguintConst pow2N)) BigSub r
      else makeBigUIntBinOp l (if oper = OpMult then BigMult else BigAdd) r)
      (if oper = OpSub then a + 2 ^ bits - b else if oper = OpMult then a * b else a + b)"
    unfolding makeBigUIntBinOp_def
    using sbig_sub[OF sbig_add[OF assms(1) k s(1)] assms(3)] sbig_mult[OF assms(1,3) m] sbig_add[OF assms(1,3) s(2)] assms(4)
    by auto
  from sbig_mod[OF this k] show ?thesis
    unfolding saRaw_def raw_op_def makeBigUIntBinOp_def by simp
qed

lemma sbool_saOverflow:
  assumes l: "sbig ev K \<sigma> l a" "wtypeOf l = biguintType" "a < 2 ^ bits"
    and r: "sbig ev K \<sigma> r b" "wtypeOf r = biguintType" "b < 2 ^ bits" and bits: "0 < bits" "bits \<le> 256"
    and k: "nat_of_dec pow2N = Some (2 ^ bits)" "nat_of_dec halfN = Some (2 ^ (bits - 1))"
  shows "sbool ev K \<sigma> (saOverflowCond oper pow2N halfN l r (saRaw oper pow2N l r))
    (in_range bits (signed_op oper (signed_of bits a) (signed_of bits b)))"
proof -
  let ?raw = "saRaw oper pow2N l r"
  have raw: "sbig ev K \<sigma> ?raw (raw_op oper bits a b)" by (rule sbig_saRaw[OF l(1,3) r(1,3) bits(2) k(1)])
  have wt: "wtypeOf ?raw = biguintType" by (simp add: saRaw_def makeBigUIntBinOp_def)
  note nl = sbool_saIsNeg[OF l(1,2) k(2) bits(2)] and nr = sbool_saIsNeg[OF r(1,2) k(2) bits(2)]
    and nw = sbool_saIsNeg[OF raw wt k(2) bits(2)]
  show ?thesis
  proof (cases "oper = OpMult")
    case True
    note ml = sbig_saAbs[OF l(1,2,3) bits(2) k] and mr = sbig_saAbs[OF r(1,2,3) bits(2) k]
    have h: "sbig ev K \<sigma> (biguintConst halfN) (2 ^ (bits - 1))"
      by (rule sbig_const[OF k(2) pow_le_256]) (use bits(2) in simp)
    have z: "sbig ev K \<sigma> (biguintConst ''0'') 0" by (rule sbig_const) simp_all
    have ne: "(OpMult = OpSub) = False" by simp
    have "mag bits a * mag bits b \<le> 2 ^ (bits - 1) * 2 ^ (bits - 1)"
      using mag_le[OF bits(1) l(3)] mag_le[OF bits(1) r(3)] by (rule mult_le_mono)
    also have "\<dots> = 2 ^ (bits - 1 + (bits - 1))" by (simp only: power_add)
    also have "\<dots> < 2 ^ 512" using bits by (intro power_strict_increasing) simp_all
    finally have p: "sbig ev K \<sigma> (makeBigUIntBinOp (saAbs pow2N halfN l) BigMult (saAbs pow2N halfN r)) (mag bits a * mag bits b)"
      unfolding makeBigUIntBinOp_def by (rule sbig_mult[OF ml mr])
    have "sbool ev K \<sigma> (saOverflowCond oper pow2N halfN l r ?raw)
        (num_cmp Eq b 0 \<or> (if neg_at bits a = neg_at bits b then num_cmp Lt (mag bits a * mag bits b) (2 ^ (bits - 1))
          else \<not> num_cmp Lt (2 ^ (bits - 1)) (mag bits a * mag bits b)))"
      unfolding saOverflowCond_def Let_def makeBoolBinOp_def makeConditional_def makeNot_def True
        ne if_False simp_thms(6) if_True
    proof (rule sval_or)
      show "sbool ev K \<sigma> (makeNumericCompare r Eq (biguintConst ''0'')) (num_cmp Eq b 0)"
        unfolding makeNumericCompare_def by (rule sval_cmp_big[OF r(1) z])
      show "sbool ev K \<sigma> (ConditionalExpression boolType (makeNumericCompare (saIsNeg halfN l) Eq (saIsNeg halfN r))
          (makeNumericCompare (makeBigUIntBinOp (saAbs pow2N halfN l) BigMult (saAbs pow2N halfN r)) Lt (biguintConst halfN))
          (NotExpr boolType (makeNumericCompare (biguintConst halfN) Lt
            (makeBigUIntBinOp (saAbs pow2N halfN l) BigMult (saAbs pow2N halfN r)))))
        (if neg_at bits a = neg_at bits b then num_cmp Lt (mag bits a * mag bits b) (2 ^ (bits - 1))
          else \<not> num_cmp Lt (2 ^ (bits - 1)) (mag bits a * mag bits b))"
        unfolding makeNumericCompare_def[of "makeBigUIntBinOp (saAbs pow2N halfN l) BigMult (saAbs pow2N halfN r)"]
          makeNumericCompare_def[of "biguintConst halfN"]
        by (rule sbool_cond[OF sbool_cmp_bool(1)[OF nl nr] sval_cmp_big[OF p h] sval_not[OF sval_cmp_big[OF h p]]])
    qed
    moreover have "signed_op oper (signed_of bits a) (signed_of bits b) = signed_of bits a * signed_of bits b"
      by (simp add: signed_op_def True)
    ultimately show ?thesis
      unfolding num_cmp.simps mult_overflow_test[OF bits(1) l(3) r(3)] by simp
  next
    case False
    show ?thesis
    proof (cases "oper = OpSub")
      case True
      have c: "saOverflowCond oper pow2N halfN l r ?raw = BooleanBinaryOperation boolType
          (makeNumericCompare (saIsNeg halfN l) Eq (saIsNeg halfN r)) Or
          (makeNumericCompare (saIsNeg halfN l) Eq (saIsNeg halfN ?raw))"
        using True by (simp add: saOverflowCond_def makeBoolBinOp_def)
      have "sbool ev K \<sigma> (saOverflowCond oper pow2N halfN l r ?raw)
          (neg_at bits a = neg_at bits b \<or> neg_at bits a = neg_at bits (raw_op oper bits a b))"
        unfolding c by (rule sval_or[OF sbool_cmp_bool(1)[OF nl nr] sbool_cmp_bool(1)[OF nl nw]])
      moreover have "raw_op oper bits a b = (a + 2 ^ bits - b) mod 2 ^ bits"
        "signed_op oper (signed_of bits a) (signed_of bits b) = signed_of bits a - signed_of bits b"
        by (simp_all add: signed_op_def raw_op_def True)
      ultimately show ?thesis using sub_overflow_test[OF bits(1) l(3) r(3)] by (simp only:)
    next
      case s: False
      have c: "saOverflowCond oper pow2N halfN l r ?raw = BooleanBinaryOperation boolType
          (makeNumericCompare (saIsNeg halfN l) Ne (saIsNeg halfN r)) Or
          (makeNumericCompare (saIsNeg halfN l) Eq (saIsNeg halfN ?raw))"
        using s False by (simp add: saOverflowCond_def makeBoolBinOp_def)
      have "sbool ev K \<sigma> (saOverflowCond oper pow2N halfN l r ?raw)
          (neg_at bits a \<noteq> neg_at bits b \<or> neg_at bits a = neg_at bits (raw_op oper bits a b))"
        unfolding c by (rule sval_or[OF sbool_cmp_bool(2)[OF nl nr] sbool_cmp_bool(1)[OF nl nw]])
      moreover have "raw_op oper bits a b = (a + b) mod 2 ^ bits"
        "signed_op oper (signed_of bits a) (signed_of bits b) = signed_of bits a + signed_of bits b"
        using s False by (simp_all add: signed_op_def raw_op_def)
      ultimately show ?thesis using add_overflow_test[OF bits(1) l(3) r(3)] by (simp only:)
    qed
  qed
qed

lemma checked_valueI:
  assumes "sbool ev K \<sigma> c p" "ok_cache ev K \<sigma> (cache \<sigma>)"
    and "\<And>k. ok_cache ev K \<sigma> k \<Longrightarrow> \<exists>v \<sigma>2. ev (\<sigma>\<lparr>cache := k\<rparr>) e = Some (v, \<sigma>2) \<and> P v"
  shows "checked_value ev \<sigma> (check_stmt nochk c msg) e (nochk \<or> p) P"
proof (cases nochk)
  case True
  from assms(3)[OF assms(2)] obtain v \<sigma>2 where "ev \<sigma> e = Some (v, \<sigma>2)" "P v" by auto
  with True show ?thesis unfolding checked_value_def
    by (intro if_bool_eq_conj[THEN iffD2] conjI impI exI[of _ "cache \<sigma>"] exI[of _ v] exI[of _ \<sigma>2]) simp_all
next
  case False
  have "\<sigma>\<lparr>cache := cache \<sigma>\<rparr> = \<sigma>" by simp
  with svalE[OF assms(1,2)] obtain k where k: "ev \<sigma> c = Some (VU (of_bool p), \<sigma>\<lparr>cache := k\<rparr>)" "ok_cache ev K \<sigma> k"
    by metis
  then have "exec ev \<sigma> (ExpressionStatement (makeAssert c (Some msg) voidType))
      (if p then Normal (\<sigma>\<lparr>cache := k\<rparr>) else Trap)"
    by (auto simp: makeAssert_def sem_assert intro: Expr ExprTrap)
  with assms(3)[OF k(2)] False show ?thesis
    by (auto simp: checked_value_def)
qed

lemma num_val_big: "sbig ev K \<sigma> e n \<Longrightarrow> ok_cache ev K \<sigma> k \<Longrightarrow>
    \<exists>v \<sigma>2. ev (\<sigma>\<lparr>cache := k\<rparr>) e = Some (v, \<sigma>2) \<and> num_val biguintType v n"
  unfolding sbig_def by (metis num_val.simps(1) svalE)

lemma num_val_u64: "su64 ev K \<sigma> e n \<Longrightarrow> n < 2 ^ 64 \<Longrightarrow> ok_cache ev K \<sigma> k \<Longrightarrow>
    \<exists>v \<sigma>2. ev (\<sigma>\<lparr>cache := k\<rparr>) e = Some (v, \<sigma>2) \<and> num_val uint64Type v n"
  by (metis num_val.simps(2) svalE)

lemma sbig_saOperand:
  assumes "snum ev K \<sigma> e n" "bits = 256 \<Longrightarrow> n < 2 ^ 256" "bits \<le> 256" "nat_of_dec pow2N = Some (2 ^ bits)"
  defines "e' \<equiv> if bits < 256 then makeBigUIntBinOp (promoteToBiguint e) BigMod (biguintConst pow2N) else promoteToBiguint e"
  shows "sbig ev K \<sigma> e' (n mod 2 ^ bits)" and "wtypeOf e' = biguintType"
proof -
  note p = sbig_promote[OF assms(1)]
  show "sbig ev K \<sigma> e' (n mod 2 ^ bits)"
  proof (cases "bits < 256")
    case True
    with sbig_mod[OF p(1) sbig_const[OF assms(4) pow_le_256[OF assms(3)]]] show ?thesis
      by (simp add: e'_def makeBigUIntBinOp_def)
  next
    case False
    with assms(2,3) p(1) show ?thesis by (simp add: e'_def)
  qed
  show "wtypeOf e' = biguintType" using p(2) by (simp add: e'_def makeBigUIntBinOp_def)
qed

text \<open>Step 4 of the signed arithmetic: the raw \<open>bits\<close>-wide result in its target representation.\<close>

lemma sa_narrow:
  assumes "sbig ev K \<sigma> raw w" "wtypeOf raw = biguintType" "w < 2 ^ bits" "0 < bits" "bits \<le> 256"
  shows "built (if \<not> bits > 64 then ret (makeBiguintToUInt64 raw)
      else if bits < 256 then signExtendToUint256 raw bits else ret raw) s
    (\<lambda>e' s'. preEffects s' = preEffects s \<and> (\<forall>k. ok_cache ev K \<sigma> k \<longrightarrow> (\<exists>v \<sigma>2. ev (\<sigma>\<lparr>cache := k\<rparr>) e' = Some (v, \<sigma>2) \<and>
       num_val (if bits \<le> 64 then uint64Type else biguintType) v
         (if bits \<le> 64 then w else twos 256 (signed_of bits w)))))"
proof -
  consider "bits \<le> 64" | "64 < bits" "bits < 256" | "bits = 256" using assms(5) by linarith
  then show ?thesis
  proof cases
    case 1
    then have "(2::nat) ^ bits \<le> 2 ^ 64" by (intro power_increasing) simp_all
    with assms(3) have w: "w < 2 ^ 64" by (rule less_le_trans)
    with su64_biguintToUInt64[OF assms(1)] have "su64 ev K \<sigma> (makeBiguintToUInt64 raw) w" by simp
    with 1 num_val_u64[OF this w] show ?thesis by simp
  next
    case 2
    have "built (signExtendToUint256 raw bits) s (\<lambda>e' s'. \<exists>v \<sigma>2. ev (\<sigma>\<lparr>cache := k\<rparr>) e' = Some (v, \<sigma>2) \<and>
        num_val biguintType v (twos 256 (signed_of bits w)))" if "ok_cache ev K \<sigma> k" for k
    proof -
      from num_val_big[OF assms(1) that] obtain v \<sigma>2 where
        v: "ev (\<sigma>\<lparr>cache := k\<rparr>) raw = Some (v, \<sigma>2)" "num_val (wtypeOf raw) v w" unfolding assms(2) by blast
      from signExtend256_eval[OF assms(4) 2(2) v, of s] assms(3) show ?thesis
        by (elim built_mono) (metis mod_less num_val.simps(1))
    qed
    moreover have "built (signExtendToUint256 raw bits) s (\<lambda>e' s'. preEffects s' = preEffects s)"
      unfolding signExtendToUint256_def built_bind
      by (rule built_mono[OF cast_keeps_preEffects]) (simp add: Let_def makeVarExpression_def)
    ultimately show ?thesis using 2 by (auto simp: built_def split: prod.splits)
  next
    case 3
    with num_val_big[OF assms(1)] assms(3) show ?thesis by simp
  qed
qed

lemma sa_tail:
  assumes "sbool ev K \<sigma> c p" "ok_cache ev K \<sigma> (cache \<sigma>)"
    and "sbig ev K \<sigma> raw w" "wtypeOf raw = biguintType" "w < 2 ^ bits" "0 < bits" "bits \<le> 256"
  shows "built (do {
       (if \<not> nochk then pushPreEffect (makeExpressionStatement (makeAssert c (Some msg) voidType)) else ret ());
       (if \<not> bits > 64 then ret (makeBiguintToUInt64 raw)
        else if bits < 256 then signExtendToUint256 raw bits else ret raw) }) s
     (\<lambda>e' s'. \<exists>checks. preEffects s' = preEffects s @ checks \<and> checked_value ev \<sigma> checks e' (nochk \<or> p)
      (\<lambda>v. num_val (if bits \<le> 64 then uint64Type else biguintType) v
         (if bits \<le> 64 then w else twos 256 (signed_of bits w))))"
proof (cases nochk)
  case True
  show ?thesis unfolding built_bind
    by (simp only: True simp_thms if_False built_ret, rule built_mono[OF sa_narrow[OF assms(3-7)]])
       (use checked_valueI[OF assms(1,2), where nochk = True] in auto)
next
  case False
  show ?thesis unfolding built_bind
    by (simp only: False simp_thms if_True built_pushPreEffect makeExpressionStatement_def,
        rule built_mono[OF sa_narrow[OF assms(3-7)]])
       (use checked_valueI[OF assms(1,2), where nochk = False] in auto)
qed

lemma snum_evalOnce:
  assumes "snum ev K \<sigma> e n" "covers K s"
    and "\<And>e' s'. snum ev K \<sigma> e' n \<Longrightarrow> covers K s' \<Longrightarrow> preEffects s' = preEffects s \<Longrightarrow> Q e' s'"
  shows "built (makeEvalOnce e) s Q"
  using assms(1) unfolding snum_def sbig_def
proof (elim disjE exE conjE)
  fix b assume "wtypeOf e = biguintType" "sval ev K \<sigma> e (VB b)" "be_nat b = n" "length b \<le> 64"
  then show ?thesis
    by (intro built_evalOnce[OF _ assms(2)] assms(3)) (auto simp: snum_def sbig_def)
next
  assume "wtypeOf e = uint64Type" "su64 ev K \<sigma> e n" "n < 2 ^ 64"
  then show ?thesis
    by (intro built_evalOnce[OF _ assms(2)] assms(3)) (auto simp: snum_def)
qed

lemma signedArithmetic_built:
  fixes oper :: BuilderBinaryOp
  assumes "0 < bits" "bits \<le> 256" and l: "snum ev K \<sigma> left m" "bits = 256 \<Longrightarrow> m < 2 ^ 256"
    and r: "snum ev K \<sigma> right n" "bits = 256 \<Longrightarrow> n < 2 ^ 256"
    and "covers K s" "ok_cache ev K \<sigma> (cache \<sigma>)"
  defines "z \<equiv> signed_op oper (signed_of bits (m mod 2 ^ bits)) (signed_of bits (n mod 2 ^ bits))"
  shows "built (buildSignedArithmetic nochk oper left right bits) s (\<lambda>e' s'. \<exists>checks.
    preEffects s' = preEffects s @ checks \<and> checked_value ev \<sigma> checks e' (nochk \<or> in_range bits z)
      (\<lambda>v. num_val (if bits \<le> 64 then uint64Type else biguintType) v
         (if bits \<le> 64 then twos bits z else twos 256 (signed_of bits (twos bits z)))))"
proof -
  define pow2N halfN where d: "pow2N = fst (pow2NAndHalf bits)" "halfN = snd (pow2NAndHalf bits)"
  have k: "nat_of_dec pow2N = Some (2 ^ bits)" "nat_of_dec halfN = Some (2 ^ (bits - 1))"
    using pow2NAndHalf_values[OF assms(1,2)] by (simp_all add: d)
  let ?mask = "\<lambda>v. if bits < 256 then makeBigUIntBinOp v BigMod (biguintConst pow2N) else v"
  have main: "built (do {
       (if \<not> nochk then pushPreEffect (makeExpressionStatement (makeAssert (saOverflowCond oper pow2N halfN
          (?mask (promoteToBiguint l')) (?mask (promoteToBiguint r')) (saRaw oper pow2N (?mask (promoteToBiguint l')) (?mask (promoteToBiguint r'))))
          (Some ''signed arithmetic overflow'') voidType)) else ret ());
       (if \<not> bits > 64 then ret (makeBiguintToUInt64 (saRaw oper pow2N (?mask (promoteToBiguint l')) (?mask (promoteToBiguint r'))))
        else if bits < 256 then signExtendToUint256 (saRaw oper pow2N (?mask (promoteToBiguint l')) (?mask (promoteToBiguint r'))) bits
        else ret (saRaw oper pow2N (?mask (promoteToBiguint l')) (?mask (promoteToBiguint r')))) }) s0
     (\<lambda>e' s'. \<exists>checks. preEffects s' = preEffects s @ checks \<and> checked_value ev \<sigma> checks e' (nochk \<or> in_range bits z)
      (\<lambda>v. num_val (if bits \<le> 64 then uint64Type else biguintType) v
         (if bits \<le> 64 then twos bits z else twos 256 (signed_of bits (twos bits z)))))"
    if lr: "snum ev K \<sigma> l' m" "snum ev K \<sigma> r' n" and pe: "preEffects s0 = preEffects s" for l' r' s0
  proof -
    let ?l = "?mask (promoteToBiguint l')" and ?r = "?mask (promoteToBiguint r')"
    note lo = sbig_saOperand[OF lr(1) l(2) assms(2) k(1)] and ro = sbig_saOperand[OF lr(2) r(2) assms(2) k(1)]
    have lt: "m mod 2 ^ bits < 2 ^ bits" "n mod 2 ^ bits < 2 ^ bits" by simp_all
    note c = sbool_saOverflow[OF lo lt(1) ro lt(2) assms(1,2) k, of oper, folded z_def]
    have raw: "sbig ev K \<sigma> (saRaw oper pow2N ?l ?r) (twos bits z)"
      using sbig_saRaw[OF lo(1) lt(1) ro(1) lt(2) assms(2) k(1), of oper] raw_op_twos[of "n mod 2 ^ bits" bits oper "m mod 2 ^ bits"]
        lt(2) by (simp add: z_def)
    have wt: "wtypeOf (saRaw oper pow2N ?l ?r) = biguintType" by (simp add: saRaw_def makeBigUIntBinOp_def)
    show ?thesis unfolding pe[symmetric] by (rule sa_tail[OF c assms(8) raw wt twos_less assms(1,2)])
  qed
  show ?thesis
    unfolding buildSignedArithmetic_def Let_def d[symmetric]
    by (subst built_bind, rule snum_evalOnce[OF l(1) assms(7)], subst built_bind, rule snum_evalOnce[OF r(1)],
        assumption, rule main) simp_all
qed

end

section \<open>Properties\<close>

text \<open>The evaluation identifiers that the builder has not handed out yet.\<close>

definition fresh_ids :: "bst \<Rightarrow> (expr \<times> int) set" where
  "fresh_ids s = {(e, i). singleEvalId s < i}"

lemma covers_fresh_ids [simp]: "covers (fresh_ids s) s"
  by (simp add: covers_def fresh_ids_def)

lemma ok_cache_fresh_ids: "ids_free s \<sigma> \<Longrightarrow> ok_cache ev (fresh_ids s) \<sigma> (cache \<sigma>)"
  by (rule ok_cache_fresh) (auto simp: ids_free_def fresh_ids_def)

text \<open>
  (C11) Signed division and remainder at every width up to 256 bits, on operands in canonical 256-bit
  two's complement: each operand is evaluated once, left before right; a zero divisor traps, and in
  checked mode so does the quotient of the smallest value by -1; otherwise the value is the quotient
  or remainder of truncating division, in the two's complement of the result's native width.
\<close>

theorem buildSignedModDiv_correct:
  assumes "avm ev" and "lx = ''__smd_l_'' @ dec_of_nat (counters s ''BigUIntMath.signedMulDiv'')"
    and "ev \<sigma> left = Some (VB lb, \<sigma>1)" "ev (bind_var lx (VB lb) \<sigma>1) right = Some (VB rb, \<sigma>2)"
    and "vars \<sigma>2 lx = Some (VB lb)"
    and "length lb \<le> 64" "be_nat lb < 2 ^ 256" and "length rb \<le> 64" "be_nat rb < 2 ^ 256"
    and "0 < bits" "bits \<le> 256"
    and "x = signed_of 256 (be_nat lb)" "y = signed_of 256 (be_nat rb)"
    and "run_state (buildSignedModDiv left right oper bits checked) s = (e', s')"
  shows "if y = 0 \<or> checked \<and> oper \<noteq> OpMod \<and> x = - (2 ^ (bits - 1)) \<and> y = - 1 then ev \<sigma> e' = None
    else \<exists>v \<sigma>3. ev \<sigma> e' = Some (v, \<sigma>3) \<and> num_val (if bits \<le> 64 then uint64Type else biguintType) v
      (twos (if bits \<le> 64 then 64 else 256) (if oper = OpMod then x smod y else x sdiv y))"
  unfolding assms(12,13) signed_zero[OF zero_less_numeral assms(9)]
  by (rule built_run[OF avm.smd_value[where lb = lb and rb = rb] assms(14)]) (use assms(1-11) in simp_all)

theorem buildSignedModDiv_correct_witness:
  "\<exists>v \<sigma>'. aeval (env_of [(''l'', VB (be_fixed 32 (2 ^ 256 - 7))), (''r'', VB [2])])
     (fst (run_state (buildSignedModDiv (VarExpression biguintType ''l'') (VarExpression biguintType ''r'') OpFloorDiv 256 True) initialBst))
     = Some (v, \<sigma>') \<and> num_val biguintType v (2 ^ 256 - 3)"
proof -
  let ?l = "VarExpression biguintType ''l''" and ?r = "VarExpression biguintType ''r''"
  let ?b = "be_fixed 32 (2 ^ 256 - 7)"
  let ?\<sigma> = "env_of [(''l'', VB ?b), (''r'', VB [2])]"
  have b: "be_nat ?b = 2 ^ 256 - 7" unfolding be_nat_be_fixed by simp
  have two: "be_nat [2] = 2" by (simp add: be_nat_def)
  obtain e' s' where r: "run_state (buildSignedModDiv ?l ?r OpFloorDiv 256 True) initialBst = (e', s')" by force
  let ?x = "''__smd_l_'' @ dec_of_nat (counters initialBst ''BigUIntMath.signedMulDiv'')"
  have "if (2::int) = 0 \<or> True \<and> OpFloorDiv \<noteq> OpMod \<and> (- 7 :: int) = - (2 ^ (256 - 1)) \<and> (2::int) = - 1 then aeval ?\<sigma> e' = None
    else \<exists>v \<sigma>3. aeval ?\<sigma> e' = Some (v, \<sigma>3) \<and> num_val (if (256::nat) \<le> 64 then uint64Type else biguintType) v
      (twos (if (256::nat) \<le> 64 then 64 else 256) (if OpFloorDiv = OpMod then (- 7) smod 2 else (- 7) sdiv 2))"
    by (rule buildSignedModDiv_correct[OF ref.avm_axioms refl _ _ _ _ _ _ _ _ _ _ _ r, where lb = ?b and rb = "[2]"
        and ?\<sigma>1.0 = ?\<sigma> and ?\<sigma>2.0 = "bind_var ?x (VB ?b) ?\<sigma>"])
       (simp_all add: signed_of_def b[simplified] two del: be_fixed.simps)
  with r show ?thesis by (auto simp: twos_def signed_divide_int_def)
qed

text \<open>
  A variable or constant.  SolBinaryOperation.cpp:366-379 binds the left operand of a signed
  multiplication to a local \<open>__smul_l_\<close> before it calls the builder, because the backend mis-lowers a
  \<open>SingleEvaluation\<close> at the left of a signed multiplication; the product is stated for such operands.
\<close>

fun plain_operand :: "expr \<Rightarrow> bool" where
  "plain_operand (VarExpression _ _) = True"
| "plain_operand (IntegerConstant _ _) = True"
| "plain_operand _ = False"

text \<open>
  (C12) Signed addition, subtraction and multiplication at every width up to 256 bits; for a
  multiplication the left operand is a variable or a constant, as its caller makes it. In checked
  mode the queued overflow check traps exactly when the exact result is outside the range of the
  type; otherwise, and always in unchecked mode, the returned expression has the exact result
  reduced to the width, as a 64-bit value up to 64 bits and sign-extended to 256 bits above.
\<close>

theorem buildSignedArithmetic_correct:
  assumes "avm ev" and "0 < bits" "bits \<le> 256" and "ids_free s \<sigma>"
    and "snum ev (fresh_ids s) \<sigma> left m" "bits = 256 \<longrightarrow> m < 2 ^ 256"
    and "snum ev (fresh_ids s) \<sigma> right n" "bits = 256 \<longrightarrow> n < 2 ^ 256"
    and "oper = OpMult \<longrightarrow> plain_operand left"
    and "z = signed_op oper (signed_of bits (m mod 2 ^ bits)) (signed_of bits (n mod 2 ^ bits))"
    and "run_state (buildSignedArithmetic nochk oper left right bits) s = (e', s')"
  shows "\<exists>checks. preEffects s' = preEffects s @ checks \<and>
    checked_value ev \<sigma> checks e' (nochk \<or> in_range bits z)
      (\<lambda>v. num_val (if bits \<le> 64 then uint64Type else biguintType) v
         (if bits \<le> 64 then twos bits z else twos 256 (signed_of bits (twos bits z))))"
  unfolding assms(10)
  by (rule built_run[OF avm.signedArithmetic_built[where K = "fresh_ids s"] assms(11)])
     (use assms(1-8) in \<open>simp_all add: ok_cache_fresh_ids\<close>)

theorem buildSignedArithmetic_correct_witness:
  "execs aeval (env_of [(''l'', VU 127), (''r'', VU 1)])
     (preEffects (snd (run_state (buildSignedArithmetic False OpAdd (VarExpression uint64Type ''l'') (VarExpression uint64Type ''r'') 8) initialBst)))
     Trap"
proof -
  let ?l = "VarExpression uint64Type ''l''" and ?r = "VarExpression uint64Type ''r''"
  let ?\<sigma> = "env_of [(''l'', VU 127), (''r'', VU 1)]"
  obtain e' s' where r: "run_state (buildSignedArithmetic False OpAdd ?l ?r 8) initialBst = (e', s')" by force
  have v: "snum aeval K ?\<sigma> ?l 127" "snum aeval K ?\<sigma> ?r 1" for K
    by (auto simp: snum_def sval_def)
  have z: "signed_op OpAdd (signed_of 8 (127 mod 2 ^ 8)) (signed_of 8 (1 mod 2 ^ 8)) = 128"
    by (simp add: signed_op_def signed_of_def)
  have "\<exists>checks. preEffects s' = preEffects initialBst @ checks \<and>
    checked_value aeval ?\<sigma> checks e' (False \<or> in_range 8 128)
      (\<lambda>v. num_val (if (8::nat) \<le> 64 then uint64Type else biguintType) v
         (if (8::nat) \<le> 64 then twos 8 128 else twos 256 (signed_of 8 (twos 8 128))))"
    by (rule buildSignedArithmetic_correct[OF ref.avm_axioms _ _ _ v(1) _ v(2) _ _ _ r]) (simp_all add: z[simplified] ids_free_def)
  with r show ?thesis by (auto simp: checked_value_def in_range_def initialBst_def)
qed

end
