(* ===== verification/IncDec.thy ===== *)
theory IncDec
  imports SignedMath
begin

text \<open>
  Correctness of \<open>buildIncDec\<close>, \<open>buildSignedNegate\<close> and \<open>buildWrappingSubtract\<close> of
  \<open>BigUIntMath\<close>: each branch, checked and unchecked, signed and unsigned.
\<close>

section \<open>Where a step or a negation leaves the signed range\<close>

lemma inc_in_range:
  assumes "0 < n" "v < 2 ^ n"
  shows "in_range n (signed_of n v + 1) \<longleftrightarrow> v \<noteq> 2 ^ (n - 1) - 1"
proof -
  from half_signed[OF assms(1)] obtain h where h: "(2::nat) ^ n = 2 * h" "(2::nat) ^ (n - 1) = h"
    "(2::int) ^ (n - 1) = int h" "\<And>v. signed_of n v = (if v < h then int v else int v - 2 * int h)" by metis
  with assms(2) show ?thesis unfolding h in_range_def by (cases "v < h") auto
qed

lemma dec_in_range:
  assumes "0 < n" "v < 2 ^ n"
  shows "in_range n (signed_of n v - 1) \<longleftrightarrow> v \<noteq> 2 ^ (n - 1)"
proof -
  from half_signed[OF assms(1)] obtain h where h: "(2::nat) ^ n = 2 * h" "(2::nat) ^ (n - 1) = h"
    "(2::int) ^ (n - 1) = int h" "\<And>v. signed_of n v = (if v < h then int v else int v - 2 * int h)" by metis
  with assms(2) show ?thesis unfolding h in_range_def by (cases "v < h") auto
qed

lemma neg_in_range:
  assumes "0 < n" "v < 2 ^ n"
  shows "in_range n (- signed_of n v) \<longleftrightarrow> v \<noteq> 2 ^ (n - 1)"
proof -
  from half_signed[OF assms(1)] obtain h where h: "(2::nat) ^ n = 2 * h" "(2::nat) ^ (n - 1) = h"
    "(2::int) ^ (n - 1) = int h" "\<And>v. signed_of n v = (if v < h then int v else int v - 2 * int h)" by metis
  with assms(2) show ?thesis unfolding h in_range_def by (cases "v < h") auto
qed

lemma twos_inc: "0 < n \<Longrightarrow> twos n (signed_of n v + 1) = (v + 1) mod 2 ^ n"
  using signed_of_cong[of n v] unfolding twos_int[symmetric] by (intro twos_cong) (simp add: mod_add_cong)

lemma twos_dec: "0 < n \<Longrightarrow> twos n (signed_of n v - 1) = (v + (2 ^ n - 1)) mod 2 ^ n"
proof -
  have "(signed_of n v - 1) mod 2 ^ n = (int v - 1) mod 2 ^ n"
    using signed_of_cong[of n v] by (rule mod_diff_cong) simp
  also have "\<dots> = (int v - 1 + 2 ^ n) mod 2 ^ n" by simp
  also have "int v - 1 + 2 ^ n = int (v + (2 ^ n - 1))" unfolding of_nat_add by (subst of_nat_diff) simp_all
  finally show ?thesis unfolding twos_int[symmetric] by (rule twos_cong)
qed

lemma twos_neg: "v < 2 ^ n \<Longrightarrow> twos n (- signed_of n v) = (2 ^ n - v) mod 2 ^ n"
proof -
  assume v: "v < 2 ^ n"
  have "(- signed_of n v) mod 2 ^ n = (- int v) mod 2 ^ n"
    by (metis mod_minus_eq signed_of_cong)
  also have "\<dots> = (2 ^ n - int v) mod 2 ^ n" by simp
  also have "2 ^ n - int v = int (2 ^ n - v)" using v by (simp add: of_nat_diff)
  finally show ?thesis unfolding twos_int[symmetric] by (rule twos_cong)
qed

lemma nat_of_pow256Minus1: "nat_of_dec pow256Minus1 = Some (2 ^ 256 - 1)"
  by (simp add: pow256Minus1_def nat_of_dec_def dec_value_def is_digit_def)

lemma u256_max: "bits < 256 \<Longrightarrow> u256_sub (2 ^ bits) 1 = 2 ^ bits - 1"
  using u256_sub_one[of "2 ^ bits"] power_strict_increasing[of bits 256 "2::nat"] by (simp add: u256_pow2_less)

lemma pow2_pred_le: "bits \<le> 256 \<Longrightarrow> (2::nat) ^ bits - 1 \<le> 2 ^ 256"
  using power_increasing[of bits 256 "2::nat"] by simp

text \<open>The decimal texts of the largest value and of the modulus of a width, as the source chooses them.\<close>

lemma width_texts:
  assumes "bits \<le> 256"
  shows "nat_of_dec (if bits \<ge> 256 then pow256Minus1 else dec_of_nat (u256_sub (u256_pow2 bits) 1)) = Some (2 ^ bits - 1)"
    and "nat_of_dec (if bits = 256 then pow256Minus1 else dec_of_nat (u256_sub (u256_pow2 bits) 1)) = Some (2 ^ bits - 1)"
    and "nat_of_dec (if bits \<ge> 256 then kPow2_256 else dec_of_nat (u256_pow2 bits)) = Some (2 ^ bits)"
    and "(if bits \<ge> 256 then u256_sub 0 1 else u256_sub (u256_pow2 bits) 1) = 2 ^ bits - 1"
proof -
  have "u256_sub 0 1 = 2 ^ 256 - 1" by (simp add: u256_sub_def)
  moreover have "bits = 256 \<or> bits < 256" using assms by linarith
  ultimately show "nat_of_dec (if bits \<ge> 256 then pow256Minus1 else dec_of_nat (u256_sub (u256_pow2 bits) 1)) = Some (2 ^ bits - 1)"
    "nat_of_dec (if bits = 256 then pow256Minus1 else dec_of_nat (u256_sub (u256_pow2 bits) 1)) = Some (2 ^ bits - 1)"
    "nat_of_dec (if bits \<ge> 256 then kPow2_256 else dec_of_nat (u256_pow2 bits)) = Some (2 ^ bits)"
    "(if bits \<ge> 256 then u256_sub 0 1 else u256_sub (u256_pow2 bits) 1) = 2 ^ bits - 1"
    by (auto simp: nat_of_pow256Minus1 u256_max u256_pow2_less)
qed

section \<open>The builders\<close>

context avm
begin

text \<open>A queued range check followed by a \<open>bits\<close>-wide value in its native representation.\<close>

lemma queued_check:
  assumes "sbool ev K \<sigma> c p" "ok_cache ev K \<sigma> (cache \<sigma>)"
    and "sbig ev K \<sigma> e w" "w < 2 ^ bits"
  shows "built (do {
       (if \<not> nochk then queuePreExpression (makeAssert c (Some msg) voidType) else ret ());
       ret (if bits \<le> 64 then makeBiguintToUInt64 e else e) }) s
     (\<lambda>e' s'. \<exists>checks. preEffects s' = preEffects s @ checks \<and> checked_value ev \<sigma> checks e' (nochk \<or> p)
      (\<lambda>v. num_val (if bits \<le> 64 then uint64Type else biguintType) v w))"
proof -
  have val: "\<exists>v \<sigma>2. ev (\<sigma>\<lparr>cache := k\<rparr>) (if bits \<le> 64 then makeBiguintToUInt64 e else e) = Some (v, \<sigma>2) \<and>
      num_val (if bits \<le> 64 then uint64Type else biguintType) v w" if k: "ok_cache ev K \<sigma> k" for k
  proof (cases "bits \<le> 64")
    case True
    then have "(2::nat) ^ bits \<le> 2 ^ 64" by (intro power_increasing) simp_all
    with assms(4) have w: "w < 2 ^ 64" by (rule less_le_trans)
    with su64_biguintToUInt64[OF assms(3)] have "su64 ev K \<sigma> (makeBiguintToUInt64 e) w" by simp
    from num_val_u64[OF this w k] True show ?thesis by simp
  next
    case False
    with num_val_big[OF assms(3) k] show ?thesis by simp
  qed
  from checked_valueI[OF assms(1,2) val, of nochk msg] show ?thesis
    by (cases nochk) (simp_all add: queuePreExpression_def makeExpressionStatement_def)
qed

lemma signed_incDec_built:
  fixes isInc :: bool
  assumes "0 < bits" "bits \<le> 256" and b: "snum ev K \<sigma> base n" "bits = 256 \<Longrightarrow> n < 2 ^ 256"
    and "ok_cache ev K \<sigma> (cache \<sigma>)"
  defines "z \<equiv> signed_of bits (n mod 2 ^ bits) + (if isInc then 1 else - 1)"
  shows "built (buildIncDec nochk isInc bits ub base) s (\<lambda>e' s'. \<exists>checks.
    preEffects s' = preEffects s @ checks \<and> checked_value ev \<sigma> checks e' (nochk \<or> in_range bits z)
      (\<lambda>v. num_val (if bits \<le> 64 then uint64Type else biguintType) v (twos bits z)))"
proof -
  let ?w = "n mod 2 ^ bits"
  define pow2N halfN where d: "pow2N = fst (pow2NAndHalf bits)" "halfN = snd (pow2NAndHalf bits)"
  have k: "nat_of_dec pow2N = Some (2 ^ bits)" "nat_of_dec halfN = Some (2 ^ (bits - 1))"
    using pow2NAndHalf_values[OF assms(1,2)] by (simp_all add: d)
  define val where "val = (if bits < 256 then makeBigUIntBinOp (promoteToBiguint base) BigMod (biguintConst pow2N) else promoteToBiguint base)"
  define limit where "limit = (if isInc then dec_of_nat (u256_sub (u256_pow2 (bits - 1)) 1) else halfN)"
  define off where "off = (if isInc then ''1'' else if bits = 256 then pow256Minus1 else dec_of_nat (u256_sub (u256_pow2 bits) 1))"
  have v: "sbig ev K \<sigma> val ?w" unfolding val_def by (rule sbig_saOperand(1)[OF b assms(2) k(1)])
  have w: "?w < 2 ^ bits" by simp
  have "nat_of_dec limit = Some (if isInc then 2 ^ (bits - 1) - 1 else 2 ^ (bits - 1))"
    using k(2) assms(1,2) by (simp add: limit_def u256_max u256_pow2_less)
  moreover have "(if isInc then 2 ^ (bits - 1) - 1 else 2 ^ (bits - 1)) \<le> (2::nat) ^ 256"
    using pow2_pred_le[of "bits - 1"] pow_le_256[of "bits - 1"] assms(2) by (simp add: le_diff_conv)
  ultimately have "sbool ev K \<sigma> (makeNumericCompare val Ne (biguintConst limit))
      (num_cmp Ne ?w (if isInc then 2 ^ (bits - 1) - 1 else 2 ^ (bits - 1)))"
    unfolding makeNumericCompare_def by (intro sval_cmp_big[OF v] sbig_const)
  then have c: "sbool ev K \<sigma> (makeNumericCompare val Ne (biguintConst limit)) (in_range bits z)"
    using inc_in_range[OF assms(1) w] dec_in_range[OF assms(1) w] by (cases isInc) (simp_all add: z_def)
  have off: "sbig ev K \<sigma> (biguintConst off) (if isInc then 1 else 2 ^ bits - 1)"
    using width_texts(2)[OF assms(2)] pow2_pred_le[OF assms(2)] by (intro sbig_const) (simp_all add: off_def)
  have "?w + (if isInc then 1 else 2 ^ bits - 1) < 2 ^ 512"
  proof -
    have "?w + (if isInc then 1 else 2 ^ bits - 1) \<le> 2 ^ bits + 2 ^ bits" using less_imp_le[OF w] by (intro add_mono) simp_all
    also have "\<dots> \<le> 2 ^ 256 + 2 ^ 256" by (intro add_mono pow_le_256 assms(2))
    finally show ?thesis by (rule le_less_trans) simp
  qed
  from sbig_mod[OF sbig_add[OF v off this] sbig_const[OF k(1) pow_le_256[OF assms(2)]]]
  have "sbig ev K \<sigma> (makeBigUIntBinOp (makeBigUIntBinOp val BigAdd (biguintConst off)) BigMod (biguintConst pow2N)) (twos bits z)"
    unfolding makeBigUIntBinOp_def using twos_inc[OF assms(1), of ?w] twos_dec[OF assms(1), of ?w]
    by (cases isInc) (simp_all add: z_def)
  from queued_check[OF c assms(5) this twos_less, of nochk "''signed inc/dec overflow''" s] show ?thesis
    unfolding buildIncDec_def Let_def d[symmetric] val_def limit_def off_def using assms(1)
    by (simp only: if_True simp_thms)
qed

lemma unchecked_incDec_built:
  fixes isInc :: bool
  assumes "0 < ub" "ub \<le> 256" and b: "snum ev K \<sigma> base n" "n < 2 ^ 256"
    and "wtypeOf base = uint64Type \<Longrightarrow> ub \<le> 64"
  shows "built (buildIncDec True isInc 0 ub base) s (\<lambda>e' s'. preEffects s' = preEffects s \<and>
    wtypeOf e' = wtypeOf base \<and> snum ev K \<sigma> e' (twos ub (int n + (if isInc then 1 else - 1))))"
proof -
  define off where "off = (if isInc then ''1'' else if ub \<ge> 256 then pow256Minus1 else dec_of_nat (u256_sub (u256_pow2 ub) 1))"
  define pow2N where "pow2N = (if ub \<ge> 256 then kPow2_256 else dec_of_nat (u256_pow2 ub))"
  let ?r = "twos ub (int n + (if isInc then 1 else - 1))"
  have v: "sbig ev K \<sigma> (promoteToBiguint base) n" by (rule sbig_promote(1)[OF b(1)])
  have off: "sbig ev K \<sigma> (biguintConst off) (if isInc then 1 else 2 ^ ub - 1)"
    using width_texts(1)[OF assms(2)] pow2_pred_le[OF assms(2)] by (intro sbig_const) (simp_all add: off_def)
  have pow: "sbig ev K \<sigma> (biguintConst pow2N) (2 ^ ub)"
    using width_texts(3)[OF assms(2)] pow_le_256[OF assms(2)] by (intro sbig_const) (simp_all add: pow2N_def)
  have "n + (if isInc then 1 else 2 ^ ub - 1) \<le> 2 ^ 256 + 2 ^ 256"
    using less_imp_le[OF b(2)] pow2_pred_le[OF assms(2)] by (intro add_mono) auto
  then have lt: "n + (if isInc then 1 else 2 ^ ub - 1) < 2 ^ 512" by (rule le_less_trans) simp
  have r: "(n + (if isInc then 1 else 2 ^ ub - 1)) mod 2 ^ ub = ?r"
  proof (cases isInc)
    case False
    have "(int n - 1) mod 2 ^ ub = (int n - 1 + 2 ^ ub) mod 2 ^ ub" by simp
    also have "int n - 1 + 2 ^ ub = int (n + (2 ^ ub - 1))" unfolding of_nat_add by (subst of_nat_diff) simp_all
    finally have "twos ub (int n - 1) = (n + (2 ^ ub - 1)) mod 2 ^ ub" unfolding twos_int[symmetric] by (rule twos_cong)
    with False show ?thesis by simp
  qed (simp flip: twos_int)
  let ?e = "makeBigUIntBinOp (makeBigUIntBinOp (promoteToBiguint base) BigAdd (biguintConst off)) BigMod (biguintConst pow2N)"
  have e: "sbig ev K \<sigma> ?e ?r" unfolding makeBigUIntBinOp_def r[symmetric]
    by (rule sbig_mod[OF sbig_add[OF v off lt] pow]) simp
  have "snum ev K \<sigma> (if wtypeOf base \<noteq> biguintType then makeBiguintToUInt64 ?e else ?e) ?r \<and>
      wtypeOf (if wtypeOf base \<noteq> biguintType then makeBiguintToUInt64 ?e else ?e) = wtypeOf base"
  proof (cases "wtypeOf base = biguintType")
    case True
    with e show ?thesis by (simp add: snum_def makeBigUIntBinOp_def)
  next
    case False
    with b(1) have u: "wtypeOf base = uint64Type" by (auto simp: snum_def)
    from assms(5)[OF u] have "(2::nat) ^ ub \<le> 2 ^ 64" by (intro power_increasing) simp_all
    with twos_less have lt: "?r < 2 ^ 64" by (rule less_le_trans)
    with su64_biguintToUInt64[OF e] False u show ?thesis
      by (simp add: snum_def makeBiguintToUInt64_def Let_def makeExtractUInt64_def makeIntrinsicCall_def)
  qed
  then show ?thesis
    unfolding buildIncDec_def Let_def off_def pow2N_def using assms(1) by simp
qed

lemma sbig_evalOnce:
  assumes "sbig ev K \<sigma> e n" "covers K s"
    and "\<And>e' s'. sbig ev K \<sigma> e' n \<Longrightarrow> covers K s' \<Longrightarrow> preEffects s' = preEffects s \<Longrightarrow> Q e' s'"
  shows "built (makeEvalOnce e) s Q"
proof -
  from assms(1) obtain b where "sval ev K \<sigma> e (VB b)" "be_nat b = n" "length b \<le> 64" by (auto simp: sbig_def)
  then show ?thesis by (intro built_evalOnce[OF _ assms(2)] assms(3)) (auto simp: sbig_def)
qed

lemma wrappingSubtract_built:
  assumes l: "sbig ev K \<sigma> left m" "m < 2 ^ 256" and r: "sbig ev K \<sigma> right n" "n < 2 ^ 256"
    and "covers K s" "ok_cache ev K \<sigma> (cache \<sigma>)"
  shows "built (buildWrappingSubtract nochk left right) s (\<lambda>e' s'. \<exists>checks.
    preEffects s' = preEffects s @ checks \<and> checked_value ev \<sigma> checks e' (nochk \<or> n \<le> m)
      (\<lambda>v. num_val biguintType v (twos 256 (int m - int n))))"
proof -
  have "(int m - int n) mod 2 ^ 256 = (int m - int n + 2 ^ 256) mod 2 ^ 256" by simp
  also have "int m - int n + 2 ^ 256 = int (m + 2 ^ 256 - n)" using r(2) by (simp add: of_nat_diff)
  finally have z: "twos 256 (int m - int n) = (m + 2 ^ 256 - n) mod 2 ^ 256" unfolding twos_int[symmetric] by (rule twos_cong)
  have main: "\<exists>checks. preEffects s @ check_stmt nochk (makeNumericCompare l' Gte r') ''underflow'' = preEffects s @ checks \<and>
      checked_value ev \<sigma> checks
        (wrapMod256 (makeBigUIntBinOp (makeBigUIntBinOp l' BigAdd makePow256) BigSub r')) (nochk \<or> n \<le> m)
      (\<lambda>v. num_val biguintType v (twos 256 (int m - int n)))"
    if "sbig ev K \<sigma> l' m" "sbig ev K \<sigma> r' n" for l' r'
  proof -
    have c: "sbool ev K \<sigma> (makeNumericCompare l' Gte r') (n \<le> m)"
      using sval_cmp_big[OF that, of boolType Gte] by (simp add: makeNumericCompare_def)
    have "m + 2 ^ 256 < 2 ^ 512" using l(2) by simp
    from sbig_add[OF that(1) sbig_pow256 this]
    have a: "sbig ev K \<sigma> (makeBigUIntBinOp l' BigAdd makePow256) (m + 2 ^ 256)"
      unfolding makeBigUIntBinOp_def .
    have "sbig ev K \<sigma> (makeBigUIntBinOp (makeBigUIntBinOp l' BigAdd makePow256) BigSub r') (m + 2 ^ 256 - n)"
      unfolding makeBigUIntBinOp_def[of _ BigSub]
      by (rule sbig_sub[OF a that(2)]) (use r(2) in simp)
    from sbig_mod[OF this sbig_pow256]
    have "sbig ev K \<sigma> (wrapMod256 (makeBigUIntBinOp (makeBigUIntBinOp l' BigAdd makePow256) BigSub r')) (twos 256 (int m - int n))"
      unfolding z wrapMod256_def Let_def makeBigUIntBinOp_def[of _ BigMod] by simp
    from checked_valueI[OF c assms(6) num_val_big[OF this], of nochk "''underflow''"] show ?thesis by blast
  qed
  show ?thesis
    unfolding buildWrappingSubtract_def Let_def built_bind
  proof (rule sbig_evalOnce[OF l(1) assms(5)], rule sbig_evalOnce[OF r(1)])
    fix l' r' :: expr and s1 s2 :: bst
    assume "sbig ev K \<sigma> l' m" "preEffects s1 = preEffects s" "sbig ev K \<sigma> r' n" "preEffects s2 = preEffects s1"
    from main[of l' r'] this show "built (if \<not> nochk then pushPreEffect (makeExpressionStatement (makeAssert (makeNumericCompare l' Gte r') (Some ''underflow'') voidType)) else ret ()) s2
      (\<lambda>_ s'. built (ret (wrapMod256 (makeBigUIntBinOp (makeBigUIntBinOp l' BigAdd makePow256) BigSub r'))) s' (\<lambda>e' s'. \<exists>checks.
    preEffects s' = preEffects s @ checks \<and> checked_value ev \<sigma> checks e' (nochk \<or> n \<le> m)
      (\<lambda>v. num_val biguintType v (twos 256 (int m - int n)))))"
      by (cases nochk) (simp_all add: makeExpressionStatement_def)
  qed simp_all
qed

lemma uinc_guard:
  assumes "ev \<sigma> bin = Some (v, \<sigma>1)" "num_val (wtypeOf bin) v n" "bits \<le> 256" "wtypeOf bin = uint64Type \<Longrightarrow> bits \<le> 64"
  shows "built (guardUIncOverflow bin bits) s (\<lambda>e' s'. preEffects s' = preEffects s \<and>
    (if n < 2 ^ bits then \<exists>\<sigma>2. ev \<sigma> e' = Some (v, \<sigma>2) else ev \<sigma> e' = None))"
proof -
  let ?x = "''__uinc_'' @ dec_of_nat (counters s ''SolUnaryOperation.s_uincCounter'')"
  let ?var = "VarExpression (wtypeOf bin) ?x"
  let ?\<sigma> = "bind_var ?x v \<sigma>1"
  let ?max = "IntegerConstant (wtypeOf bin) (dec_of_nat (2 ^ bits - 1))"
  have var: "ev ?\<sigma> ?var = Some (v, ?\<sigma>)" by (rule sem_var) (simp add: bind_var_def)
  have le: "num_cmp Lte n (2 ^ bits - 1) \<longleftrightarrow> n < 2 ^ bits"
    using zero_less_power[of "2::nat" bits] by (simp only: num_cmp.simps) linarith
  have "sbool ev {} ?\<sigma> (NumericComparisonExpression boolType ?var Lte ?max) (num_cmp Lte n (2 ^ bits - 1))"
  proof (cases v)
    case (VU k)
    with assms(2) have u: "wtypeOf bin = uint64Type" "k = n" by simp_all
    have "(2::nat) ^ bits \<le> 2 ^ 64" using assms(4)[OF u(1)] by (intro power_increasing) simp_all
    then have "(2::nat) ^ bits - 1 < 2 ^ 64" by simp
    from sval_int64[OF nat_of_dec_of_nat this] show ?thesis unfolding u
      by (intro sval_cmp_u64 sval_var) (simp_all add: VU u bind_var_def)
  next
    case (VB b)
    with assms(2) have u: "wtypeOf bin = biguintType" "be_nat b = n" "length b \<le> 64" by simp_all
    have "(2::nat) ^ bits - 1 < 2 ^ 512" using pow2_pred_le[OF assms(3)] by (rule le_less_trans) simp
    from sbig_decimal[OF this] show ?thesis unfolding u
      by (intro sval_cmp_big sbig_temp[OF _ u(2,3)]) (simp_all add: VB bind_var_def)
  qed (use assms(2) in simp_all)
  then have c: "ev ?\<sigma> (NumericComparisonExpression boolType ?var Lte ?max) = Some (VU (of_bool (n < 2 ^ bits)), ?\<sigma>)"
    unfolding sval_empty le .
  show ?thesis
    unfolding guardUIncOverflow_def Let_def width_texts(4)[OF assms(3)]
    by (simp add: makeVarExpression_def makeCommaExpression_def makeAssert_def makeNumericCompare_def makeIntegerConstant_def
        sem_comma sem_assign sem_assert assms(1) c[simplified] var[simplified])
qed

lemma uinc_guard_trap:
  "ev \<sigma> bin = None \<Longrightarrow> built (guardUIncOverflow bin bits) s (\<lambda>e' s'. preEffects s' = preEffects s \<and> ev \<sigma> e' = None)"
  unfolding guardUIncOverflow_def Let_def
  by (simp add: makeVarExpression_def makeCommaExpression_def sem_comma sem_assign)

text \<open>The unguarded step: the AVM subtraction traps below zero, the 64-bit addition above the word.\<close>

lemma step_value:
  fixes isInc :: bool
  assumes "ev \<sigma> base = Some (v, \<sigma>1)" "num_val (wtypeOf base) v n" "n < 2 ^ 256"
  defines "bin \<equiv> (if wtypeOf base = biguintType then makeBigUIntBinOp base (if isInc then BigAdd else BigSub) (makeOne biguintType)
    else makeUInt64BinOp base (if isInc then U64Add else U64Sub) (makeOne uint64Type))"
  shows "wtypeOf bin = wtypeOf base"
    and "if (if isInc then wtypeOf base = uint64Type \<longrightarrow> n + 1 < 2 ^ 64 else n \<noteq> 0)
      then \<exists>w. ev \<sigma> bin = Some (w, \<sigma>1) \<and> num_val (wtypeOf base) w (if isInc then n + 1 else n - 1)
      else ev \<sigma> bin = None"
proof -
  consider (big) b where "v = VB b" "wtypeOf base = biguintType" "be_nat b = n" "length b \<le> 64"
    | (u64) "v = VU n" "wtypeOf base = uint64Type" "n < 2 ^ 64" using assms(2) by (cases v) auto
  note split = this
  from split show "wtypeOf bin = wtypeOf base"
    by cases (simp_all add: bin_def makeBigUIntBinOp_def makeUInt64BinOp_def)
  have neq: "uint64Type \<noteq> biguintType" "biguintType \<noteq> uint64Type" by (simp_all add: biguintType_def uint64Type_def)
  from split show "if (if isInc then wtypeOf base = uint64Type \<longrightarrow> n + 1 < 2 ^ 64 else n \<noteq> 0)
      then \<exists>w. ev \<sigma> bin = Some (w, \<sigma>1) \<and> num_val (wtypeOf base) w (if isInc then n + 1 else n - 1)
      else ev \<sigma> bin = None"
  proof cases
    case big
    have one: "ev \<sigma>1 (makeOne biguintType) = Some (VB (be_min 1), \<sigma>1)"
      unfolding makeOne_def makeIntegerConstant_def by (rule sem_bigint) simp_all
    have len: "length (be_min 1) \<le> 64" "length (be_min (n + 1)) \<le> 64" "length (be_min (n - 1)) \<le> 64"
      using assms(3) by (auto intro!: length_be_min64)
    show ?thesis using big one len neq assms(1)
      by (simp add: bin_def makeBigUIntBinOp_def sem_big bin_eval_def byte_math_def not_le)
  next
    case u64
    have one: "ev \<sigma>1 (makeOne uint64Type) = Some (VU 1, \<sigma>1)"
      unfolding makeOne_def makeIntegerConstant_def by (rule sem_int64) simp_all
    show ?thesis using u64 one neq assms(1)
      by (auto simp: bin_def makeUInt64BinOp_def sem_u64 bin_eval_def)
  qed
qed

lemma checked_incDec_built:
  fixes isInc :: bool
  assumes "ev \<sigma> base = Some (v, \<sigma>1)" "num_val (wtypeOf base) v n"
    and "0 < ub" "ub \<le> 256" "wtypeOf base = uint64Type \<Longrightarrow> ub \<le> 64" "n < 2 ^ ub"
  shows "built (buildIncDec False isInc 0 ub base) s (\<lambda>e' s'. preEffects s' = preEffects s \<and>
    (if (if isInc then n + 1 < 2 ^ ub else n \<noteq> 0)
     then \<exists>w \<sigma>2. ev \<sigma> e' = Some (w, \<sigma>2) \<and> num_val (wtypeOf base) w (if isInc then n + 1 else n - 1)
     else ev \<sigma> e' = None))"
proof -
  define bin where "bin = (if wtypeOf base = biguintType then makeBigUIntBinOp base (if isInc then BigAdd else BigSub) (makeOne biguintType)
    else makeUInt64BinOp base (if isInc then U64Add else U64Sub) (makeOne uint64Type))"
  have n: "n < 2 ^ 256" using assms(6) pow_le_256[OF assms(4)] by (rule less_le_trans)
  note step = step_value[OF assms(1,2) n, of isInc, folded bin_def]
  let ?g = "isInc \<and> (wtypeOf base = biguintType \<or> ub < 64)"
  have eq: "buildIncDec False isInc 0 ub base = (if ?g then guardUIncOverflow bin ub else ret bin)"
    using assms(3) by (auto simp: buildIncDec_def Let_def bin_def)
  show ?thesis
  proof (cases ?g)
    case True
    show ?thesis
    proof (cases "wtypeOf base = uint64Type \<longrightarrow> n + 1 < 2 ^ 64")
      case ok: True
      with step(2) True obtain w where w: "ev \<sigma> bin = Some (w, \<sigma>1)" "num_val (wtypeOf bin) w (n + 1)"
        by (auto simp: step(1))
      from uinc_guard[OF w assms(4), unfolded step(1), OF assms(5), of s] w(2) True show ?thesis
        unfolding eq by (auto simp: step(1) elim!: built_mono)
    next
      case False
      then have "\<not> n + 1 < 2 ^ ub" using power_increasing[of ub 64 "2::nat"] assms(5) by auto
      with uinc_guard_trap[of \<sigma> bin ub s] step(2) True False show ?thesis unfolding eq by auto
    qed
  next
    case False
    have "n + 1 < 2 ^ ub \<longleftrightarrow> n + 1 < 2 ^ 64" if "isInc"
    proof -
      from that False assms(2) have "wtypeOf base = uint64Type" by (cases v) auto
      with assms(5) False that have "ub = 64" by auto
      then show ?thesis by simp
    qed
    with step(2) False assms(2) show ?thesis unfolding eq by (cases v) (auto split: if_splits)
  qed
qed

lemma check_runs:
  assumes "sbool ev {} \<sigma> c p"
  shows "if nochk \<or> p then execs ev \<sigma> (check_stmt nochk c msg) (Normal \<sigma>)
    else execs ev \<sigma> (check_stmt nochk c msg) Trap"
proof -
  have "ev \<sigma> c = Some (VU (of_bool p), \<sigma>)" using assms by (simp add: sval_empty)
  then have "exec ev \<sigma> (ExpressionStatement (makeAssert c (Some msg) voidType)) (if p then Normal \<sigma> else Trap)"
    by (auto simp: makeAssert_def sem_assert intro: Expr ExprTrap)
  then show ?thesis by auto
qed

lemma negate_tmp_runs:
  assumes "sbig ev {} (bind_var x (VB (be_min 0)) \<sigma>) operand w"
    and "sbig ev {} (bind_var x (VB (be_min 0)) \<sigma>) modded r" and "w = 0 \<Longrightarrow> r = 0"
  shows "\<exists>\<sigma>2 d. execs ev \<sigma> [AssignmentStatement (VarExpression biguintType x) (biguintConst ''0''),
      IfElse (makeNumericCompare operand Ne (biguintConst ''0''))
        (Some (makeBlock [AssignmentStatement (VarExpression biguintType x) modded])) None] (Normal \<sigma>2) \<and>
    vars \<sigma>2 x = Some (VB d) \<and> be_nat d = r \<and> length d \<le> 64"
proof -
  let ?\<tau> = "bind_var x (VB (be_min 0)) \<sigma>"
  have z: "sbig ev {} \<tau> (biguintConst ''0'') 0" for \<tau> by (rule sbig_const) simp_all
  have "ev \<sigma> (biguintConst ''0'') = Some (VB (be_min 0), \<sigma>)"
    unfolding biguintConst_def makeIntegerConstant_def by (rule sem_bigint) simp_all
  then have a: "exec ev \<sigma> (AssignmentStatement (VarExpression biguintType x) (biguintConst ''0'')) (Normal ?\<tau>)"
    by (rule Assign)
  from sval_cmp_big[OF assms(1) z, of boolType Ne]
  have c: "ev ?\<tau> (makeNumericCompare operand Ne (biguintConst ''0'')) = Some (VU (of_bool (w \<noteq> 0)), ?\<tau>)"
    by (simp add: sval_empty makeNumericCompare_def)
  from sbig_eval[OF assms(2)] obtain d where d: "ev ?\<tau> modded = Some (VB d, ?\<tau>)" "be_nat d = r" "length d \<le> 64" by metis
  let ?if = "IfElse (makeNumericCompare operand Ne (biguintConst ''0''))
        (Some (makeBlock [AssignmentStatement (VarExpression biguintType x) modded])) None"
  show ?thesis
  proof (cases "w = 0")
    case True
    then have "exec ev ?\<tau> ?if (Normal ?\<tau>)" by (intro IfFalse[where ev = ev, OF c]) simp_all
    with a have "execs ev \<sigma> [AssignmentStatement (VarExpression biguintType x) (biguintConst ''0''), ?if] (Normal ?\<tau>)"
      by (intro execs_then) simp_all
    moreover have "vars ?\<tau> x = Some (VB (be_min 0))" "be_nat (be_min 0) = r" "length (be_min 0) \<le> 64"
      using True assms(3) length_be_min64[of 0] by (simp_all add: bind_var_def)
    ultimately show ?thesis by blast
  next
    case False
    with Assign[of ev ?\<tau> modded, OF d(1)] have "exec ev ?\<tau> ?if (Normal (bind_var x (VB d) ?\<tau>))"
      by (intro IfTrue[where ev = ev, OF c]) (simp_all add: makeBlock_def)
    with a have "execs ev \<sigma> [AssignmentStatement (VarExpression biguintType x) (biguintConst ''0''), ?if] (Normal (bind_var x (VB d) ?\<tau>))"
      by (intro execs_then) simp_all
    moreover have "vars (bind_var x (VB d) ?\<tau>) x = Some (VB d)" by (simp add: bind_var_def)
    ultimately show ?thesis using d(2,3) by blast
  qed
qed

lemma signedNegate_built:
  fixes tmp :: string and nodeId :: int
  assumes "0 < bits" "bits \<le> 256" and k: "nat_of_dec pow2N = Some (2 ^ bits)" "nat_of_dec halfN = Some (2 ^ (bits - 1))"
    and o: "ev \<sigma> operand = Some (VB b, \<sigma>)" "length b \<le> 64" "bits = 256 \<Longrightarrow> be_nat b < 2 ^ 256"
  defines "tmp \<equiv> ''__neg_tmp_'' @ int_to_string nodeId"
  assumes indep: "\<And>v. ev (bind_var tmp v \<sigma>) operand = Some (VB b, bind_var tmp v \<sigma>)"
  defines "z \<equiv> - signed_of bits (be_nat b mod 2 ^ bits)"
  shows "built (buildSignedNegate nochk bits pow2N halfN nodeId operand) s (\<lambda>e' s'. \<exists>checks. preEffects s' = preEffects s @ checks \<and>
    (if nochk \<or> in_range bits z
     then \<exists>\<sigma>2 v. execs ev \<sigma> checks (Normal \<sigma>2) \<and> ev \<sigma>2 e' = Some (v, \<sigma>2) \<and>
       num_val (if bits \<le> 64 then uint64Type else biguintType) v (twos bits z)
     else execs ev \<sigma> checks Trap))"
proof -
  let ?w = "be_nat b mod 2 ^ bits"
  define opn where "opn = (if bits < 256 then makeBigUIntBinOp operand BigMod (biguintConst pow2N) else operand)"
  define modded where "modded = makeBigUIntBinOp (makeBigUIntBinOp (biguintConst pow2N) BigSub opn) BigMod (biguintConst pow2N)"
  let ?cmp = "makeNumericCompare opn Ne (biguintConst halfN)"
  have pow: "sbig ev {} \<tau> (biguintConst pow2N) (2 ^ bits)" for \<tau> by (rule sbig_const[OF k(1) pow_le_256[OF assms(2)]])
  have opn: "sbig ev {} \<tau> opn ?w" if "ev \<tau> operand = Some (VB b, \<tau>)" for \<tau>
  proof -
    from that o(2) have "sbig ev {} \<tau> operand (be_nat b)" unfolding sval_empty[symmetric] by (rule sbigI)
    with sbig_mod[OF this pow] o(3) assms(2) show ?thesis by (auto simp: opn_def makeBigUIntBinOp_def)
  qed
  have z: "twos bits z = (2 ^ bits - ?w) mod 2 ^ bits" unfolding z_def by (rule twos_neg) simp
  have md: "sbig ev {} \<tau> modded (twos bits z)" if "ev \<tau> operand = Some (VB b, \<tau>)" for \<tau>
    unfolding modded_def z makeBigUIntBinOp_def by (intro sbig_mod sbig_sub pow opn that) simp_all
  have half: "sbig ev {} \<sigma> (biguintConst halfN) (2 ^ (bits - 1))"
    by (rule sbig_const[OF k(2) pow_le_256]) (use assms(2) in simp)
  have "sbool ev {} \<sigma> ?cmp (num_cmp Ne ?w (2 ^ (bits - 1)))"
    unfolding makeNumericCompare_def by (rule sval_cmp_big[OF opn[OF o(1)] half])
  then have cmp: "sbool ev {} \<sigma> ?cmp (in_range bits z)" unfolding z_def using neg_in_range[OF assms(1), of ?w] by simp
  note chk = check_runs[OF cmp, of nochk "''signed negation overflow''"]
  show ?thesis
  proof (cases "bits = 256")
    case True
    let ?post = "[AssignmentStatement (VarExpression biguintType tmp) (biguintConst ''0''),
      IfElse (makeNumericCompare opn Ne (biguintConst ''0''))
        (Some (makeBlock [AssignmentStatement (VarExpression biguintType tmp) modded])) None]"
    from negate_tmp_runs[OF opn[OF indep] md[OF indep]] obtain \<sigma>2 d where r:
      "execs ev \<sigma> ?post (Normal \<sigma>2)" "vars \<sigma>2 tmp = Some (VB d)" "be_nat d = twos bits z" "length d \<le> 64"
      using z by auto
    have out: "if nochk \<or> in_range bits z then \<exists>\<sigma>2 v. execs ev \<sigma> (check_stmt nochk ?cmp ''signed negation overflow'' @ ?post) (Normal \<sigma>2) \<and>
        ev \<sigma>2 (VarExpression biguintType tmp) = Some (v, \<sigma>2) \<and> num_val biguintType v (twos bits z)
      else execs ev \<sigma> (check_stmt nochk ?cmp ''signed negation overflow'' @ ?post) Trap"
    proof (cases "nochk \<or> in_range bits z")
      case t: True
      with chk have "execs ev \<sigma> (check_stmt nochk ?cmp ''signed negation overflow'') (Normal \<sigma>)" by simp
      from execs_append_Normal[OF this r(1)] sem_var[OF r(2)] r(3,4) t show ?thesis
        by (simp only: if_True) (metis num_val.simps(1))
    next
      case False
      with chk show ?thesis by (auto intro: Stop)
    qed
    then show ?thesis using True
      unfolding buildSignedNegate_def Let_def opn_def[symmetric] modded_def[symmetric] tmp_def[symmetric]
      by (cases nochk; cases "in_range 256 z")
         (simp_all add: queuePreExpression_def makeExpressionStatement_def makeVarExpression_def makeIfElse_def)
  next
    case False
    have val: "\<exists>v. ev \<sigma> (if bits \<le> 64 then makeBiguintToUInt64 modded else modded) = Some (v, \<sigma>) \<and>
        num_val (if bits \<le> 64 then uint64Type else biguintType) v (twos bits z)"
    proof (cases "bits \<le> 64")
      case t: True
      then have "(2::nat) ^ bits \<le> 2 ^ 64" by (intro power_increasing) simp_all
      with twos_less have "twos bits z < 2 ^ 64" by (rule less_le_trans)
      with su64_biguintToUInt64[OF md[OF o(1)]] t show ?thesis by (simp add: sval_empty)
    next
      case f: False
      with sbig_eval[OF md[OF o(1)]] show ?thesis by (metis num_val.simps(1))
    qed
    from chk val show ?thesis using False
      unfolding buildSignedNegate_def Let_def opn_def[symmetric] modded_def[symmetric] tmp_def[symmetric]
      by (cases nochk) (auto simp add: queuePreExpression_def makeExpressionStatement_def)
  qed
qed

end

section \<open>Properties\<close>

text \<open>
  (C13) Increment and decrement of a signed integer at every width up to 256 bits: in checked mode the
  queued check traps exactly when the result leaves the range of the type; otherwise the value is the
  stepped value in the two's complement of the width.
\<close>

theorem buildIncDec_signed_correct:
  assumes "avm ev" and "0 < bits" "bits \<le> 256" and "ids_free s \<sigma>"
    and "snum ev (fresh_ids s) \<sigma> base n" "bits = 256 \<longrightarrow> n < 2 ^ 256"
    and "z = signed_of bits (n mod 2 ^ bits) + (if isInc then 1 else - 1)"
    and "run_state (buildIncDec nochk isInc bits ub base) s = (e', s')"
  shows "\<exists>checks. preEffects s' = preEffects s @ checks \<and>
    checked_value ev \<sigma> checks e' (nochk \<or> in_range bits z)
      (\<lambda>v. num_val (if bits \<le> 64 then uint64Type else biguintType) v (twos bits z))"
  unfolding assms(7)
  by (rule built_run[OF avm.signed_incDec_built[where K = "fresh_ids s"] assms(8)])
     (use assms(1-6) in \<open>simp_all add: ok_cache_fresh_ids\<close>)

theorem buildIncDec_signed_correct_witness:
  "execs aeval (env_of [(''x'', VU 128)])
     (preEffects (snd (run_state (buildIncDec False False 8 0 (VarExpression uint64Type ''x'')) initialBst))) Trap"
proof -
  let ?x = "VarExpression uint64Type ''x''" and ?\<sigma> = "env_of [(''x'', VU 128)]"
  obtain e' s' where r: "run_state (buildIncDec False False 8 0 ?x) initialBst = (e', s')" by force
  have v: "snum aeval K ?\<sigma> ?x 128" for K by (auto simp: snum_def sval_def)
  have z: "- 129 = signed_of 8 (128 mod 2 ^ 8) + (if False then 1 else - 1)" by (simp add: signed_of_def)
  have "\<exists>checks. preEffects s' = preEffects initialBst @ checks \<and>
    checked_value aeval ?\<sigma> checks e' (False \<or> in_range 8 (- 129))
      (\<lambda>v. num_val (if (8::nat) \<le> 64 then uint64Type else biguintType) v (twos 8 (- 129)))"
    by (rule buildIncDec_signed_correct[OF ref.avm_axioms _ _ _ v _ z r]) (simp_all add: ids_free_def)
  with r show ?thesis by (auto simp: checked_value_def in_range_def initialBst_def)
qed

text \<open>
  (C14) Checked increment and decrement of an unsigned integer: the operand is evaluated once, nothing
  is queued, the expression traps exactly when the result leaves \<open>0 .. 2^bits - 1\<close>, and otherwise has
  the stepped value in the operand's type.
\<close>

theorem buildIncDec_checked_correct:
  assumes "avm ev" and "ev \<sigma> base = Some (v, \<sigma>1)" "num_val (wtypeOf base) v n"
    and "0 < ub" "ub \<le> 256" "wtypeOf base = uint64Type \<longrightarrow> ub \<le> 64" "n < 2 ^ ub"
    and "run_state (buildIncDec False isInc 0 ub base) s = (e', s')"
  shows "preEffects s' = preEffects s \<and>
    (if (if isInc then n + 1 < 2 ^ ub else n \<noteq> 0)
     then \<exists>w \<sigma>2. ev \<sigma> e' = Some (w, \<sigma>2) \<and> num_val (wtypeOf base) w (if isInc then n + 1 else n - 1)
     else ev \<sigma> e' = None)"
  by (rule built_run[OF avm.checked_incDec_built[OF assms(1-5)] assms(8)]) (use assms(6,7) in simp_all)

theorem buildIncDec_checked_correct_witness:
  "aeval (env_of [(''x'', VU 255)])
     (fst (run_state (buildIncDec False True 0 8 (VarExpression uint64Type ''x'')) initialBst)) = None"
proof -
  let ?x = "VarExpression uint64Type ''x''" and ?\<sigma> = "env_of [(''x'', VU 255)]"
  obtain e' s' where r: "run_state (buildIncDec False True 0 8 ?x) initialBst = (e', s')" by force
  have "preEffects s' = preEffects initialBst \<and>
    (if (if True then 255 + 1 < (2::nat) ^ 8 else 255 \<noteq> (0::nat))
     then \<exists>w \<sigma>2. aeval ?\<sigma> e' = Some (w, \<sigma>2) \<and> num_val (wtypeOf ?x) w (if True then 255 + 1 else 255 - 1)
     else aeval ?\<sigma> e' = None)"
    by (rule buildIncDec_checked_correct[OF ref.avm_axioms _ _ _ _ _ _ r, where v = "VU 255" and ?\<sigma>1.0 = ?\<sigma>]) simp_all
  with r show ?thesis by simp
qed

text \<open>
  (C15) Unchecked increment and decrement of an unsigned integer wrap at the width of the type, in
  the operand's own representation and without queuing a statement.
\<close>

theorem buildIncDec_unchecked_correct:
  assumes "avm ev" and "0 < ub" "ub \<le> 256" and "snum ev K \<sigma> base n" "n < 2 ^ 256"
    and "wtypeOf base = uint64Type \<longrightarrow> ub \<le> 64"
    and "run_state (buildIncDec True isInc 0 ub base) s = (e', s')"
  shows "preEffects s' = preEffects s \<and> wtypeOf e' = wtypeOf base \<and>
    snum ev K \<sigma> e' (twos ub (int n + (if isInc then 1 else - 1)))"
  by (rule built_run[OF avm.unchecked_incDec_built[OF assms(1-5)] assms(7)]) (use assms(6) in simp)

theorem buildIncDec_unchecked_correct_witness:
  "snum aeval {} (env_of [(''x'', VU 0)])
     (fst (run_state (buildIncDec True False 0 16 (VarExpression uint64Type ''x'')) initialBst)) 65535"
proof -
  let ?x = "VarExpression uint64Type ''x''" and ?\<sigma> = "env_of [(''x'', VU 0)]"
  obtain e' s' where r: "run_state (buildIncDec True False 0 16 ?x) initialBst = (e', s')" by force
  have v: "snum aeval {} ?\<sigma> ?x 0" by (auto simp: snum_def sval_def)
  from buildIncDec_unchecked_correct[OF ref.avm_axioms _ _ v _ _ r] r show ?thesis
    by (simp add: twos_def)
qed

text \<open>
  (C16) Negation of a signed integer at every width up to 256 bits: in checked mode the queued
  statements trap exactly on the smallest value; otherwise they run through and the result is the
  negated value in the two's complement of the width.  The operand must not read the temporary.
\<close>

theorem buildSignedNegate_correct:
  assumes "avm ev" and "0 < bits" "bits \<le> 256"
    and "nat_of_dec pow2N = Some (2 ^ bits)" "nat_of_dec halfN = Some (2 ^ (bits - 1))"
    and "ev \<sigma> operand = Some (VB b, \<sigma>)" "length b \<le> 64" "bits = 256 \<longrightarrow> be_nat b < 2 ^ 256"
    and "tmp = ''__neg_tmp_'' @ int_to_string nodeId"
    and "\<forall>v. ev (bind_var tmp v \<sigma>) operand = Some (VB b, bind_var tmp v \<sigma>)"
    and "z = - signed_of bits (be_nat b mod 2 ^ bits)"
    and "run_state (buildSignedNegate nochk bits pow2N halfN nodeId operand) s = (e', s')"
  shows "\<exists>checks. preEffects s' = preEffects s @ checks \<and>
    (if nochk \<or> in_range bits z
     then \<exists>\<sigma>2 v. execs ev \<sigma> checks (Normal \<sigma>2) \<and> ev \<sigma>2 e' = Some (v, \<sigma>2) \<and>
       num_val (if bits \<le> 64 then uint64Type else biguintType) v (twos bits z)
     else execs ev \<sigma> checks Trap)"
  unfolding assms(11)
  by (rule built_run[OF avm.signedNegate_built[OF assms(1-7)] assms(12)]) (use assms(8-10) in simp_all)

theorem buildSignedNegate_correct_witness:
  "\<exists>\<sigma>2 v. execs aeval (env_of [(''x'', VB [5])])
     (preEffects (snd (run_state (buildSignedNegate False 256 kPow2_256 kHalfMax_256 7 (VarExpression biguintType ''x'')) initialBst)))
     (Normal \<sigma>2) \<and>
   aeval \<sigma>2 (fst (run_state (buildSignedNegate False 256 kPow2_256 kHalfMax_256 7 (VarExpression biguintType ''x'')) initialBst)) =
     Some (v, \<sigma>2) \<and> num_val biguintType v (2 ^ 256 - 5)"
proof -
  let ?x = "VarExpression biguintType ''x''" and ?\<sigma> = "env_of [(''x'', VB [5])]"
  obtain e' s' where r: "run_state (buildSignedNegate False 256 kPow2_256 kHalfMax_256 7 ?x) initialBst = (e', s')" by force
  have five: "be_nat [5] = 5" by (simp add: be_nat_def)
  have z: "- 5 = - signed_of 256 (be_nat [5] mod 2 ^ 256)" unfolding five by (simp add: signed_of_def)
  have tmp: "''__neg_tmp_'' @ int_to_string 7 \<noteq> ''x''" by simp
  from buildSignedNegate_correct[OF ref.avm_axioms _ _ _ _ _ _ _ refl _ z r, where \<sigma> = ?\<sigma>] five tmp r
  show ?thesis by (auto simp: initialBst_def in_range_def twos_def bind_var_def)
qed

text \<open>
  Subtraction of 256-bit values: checked, the queued assertion traps exactly when the result
  would be negative; unchecked, the result wraps modulo \<open>2^256\<close>.
\<close>

theorem buildWrappingSubtract_correct:
  assumes "avm ev" and "ids_free s \<sigma>"
    and "sbig ev (fresh_ids s) \<sigma> left m" "m < 2 ^ 256" "sbig ev (fresh_ids s) \<sigma> right n" "n < 2 ^ 256"
    and "run_state (buildWrappingSubtract nochk left right) s = (e', s')"
  shows "\<exists>checks. preEffects s' = preEffects s @ checks \<and> checked_value ev \<sigma> checks e' (nochk \<or> n \<le> m)
    (\<lambda>v. num_val biguintType v (twos 256 (int m - int n)))"
  by (rule built_run[OF avm.wrappingSubtract_built[OF assms(1,3-6)] assms(7)])
     (simp_all add: ok_cache_fresh_ids[OF assms(2)])

theorem buildWrappingSubtract_correct_witness:
  "execs aeval (env_of [(''l'', VB [3]), (''r'', VB [5])])
     (preEffects (snd (run_state (buildWrappingSubtract False (VarExpression biguintType ''l'') (VarExpression biguintType ''r'')) initialBst)))
     Trap"
proof -
  let ?l = "VarExpression biguintType ''l''" and ?r = "VarExpression biguintType ''r''"
  let ?\<sigma> = "env_of [(''l'', VB [3]), (''r'', VB [5])]"
  obtain e' s' where r: "run_state (buildWrappingSubtract False ?l ?r) initialBst = (e', s')" by force
  have b: "be_nat [3] = 3" "be_nat [5] = 5" by (simp_all add: be_nat_def)
  have v: "sbig aeval K ?\<sigma> ?l 3" "sbig aeval K ?\<sigma> ?r 5" for K
    using ref.sbig_temp[of ?\<sigma> "''l''" "[3]" 3] ref.sbig_temp[of ?\<sigma> "''r''" "[5]" 5] b by simp_all
  have "\<exists>checks. preEffects s' = preEffects initialBst @ checks \<and> checked_value aeval ?\<sigma> checks e' (False \<or> (5::nat) \<le> 3)
    (\<lambda>v. num_val biguintType v (twos 256 (int 3 - int 5)))"
    by (rule buildWrappingSubtract_correct[OF ref.avm_axioms _ v(1) _ v(2) _ r]) (simp_all add: ids_free_def)
  with r show ?thesis by (auto simp: checked_value_def initialBst_def)
qed

end
