(* ===== verification/Codecs.thy ===== *)
theory Codecs
  imports Prelude
begin

text \<open>
  The two byte codecs of the compiler: the strict hexadecimal decoder of \<open>HexBytes.h\<close>, which every
  address given on the command line goes through, and the base-85 encoder of \<open>json/Base85.hpp\<close> for the
  byte payloads of the serialised AWST.  The consumer of the latter is the puya back end, which
  decodes with Python's \<open>base64.b85decode\<close>; that decoder is written out here as the reference.
\<close>

section \<open>Hexadecimal input\<close>

definition nibble :: "char \<Rightarrow> int" where
  "nibble c =
     (let k = int (of_char c)
      in if 48 \<le> k \<and> k \<le> 57 then k - 48
         else if 97 \<le> k \<and> k \<le> 102 then k - 97 + 10
         else if 65 \<le> k \<and> k \<le> 70 then k - 65 + 10
         else -1)"

text \<open>The loop; on an odd rest the source would read past the end, which the length test excludes.\<close>

fun hexLoop :: "string \<Rightarrow> bytes option" where
  "hexLoop (h # l # rest) =
     (if nibble h < 0 \<or> nibble l < 0 then None
      else map_option (\<lambda>bs. word_of_int (push_bit 4 (nibble h) OR nibble l) # bs) (hexLoop rest))"
| "hexLoop _ = Some []"

definition stripHexPrefix :: "string \<Rightarrow> string" where
  "stripHexPrefix s =
     (case s of a # b # rest \<Rightarrow> if a = CHR ''0'' \<and> (b = CHR ''x'' \<or> b = CHR ''X'') then rest else s | _ \<Rightarrow> s)"

definition hexToBytes :: "string \<Rightarrow> nat \<Rightarrow> bytes option" where
  "hexToBytes input expectedBytes =
     (let h = stripHexPrefix input
      in if h = [] \<or> length h mod 2 \<noteq> 0 then None
         else if expectedBytes \<noteq> 0 \<and> length h \<noteq> expectedBytes * 2 then None
         else hexLoop h)"

text \<open>Printing, in either case, as the reference.\<close>

definition hexDigit :: "bool \<Rightarrow> nat \<Rightarrow> char" where
  "hexDigit upper n = char_of (if n < 10 then 48 + n else if upper then 55 + n else 87 + n)"

definition hexByte :: "bool \<Rightarrow> byte \<Rightarrow> string" where
  "hexByte upper b = [hexDigit upper (unat b div 16), hexDigit upper (unat b mod 16)]"

definition hexPrint :: "bool \<Rightarrow> bytes \<Rightarrow> string" where
  "hexPrint upper bs = concat (map (hexByte upper) bs)"

definition isHexChar :: "char \<Rightarrow> bool" where
  "isHexChar c \<longleftrightarrow> c \<in> set ''0123456789abcdefABCDEF''"

lemma nibble_hexDigit: "n < 16 \<Longrightarrow> nibble (hexDigit upper n) = int n"
  by (simp add: nibble_def hexDigit_def Let_def)

lemma hex_join: "word_of_int (push_bit 4 (int (unat b div 16)) OR int (unat b mod 16)) = (b :: byte)"
proof -
  have "push_bit 4 (drop_bit 4 (unat b)) OR take_bit 4 (unat b) = unat b"
    by (rule bit_eqI) (auto simp: bit_simps not_le)
  then have "push_bit 4 (unat b div 16) OR unat b mod 16 = unat b" by (simp add: drop_bit_eq_div take_bit_eq_mod)
  then have "int (push_bit 4 (unat b div 16) OR unat b mod 16) = int (unat b)" by (rule arg_cong)
  then show ?thesis by (simp only: of_nat_or_eq push_bit_of_nat of_nat_unat word_of_int_uint)
qed

lemma hexLoop_print: "hexLoop (hexPrint upper bs) = Some bs"
proof (induction bs)
  case (Cons b bs)
  have "unat b < 256" using unsigned_less[of b] by simp
  then have d: "unat b div 16 < 16" "unat b mod 16 < 16" by (auto intro: less_mult_imp_div_less)
  show ?case using Cons hex_join[of b]
    by (simp add: hexPrint_def hexByte_def nibble_hexDigit[OF d(1)] nibble_hexDigit[OF d(2)])
qed (simp add: hexPrint_def)

lemma nibble_hex:
  assumes "0 \<le> nibble c"
  shows "isHexChar c"
proof -
  from assms have "(of_char c :: nat) \<in> {48..57} \<union> {97..102} \<union> {65..70}"
    by (auto simp: nibble_def Let_def split: if_splits)
  moreover have "isHexChar (char_of k)" if "k \<in> {48..57} \<union> {97..102} \<union> {65..70}" for k :: nat
  proof -
    have "{48..57} \<union> {97..102} \<union> {65..70} = set [48,49,50,51,52,53,54,55,56,57,97,98,99,100,101,102,65,66,67,68,69,70::nat]"
      by code_simp
    moreover have "list_all (\<lambda>k. isHexChar (char_of k)) [48,49,50,51,52,53,54,55,56,57,97,98,99,100,101,102,65,66,67,68,69,70::nat]"
      by code_simp
    ultimately show ?thesis using that unfolding list_all_iff by blast
  qed
  ultimately have "isHexChar (char_of (of_char c :: nat))" by blast
  then show ?thesis by simp
qed

text \<open>Digits up to case.\<close>

definition lowerHex :: "char \<Rightarrow> char" where
  "lowerHex c = (let k = of_char c :: nat in if 65 \<le> k \<and> k \<le> 70 then char_of (k + 32) else c)"

lemma lowerHex_digit: "n < 16 \<Longrightarrow> lowerHex c = hexDigit False n \<longleftrightarrow> nibble c = int n"
proof -
  assume n: "n < 16"
  define k where "k = (of_char c :: nat)"
  have k: "k < 256" "c = char_of k" unfolding k_def by simp_all
  have ch: "(char_of i = (char_of j :: char)) \<longleftrightarrow> i = j" if "i < 256" "j < 256" for i j :: nat
    using that by (simp add: char_of_eq_iff take_bit_nat_eq_self)
  show "lowerHex c = hexDigit False n \<longleftrightarrow> nibble c = int n"
    unfolding lowerHex_def hexDigit_def nibble_def Let_def k_def[symmetric] using k n
    by (auto simp: ch)
qed

lemma nibble_range: "nibble c < 16"
  by (simp add: nibble_def Let_def)

lemma hexDigit_cases: "0 \<le> nibble c \<longleftrightarrow> (\<exists>n<16. lowerHex c = hexDigit False n)"
proof
  assume "0 \<le> nibble c"
  with nibble_range[of c] show "\<exists>n<16. lowerHex c = hexDigit False n"
    by (intro exI[of _ "nat (nibble c)"]) (simp add: lowerHex_digit nat_less_iff)
qed (auto simp: lowerHex_digit)

lemma byte_nibbles:
  assumes "0 \<le> h" "h < 16" "0 \<le> l" "l < 16"
  shows "unat (word_of_int (push_bit 4 h OR l) :: byte) div 16 = nat h" "unat (word_of_int (push_bit 4 h OR l) :: byte) mod 16 = nat l"
proof -
  have "push_bit 4 h OR l = push_bit 4 h + l"
  proof (rule disjunctive_add[symmetric])
    fix i show "\<not> bit (push_bit 4 h) i \<or> \<not> bit l i"
      using assms(3,4) take_bit_int_eq_self[of l 4] bit_take_bit_iff[of 4 l i] by (auto simp: bit_push_bit_iff)
  qed
  then have e: "push_bit 4 h OR l = h * 16 + l" by (simp add: push_bit_eq_mult)
  have "h * 16 + l < 256" "0 \<le> h * 16 + l" using assms by simp_all
  then have "unat (word_of_int (h * 16 + l) :: byte) = nat (h * 16 + l)"
    by (simp add: unsigned_of_int take_bit_int_eq_self del: of_int_add of_int_mult)
  moreover have "nat (h * 16 + l) = nat h * 16 + nat l" using assms by (simp add: nat_add_distrib nat_mult_distrib)
  moreover have "nat l < 16" using assms by simp
  ultimately show "unat (word_of_int (push_bit 4 h OR l) :: byte) div 16 = nat h" "unat (word_of_int (push_bit 4 h OR l) :: byte) mod 16 = nat l"
    unfolding e by simp_all
qed

lemma hexLoop_iff: "even (length t) \<and> hexLoop t = Some bs \<longleftrightarrow> map lowerHex t = hexPrint False bs"
proof (induction t arbitrary: bs rule: hexLoop.induct)
  case (1 h l rest)
  show ?case
  proof
    assume a: "even (length (h # l # rest)) \<and> hexLoop (h # l # rest) = Some bs"
    then obtain cs where n: "0 \<le> nibble h" "0 \<le> nibble l" "hexLoop rest = Some cs"
      "bs = word_of_int (push_bit 4 (nibble h) OR nibble l) # cs" by (auto split: if_splits)
    with 1[of cs] a have "map lowerHex rest = hexPrint False cs" by simp
    with n byte_nibbles[OF n(1) nibble_range n(2) nibble_range]
    show "map lowerHex (h # l # rest) = hexPrint False bs"
      by (simp add: hexPrint_def hexByte_def lowerHex_digit nat_less_iff nibble_range)
  next
    assume a: "map lowerHex (h # l # rest) = hexPrint False bs"
    then obtain b cs where bs: "bs = b # cs" by (cases bs) (simp_all add: hexPrint_def)
    have d: "unat b div 16 < 16" "unat b mod 16 < 16"
      using unsigned_less[of b] by (auto intro: less_mult_imp_div_less)
    from a bs have "lowerHex h = hexDigit False (unat b div 16)" "lowerHex l = hexDigit False (unat b mod 16)"
      "map lowerHex rest = hexPrint False cs" by (simp_all add: hexPrint_def hexByte_def)
    with 1[of cs] d hex_join[of b] bs show "even (length (h # l # rest)) \<and> hexLoop (h # l # rest) = Some bs"
      by (simp add: lowerHex_digit)
  qed
next
  case "2_1"
  show ?case by (cases bs) (simp_all add: hexPrint_def hexByte_def)
next
  case "2_2"
  show ?case by (cases bs) (simp_all add: hexPrint_def hexByte_def)
qed

lemma length_hexPrint: "length (hexPrint upper bs) = 2 * length bs"
  by (induction bs) (simp_all add: hexPrint_def hexByte_def)

lemma hexLoop_whole:
  assumes "map lowerHex d = hexPrint False bs"
  shows "hexLoop d = Some bs" "length d = 2 * length bs" "d = [] \<longleftrightarrow> bs = []"
proof -
  from assms show "hexLoop d = Some bs" unfolding hexLoop_iff[symmetric] by simp
  from arg_cong[OF assms, of length] show "length d = 2 * length bs" by (simp add: length_hexPrint)
  then show "d = [] \<longleftrightarrow> bs = []" by auto
qed

text \<open>A marker is no part of the digits: \<open>x\<close> is not one.\<close>

lemma marker_no_digit: "map lowerHex (a # c # d) = hexPrint False bs \<Longrightarrow> c \<noteq> CHR ''x'' \<and> c \<noteq> CHR ''X''"
proof -
  assume "map lowerHex (a # c # d) = hexPrint False bs"
  then have "hexLoop (a # c # d) = Some bs" by (rule hexLoop_whole)
  then have "0 \<le> nibble c" by (auto split: if_splits)
  then show ?thesis by (auto simp: nibble_def Let_def)
qed

text \<open>
  (C24) The hexadecimal decoder accepts exactly the texts that consist of nothing, \<open>0x\<close> or \<open>0X\<close> and the
  printed form, in lower, upper or mixed case, of a non-empty byte string, of the expected length when
  one is given, and returns the bytes that were printed.  Everything else is rejected: there is no
  partial parse and no silently dropped character.
\<close>

theorem hexToBytes_iff:
  "hexToBytes input expected = Some bs \<longleftrightarrow>
     (\<exists>marker digits. input = marker @ digits \<and> marker \<in> {'''', ''0x'', ''0X''} \<and>
        map lowerHex digits = hexPrint False bs) \<and> bs \<noteq> [] \<and> (expected = 0 \<or> expected = length bs)"
proof
  assume "hexToBytes input expected = Some bs"
  then have h: "even (length (stripHexPrefix input)) \<and> hexLoop (stripHexPrefix input) = Some bs" "stripHexPrefix input \<noteq> []"
    "expected = 0 \<or> length (stripHexPrefix input) = expected * 2"
    by (auto simp: hexToBytes_def Let_def even_iff_mod_2_eq_zero split: if_splits)
  from h(1) have d: "map lowerHex (stripHexPrefix input) = hexPrint False bs" by (simp only: hexLoop_iff)
  have "\<exists>marker. input = marker @ stripHexPrefix input \<and> marker \<in> {'''', ''0x'', ''0X''}"
    by (auto simp: stripHexPrefix_def split: list.splits)
  with d h(2,3) hexLoop_whole[OF d]
  show "(\<exists>marker digits. input = marker @ digits \<and> marker \<in> {'''', ''0x'', ''0X''} \<and>
      map lowerHex digits = hexPrint False bs) \<and> bs \<noteq> [] \<and> (expected = 0 \<or> expected = length bs)" by auto
next
  assume "(\<exists>marker digits. input = marker @ digits \<and> marker \<in> {'''', ''0x'', ''0X''} \<and>
      map lowerHex digits = hexPrint False bs) \<and> bs \<noteq> [] \<and> (expected = 0 \<or> expected = length bs)"
  then obtain marker digits where i: "input = marker @ digits" "marker \<in> {'''', ''0x'', ''0X''}"
    and d: "map lowerHex digits = hexPrint False bs" and e: "bs \<noteq> []" "expected = 0 \<or> expected = length bs" by blast
  have "stripHexPrefix input = digits"
    using i d marker_no_digit[of _ "CHR ''x''" _ bs] marker_no_digit[of _ "CHR ''X''" _ bs]
    by (auto simp: stripHexPrefix_def split: list.splits)
  with hexLoop_whole[OF d] e show "hexToBytes input expected = Some bs" by (auto simp: hexToBytes_def Let_def)
qed

section \<open>Base 85\<close>

definition ALPHABET :: string where
  "ALPHABET = ''0123456789ABCDEFGHIJKLMNOPQRSTUVWXYZabcdefghijklmnopqrstuvwxyz!#$%&()*+-;<=>?@^_`{|}~''"

text \<open>\<open>charIndex\<close>; \<open>None\<close> where the code throws.\<close>

definition charIndex :: "char \<Rightarrow> nat option" where
  "charIndex c = (if c \<in> set ALPHABET then Some (length (takeWhile (\<lambda>x. x \<noteq> c) ALPHABET)) else None)"

text \<open>The loop that fills \<open>chunk\<close> from the right.\<close>

primrec chunkLoop :: "nat \<Rightarrow> 32 word \<Rightarrow> string \<Rightarrow> string" where
  "chunkLoop 0 acc tail = tail"
| "chunkLoop (Suc j) acc tail = chunkLoop j (acc div 85) (ALPHABET ! unat (acc mod 85) # tail)"

definition packRest :: "bytes \<Rightarrow> 32 word" where
  "packRest bs = (push_bit 8 ^^ (4 - length bs)) (foldl (\<lambda>acc b. push_bit 8 acc OR ucast b) 0 bs)"

fun base85Encode :: "bytes \<Rightarrow> string" where
  "base85Encode (a # b # c # d # rest) =
     chunkLoop 5 (push_bit 24 (ucast a) OR push_bit 16 (ucast b) OR push_bit 8 (ucast c) OR ucast d) [] @ base85Encode rest"
| "base85Encode [] = []"
| "base85Encode bs = take (length bs + 1) (chunkLoop 5 (packRest bs) [])"

text \<open>
  The alphabet of RFC 1924, written by its ranges: the decoder of the consumer does not share the
  table of the encoder.
\<close>

definition rfc1924 :: string where
  "rfc1924 = map char_of ([48..<58] @ [65..<91] @ [97..<123] :: nat list) @ ''!#$%&()*+-;<=>?@^_`{|}~''"

definition rfcIndex :: "char \<Rightarrow> nat option" where
  "rfcIndex c = find (\<lambda>i. rfc1924 ! i = c) [0..<85]"

text \<open>
  The decoder of the consumer: the text is filled up to a multiple of five characters with the last
  letter of the alphabet, each group of five is a number below \<open>2^32\<close> in base 85, and as many bytes
  are dropped at the end as characters were added.
\<close>

definition decodeGroup :: "string \<Rightarrow> bytes option" where
  "decodeGroup g =
     (case those (map rfcIndex g) of
        None \<Rightarrow> None
      | Some ds \<Rightarrow> (let n = foldl (\<lambda>a d. a * 85 + d) 0 ds in if n < 2 ^ 32 then Some (be_fixed 4 n) else None))"

fun decodeGroups :: "string \<Rightarrow> bytes option" where
  "decodeGroups (a # b # c # d # e # rest) =
     (case (decodeGroup [a, b, c, d, e], decodeGroups rest) of (Some x, Some y) \<Rightarrow> Some (x @ y) | _ \<Rightarrow> None)"
| "decodeGroups _ = Some []"

definition b85decode :: "string \<Rightarrow> bytes option" where
  "b85decode s =
     (let padding = (5 - length s mod 5) mod 5
      in map_option (\<lambda>bs. take (length bs - padding) bs) (decodeGroups (s @ replicate padding (last rfc1924))))"

lemma alphabet_rfc1924: "rfc1924 = ALPHABET"
  by code_simp

primrec b85digits :: "nat \<Rightarrow> nat \<Rightarrow> nat list" where
  "b85digits 0 n = []"
| "b85digits (Suc j) n = b85digits j (n div 85) @ [n mod 85]"

lemma length_b85digits [simp]: "length (b85digits j n) = j"
  by (induction j arbitrary: n) simp_all

lemma b85digits_less: "d \<in> set (b85digits j n) \<Longrightarrow> d < 85"
  by (induction j arbitrary: n) auto

lemma b85digits_value: "foldl (\<lambda>a d. a * 85 + d) 0 (b85digits j n) = n mod 85 ^ j"
proof (induction j arbitrary: n)
  case (Suc j)
  have "n mod (85 * 85 ^ j) = 85 * (n div 85 mod 85 ^ j) + n mod 85" by (rule mod_mult2_eq)
  with Suc[of "n div 85"] show ?case by (simp add: mult.commute)
qed simp

lemma b85digits_take: "i \<le> j \<Longrightarrow> take i (b85digits j n) = b85digits i (n div 85 ^ (j - i))"
proof (induction j arbitrary: n)
  case (Suc j)
  show ?case
  proof (cases "i = Suc j")
    case False
    with Suc.prems have "i \<le> j" by simp
    with Suc.IH[of "n div 85"] show ?thesis by (simp add: Suc_diff_le div_mult2_eq)
  qed simp
qed simp

lemma chunkLoop_digits: "chunkLoop j acc tail = map (\<lambda>d. ALPHABET ! d) (b85digits j (unat acc)) @ tail"
  by (induction j arbitrary: acc tail) (simp_all add: unat_div unat_mod)

lemma alphabet: "length ALPHABET = 85" "distinct ALPHABET"
  by code_simp+

lemma takeWhile_nth: "distinct xs \<Longrightarrow> d < length xs \<Longrightarrow> length (takeWhile (\<lambda>x. x \<noteq> xs ! d) xs) = d"
proof (induction xs arbitrary: d)
  case (Cons x xs)
  show ?case
  proof (cases d)
    case (Suc e)
    with Cons.prems have "x \<noteq> xs ! e" "distinct xs" "e < length xs" by auto
    with Cons.IH[of e] Suc show ?thesis by simp
  qed simp
qed simp

lemma charIndex_nth: "d < 85 \<Longrightarrow> charIndex (ALPHABET ! d) = Some d"
  by (simp add: charIndex_def takeWhile_nth alphabet)

lemma rfcIndex: "rfcIndex c = charIndex c"
proof (cases "c \<in> set ALPHABET")
  case True
  then obtain d where d: "d < 85" "c = ALPHABET ! d" by (metis in_set_conv_nth alphabet(1))
  then have "find (\<lambda>i. ALPHABET ! i = c) [0..<85] = Some d"
    unfolding find_Some_iff using nth_eq_iff_index_eq[OF alphabet(2)] alphabet(1)
    by (intro exI[of _ d]) auto
  with d charIndex_nth show ?thesis by (simp add: rfcIndex_def alphabet_rfc1924)
next
  case False
  then have "\<not> (\<exists>i. i \<in> set [0..<85] \<and> ALPHABET ! i = c)" using alphabet(1) nth_mem[of _ ALPHABET] by auto
  with False show ?thesis unfolding rfcIndex_def alphabet_rfc1924 charIndex_def by (simp add: find_None_iff)
qed

lemma decodeGroup_alt: "decodeGroup g =
     (case those (map charIndex g) of
        None \<Rightarrow> None
      | Some ds \<Rightarrow> (let n = foldl (\<lambda>a d. a * 85 + d) 0 ds in if n < 2 ^ 32 then Some (be_fixed 4 n) else None))"
  by (simp add: decodeGroup_def rfcIndex cong: map_cong)

lemma b85decode_alt: "b85decode s =
     (let padding = (5 - length s mod 5) mod 5
      in map_option (\<lambda>bs. take (length bs - padding) bs) (decodeGroups (s @ replicate padding (last ALPHABET))))"
  by (simp add: b85decode_def alphabet_rfc1924)

lemma those_charIndex: "(\<And>d. d \<in> set ds \<Longrightarrow> d < 85) \<Longrightarrow> those (map charIndex (map (\<lambda>d. ALPHABET ! d) ds)) = Some ds"
  by (induction ds) (simp_all add: charIndex_nth)

lemma foldl_digits_append: "foldl (\<lambda>a d. a * 85 + d) (a::nat) (xs @ ys) = foldl (\<lambda>a d. a * 85 + d) a xs * 85 ^ length ys + foldl (\<lambda>a d. a * 85 + d) 0 ys"
proof (induction ys rule: rev_induct)
  case (snoc y ys)
  then show ?case by (simp add: algebra_simps flip: append_assoc)
qed simp

text \<open>A group of digits, possibly cut and filled up with the largest digit.\<close>

lemma decode_digits:
  assumes "i \<le> 5" "n < 2 ^ 32"
  shows "decodeGroup (map (\<lambda>d. ALPHABET ! d) (b85digits i (n div 85 ^ (5 - i))) @ replicate (5 - i) (last ALPHABET)) =
    (let x = n div 85 ^ (5 - i) * 85 ^ (5 - i) + (85 ^ (5 - i) - 1) in if x < 2 ^ 32 then Some (be_fixed 4 x) else None)"
proof -
  let ?k = "5 - i" and ?q = "n div 85 ^ (5 - i)"
  have l: "last ALPHABET = ALPHABET ! 84" by code_simp
  have r: "foldl (\<lambda>a d. a * 85 + d) 0 (replicate k 84) = 85 ^ k - (1::nat)" for k
  proof (induction k)
    case (Suc k)
    have "(1::nat) \<le> 85 ^ k" by simp
    with Suc foldl_digits_append[of 0 "[84]" "replicate k 84"] show ?case by simp
  qed simp
  have e: "map (\<lambda>d. ALPHABET ! d) (b85digits i ?q) @ replicate ?k (last ALPHABET) =
      map (\<lambda>d. ALPHABET ! d) (b85digits i ?q @ replicate ?k 84)" by (simp add: l)
  have "n < 85 ^ 5" using assms(2) by simp
  also have "(85::nat) ^ 5 = 85 ^ i * 85 ^ ?k" using assms(1) by (simp flip: power_add)
  finally have "?q < 85 ^ i" by (rule less_mult_imp_div_less)
  then have v: "foldl (\<lambda>a d. a * 85 + d) 0 (b85digits i ?q @ replicate ?k 84) = ?q * 85 ^ ?k + (85 ^ ?k - 1)"
    unfolding foldl_digits_append[of _ _ "replicate ?k 84"] r b85digits_value by simp
  have "those (map charIndex (map (\<lambda>d. ALPHABET ! d) (b85digits i ?q @ replicate ?k 84))) = Some (b85digits i ?q @ replicate ?k 84)"
    by (rule those_charIndex) (auto dest: b85digits_less)
  then show ?thesis unfolding decodeGroup_alt e by (simp only: option.case v Let_def)
qed

lemma push_or_byte:
  assumes "unat acc < 2 ^ 24"
  shows "unat (push_bit 8 acc OR ucast (b :: byte) :: 32 word) = unat acc * 256 + unat b"
proof -
  have "push_bit 8 acc OR ucast b = push_bit 8 acc + ucast b"
    by (rule disjunctive_add[symmetric]) (auto simp: bit_simps dest: bit_imp_le_length)
  moreover have "push_bit 8 acc + ucast b = (word_of_nat (unat acc * 256 + unat b) :: 32 word)"
    by (simp add: push_bit_eq_mult)
  moreover have "unat acc * 256 + unat b < 2 ^ 32"
  proof -
    have "unat acc \<le> 16777215" using assms by simp
    moreover have "unat b \<le> 255" using unat_byte_less[of b] by linarith
    ultimately have "unat acc * 256 + unat b \<le> 16777215 * 256 + 255" by (intro add_mono mult_right_mono) simp_all
    also have "(16777215 * 256 + 255 :: nat) < 2 ^ 32" by simp
    finally show ?thesis .
  qed
  ultimately show ?thesis by (simp add: unsigned_of_nat take_bit_nat_eq_self del: of_nat_add of_nat_mult)
qed

lemma pack_value:
  assumes "length bs \<le> 4"
  shows "unat (foldl (\<lambda>acc b. push_bit 8 acc OR ucast b) 0 bs :: 32 word) = be_nat bs"
  using assms
proof (induction bs rule: rev_induct)
  case (snoc b bs)
  then have "be_nat bs < 256 ^ 3" using be_nat_bound[of bs] power_increasing[of "length bs" 3 "256::nat"] by simp
  with snoc show ?case by (simp add: push_or_byte)
qed simp

lemma packRest_value:
  assumes "length bs \<le> 4"
  shows "unat (packRest bs) = be_nat bs * 256 ^ (4 - length bs)"
proof -
  have "unat ((push_bit 8 ^^ k) acc :: 32 word) = unat acc * 256 ^ k" if "unat acc * 256 ^ k < 2 ^ 32" for k and acc :: "32 word"
    using that
  proof (induction k)
    case (Suc k)
    then have lt: "unat acc * 256 ^ k < 2 ^ 24" by simp
    with Suc.IH have ih: "unat ((push_bit 8 ^^ k) acc) = unat acc * 256 ^ k" by simp
    from push_or_byte[of "(push_bit 8 ^^ k) acc" 0] lt show ?case by (simp add: ih)
  qed simp
  moreover have "be_nat bs * 256 ^ (4 - length bs) < 2 ^ 32"
    using be_nat_bound[of "bs @ replicate (4 - length bs) 0"] assms by (simp add: be_nat_append)
  ultimately show ?thesis unfolding packRest_def using pack_value[OF assms] by simp
qed

lemma group_is_pack:
  "push_bit 24 (ucast a) OR push_bit 16 (ucast b) OR push_bit 8 (ucast c) OR ucast (d :: byte) = packRest [a, b, c, d]"
  by (simp add: packRest_def push_bit_or or.assoc)

text \<open>The group that holds \<open>r\<close> bytes, cut after \<open>r + 1\<close> characters.\<close>

lemma group_roundtrip:
  assumes "length bs = r" "r \<le> 4"
  shows "\<exists>tl. decodeGroup (take (r + 1) (chunkLoop 5 (packRest bs) []) @ replicate (4 - r) (last ALPHABET)) = Some (bs @ tl) \<and> length tl = 4 - r"
proof -
  let ?n = "be_nat bs * 256 ^ (4 - r)" and ?k = "4 - r"
  let ?x = "?n div 85 ^ ?k * 85 ^ ?k + (85 ^ ?k - 1)"
  have k: "5 - (r + 1) = ?k" by simp
  have p: "unat (packRest bs) = ?n" using packRest_value[of bs] assms by simp
  have n: "?n < 2 ^ 32" using unsigned_less[of "packRest bs", where 'a = nat] unfolding p by simp
  have ge: "?n \<le> ?x"
  proof -
    have "?n mod 85 ^ ?k < 85 ^ ?k" by (rule mod_less_divisor) simp
    with div_mult_mod_eq[of ?n "85 ^ ?k"] show ?thesis by linarith
  qed
  have "?x \<le> ?n + (85 ^ ?k - 1)" using div_mult_mod_eq[of ?n "85 ^ ?k"] by linarith
  also have "\<dots> < ?n + 256 ^ ?k"
  proof -
    have "(85::nat) ^ ?k \<le> 256 ^ ?k" by (rule power_mono) simp_all
    moreover have "(0::nat) < 85 ^ ?k" by simp
    ultimately show ?thesis by linarith
  qed
  finally have lt: "?x < (be_nat bs + 1) * 256 ^ ?k" by (simp add: algebra_simps)
  have "be_nat bs + 1 \<le> 256 ^ r" using be_nat_bound[of bs] assms by simp
  then have "(be_nat bs + 1) * 256 ^ ?k \<le> 256 ^ r * 256 ^ ?k" by (rule mult_right_mono) simp
  also have "(256::nat) ^ r * 256 ^ ?k = 2 ^ 32" using assms by (simp flip: power_add)
  finally have x32: "?x < 2 ^ 32" using lt by linarith
  have "?x div 256 ^ ?k = be_nat bs" using ge lt by (intro div_nat_eqI) (simp_all add: mult.commute)
  have dec: "decodeGroup (take (r + 1) (chunkLoop 5 (packRest bs) []) @ replicate ?k (last ALPHABET)) = Some (be_fixed 4 ?x)"
    using decode_digits[of "r + 1" ?n] n x32 assms(2)
    by (simp only: chunkLoop_digits append_Nil2 take_map b85digits_take p k Let_def) (simp add: k)
  define y where "y = be_fixed 4 ?x"
  have y: "length y = 4" "be_nat y = ?x" unfolding y_def using x32 by (simp_all add: be_nat_be_fixed del: be_fixed.simps)
  have "be_nat y = be_nat (take r y) * 256 ^ ?k + be_nat (drop r y)"
    using be_nat_append[of "take r y" "drop r y"] y(1) by simp
  moreover have "be_nat (drop r y) < 256 ^ ?k" using be_nat_bound[of "drop r y"] y(1) by simp
  ultimately have "be_nat y div 256 ^ ?k = be_nat (take r y)" by simp
  then have v: "be_nat (take r y) = be_nat bs" using \<open>?x div 256 ^ ?k = be_nat bs\<close> y(2) by (simp only:)
  have "take r y = be_fixed r (be_nat (take r y))" by (rule be_fixed_be_nat[symmetric]) (use y(1) assms(2) in simp)
  also have "\<dots> = bs" unfolding v by (rule be_fixed_be_nat[OF assms(1)])
  finally have "take r y = bs" .
  then have "y = bs @ drop r y" by (metis append_take_drop_id)
  then show ?thesis using dec y(1) unfolding y_def[symmetric] by (intro exI[of _ "drop r y"]) simp
qed

lemma decodeGroups_append:
  "length g = 5 \<Longrightarrow> decodeGroup g = Some x \<Longrightarrow> decodeGroups t = Some y \<Longrightarrow> decodeGroups (g @ t) = Some (x @ y)"
  by (auto simp: length_Suc_conv numeral_eq_Suc)

lemma length_chunk [simp]: "length (chunkLoop 5 acc []) = 5"
  by (simp add: chunkLoop_digits)

lemma cut_group:
  assumes "length bs = r" "0 < r" "r < 4" "t = take (r + 1) (chunkLoop 5 (packRest bs) [])"
  shows "\<exists>tl. decodeGroups (t @ replicate ((5 - length t mod 5) mod 5) (last ALPHABET)) = Some (bs @ tl) \<and>
    length tl = (5 - length t mod 5) mod 5"
proof -
  have k: "length t = r + 1" "(5 - length t mod 5) mod 5 = 4 - r" using assms by (simp_all add: min_def)
  from group_roundtrip[of bs r] assms obtain tl where
    tl: "decodeGroup (t @ replicate (4 - r) (last ALPHABET)) = Some (bs @ tl)" "length tl = 4 - r" by auto
  have "length (t @ replicate (4 - r) (last ALPHABET)) = 5" using k(1) assms(3) by simp
  from decodeGroups_append[OF this tl(1), of "[]" "[]"] tl(2) show ?thesis unfolding k(2) by simp
qed

text \<open>The whole text: full groups, then at most one cut group.\<close>

lemma groups_roundtrip:
  "\<exists>tl. decodeGroups (base85Encode bs @ replicate ((5 - length (base85Encode bs) mod 5) mod 5) (last ALPHABET)) = Some (bs @ tl) \<and>
     length tl = (5 - length (base85Encode bs) mod 5) mod 5"
proof (induction bs rule: base85Encode.induct)
  case (1 a b c d rest)
  from group_roundtrip[of "[a, b, c, d]" 4] have g: "decodeGroup (chunkLoop 5 (packRest [a, b, c, d]) []) = Some [a, b, c, d]"
    by simp
  from 1 obtain tl where tl: "decodeGroups (base85Encode rest @ replicate ((5 - length (base85Encode rest) mod 5) mod 5) (last ALPHABET)) = Some (rest @ tl)"
    "length tl = (5 - length (base85Encode rest) mod 5) mod 5" by blast
  from decodeGroups_append[OF _ g tl(1)] tl(2) show ?case by (simp add: group_is_pack)
next
  case 2
  show ?case by simp
next
  case "3_1"
  show ?case unfolding base85Encode.simps by (rule cut_group[OF refl _ _ refl]) simp_all
next
  case "3_2"
  show ?case unfolding base85Encode.simps by (rule cut_group[OF refl _ _ refl]) simp_all
next
  case "3_3"
  show ?case unfolding base85Encode.simps by (rule cut_group[OF refl _ _ refl]) simp_all
qed

lemma b85decode_base85Encode: "b85decode (base85Encode bs) = Some bs"
proof -
  from groups_roundtrip[of bs] obtain tl where
    "decodeGroups (base85Encode bs @ replicate ((5 - length (base85Encode bs) mod 5) mod 5) (last ALPHABET)) = Some (bs @ tl)"
    "length tl = (5 - length (base85Encode bs) mod 5) mod 5" by blast
  then show ?thesis by (simp add: b85decode_alt Let_def)
qed

lemma base85Encode_inject [simp]: "base85Encode a = base85Encode b \<longleftrightarrow> a = b"
  by (metis b85decode_base85Encode option.inject)

text \<open>
  (C25) Base-85 round trip: decoding an encoded payload returns it, for every length, including the
  payloads whose last group has one, two or three bytes.
\<close>

theorem base85_roundtrip: "b85decode (base85Encode bs) = Some bs"
  by (rule b85decode_base85Encode)

end
