(* ===== verification/NumberText.thy ===== *)
theory NumberText
  imports Codecs
begin

text \<open>
  Numbers written as text.  The standard library's \<open>std::stoll\<close> and \<open>std::stoull\<close> are written out: they
  skip white space, take a sign and read the longest run of digits.  Beside them stands what a numeral
  is, stated by its digits, as the reference for the conversions of the compiler.
\<close>

section \<open>Reading a number\<close>

definition isSpace :: "char \<Rightarrow> bool" where
  "isSpace c \<longleftrightarrow> (let k = (of_char c :: nat) in k = 32 \<or> (9 \<le> k \<and> k \<le> 13))"

definition isDigitIn :: "int \<Rightarrow> char \<Rightarrow> bool" where
  "isDigitIn base c \<longleftrightarrow> 0 \<le> nibble c \<and> nibble c < base"

definition digitsValue :: "int \<Rightarrow> string \<Rightarrow> int" where
  "digitsValue base ds = foldl (\<lambda>a c. a * base + nibble c) 0 ds"

definition takeSign :: "string \<Rightarrow> bool \<times> string" where
  "takeSign s =
     (case s of [] \<Rightarrow> (False, s)
      | c # rest \<Rightarrow> if c = CHR ''-'' then (True, rest) else if c = CHR ''+'' then (False, rest) else (False, s))"

definition takeRadix :: "int \<Rightarrow> string \<Rightarrow> string" where
  "takeRadix base s =
     (case s of a # b # c # rest \<Rightarrow>
        if base = 16 \<and> a = CHR ''0'' \<and> (b = CHR ''x'' \<or> b = CHR ''X'') \<and> isDigitIn 16 c then c # rest else s
      | _ \<Rightarrow> s)"

text \<open>
  \<open>std::stoll\<close>: white space, a sign and, in base 16, a radix prefix are skipped and the longest run
  of digits is read; what follows is ignored.  No digit and a value outside 64 bits are the two
  exceptions, both \<open>None\<close>.
\<close>

definition stoll :: "string \<Rightarrow> int \<Rightarrow> int option" where
  "stoll s base =
     (let (neg, u) = takeSign (dropWhile isSpace s);
          ds = takeWhile (isDigitIn base) (takeRadix base u);
          v = (if neg then - digitsValue base ds else digitsValue base ds)
      in if ds = [] then None
         else if v < - (2 ^ 63) \<or> 2 ^ 63 \<le> v then None
         else Some v)"

text \<open>
  \<open>std::stoull\<close> in base 10: the same reading; a magnitude of 64 bits or more throws, and a minus sign
  negates modulo \<open>2 ^ 64\<close>.
\<close>

definition stoull :: "string \<Rightarrow> nat option" where
  "stoull s =
     (let (neg, u) = takeSign (dropWhile isSpace s);
          ds = takeWhile (isDigitIn 10) u;
          v = nat (digitsValue 10 ds)
      in if ds = [] then None
         else if 2 ^ 64 \<le> v then None
         else Some (if neg then (2 ^ 64 - v) mod 2 ^ 64 else v))"

section \<open>Reading a plain numeral\<close>

lemma isDigitIn_10: "isDigitIn 10 c \<longleftrightarrow> is_digit c"
  by (auto simp: isDigitIn_def is_digit_def nibble_def Let_def)

lemma nibble_digit: "is_digit c \<Longrightarrow> nibble c = int (of_char c) - 48"
  by (simp add: is_digit_def nibble_def Let_def)

lemma digitsValue_snoc [simp]: "digitsValue b (ds @ [c]) = digitsValue b ds * b + nibble c"
  by (simp add: digitsValue_def)

lemma digitsValue_Nil [simp]: "digitsValue b [] = 0"
  by (simp add: digitsValue_def)

lemma dec_value_snoc [simp]: "dec_value (ds @ [c]) = dec_value ds * 10 + (of_char c - 48)"
  by (simp add: dec_value_def)

lemma digitsValue_10: "list_all is_digit ds \<Longrightarrow> digitsValue 10 ds = int (dec_value ds)"
proof (induction ds rule: rev_induct)
  case Nil
  show ?case by (simp add: dec_value_def)
next
  case (snoc c ds)
  then have "is_digit c" "digitsValue 10 ds = int (dec_value ds)" by auto
  then show ?case by (simp add: nibble_digit is_digit_def of_nat_diff)
qed

text \<open>A digit is neither white space, nor a sign, nor a radix mark.\<close>

lemma digit_plain:
  assumes "isDigitIn b c"
  shows "\<not> isSpace c" and "c \<noteq> CHR ''-''" and "c \<noteq> CHR ''+''" and "c \<noteq> CHR ''x''" and "c \<noteq> CHR ''X''"
  using assms by (auto simp: isDigitIn_def nibble_def isSpace_def Let_def split: if_splits)

lemma takeRadix_digits: "list_all (isDigitIn b) ds \<Longrightarrow> takeRadix b ds = ds"
  using digit_plain(4)[of b "CHR ''x''"] digit_plain(5)[of b "CHR ''X''"]
  by (auto simp: takeRadix_def split: list.splits)

lemma takeWhile_all: "list_all P xs \<Longrightarrow> takeWhile P xs = xs"
  by (induction xs) auto

lemma stoll_digits:
  assumes "list_all (isDigitIn b) ds" "ds \<noteq> []" "0 \<le> digitsValue b ds"
  shows "stoll ds b = (if digitsValue b ds < 2 ^ 63 then Some (digitsValue b ds) else None)"
    and "stoll (CHR ''-'' # ds) b = (if digitsValue b ds \<le> 2 ^ 63 then Some (- digitsValue b ds) else None)"
proof -
  obtain c cs where ds: "ds = c # cs" using assms(2) by (cases ds) auto
  with assms(1) have "isDigitIn b c" by simp
  note c = digit_plain[OF this]
  have u: "takeSign (dropWhile isSpace ds) = (False, ds)" using ds c by (simp add: takeSign_def)
  have "\<not> isSpace (CHR ''-'')" by (simp add: isSpace_def Let_def)
  then have n: "takeSign (dropWhile isSpace (CHR ''-'' # ds)) = (True, ds)" by (simp add: takeSign_def)
  show "stoll ds b = (if digitsValue b ds < 2 ^ 63 then Some (digitsValue b ds) else None)"
    unfolding stoll_def u using assms(2,3)
    by (simp add: Let_def takeRadix_digits[OF assms(1)] takeWhile_all[OF assms(1)])
  show "stoll (CHR ''-'' # ds) b = (if digitsValue b ds \<le> 2 ^ 63 then Some (- digitsValue b ds) else None)"
    unfolding stoll_def n using assms(2,3)
    by (auto simp add: Let_def takeRadix_digits[OF assms(1)] takeWhile_all[OF assms(1)])
qed

lemma stoull_decimal: "nat_of_dec s = Some n \<Longrightarrow> stoull s = (if n < 2 ^ 64 then Some n else None)"
proof -
  assume n: "nat_of_dec s = Some n"
  then have d: "list_all (isDigitIn 10) s" "s \<noteq> []" and v: "digitsValue 10 s = int n"
    by (auto simp: nat_of_dec_def digitsValue_10 isDigitIn_10 list_all_iff split: if_splits)
  obtain c cs where s: "s = c # cs" using d(2) by (cases s) auto
  with d(1) have "isDigitIn 10 c" by simp
  from digit_plain[OF this] s have u: "takeSign (dropWhile isSpace s) = (False, s)" by (simp add: takeSign_def)
  show ?thesis unfolding stoull_def u using d(2) by (simp add: Let_def takeWhile_all[OF d(1)] v)
qed

lemma stoull_dec_of_nat [simp]: "stoull (dec_of_nat n) = (if n < 2 ^ 64 then Some n else None)"
  by (rule stoull_decimal) simp

lemma stoull_bound: "stoull s = Some n \<Longrightarrow> n < 2 ^ 64"
  by (auto simp: stoull_def Let_def split: prod.splits if_splits)

section \<open>Numerals by their digits\<close>

text \<open>\<open>is_numeral b cs n\<close>: \<open>cs\<close> is a non-empty run of digits of base \<open>b\<close>, in either case, and stands for \<open>n\<close>.\<close>

definition is_numeral :: "nat \<Rightarrow> string \<Rightarrow> nat \<Rightarrow> bool" where
  "is_numeral b cs n \<longleftrightarrow>
     (\<exists>ds. ds \<noteq> [] \<and> list_all2 (\<lambda>d c. d < b \<and> (c = hexDigit False d \<or> c = hexDigit True d)) ds cs \<and>
        n = foldl (\<lambda>a d. a * b + d) 0 ds)"

text \<open>The text of an integer: a minus sign or none, then a decimal numeral, or \<open>0x\<close> or \<open>0X\<close> and a
  hexadecimal one.\<close>

definition integer_text :: "string \<Rightarrow> int \<Rightarrow> bool" where
  "integer_text s v \<longleftrightarrow>
     (\<exists>sign marker digits b n. s = sign @ marker @ digits \<and>
        (marker, b) \<in> {([], 10), (''0x'', 16), (''0X'', 16)} \<and> is_numeral b digits n \<and>
        (sign = [] \<and> v = int n \<or> sign = ''-'' \<and> v = - int n))"

lemma nibble_digits: "d < 16 \<Longrightarrow> nibble c = int d \<longleftrightarrow> c = hexDigit False d \<or> c = hexDigit True d"
proof
  assume d: "d < 16" and c: "nibble c = int d"
  have "c = char_of (of_char c :: nat)" by simp
  moreover have "(of_char c :: nat) = (if d < 10 then 48 + d else 87 + d) \<or> (of_char c :: nat) = (if d < 10 then 48 + d else 55 + d)"
    using c d by (auto simp: nibble_def Let_def split: if_splits)
  ultimately show "c = hexDigit False d \<or> c = hexDigit True d" unfolding hexDigit_def by (metis (full_types))
qed (auto simp: nibble_hexDigit)

lemma digits_numeral:
  assumes "b \<le> 16"
  shows "list_all2 (\<lambda>d c. d < b \<and> (c = hexDigit False d \<or> c = hexDigit True d)) ds cs \<longleftrightarrow>
    list_all (isDigitIn (int b)) cs \<and> ds = map (\<lambda>c. nat (nibble c)) cs"
proof -
  have "d < b \<and> (c = hexDigit False d \<or> c = hexDigit True d) \<longleftrightarrow> isDigitIn (int b) c \<and> d = nat (nibble c)" for d c
  proof (cases "d < 16")
    case True
    then show ?thesis using nibble_digits[OF True, of c] by (auto simp: isDigitIn_def)
  next
    case False
    with assms show ?thesis using nibble_range[of c] by (auto simp: isDigitIn_def)
  qed
  then show ?thesis by (induction ds cs rule: list_induct2') auto
qed

lemma digitsValue_foldl:
  "list_all (isDigitIn b) cs \<Longrightarrow> digitsValue b cs = int (foldl (\<lambda>a d. a * nat b + d) 0 (map (\<lambda>c. nat (nibble c)) cs))"
proof (induction cs rule: rev_induct)
  case (snoc c cs)
  then have "0 \<le> b" "0 \<le> nibble c" by (auto simp: isDigitIn_def)
  with snoc show ?case by simp
qed simp

lemma is_numeral_iff:
  assumes "b \<le> 16"
  shows "is_numeral b cs n \<longleftrightarrow> cs \<noteq> [] \<and> list_all (isDigitIn (int b)) cs \<and> digitsValue (int b) cs = int n"
  unfolding is_numeral_def digits_numeral[OF assms] using digitsValue_foldl[of "int b" cs] by auto

lemma is_numeral_10: "is_numeral 10 cs n \<longleftrightarrow> nat_of_dec cs = Some n"
  using is_numeral_iff[of 10 cs n] by (auto simp: nat_of_dec_def digitsValue_10 isDigitIn_10 list_all_iff)

end
