(* ===== verification/YulArith.thy ===== *)
theory YulArith
  imports IncDec NumberText
begin

text \<open>
  The arithmetic, comparison, bitwise and shift builtins of the inline-assembly translator
  (\<open>builder/assembly/ArithmeticOps.cpp\<close>, \<open>SignedOps.cpp\<close>, \<open>BitwiseShiftOps.cpp\<close> and the helpers of
  \<open>AssemblyBuilder.cpp\<close> and \<open>MemoryHelpers.cpp\<close> they use), with the rows of the dispatch table of
  \<open>CoreTranslation.cpp\<close> that name them.  A handler returns \<open>None\<close> where the code returns a null
  pointer.  \<open>wide\<close> is the member \<open>m_localWideConstants\<close>: the Yul locals bound to a number literal.
\<close>

declare One_nat_def [simp del]

section \<open>Coercions\<close>

definition ensureBiguint :: "expr \<Rightarrow> expr builder" where
  "ensureBiguint e =
     (if wtypeOf e = biguintType then ret e
      else if wtypeOf e = boolType then
        ret (makeConditional e (makeBiguintConstant ''1'') (makeBiguintConstant ''0'') biguintType)
      else if wtypeOf e = uint64Type then ret (makeAsBiguint (makeItob e))
      else if kind (wtypeOf e) = KBytes then ret (makeAsBiguint e)
      else if wtypeOf e = accountType then ret (makeAsBiguint (makeAsBytes e))
      else if kind (wtypeOf e) = KARC4UIntN then ret (makeAsBiguint (makeAsBytes e))
      else do {
        logError (NonScalarToBiguint (wname (wtypeOf e)));
        ret (makeBiguintConstant ''0'')
      })"

definition ensureBool :: "expr \<Rightarrow> expr" where
  "ensureBool e =
     (if wtypeOf e = boolType then e
      else if wtypeOf e = biguintType then makeNumericCompare e Ne (makeBiguintConstant ''0'')
      else if wtypeOf e = uint64Type then makeNumericCompare e Ne (makeZero uint64Type)
      else if kind (wtypeOf e) = KBytes then
        (let len = (case fixedBytesLength (wtypeOf e) of Some n \<Rightarrow> nat n | None \<Rightarrow> 32)
         in makeBytesComparison e EqNe (makeBytesConstant (replicate len 0) EncBase16 (wtypeOf e)))
      else e)"

definition asmBigUIntBinOp :: "expr \<Rightarrow> BigUIntBinaryOperator \<Rightarrow> expr \<Rightarrow> expr builder" where
  "asmBigUIntBinOp left oper right = do {
     l \<leftarrow> ensureBiguint left;
     r \<leftarrow> ensureBiguint right;
     ret (makeBigUIntBinOp l oper r)
   }"

definition makeTwoPow256 :: expr where "makeTwoPow256 = makePow256"

definition asmWrapMod256 :: "expr \<Rightarrow> expr builder" where
  "asmWrapMod256 e = asmBigUIntBinOp e BigMod makeTwoPow256"

definition isNonZeroDecimal :: "string \<Rightarrow> bool" where
  "isNonZeroDecimal v \<longleftrightarrow> v \<noteq> [] \<and> list_all is_digit v \<and> list_ex (\<lambda>c. c \<noteq> CHR ''0'') v"

text \<open>The casts \<open>dynamic_cast<IntegerConstant>\<close> and \<open>dynamic_cast<VarExpression>\<close>.\<close>

definition intLiteral :: "expr \<Rightarrow> string option" where
  "intLiteral e = (case e of IntegerConstant _ value \<Rightarrow> Some value | _ \<Rightarrow> None)"

definition varName :: "expr \<Rightarrow> string option" where
  "varName e = (case e of VarExpression _ name \<Rightarrow> Some name | _ \<Rightarrow> None)"

definition divisorIsKnownNonZero :: "(string \<rightharpoonup> string) \<Rightarrow> expr \<Rightarrow> bool" where
  "divisorIsKnownNonZero wide divisor =
     (case varName divisor of
        Some name \<Rightarrow> (case wide name of None \<Rightarrow> False | Some v \<Rightarrow> isNonZeroDecimal v)
      | None \<Rightarrow> (case intLiteral divisor of Some value \<Rightarrow> isNonZeroDecimal value | None \<Rightarrow> False))"

definition safeDivMod :: "(string \<rightharpoonup> string) \<Rightarrow> expr \<Rightarrow> BigUIntBinaryOperator \<Rightarrow> expr \<Rightarrow> expr builder" where
  "safeDivMod wide left oper right0 =
     (if divisorIsKnownNonZero wide right0 then do {
        r \<leftarrow> ensureBiguint right0;
        asmBigUIntBinOp left oper r
      }
      else do {
        r \<leftarrow> ensureBiguint right0;
        right \<leftarrow> makeEvalOnce r;
        let cond = makeNumericCompare right Ne (makeBiguintConstant ''0'');
        divExpr \<leftarrow> asmBigUIntBinOp left oper right;
        ret (makeConditional cond divExpr (makeBiguintConstant ''0'') biguintType)
      })"

definition safeBtoi :: "expr \<Rightarrow> expr" where
  "safeBtoi e = makeBiguintToUInt64 e"

definition padTo32Bytes :: "expr \<Rightarrow> expr builder" where
  "padTo32Bytes e = makeExtractLastN (makeLeftPad (makeAsBytes e) 32) 32"

section \<open>Arithmetic, comparison and bitwise builtins\<close>

definition checkArity :: "expr list \<Rightarrow> nat \<Rightarrow> string \<Rightarrow> bool builder" where
  "checkArity args n name =
     (if length args \<noteq> n then do { logError (RequiresArguments name n); ret False } else ret True)"

text \<open>The body of a handler, run when the arity is right.\<close>

definition withArity :: "expr list \<Rightarrow> nat \<Rightarrow> string \<Rightarrow> expr builder \<Rightarrow> expr option builder" where
  "withArity args n name body = do {
     ok \<leftarrow> checkArity args n name;
     (if \<not> ok then ret None else do { e \<leftarrow> body; ret (Some e) })
   }"

definition makeYulCompare :: "NumericComparison \<Rightarrow> string \<Rightarrow> expr list \<Rightarrow> expr option builder" where
  "makeYulCompare cmp name args = withArity args 2 name (do {
     a \<leftarrow> ensureBiguint (args ! 0);
     b \<leftarrow> ensureBiguint (args ! 1);
     ret (makeNumericCompare a cmp b)
   })"

definition makeYulBitwise :: "string \<Rightarrow> string \<Rightarrow> expr list \<Rightarrow> expr option builder" where
  "makeYulBitwise oper name args = withArity args 2 name (do {
     a \<leftarrow> ensureBiguint (args ! 0);
     b \<leftarrow> ensureBiguint (args ! 1);
     ret (makeAsBiguint (makeIntrinsicCall oper bytesType [] [makeAsBytes a, makeAsBytes b]))
   })"

definition handleMulmod :: "(string \<rightharpoonup> string) \<Rightarrow> expr list \<Rightarrow> expr option builder" where
  "handleMulmod wide args = withArity args 3 ''mulmod'' (do {
     product \<leftarrow> asmBigUIntBinOp (args ! 0) BigMult (args ! 1);
     safeDivMod wide product BigMod (args ! 2)
   })"

definition handleAddmod :: "(string \<rightharpoonup> string) \<Rightarrow> expr list \<Rightarrow> expr option builder" where
  "handleAddmod wide args = withArity args 3 ''addmod'' (do {
     sum \<leftarrow> asmBigUIntBinOp (args ! 0) BigAdd (args ! 1);
     safeDivMod wide sum BigMod (args ! 2)
   })"

definition handleAdd :: "expr list \<Rightarrow> expr option builder" where
  "handleAdd args = withArity args 2 ''add'' (do {
     sum \<leftarrow> asmBigUIntBinOp (args ! 0) BigAdd (args ! 1);
     asmWrapMod256 sum
   })"

definition handleMul :: "expr list \<Rightarrow> expr option builder" where
  "handleMul args = withArity args 2 ''mul'' (do {
     product \<leftarrow> asmBigUIntBinOp (args ! 0) BigMult (args ! 1);
     asmWrapMod256 product
   })"

text \<open>The compile-time power of two literals, by squaring modulo \<open>2^256\<close>.\<close>

fun constExpLoop :: "nat \<Rightarrow> nat \<Rightarrow> nat \<Rightarrow> nat" where
  "constExpLoop result base e =
     (if e = 0 then result
      else constExpLoop (if e mod 2 \<noteq> 0 then result * base mod 2 ^ 256 else result)
             (base * base mod 2 ^ 256) (e div 2))"

declare constExpLoop.simps [simp del]

text \<open>
  \<open>handleExp\<close>; the run-time loop goes to the pending statements.  A literal that is not decimal makes
  the code's big-integer parser throw, which is \<open>None\<close> here.
\<close>

definition handleExp :: "expr list \<Rightarrow> expr option builder" where
  "handleExp args = do {
     ok \<leftarrow> checkArity args 2 ''exp'';
     (if \<not> ok then ret None
      else case (intLiteral (args ! 0), intLiteral (args ! 1)) of
        (Some baseC, Some expC) \<Rightarrow>
          (case (nat_of_dec baseC, nat_of_dec expC) of
             (Some b, Some e) \<Rightarrow>
               ret (Some (makeIntegerConstant (dec_of_nat (constExpLoop 1 (b mod 2 ^ 256) e)) biguintType))
           | _ \<Rightarrow> ret None)
      | _ \<Rightarrow> do {
          b \<leftarrow> ensureBiguint (args ! 0);
          x \<leftarrow> ensureBiguint (args ! 1);
          e \<leftarrow> buildBigUIntExpInto True b x;
          ret (Some e)
        })
   }"

definition handleMod :: "(string \<rightharpoonup> string) \<Rightarrow> expr list \<Rightarrow> expr option builder" where
  "handleMod wide args = withArity args 2 ''mod'' (safeDivMod wide (args ! 0) BigMod (args ! 1))"

definition handleSub :: "expr list \<Rightarrow> expr option builder" where
  "handleSub args = withArity args 2 ''sub'' (do {
     aPlusPow \<leftarrow> asmBigUIntBinOp (args ! 0) BigAdd makeTwoPow256;
     diff \<leftarrow> asmBigUIntBinOp aPlusPow BigSub (args ! 1);
     asmWrapMod256 diff
   })"

definition handleIszero :: "expr list \<Rightarrow> expr option builder" where
  "handleIszero args = withArity args 1 ''iszero''
     (if wtypeOf (args ! 0) = boolType then ret (makeNot (args ! 0))
      else do {
        arg \<leftarrow> ensureBiguint (args ! 0);
        ret (makeNumericCompare arg Eq (makeBiguintConstant ''0''))
      })"

definition handleEq :: "expr list \<Rightarrow> expr option builder" where "handleEq = makeYulCompare Eq ''eq''"
definition handleLt :: "expr list \<Rightarrow> expr option builder" where "handleLt = makeYulCompare Lt ''lt''"
definition handleGt :: "expr list \<Rightarrow> expr option builder" where "handleGt = makeYulCompare Gt ''gt''"
definition handleAnd :: "expr list \<Rightarrow> expr option builder" where "handleAnd = makeYulBitwise ''b&'' ''and''"
definition handleOr :: "expr list \<Rightarrow> expr option builder" where "handleOr = makeYulBitwise ''b|'' ''or''"
definition handleXor :: "expr list \<Rightarrow> expr option builder" where "handleXor = makeYulBitwise ''b^'' ''xor''"

definition handleNot :: "expr list \<Rightarrow> expr option builder" where
  "handleNot args = withArity args 1 ''not'' (do {
     e \<leftarrow> ensureBiguint (args ! 0);
     padded \<leftarrow> padTo32Bytes e;
     ret (makeAsBiguint (makeIntrinsicCall ''b~'' bytesType [] [padded]))
   })"

section \<open>Shifts, \<open>byte\<close> and \<open>signextend\<close>\<close>

definition buildPowerOf2 :: "expr \<Rightarrow> expr builder" where
  "buildPowerOf2 shift = do {
     shiftAmt \<leftarrow>
       (if wtypeOf shift \<noteq> uint64Type then do {
          low \<leftarrow> makeExtractLastN (makeLeftPad (makeAsBytes shift) 8) 8;
          ret (makeBtoi low None)
        } else ret shift);
     let clampedShift = makeUInt64BinOp shiftAmt U64Mod (makeIntegerConstant ''256'' uint64Type);
     let bitIdx = makeUInt64BinOp (makeIntegerConstant ''255'' uint64Type) U64Sub clampedShift;
     ret (makeAsBiguint (makeSetbit (makeBzero 32) bitIdx (makeOne uint64Type)))
   }"

definition handleDiv :: "(string \<rightharpoonup> string) \<Rightarrow> expr list \<Rightarrow> expr option builder" where
  "handleDiv wide args = withArity args 2 ''div'' (do {
     a \<leftarrow> ensureBiguint (args ! 0);
     a' \<leftarrow> asmWrapMod256 a;
     b \<leftarrow> ensureBiguint (args ! 1);
     b' \<leftarrow> asmWrapMod256 b;
     safeDivMod wide a' BigFloorDiv b'
   })"

text \<open>The bodies of \<open>handleShl\<close> and \<open>handleShr\<close>, which other handlers call with two arguments.\<close>

definition shlBody :: "expr \<Rightarrow> expr \<Rightarrow> expr builder" where
  "shlBody a0 a1 = do {
     s \<leftarrow> ensureBiguint a0;
     shift \<leftarrow> makeEvalOnce s;
     v \<leftarrow> ensureBiguint a1;
     value \<leftarrow> asmWrapMod256 v;
     power \<leftarrow> buildPowerOf2 shift;
     product \<leftarrow> asmBigUIntBinOp value BigMult power;
     wrapped \<leftarrow> asmWrapMod256 product;
     let cond = makeNumericCompare shift Lt (makeIntegerConstant ''256'' biguintType);
     ret (makeConditional cond wrapped (makeIntegerConstant ''0'' biguintType) biguintType)
   }"

definition handleShl :: "expr list \<Rightarrow> expr option builder" where
  "handleShl args = withArity args 2 ''shl'' (shlBody (args ! 0) (args ! 1))"

definition shrBody :: "expr \<Rightarrow> expr \<Rightarrow> expr builder" where
  "shrBody a0 a1 = do {
     s \<leftarrow> ensureBiguint a0;
     shift \<leftarrow> makeEvalOnce s;
     v \<leftarrow> ensureBiguint a1;
     value \<leftarrow> asmWrapMod256 v;
     power \<leftarrow> buildPowerOf2 shift;
     divResult \<leftarrow> asmBigUIntBinOp value BigFloorDiv power;
     let cond = makeNumericCompare shift Lt (makeIntegerConstant ''256'' biguintType);
     ret (makeConditional cond divResult (makeIntegerConstant ''0'' biguintType) biguintType)
   }"

definition handleShr :: "expr list \<Rightarrow> expr option builder" where
  "handleShr args = withArity args 2 ''shr'' (shrBody (args ! 0) (args ! 1))"

definition handleByte :: "expr list \<Rightarrow> expr option builder" where
  "handleByte args = withArity args 2 ''byte'' (do {
     padded \<leftarrow> padTo32Bytes (args ! 1);
     n \<leftarrow> ensureBiguint (args ! 0);
     nBig \<leftarrow> makeEvalOnce n;
     let inRange = makeNumericCompare nBig Lt (makeIntegerConstant ''32'' biguintType);
     let nU64 = safeBtoi nBig;
     let extracted = makeAsBiguint (makeExtract3 padded nU64 (makeOne uint64Type) None);
     ret (makeConditional inRange extracted (makeBiguintConstant ''0'') biguintType)
   })"

section \<open>Signed builtins\<close>

definition isNegative256 :: "expr \<Rightarrow> wtype option \<Rightarrow> expr" where
  "isNegative256 val origType =
     isNegativeSigned val (if origType = Some uint64Type then 64 else 256)"

definition negate256 :: "expr \<Rightarrow> expr builder" where
  "negate256 val = do {
     sub \<leftarrow> asmBigUIntBinOp (makeIntegerConstant pow256Minus1 biguintType) BigSub val;
     sum \<leftarrow> asmBigUIntBinOp sub BigAdd (makeBiguintConstant ''1'');
     asmWrapMod256 sum
   }"

text \<open>\<open>val < 0 ? -val : val\<close>, as the division handlers spell it.\<close>

definition absWord :: "expr \<Rightarrow> expr builder" where
  "absWord val = do {
     n \<leftarrow> negate256 val;
     ret (makeConditional (isNegative256 val None) n val biguintType)
   }"

definition handleSdiv :: "expr list \<Rightarrow> expr option builder" where
  "handleSdiv args = withArity args 2 ''sdiv'' (do {
     a \<leftarrow> ensureBiguint (args ! 0);
     b \<leftarrow> ensureBiguint (args ! 1);
     absA \<leftarrow> absWord a;
     absB \<leftarrow> absWord b;
     quotient \<leftarrow> asmBigUIntBinOp absA BigFloorDiv absB;
     na \<leftarrow> ensureBiguint (isNegative256 a None);
     nb \<leftarrow> ensureBiguint (isNegative256 b None);
     let xorResult = makeNumericCompare na Ne nb;
     nq \<leftarrow> negate256 quotient;
     let signedResult = makeConditional xorResult nq quotient biguintType;
     let bNonZero = makeNumericCompare b Ne (makeBiguintConstant ''0'');
     ret (makeConditional bNonZero signedResult (makeBiguintConstant ''0'') biguintType)
   })"

definition handleSmod :: "expr list \<Rightarrow> expr option builder" where
  "handleSmod args = withArity args 2 ''smod'' (do {
     a \<leftarrow> ensureBiguint (args ! 0);
     b \<leftarrow> ensureBiguint (args ! 1);
     absA \<leftarrow> absWord a;
     absB \<leftarrow> absWord b;
     remainder \<leftarrow> asmBigUIntBinOp absA BigMod absB;
     nr \<leftarrow> negate256 remainder;
     let signedResult = makeConditional (isNegative256 a None) nr remainder biguintType;
     let bNonZero = makeNumericCompare b Ne (makeBiguintConstant ''0'');
     ret (makeConditional bNonZero signedResult (makeBiguintConstant ''0'') biguintType)
   })"

definition isZeroLiteral :: "expr \<Rightarrow> bool" where
  "isZeroLiteral e \<longleftrightarrow> intLiteral e = Some ''0''"

definition sltBody :: "expr \<Rightarrow> expr \<Rightarrow> expr builder" where
  "sltBody a0 b0 = do {
     let origTypeA = Some (wtypeOf a0);
     let origTypeB = Some (wtypeOf b0);
     a \<leftarrow> ensureBiguint a0;
     b \<leftarrow> ensureBiguint b0;
     (if isZeroLiteral b then ensureBiguint (isNegative256 a origTypeA)
      else if isZeroLiteral a then
        (let signThreshold = makeIntegerConstant
               (if origTypeB = Some uint64Type then ''9223372036854775808'' else kHalfMax_256) biguintType
         in ensureBiguint (makeBoolBinOp (makeNumericCompare b Gt (makeBiguintConstant ''0'')) And
              (makeNumericCompare b Lt signThreshold)))
      else do {
        na \<leftarrow> ensureBiguint (isNegative256 a origTypeA);
        nb \<leftarrow> ensureBiguint (isNegative256 b origTypeB);
        let signsMatch = makeNumericCompare na Eq nb;
        ensureBiguint (makeConditional signsMatch (makeNumericCompare a Lt b) (isNegative256 a origTypeA) boolType)
      })
   }"

definition handleSlt :: "expr list \<Rightarrow> expr option builder" where
  "handleSlt args = withArity args 2 ''slt'' (sltBody (args ! 0) (args ! 1))"

definition handleSgt :: "expr list \<Rightarrow> expr option builder" where
  "handleSgt args = withArity args 2 ''sgt'' (sltBody (args ! 1) (args ! 0))"

definition sarBody :: "expr \<Rightarrow> expr \<Rightarrow> expr builder" where
  "sarBody a0 a1 = do {
     v \<leftarrow> ensureBiguint a1;
     w \<leftarrow> asmWrapMod256 v;
     val \<leftarrow> makeEvalOnce w;
     shrResult \<leftarrow> shrBody a0 val;
     let valNeg = isNegative256 val None;
     shrMax \<leftarrow> shrBody a0 (makeBiguintConstant pow256Minus1);
     fillMask \<leftarrow> asmBigUIntBinOp (makeBiguintConstant pow256Minus1) BigSub shrMax;
     let negResult = makeAsBiguint (makeBytesOr (makeAsBytes shrResult) (makeAsBytes fillMask));
     shrAgain \<leftarrow> shrBody a0 val;
     ret (makeConditional valNeg negResult shrAgain biguintType)
   }"

definition handleSar :: "expr list \<Rightarrow> expr option builder" where
  "handleSar args = withArity args 2 ''sar'' (sarBody (args ! 0) (args ! 1))"

definition signextendShift :: "expr \<Rightarrow> expr builder" where
  "signextendShift b = do {
     b1 \<leftarrow> ensureBiguint b;
     let cmp = makeNumericCompare b1 Lt (makeIntegerConstant ''31'' biguintType);
     b2 \<leftarrow> ensureBiguint b;
     let bc = makeConditional cmp b2 (makeIntegerConstant ''31'' biguintType) biguintType;
     eightBc \<leftarrow> asmBigUIntBinOp bc BigMult (makeIntegerConstant ''8'' biguintType);
     asmBigUIntBinOp (makeIntegerConstant ''248'' biguintType) BigSub eightBc
   }"

text \<open>
  \<open>handleSignextend\<close>; the literal is read by \<open>std::stoull\<close>, which throws on text without a digit and on
  a value of 64 bits or more: no result here.
\<close>

definition handleSignextend :: "expr list \<Rightarrow> expr option builder" where
  "handleSignextend args = do {
     ok \<leftarrow> checkArity args 2 ''signextend'';
     (if \<not> ok then ret None
      else do {
        x \<leftarrow> ensureBiguint (args ! 1);
        case intLiteral (args ! 0) of
          Some lit \<Rightarrow>
            (case stoull lit of
               None \<Rightarrow> ret None
             | Some b \<Rightarrow>
                 if b \<ge> 31 then ret (Some x)
                 else do {
                   let sConst = makeIntegerConstant (dec_of_nat (248 - 8 * b)) biguintType;
                   shifted \<leftarrow> shlBody sConst x;
                   e \<leftarrow> sarBody sConst shifted;
                   ret (Some e)
                 })
        | None \<Rightarrow> do {
            s1 \<leftarrow> signextendShift (args ! 0);
            x' \<leftarrow> ensureBiguint (args ! 1);
            shifted \<leftarrow> shlBody s1 x';
            s2 \<leftarrow> signextendShift (args ! 0);
            e \<leftarrow> sarBody s2 shifted;
            ret (Some e)
          }
      })
   }"

section \<open>Dispatch\<close>

definition unsupportedBuiltinError :: "string \<Rightarrow> expr builder" where
  "unsupportedBuiltinError funcName = do {
     logError (UnsupportedBuiltin funcName);
     ret (makeZero biguintType)
   }"

text \<open>The rows of \<open>kArgsBuiltins\<close> whose handlers are modelled here.\<close>

definition kArgsBuiltins :: "(string \<rightharpoonup> string) \<Rightarrow> (string \<times> (expr list \<Rightarrow> expr option builder)) list" where
  "kArgsBuiltins wide =
     [(''mulmod'', handleMulmod wide), (''addmod'', handleAddmod wide), (''add'', handleAdd), (''mul'', handleMul),
      (''exp'', handleExp), (''mod'', handleMod wide), (''sub'', handleSub), (''iszero'', handleIszero),
      (''eq'', handleEq), (''lt'', handleLt), (''gt'', handleGt), (''and'', handleAnd), (''or'', handleOr),
      (''not'', handleNot), (''xor'', handleXor), (''div'', handleDiv wide), (''shl'', handleShl),
      (''shr'', handleShr), (''byte'', handleByte), (''signextend'', handleSignextend), (''sdiv'', handleSdiv),
      (''smod'', handleSmod), (''slt'', handleSlt), (''sgt'', handleSgt), (''sar'', handleSar)]"

end
