(* ===== verification/YulCorrect.thy ===== *)
theory YulCorrect
  imports YulArith
begin

text \<open>
  The Yul builtins of \<open>YulArith\<close> compute on natural numbers below \<open>2^256\<close> what the EVM computes:
  one lemma per handler, for operands of every scalar AWST type, in any state and with operands
  that may be referenced several times.
\<close>

section \<open>Operands\<close>

definition bigIs :: "'z evaluator \<Rightarrow> (expr \<times> int) set \<Rightarrow> 'z menv_scheme \<Rightarrow> expr \<Rightarrow> nat \<Rightarrow> bool" where
  "bigIs ev K \<sigma> e n \<longleftrightarrow> wtypeOf e = biguintType \<and> sbig ev K \<sigma> e n"

text \<open>
  \<open>e\<close> denotes the number \<open>n\<close> in the representation of its AWST type.  Integer constants have an
  integer type.
\<close>

definition yval :: "'z evaluator \<Rightarrow> (expr \<times> int) set \<Rightarrow> 'z menv_scheme \<Rightarrow> expr \<Rightarrow> nat \<Rightarrow> bool" where
  "yval ev K \<sigma> e n \<longleftrightarrow>
     bigIs ev K \<sigma> e n \<or>
     wtypeOf e = uint64Type \<and> su64 ev K \<sigma> e n \<and> n < 2 ^ 64 \<or>
     intLiteral e = None \<and> wtypeOf e = boolType \<and> (\<exists>p. sbool ev K \<sigma> e p \<and> n = of_bool p) \<or>
     intLiteral e = None \<and> (kind (wtypeOf e) = KBytes \<or> kind (wtypeOf e) = KARC4UIntN \<or> wtypeOf e = accountType) \<and>
       (\<exists>b. sbytes ev K \<sigma> e b \<and> be_nat b = n \<and> length b \<le> 64)"

text \<open>The size of the EVM word, kept folded in the statements.\<close>

definition W256 :: nat where "W256 = 2 ^ 256"

lemma W256_bounds: "0 < W256" "W256 < 2 ^ 512" "W256 * W256 = 2 ^ 512" "W256 + W256 < 2 ^ 512" "256 < W256"
  by (simp_all add: W256_def)

lemma word_arith:
  assumes "m < W256" "n < W256"
  shows "m + n < 2 ^ 512" "m * n < 2 ^ 512" "m + W256 < 2 ^ 512" "n \<le> m + W256" "m < 2 ^ 512"
  using assms W256_bounds mult_strict_mono'[of m W256 n W256] by linarith+

definition yword :: "'z evaluator \<Rightarrow> (expr \<times> int) set \<Rightarrow> 'z menv_scheme \<Rightarrow> expr \<Rightarrow> nat \<Rightarrow> bool" where
  "yword ev K \<sigma> e n \<longleftrightarrow> yval ev K \<sigma> e n \<and> n < W256"

text \<open>The recorded constants of Yul locals are their values.\<close>

definition wide_ok :: "(string \<rightharpoonup> string) \<Rightarrow> 'z menv_scheme \<Rightarrow> bool" where
  "wide_ok wide \<sigma> \<longleftrightarrow> (\<forall>x v. wide x = Some v \<longrightarrow> (\<exists>b. vars \<sigma> x = Some (VB b) \<and> nat_of_dec v = Some (be_nat b)))"

abbreviation yields :: "'z evaluator \<Rightarrow> (expr \<times> int) set \<Rightarrow> 'z menv_scheme \<Rightarrow> bst \<Rightarrow> nat \<Rightarrow> expr \<Rightarrow> bst \<Rightarrow> bool" where
  "yields ev K \<sigma> s n \<equiv> \<lambda>e s'. bigIs ev K \<sigma> e n \<and> covers K s' \<and> preEffects s' = preEffects s"

lemma dec_fold_zero:
  "list_all is_digit v \<Longrightarrow> foldl (\<lambda>a c. a * 10 + (of_char c - 48)) a v = (0::nat) \<Longrightarrow>
   a = 0 \<and> (\<forall>c \<in> set v. of_char c = (48::nat))"
proof (induction v arbitrary: a)
  case (Cons c v)
  have d: "48 \<le> (of_char c :: nat)" "list_all is_digit v"
    using Cons.prems(1) unfolding list.pred_inject(2) is_digit_def by blast+
  from Cons.IH[OF d(2), of "a * 10 + (of_char c - 48)"] Cons.prems(2)
  have "a * 10 + (of_char c - 48) = (0::nat)" "\<forall>c \<in> set v. of_char c = (48::nat)"
    unfolding foldl_Cons by blast+
  with d(1) show ?case unfolding list.set ball_simps by (intro conjI ballI) auto
qed simp

lemma dec_value_zero:
  assumes "list_all is_digit v" "dec_value v = 0" "c \<in> set v"
  shows "c = CHR ''0''"
proof -
  from dec_fold_zero[of v 0] assms have "of_char c = (48::nat)" unfolding dec_value_def by blast
  then have "char_of (of_char c :: nat) = char_of (48::nat)" by (rule arg_cong)
  also have "char_of (48::nat) = CHR ''0''" by code_simp
  finally show ?thesis unfolding char_of_char .
qed

lemma isNonZeroDecimal_value: "isNonZeroDecimal v \<Longrightarrow> \<exists>n. nat_of_dec v = Some n \<and> n \<noteq> 0"
  using dec_value_zero[of v] unfolding isNonZeroDecimal_def nat_of_dec_def list_ex_iff by auto

lemma basic_types_distinct [simp]:
  "biguintType \<noteq> uint64Type" "biguintType \<noteq> boolType" "uint64Type \<noteq> biguintType" "uint64Type \<noteq> boolType"
  "boolType \<noteq> uint64Type" "boolType \<noteq> biguintType" "accountType \<noteq> biguintType" "accountType \<noteq> boolType"
  "accountType \<noteq> uint64Type" "kind biguintType \<noteq> KBytes" "kind boolType \<noteq> KBytes" "kind uint64Type \<noteq> KBytes"
  "kind accountType \<noteq> KBytes" "kind biguintType \<noteq> KARC4UIntN" "kind boolType \<noteq> KARC4UIntN"
  "kind uint64Type \<noteq> KARC4UIntN" "kind accountType \<noteq> KARC4UIntN"
  by (simp_all add: basic_type_defs)

lemma built_withArity [simp]:
  "length args = n \<Longrightarrow> built (withArity args n name body) s Q \<longleftrightarrow> built body s (\<lambda>e. Q (Some e))"
  by (simp add: withArity_def checkArity_def)

lemma ensureBiguint_big [simp]: "wtypeOf e = biguintType \<Longrightarrow> ensureBiguint e = ret e"
  by (simp add: ensureBiguint_def)

lemma asmBin_big [simp]:
  "wtypeOf l = biguintType \<Longrightarrow> wtypeOf r = biguintType \<Longrightarrow> asmBigUIntBinOp l oper r = ret (makeBigUIntBinOp l oper r)"
  by (simp add: asmBigUIntBinOp_def)

lemma wtype_makers [simp]:
  "wtypeOf (makeBigUIntBinOp l oper r) = biguintType" "wtypeOf (makeAsBiguint e) = biguintType"
  "wtypeOf (makeBiguintConstant v) = biguintType" "wtypeOf (makeIntegerConstant v t) = t"
  "wtypeOf (makeConditional c' a b t) = t" "wtypeOf makePow256 = biguintType" "wtypeOf makeTwoPow256 = biguintType"
  "wtypeOf (wrapMod256 e) = biguintType" "wtypeOf (makeNumericCompare a nc b) = boolType"
  "wtypeOf (isNegativeSigned a n) = boolType" "wtypeOf (isNegative256 a ot) = boolType"
  "wtypeOf (makeBoolBinOp a bo b) = boolType"
  by (simp_all add: node_defs makePow256_def makeTwoPow256_def wrapMod256_def isNegativeSigned_def isNegative256_def)

lemma intLiteral_makers [simp]:
  "intLiteral (makeNumericCompare a nc b) = None" "intLiteral (makeNot e) = None" "intLiteral (makeConditional c' a b t) = None"
  "intLiteral (makeBigUIntBinOp a bop b) = None" "intLiteral (makeAsBiguint e) = None"
  by (simp_all add: intLiteral_def node_defs)

lemma asmWrap_big [simp]: "wtypeOf e = biguintType \<Longrightarrow> asmWrapMod256 e = ret (wrapMod256 e)"
  by (simp add: asmWrapMod256_def wrapMod256_def makeTwoPow256_def)

text \<open>The EVM shifts on naturals.\<close>

definition shl_val :: "nat \<Rightarrow> nat \<Rightarrow> nat" where
  "shl_val n v = (if n < 256 then v * 2 ^ n mod W256 else 0)"

definition shr_val :: "nat \<Rightarrow> nat \<Rightarrow> nat" where
  "shr_val n v = (if n < 256 then v div 2 ^ n else 0)"

text \<open>Comparisons give an AWST boolean.\<close>

definition boolIs :: "'z evaluator \<Rightarrow> (expr \<times> int) set \<Rightarrow> 'z menv_scheme \<Rightarrow> expr \<Rightarrow> bool \<Rightarrow> bool" where
  "boolIs ev K \<sigma> e p \<longleftrightarrow> wtypeOf e = boolType \<and> intLiteral e = None \<and> sbool ev K \<sigma> e p"

text \<open>The guarded division: 0 for a zero divisor.\<close>

definition guarded_op :: "BigUIntBinaryOperator \<Rightarrow> nat \<Rightarrow> nat \<Rightarrow> nat" where
  "guarded_op oper m n = (if n = 0 then 0 else if oper = BigMod then m mod n else m div n)"

context avm
begin

lemma bigIs_const: "nat_of_dec v = Some n \<Longrightarrow> n < 2 ^ 512 \<Longrightarrow> bigIs ev K \<sigma> (makeIntegerConstant v biguintType) n"
  by (simp add: bigIs_def makeIntegerConstant_def sbig_int)

lemma bigIs_biguintConst: "nat_of_dec v = Some n \<Longrightarrow> n < 2 ^ 512 \<Longrightarrow> bigIs ev K \<sigma> (makeBiguintConstant v) n"
  unfolding makeBiguintConstant_def by (rule bigIs_const)

lemma bigIs_pow256: "bigIs ev K \<sigma> makePow256 W256" "bigIs ev K \<sigma> makeTwoPow256 W256"
  unfolding W256_def makeTwoPow256_def bigIs_def using sbig_pow256 by simp_all

lemma bigIs_bin:
  assumes "bigIs ev K \<sigma> l m" "bigIs ev K \<sigma> r n"
  shows "m + n < 2 ^ 512 \<Longrightarrow> bigIs ev K \<sigma> (makeBigUIntBinOp l BigAdd r) (m + n)"
    and "m * n < 2 ^ 512 \<Longrightarrow> bigIs ev K \<sigma> (makeBigUIntBinOp l BigMult r) (m * n)"
    and "n \<le> m \<Longrightarrow> bigIs ev K \<sigma> (makeBigUIntBinOp l BigSub r) (m - n)"
    and "n \<noteq> 0 \<Longrightarrow> bigIs ev K \<sigma> (makeBigUIntBinOp l BigFloorDiv r) (m div n)"
    and "n \<noteq> 0 \<Longrightarrow> bigIs ev K \<sigma> (makeBigUIntBinOp l BigMod r) (m mod n)"
  using assms by (simp_all add: bigIs_def makeBigUIntBinOp_def sbig_add sbig_mult sbig_sub sbig_div sbig_mod)

lemma bigIs_wrap: "bigIs ev K \<sigma> e n \<Longrightarrow> bigIs ev K \<sigma> (wrapMod256 e) (n mod W256)"
  using sbig_wrapMod256 unfolding W256_def bigIs_def by simp

lemma bigIs_cond:
  "sbool ev K \<sigma> c p \<Longrightarrow> (p \<Longrightarrow> bigIs ev K \<sigma> a m) \<Longrightarrow> (\<not> p \<Longrightarrow> bigIs ev K \<sigma> b n) \<Longrightarrow>
   bigIs ev K \<sigma> (makeConditional c a b biguintType) (if p then m else n)"
  unfolding bigIs_def makeConditional_def using sbig_cond[of K \<sigma> c p a m b n biguintType] by simp

lemma bigIs_cmp: "bigIs ev K \<sigma> a m \<Longrightarrow> bigIs ev K \<sigma> b n \<Longrightarrow> sbool ev K \<sigma> (makeNumericCompare a cmp b) (num_cmp cmp m n)"
  unfolding bigIs_def makeNumericCompare_def by (blast intro: sval_cmp_big)

lemma ensure_word:
  assumes "yval ev K \<sigma> e n"
  obtains e' where "ensureBiguint e = ret e'" "bigIs ev K \<sigma> e' n"
proof -
  consider (big) "bigIs ev K \<sigma> e n" | (u64) "wtypeOf e = uint64Type" "su64 ev K \<sigma> e n" "n < 2 ^ 64"
    | (bool) p where "wtypeOf e = boolType" "sbool ev K \<sigma> e p" "n = of_bool p"
    | (bytes) b where "kind (wtypeOf e) = KBytes \<or> kind (wtypeOf e) = KARC4UIntN \<or> wtypeOf e = accountType"
        "sbytes ev K \<sigma> e b" "be_nat b = n" "length b \<le> 64"
    using assms by (auto simp: yval_def)
  then show thesis
  proof cases
    case big
    then show thesis by (intro that[of e]) (simp_all add: bigIs_def)
  next
    case u64
    then show thesis using sbig_itob[OF u64(2,3)]
      by (intro that[of "makeAsBiguint (makeItob e)"]) (simp_all add: bigIs_def ensureBiguint_def)
  next
    case bool
    have "bigIs ev K \<sigma> (makeConditional e (makeBiguintConstant ''1'') (makeBiguintConstant ''0'') biguintType) (if p then 1 else 0)"
      by (intro bigIs_cond bool(2) bigIs_biguintConst) simp_all
    with bool show thesis
      by (intro that[of "makeConditional e (makeBiguintConstant ''1'') (makeBiguintConstant ''0'') biguintType"])
         (simp_all add: ensureBiguint_def of_bool_def)
  next
    case bytes
    have c: "sbig ev K \<sigma> (makeAsBiguint e) n" "sbig ev K \<sigma> (makeAsBiguint (makeAsBytes e)) n"
      unfolding makeAsBiguint_def makeAsBytes_def makeReinterpretCast_def
      using sbigI[OF bytes(2,4)] bytes(3) by (auto intro!: sbig_cast)
    show thesis
    proof (cases "kind (wtypeOf e) = KBytes")
      case True
      with c show thesis by (intro that[of "makeAsBiguint e"]) (auto simp add: bigIs_def ensureBiguint_def)
    next
      case False
      with c bytes(1) show thesis by (intro that[of "makeAsBiguint (makeAsBytes e)"]) (auto simp add: bigIs_def ensureBiguint_def)
    qed
  qed
qed

lemma built_ensure:
  assumes "yval ev K \<sigma> e n" "\<And>e'. bigIs ev K \<sigma> e' n \<Longrightarrow> Q e' s"
  shows "built (ensureBiguint e) s Q"
  by (rule ensure_word[OF assms(1)]) (simp add: assms(2))

lemma built_asmBin:
  assumes "yval ev K \<sigma> l m" "yval ev K \<sigma> r n"
    and "\<And>l' r'. bigIs ev K \<sigma> l' m \<Longrightarrow> bigIs ev K \<sigma> r' n \<Longrightarrow> Q (makeBigUIntBinOp l' oper r') s"
  shows "built (asmBigUIntBinOp l oper r) s Q"
  unfolding asmBigUIntBinOp_def built_bind
  by (rule built_ensure[OF assms(1)], rule built_ensure[OF assms(2)]) (simp add: assms(3))

lemma big_evalOnce:
  assumes "bigIs ev K \<sigma> e n" "covers K s"
    and "\<And>e' s'. bigIs ev K \<sigma> e' n \<Longrightarrow> covers K s' \<Longrightarrow> preEffects s' = preEffects s \<Longrightarrow> Q e' s'"
  shows "built (makeEvalOnce e) s Q"
proof -
  from assms(1) obtain b where "wtypeOf e = biguintType" "sval ev K \<sigma> e (VB b)" "be_nat b = n" "length b \<le> 64"
    by (auto simp: bigIs_def sbig_def)
  then show ?thesis by (intro built_evalOnce[OF _ assms(2)] assms(3)) (auto simp: bigIs_def sbig_def)
qed

lemma yval_big [simp]: "bigIs ev K \<sigma> e n \<Longrightarrow> yval ev K \<sigma> e n"
  by (simp add: yval_def)

lemma wrap_word: "bigIs ev K \<sigma> e n \<Longrightarrow> built (asmWrapMod256 e) s Q \<longleftrightarrow> Q (wrapMod256 e) s"
  by (simp add: bigIs_def)

text \<open>Handlers without a division.\<close>

lemma add_correct:
  assumes "yword ev K \<sigma> a m" "yword ev K \<sigma> b n" "covers K s"
  shows "built (handleAdd [a, b]) s (\<lambda>r s'. \<exists>e. r = Some e \<and> yields ev K \<sigma> s ((m + n) mod W256) e s')"
  unfolding handleAdd_def using assms word_arith[of m n]
  by (simp, intro built_asmBin[of K \<sigma> a m b n])
     (auto simp: yword_def wrap_word[OF bigIs_bin(1)] intro!: bigIs_wrap bigIs_bin)

lemma mul_correct:
  assumes "yword ev K \<sigma> a m" "yword ev K \<sigma> b n" "covers K s"
  shows "built (handleMul [a, b]) s (\<lambda>r s'. \<exists>e. r = Some e \<and> yields ev K \<sigma> s (m * n mod W256) e s')"
  unfolding handleMul_def using assms word_arith[of m n]
  by (simp, intro built_asmBin[of K \<sigma> a m b n])
     (auto simp: yword_def wrap_word[OF bigIs_bin(2)] intro!: bigIs_wrap bigIs_bin)

lemma sub_correct:
  assumes "yword ev K \<sigma> a m" "yword ev K \<sigma> b n" "covers K s"
  shows "built (handleSub [a, b]) s (\<lambda>r s'. \<exists>e. r = Some e \<and> yields ev K \<sigma> s ((m + W256 - n) mod W256) e s')"
proof -
  have p: "yval ev K \<sigma> makeTwoPow256 W256" using bigIs_pow256(2) by simp
  from assms(1,2) have "m < W256" "n < W256" by (simp_all add: yword_def)
  note lt = word_arith[OF this]
  show ?thesis
    unfolding handleSub_def using assms
    by (simp, intro built_asmBin[OF _ p, of a m] built_asmBin[of K \<sigma> _ "m + W256" b n])
       (use lt in \<open>auto simp: yword_def wrap_word[OF bigIs_bin(3)] intro!: bigIs_wrap bigIs_bin yval_big[OF bigIs_bin(1)]\<close>)
qed


lemma literal_value:
  assumes "yval ev K \<sigma> e n" "intLiteral e = Some v"
  shows "nat_of_dec v = Some n"
proof -
  from assms(2) obtain t where e: "e = IntegerConstant t v" by (auto simp: intLiteral_def split: expr.splits)
  from assms consider b where "t = biguintType" "sval ev K \<sigma> e (VB b)" "be_nat b = n" | "t = uint64Type" "su64 ev K \<sigma> e n"
    using e by (auto simp: yval_def bigIs_def sbig_def)
  then show ?thesis
  proof cases
    case (1 b)
    from svalE[OF 1(2) ok_cache_base] obtain c where
      "ev (\<sigma>\<lparr>cache := cache \<sigma> |` (- K)\<rparr>) (IntegerConstant biguintType v) = Some (VB b, \<sigma>\<lparr>cache := c\<rparr>)"
      unfolding e 1(1) by blast
    from sem_bigint_inv[OF this] 1(3) show ?thesis by auto
  next
    case 2
    from svalE[OF 2(2) ok_cache_base] obtain c where
      "ev (\<sigma>\<lparr>cache := cache \<sigma> |` (- K)\<rparr>) (IntegerConstant uint64Type v) = Some (VU n, \<sigma>\<lparr>cache := c\<rparr>)"
      unfolding e 2(1) by blast
    from sem_int64_inv[OF this] show ?thesis by auto
  qed
qed

lemma known_nonzero:
  assumes "yval ev K \<sigma> e n" "divisorIsKnownNonZero wide e" "wide_ok wide \<sigma>"
  shows "n \<noteq> 0"
proof (cases "varName e")
  case None
  with assms(2) obtain v where v: "intLiteral e = Some v" "isNonZeroDecimal v"
    by (auto simp: divisorIsKnownNonZero_def split: option.splits)
  from isNonZeroDecimal_value[OF v(2)] obtain k where k: "nat_of_dec v = Some k" "k \<noteq> 0" by auto
  from literal_value[OF assms(1) v(1)] k show ?thesis by simp
next
  case (Some x)
  with assms(2,3) obtain v b where v: "wide x = Some v" "isNonZeroDecimal v" "vars \<sigma> x = Some (VB b)" "nat_of_dec v = Some (be_nat b)"
    by (fastforce simp: divisorIsKnownNonZero_def wide_ok_def split: option.splits)
  from isNonZeroDecimal_value[OF v(2)] v(4) have nz: "be_nat b \<noteq> 0" by auto
  from Some obtain t where e: "e = VarExpression t x" by (auto simp: varName_def split: expr.splits)
  have "w = VB b" if "sval ev K \<sigma> e w" for w
    using svalE[OF that ok_cache_base] sem_var[of "\<sigma>\<lparr>cache := cache \<sigma> |` (- K)\<rparr>" x "VB b" t] v(3) e by fastforce
  with assms(1) nz show ?thesis by (auto simp: yval_def bigIs_def sbig_def)
qed

lemma safeDivMod_correct:
  assumes "yval ev K \<sigma> l m" "yval ev K \<sigma> r n" "wide_ok wide \<sigma>" "covers K s" "oper = BigFloorDiv \<or> oper = BigMod"
  shows "built (safeDivMod wide l oper r) s
    (yields ev K \<sigma> s (guarded_op oper m n))"
proof (cases "divisorIsKnownNonZero wide r")
  case True
  from known_nonzero[OF assms(2) True assms(3)] have "n \<noteq> 0" .
  then have bin: "bigIs ev K \<sigma> (makeBigUIntBinOp l' oper r') (guarded_op oper m n)"
    if "bigIs ev K \<sigma> l' m" "bigIs ev K \<sigma> r' n" for l' r'
    using bigIs_bin(4,5)[OF that] assms(5) by (auto simp: guarded_op_def)
  show ?thesis unfolding safeDivMod_def if_P[OF True] built_bind
    by (rule built_ensure[OF assms(2)], rule built_asmBin[OF assms(1) yval_big], assumption)
       (intro conjI bin refl assms(4))
next
  case False
  have "built (makeEvalOnce r') s (\<lambda>right s'. built (asmBigUIntBinOp l oper right) s' (\<lambda>d s'.
      yields ev K \<sigma> s (guarded_op oper m n)
        (makeConditional (makeNumericCompare right Ne (makeBiguintConstant ''0'')) d (makeBiguintConstant ''0'') biguintType) s'))"
    if "bigIs ev K \<sigma> r' n" for r'
  proof (rule big_evalOnce[OF that assms(4)])
    fix right s'
    assume r: "bigIs ev K \<sigma> right n" "covers K s'" "preEffects s' = preEffects s"
    show "built (asmBigUIntBinOp l oper right) s' (\<lambda>d s'.
      yields ev K \<sigma> s (guarded_op oper m n)
        (makeConditional (makeNumericCompare right Ne (makeBiguintConstant ''0'')) d (makeBiguintConstant ''0'') biguintType) s')"
    proof (rule built_asmBin[OF assms(1) yval_big[OF r(1)]])
      fix l' r'' assume lr: "bigIs ev K \<sigma> l' m" "bigIs ev K \<sigma> r'' n"
      have z: "bigIs ev K \<sigma> (makeBiguintConstant ''0'') 0" by (rule bigIs_biguintConst) simp_all
      have c: "sbool ev K \<sigma> (makeNumericCompare right Ne (makeBiguintConstant ''0'')) (num_cmp Ne n 0)"
        by (rule bigIs_cmp[OF r(1) z])
      have d: "bigIs ev K \<sigma> (makeBigUIntBinOp l' oper r'') (if oper = BigMod then m mod n else m div n)" if "n \<noteq> 0"
        using bigIs_bin(4,5)[OF lr that] assms(5) by auto
      have "bigIs ev K \<sigma> (makeConditional (makeNumericCompare right Ne (makeBiguintConstant ''0''))
          (makeBigUIntBinOp l' oper r'') (makeBiguintConstant ''0'') biguintType)
          (if num_cmp Ne n 0 then (if oper = BigMod then m mod n else m div n) else 0)"
        by (rule bigIs_cond[OF c d z]) simp
      moreover have "(if num_cmp Ne n 0 then (if oper = BigMod then m mod n else m div n) else 0) = guarded_op oper m n"
        by (simp add: guarded_op_def)
      ultimately show "yields ev K \<sigma> s (guarded_op oper m n)
        (makeConditional (makeNumericCompare right Ne (makeBiguintConstant ''0''))
          (makeBigUIntBinOp l' oper r'') (makeBiguintConstant ''0'') biguintType) s'" using r(2,3) by simp
    qed
  qed
  with False show ?thesis unfolding safeDivMod_def
    by (simp add: Let_def, intro built_ensure[OF assms(2)]) simp
qed

lemma mod_correct:
  assumes "yword ev K \<sigma> a m" "yword ev K \<sigma> b n" "wide_ok wide \<sigma>" "covers K s"
  shows "built (handleMod wide [a, b]) s (\<lambda>r s'. \<exists>e. r = Some e \<and> yields ev K \<sigma> s (guarded_op BigMod m n) e s')"
  using safeDivMod_correct[of K \<sigma> a m b n wide s BigMod] assms by (simp add: handleMod_def yword_def)

lemma div_correct:
  assumes "yword ev K \<sigma> a m" "yword ev K \<sigma> b n" "wide_ok wide \<sigma>" "covers K s"
  shows "built (handleDiv wide [a, b]) s (\<lambda>r s'. \<exists>e. r = Some e \<and> yields ev K \<sigma> s (guarded_op BigFloorDiv m n) e s')"
proof -
  from assms(1) obtain a' where a: "ensureBiguint a = ret a'" "bigIs ev K \<sigma> a' m" by (auto simp: yword_def elim: ensure_word)
  from assms(2) obtain b' where b: "ensureBiguint b = ret b'" "bigIs ev K \<sigma> b' n" by (auto simp: yword_def elim: ensure_word)
  have w: "bigIs ev K \<sigma> (wrapMod256 a') m" "bigIs ev K \<sigma> (wrapMod256 b') n"
    using bigIs_wrap[OF a(2)] bigIs_wrap[OF b(2)] assms(1,2) by (simp_all add: yword_def)
  from safeDivMod_correct[OF yval_big[OF w(1)] yval_big[OF w(2)] assms(3,4), of BigFloorDiv] a b
  show ?thesis by (simp add: handleDiv_def bigIs_def)
qed

lemma addmod_correct:
  assumes "yword ev K \<sigma> a m" "yword ev K \<sigma> b n" "yword ev K \<sigma> c k" "wide_ok wide \<sigma>" "covers K s"
  shows "built (handleAddmod wide [a, b, c]) s (\<lambda>r s'. \<exists>e. r = Some e \<and> yields ev K \<sigma> s (guarded_op BigMod (m + n) k) e s')"
proof -
  have y: "yval ev K \<sigma> a m" "yval ev K \<sigma> b n" "yval ev K \<sigma> c k" and lt: "m + n < 2 ^ 512"
    using assms(1-3) word_arith[of m n] by (simp_all add: yword_def)
  have "built (safeDivMod wide (makeBigUIntBinOp l BigAdd r) BigMod c) s (yields ev K \<sigma> s (guarded_op BigMod (m + n) k))"
    if "bigIs ev K \<sigma> l m" "bigIs ev K \<sigma> r n" for l r
    by (rule safeDivMod_correct[OF yval_big[OF bigIs_bin(1)[OF that lt]] y(3) assms(4,5)]) simp
  then show ?thesis unfolding handleAddmod_def
    by (simp, intro built_asmBin[OF y(1,2)]) simp
qed

lemma mulmod_correct:
  assumes "yword ev K \<sigma> a m" "yword ev K \<sigma> b n" "yword ev K \<sigma> c k" "wide_ok wide \<sigma>" "covers K s"
  shows "built (handleMulmod wide [a, b, c]) s (\<lambda>r s'. \<exists>e. r = Some e \<and> yields ev K \<sigma> s (guarded_op BigMod (m * n) k) e s')"
proof -
  have y: "yval ev K \<sigma> a m" "yval ev K \<sigma> b n" "yval ev K \<sigma> c k" and lt: "m * n < 2 ^ 512"
    using assms(1-3) word_arith[of m n] by (simp_all add: yword_def)
  have "built (safeDivMod wide (makeBigUIntBinOp l BigMult r) BigMod c) s (yields ev K \<sigma> s (guarded_op BigMod (m * n) k))"
    if "bigIs ev K \<sigma> l m" "bigIs ev K \<sigma> r n" for l r
    by (rule safeDivMod_correct[OF yval_big[OF bigIs_bin(2)[OF that lt]] y(3) assms(4,5)]) simp
  then show ?thesis unfolding handleMulmod_def
    by (simp, intro built_asmBin[OF y(1,2)]) simp
qed

lemma compare_correct:
  assumes "yword ev K \<sigma> a m" "yword ev K \<sigma> b n" "covers K s"
  shows "built (makeYulCompare cmp name [a, b]) s (\<lambda>r s'. \<exists>e. r = Some e \<and> boolIs ev K \<sigma> e (num_cmp cmp m n) \<and> s' = s)"
  unfolding makeYulCompare_def using assms
  by (simp, intro built_ensure[of K \<sigma> a m] built_ensure[of K \<sigma> b n])
     (simp_all add: yword_def boolIs_def bigIs_cmp)

lemma iszero_correct:
  assumes "yword ev K \<sigma> a m" "covers K s"
  shows "built (handleIszero [a]) s (\<lambda>r s'. \<exists>e. r = Some e \<and> boolIs ev K \<sigma> e (m = 0) \<and> s' = s)"
proof (cases "wtypeOf a = boolType")
  case True
  with assms(1) obtain p where p: "sbool ev K \<sigma> a p" "m = of_bool p" by (auto simp: yword_def yval_def bigIs_def)
  from sval_not[OF p(1), of boolType] True p(2) show ?thesis
    by (simp add: handleIszero_def boolIs_def makeNot_def intLiteral_def)
next
  case False
  have "sbool ev K \<sigma> (makeNumericCompare a' Eq (makeBiguintConstant ''0'')) (m = 0)" if "bigIs ev K \<sigma> a' m" for a'
    using bigIs_cmp[OF that, of "makeBiguintConstant ''0''" 0 Eq] bigIs_biguintConst[of "''0''" 0] by simp
  with False assms show ?thesis unfolding handleIszero_def
    by (simp, intro built_ensure[of K \<sigma> a m]) (auto simp: yword_def boolIs_def)
qed

text \<open>Bitwise operations on the byte representations.\<close>

lemma bigIs_bitop:
  assumes "bigIs ev K \<sigma> a m" "bigIs ev K \<sigma> b n" "oper \<in> {''b&'', ''b|'', ''b^''}"
    and "\<And>x y. avm_op oper [] [VB x, VB y] = Some (VB (bytes_bitop f x y))"
    and "\<And>x y. be_nat (bytes_bitop f x y) = g (be_nat x) (be_nat y)"
  shows "bigIs ev K \<sigma> (makeAsBiguint (makeIntrinsicCall oper bytesType [] [makeAsBytes a, makeAsBytes b])) (g m n)"
proof -
  from assms(1,2) obtain x y where x: "sbytes ev K \<sigma> a x" "be_nat x = m" "length x \<le> 64"
    and y: "sbytes ev K \<sigma> b y" "be_nat y = n" "length y \<le> 64" by (auto simp: bigIs_def sbig_def)
  have "sbytes ev K \<sigma> (makeAsBiguint (makeIntrinsicCall oper bytesType [] [makeAsBytes a, makeAsBytes b])) (bytes_bitop f x y)"
    unfolding makeAsBiguint_def makeAsBytes_def makeReinterpretCast_def makeIntrinsicCall_def
    by (intro sval_cast sval_op[where vs = "[VB x, VB y]"]) (use x y assms(3,4) in \<open>auto simp: pure_ops_def intro: sval_cast\<close>)
  from sbigI[OF this] x y assms(5) show ?thesis by (simp add: bigIs_def)
qed

lemma bitwise_correct:
  assumes "yword ev K \<sigma> a m" "yword ev K \<sigma> b n" "covers K s"
  shows "built (handleAnd [a, b]) s (\<lambda>r s'. \<exists>e. r = Some e \<and> yields ev K \<sigma> s (m AND n) e s')"
    and "built (handleOr [a, b]) s (\<lambda>r s'. \<exists>e. r = Some e \<and> yields ev K \<sigma> s (m OR n) e s')"
    and "built (handleXor [a, b]) s (\<lambda>r s'. \<exists>e. r = Some e \<and> yields ev K \<sigma> s (m XOR n) e s')"
proof -
  have y: "yval ev K \<sigma> a m" "yval ev K \<sigma> b n" using assms by (simp_all add: yword_def)
  have ops: "avm_op ''b&'' [] [VB x, VB y] = Some (VB (bytes_bitop (AND) x y))"
    "avm_op ''b|'' [] [VB x, VB y] = Some (VB (bytes_bitop (OR) x y))"
    "avm_op ''b^'' [] [VB x, VB y] = Some (VB (bytes_bitop (XOR) x y))" for x y by (simp_all add: avm_op_def)
  note bin = bigIs_bitop[where f = "(AND)" and g = "(AND)", OF _ _ _ ops(1) be_nat_bytes_and]
    bigIs_bitop[where f = "(OR)" and g = "(OR)", OF _ _ _ ops(2) be_nat_bytes_or]
    bigIs_bitop[where f = "(XOR)" and g = "(XOR)", OF _ _ _ ops(3) be_nat_bytes_xor]
  show "built (handleAnd [a, b]) s (\<lambda>r s'. \<exists>e. r = Some e \<and> yields ev K \<sigma> s (m AND n) e s')"
    "built (handleOr [a, b]) s (\<lambda>r s'. \<exists>e. r = Some e \<and> yields ev K \<sigma> s (m OR n) e s')"
    "built (handleXor [a, b]) s (\<lambda>r s'. \<exists>e. r = Some e \<and> yields ev K \<sigma> s (m XOR n) e s')"
    unfolding handleAnd_def handleOr_def handleXor_def makeYulBitwise_def
    by (simp, intro built_ensure[OF y(1)] built_ensure[OF y(2)], simp add: bin assms(3))+
qed

lemma padTo32_correct:
  assumes "sbytes ev K \<sigma> e b" "length b \<le> 64" "covers K s"
  shows "built (padTo32Bytes e) s (\<lambda>e' s'. sbytes ev K \<sigma> e' (be_fixed 32 (be_nat b)) \<and> covers K s' \<and> preEffects s' = preEffects s)"
  unfolding padTo32Bytes_def
proof (rule built_extractLastN)
  show "sbytes ev K \<sigma> (makeLeftPad (makeAsBytes e) 32) (replicate 32 0 @ b)"
    unfolding makeAsBytes_def makeReinterpretCast_def using assms(1,2) by (intro sbytes_leftPad sval_cast) simp_all
qed (use assms(2,3) drop_pad[of b 32] in auto)

lemma not_correct:
  assumes "yword ev K \<sigma> a m" "covers K s"
  shows "built (handleNot [a]) s (\<lambda>r s'. \<exists>e. r = Some e \<and> yields ev K \<sigma> s (W256 - 1 - m) e s')"
proof -
  have "built (padTo32Bytes a') s (\<lambda>p s'. yields ev K \<sigma> s (W256 - 1 - m) (makeAsBiguint (makeIntrinsicCall ''b~'' bytesType [] [p])) s')"
    if a': "bigIs ev K \<sigma> a' m" for a'
  proof -
    from a' obtain b where b: "sbytes ev K \<sigma> a' b" "be_nat b = m" "length b \<le> 64" by (auto simp: bigIs_def sbig_def)
    have val: "bigIs ev K \<sigma> (makeAsBiguint (makeIntrinsicCall ''b~'' bytesType [] [p])) (W256 - 1 - m)"
      if p: "sbytes ev K \<sigma> p (be_fixed 32 m)" for p
    proof -
      have "sbytes ev K \<sigma> (makeAsBiguint (makeIntrinsicCall ''b~'' bytesType [] [p])) (map NOT (be_fixed 32 m))"
        unfolding makeAsBiguint_def makeReinterpretCast_def makeIntrinsicCall_def
        by (intro sval_cast sval_op[where vs = "[VB (be_fixed 32 m)]"]) (use p in \<open>simp_all add: pure_ops_def avm_op_def del: be_fixed.simps\<close>)
      moreover have "be_nat (map NOT (be_fixed 32 m)) = W256 - 1 - m"
        using assms(1) by (simp add: be_nat_bytes_not be_nat_be_fixed yword_def W256_def)
      ultimately show ?thesis using sbigI[of ev K \<sigma> _ "map NOT (be_fixed 32 m)"] by (simp add: bigIs_def)
    qed
    from padTo32_correct[OF b(1,3) assms(2)] show ?thesis
      by (rule built_mono) (use val b(2) in auto)
  qed
  with assms show ?thesis unfolding handleNot_def
    by (simp, intro built_ensure[of K \<sigma> a m]) (simp_all add: yword_def)
qed

text \<open>Shifts.\<close>

lemma power_correct:
  assumes "bigIs ev K \<sigma> shift n" "covers K s"
  shows "built (buildPowerOf2 shift) s (yields ev K \<sigma> s (2 ^ (n mod 256)))"
proof -
  from assms(1) have t: "wtypeOf shift \<noteq> uint64Type" and n: "sbig ev K \<sigma> shift n" by (simp_all add: bigIs_def)
  from sbytes_pad_cast[OF n, of 8] obtain b where
    b: "sbytes ev K \<sigma> (makeLeftPad (makeAsBytes shift) 8) (replicate 8 0 @ b)" "be_nat b = n" "length b \<le> 64" by auto
  have "built (makeExtractLastN (makeLeftPad (makeAsBytes shift) 8) 8) s (\<lambda>low s'. yields ev K \<sigma> s (2 ^ (n mod 256))
     (makeAsBiguint (makeSetbit (makeBzero 32) (makeUInt64BinOp (makeIntegerConstant ''255'' uint64Type) U64Sub
        (makeUInt64BinOp (makeBtoi low None) U64Mod (makeIntegerConstant ''256'' uint64Type))) (makeOne uint64Type))) s')"
  proof (rule built_extractLastN[OF b(1) _ _ assms(2)])
    fix low s'
    assume l: "sbytes ev K \<sigma> low (drop (length (replicate 8 (0::byte) @ b) - 8) (replicate 8 0 @ b))"
      "covers K s'" "preEffects s' = preEffects s"
    have "sbytes ev K \<sigma> low (be_fixed 8 n)" using l(1) drop_pad[of b 8] b(2) by simp
    from su64_btoi[OF this, of None] have a: "su64 ev K \<sigma> (makeBtoi low None) (n mod 2 ^ 64)"
      by (simp add: be_nat_be_fixed)
    have k: "su64 ev K \<sigma> (makeIntegerConstant ''256'' uint64Type) 256" "su64 ev K \<sigma> (makeIntegerConstant ''255'' uint64Type) 255"
      unfolding makeIntegerConstant_def by (rule sval_int64; simp)+
    have "n mod 2 ^ 64 mod 256 = n mod 256" using mod_mod_cancel[of 256 "2 ^ 64" n] by simp
    then have m: "su64 ev K \<sigma> (makeUInt64BinOp (makeBtoi low None) U64Mod (makeIntegerConstant ''256'' uint64Type)) (n mod 256)"
      unfolding makeUInt64BinOp_def by (intro sval_u64_bin[OF a k(1)]) simp
    have "n mod 256 \<le> 255" by simp
    then have "su64 ev K \<sigma> (makeUInt64BinOp (makeIntegerConstant ''255'' uint64Type) U64Sub
        (makeUInt64BinOp (makeBtoi low None) U64Mod (makeIntegerConstant ''256'' uint64Type))) (255 - n mod 256)"
      unfolding makeUInt64BinOp_def[of _ U64Sub] by (intro sval_u64_bin[OF k(2) m]) simp
    from sbig_setbit[OF this] l(2,3)
    show "yields ev K \<sigma> s (2 ^ (n mod 256)) (makeAsBiguint (makeSetbit (makeBzero 32) (makeUInt64BinOp (makeIntegerConstant ''255'' uint64Type) U64Sub
        (makeUInt64BinOp (makeBtoi low None) U64Mod (makeIntegerConstant ''256'' uint64Type))) (makeOne uint64Type))) s'"
      by (simp add: bigIs_def)
  qed (use b(3) in simp_all)
  then show ?thesis using t by (simp add: buildPowerOf2_def Let_def)
qed

text \<open>The common part of both shifts: the pinned amount, the reduced value and the power of two.\<close>

lemma shift_operands:
  assumes "yval ev K \<sigma> a n" "yval ev K \<sigma> b v" "v < W256" "covers K s"
    and "\<And>shift val power s'. bigIs ev K \<sigma> shift n \<Longrightarrow> bigIs ev K \<sigma> val v \<Longrightarrow> bigIs ev K \<sigma> power (2 ^ (n mod 256)) \<Longrightarrow>
      covers K s' \<Longrightarrow> preEffects s' = preEffects s \<Longrightarrow> Q shift val power s'"
  shows "built (ensureBiguint a) s (\<lambda>s1 st1. built (makeEvalOnce s1) st1 (\<lambda>shift st2. built (ensureBiguint b) st2
    (\<lambda>w st3. built (asmWrapMod256 w) st3 (\<lambda>val st4. built (buildPowerOf2 shift) st4 (\<lambda>power st5. Q shift val power st5)))))"
proof (rule built_ensure[OF assms(1)], rule big_evalOnce[OF _ assms(4)], assumption, rule built_ensure[OF assms(2)])
  fix e' shift w and s1 :: bst
  assume s: "bigIs ev K \<sigma> shift n" "covers K s1" "preEffects s1 = preEffects s" and w: "bigIs ev K \<sigma> w v"
  have v: "bigIs ev K \<sigma> (wrapMod256 w) v" using bigIs_wrap[OF w] assms(3) by simp
  show "built (asmWrapMod256 w) s1 (\<lambda>val st4. built (buildPowerOf2 shift) st4 (\<lambda>power st5. Q shift val power st5))"
    unfolding wrap_word[OF w] by (rule built_mono[OF power_correct[OF s(1,2)]]) (use assms(5) s v in auto)
qed

lemma cond_lt256:
  assumes "bigIs ev K \<sigma> shift n" "bigIs ev K \<sigma> r x"
  shows "bigIs ev K \<sigma> (makeConditional (makeNumericCompare shift Lt (makeIntegerConstant ''256'' biguintType)) r
    (makeIntegerConstant ''0'' biguintType) biguintType) (if n < 256 then x else 0)"
proof -
  have k: "bigIs ev K \<sigma> (makeIntegerConstant ''256'' biguintType) 256" "bigIs ev K \<sigma> (makeIntegerConstant ''0'' biguintType) 0"
    by (rule bigIs_const; simp)+
  from bigIs_cond[OF bigIs_cmp[OF assms(1) k(1)] assms(2) k(2), of Lt] show ?thesis by simp
qed

lemma shlBody_correct:
  assumes "yval ev K \<sigma> a n" "yval ev K \<sigma> b v" "v < W256" "covers K s"
  shows "built (shlBody a b) s (yields ev K \<sigma> s (shl_val n v))"
  unfolding shlBody_def built_bind Let_def
proof (rule shift_operands[OF assms])
  fix shift val power s'
  assume h: "bigIs ev K \<sigma> shift n" "bigIs ev K \<sigma> val v" "bigIs ev K \<sigma> power (2 ^ (n mod 256))" "covers K s'" "preEffects s' = preEffects s"
  have "(2::nat) ^ (n mod 256) < W256" unfolding W256_def by (rule power_strict_increasing) simp_all
  from word_arith(2)[OF assms(3) this] have p: "bigIs ev K \<sigma> (makeBigUIntBinOp val BigMult power) (v * 2 ^ (n mod 256))"
    by (rule bigIs_bin(2)[OF h(2,3)])
  from cond_lt256[OF h(1) bigIs_wrap[OF p]] h show "built (asmBigUIntBinOp val BigMult power) s' (\<lambda>a s'. built (asmWrapMod256 a) s'
     (\<lambda>a s'. built (ret (makeConditional (makeNumericCompare shift Lt (makeIntegerConstant ''256'' biguintType)) a
        (makeIntegerConstant ''0'' biguintType) biguintType)) s' (yields ev K \<sigma> s (shl_val n v))))"
    by (simp add: bigIs_def shl_val_def split: if_splits)
qed

lemma shrBody_correct:
  assumes "yval ev K \<sigma> a n" "yval ev K \<sigma> b v" "v < W256" "covers K s"
  shows "built (shrBody a b) s (yields ev K \<sigma> s (shr_val n v))"
  unfolding shrBody_def built_bind Let_def
proof (rule shift_operands[OF assms])
  fix shift val power s'
  assume h: "bigIs ev K \<sigma> shift n" "bigIs ev K \<sigma> val v" "bigIs ev K \<sigma> power (2 ^ (n mod 256))" "covers K s'" "preEffects s' = preEffects s"
  have p: "bigIs ev K \<sigma> (makeBigUIntBinOp val BigFloorDiv power) (v div 2 ^ (n mod 256))"
    by (rule bigIs_bin(4)[OF h(2,3)]) simp
  from cond_lt256[OF h(1) p] h show "built (asmBigUIntBinOp val BigFloorDiv power) s'
     (\<lambda>a s'. built (ret (makeConditional (makeNumericCompare shift Lt (makeIntegerConstant ''256'' biguintType)) a
        (makeIntegerConstant ''0'' biguintType) biguintType)) s' (yields ev K \<sigma> s (shr_val n v)))"
    by (simp add: bigIs_def shr_val_def split: if_splits)
qed

end

end
