(* ===== verification/YulSigned.thy ===== *)
theory YulSigned
  imports YulCorrect
begin

text \<open>
  The signed builtins \<open>sdiv\<close>, \<open>smod\<close>, \<open>slt\<close>, \<open>sgt\<close> and \<open>sar\<close>, and \<open>byte\<close>, \<open>signextend\<close> and
  \<open>exp\<close>, which are built from the others.
\<close>

section \<open>Two's complement facts at 256 bits\<close>

abbreviation sgn256 :: "nat \<Rightarrow> int" where "sgn256 \<equiv> signed_of 256"
abbreviation tc256 :: "int \<Rightarrow> nat" where "tc256 \<equiv> twos 256"

lemma tc256_less [simp]: "tc256 z < W256"
  unfolding W256_def by (rule twos_less)

lemma neg_at_256: "neg_at 256 v \<longleftrightarrow> 2 ^ 255 \<le> v"
  by (simp add: not_less)

lemma mag_less: "v < W256 \<Longrightarrow> mag 256 v < W256"
  using mag_le[of 256 v] unfolding W256_def by simp

lemma tc256_negate: "q < W256 \<Longrightarrow> (W256 - q) mod W256 = (if q \<noteq> 0 then W256 - q else q)"
  by (auto simp: W256_def)

lemma tc256_sdiv:
  assumes "a < W256" "b < W256"
  shows "tc256 (sgn256 a sdiv sgn256 b) =
    (if (2 ^ 255 \<le> a) \<noteq> (2 ^ 255 \<le> b) then (W256 - mag 256 a div mag 256 b) mod W256 else mag 256 a div mag 256 b)"
proof -
  have "mag 256 a div mag 256 b < W256" by (rule le_less_trans[OF div_le_dividend mag_less[OF assms(1)]])
  from tc256_negate[OF this] twos_sdiv[of 256 a b] assms show ?thesis
    unfolding neg_at_256 W256_def by (auto split: if_splits)
qed

lemma tc256_smod:
  assumes "a < W256" "b < W256" "b \<noteq> 0"
  shows "tc256 (sgn256 a smod sgn256 b) =
    (if 2 ^ 255 \<le> a then (W256 - mag 256 a mod mag 256 b) mod W256 else mag 256 a mod mag 256 b)"
proof -
  have "mag 256 a mod mag 256 b < W256" by (rule le_less_trans[OF mod_less_eq_dividend mag_less[OF assms(1)]])
  from tc256_negate[OF this] twos_smod[of 256 a b] assms show ?thesis
    unfolding neg_at_256 W256_def by (auto split: if_splits)
qed

lemma pred_div:
  fixes a b :: nat
  assumes "0 < a" "0 < b"
  shows "(a * b - 1) div b = a - 1"
proof (rule div_nat_eqI)
  show "b * (a - 1) \<le> a * b - 1" "a * b - 1 < b * Suc (a - 1)"
    using assms by (cases a; cases b; simp add: algebra_simps)+
qed

lemma tc256_sar:
  assumes "v < W256"
  shows "tc256 (sgn256 v div 2 ^ n) =
    (if 2 ^ 255 \<le> v then shr_val n v OR (W256 - 1 - shr_val n (W256 - 1)) else shr_val n v)"
proof (cases "n < 256")
  case True
  have pw: "W256 = 2 ^ (256 - n) * 2 ^ n" unfolding W256_def using True by (simp flip: power_add)
  have q: "(W256 - 1) div 2 ^ n = 2 ^ (256 - n) - 1" unfolding pw by (rule pred_div) simp_all
  have le: "(2::nat) ^ (256 - n) \<le> W256" unfolding W256_def by (rule power_increasing) simp_all
  then have f: "W256 - 1 - shr_val n (W256 - 1) = 2 ^ 256 - 2 ^ (256 - n)"
    using True q unfolding shr_val_def W256_def by simp
  have "(2::nat) ^ 256 = 2 ^ (256 - n) * 2 ^ n" using True by (simp flip: power_add)
  with assms have "v div 2 ^ n < 2 ^ (256 - n)" unfolding W256_def by (intro less_mult_imp_div_less) simp
  from or_high_ones[OF this, of 256] twos_sar[of 256 v n] signed_div_pos[of 256 v n] assms True show ?thesis
    unfolding f unfolding shr_val_def neg_at_256 W256_def by auto
next
  case False
  with signed_div_saturates[of 256 v n] assms show ?thesis
    unfolding shr_val_def neg_at_256 W256_def by (auto simp: twos_def)
qed

section \<open>The handlers\<close>

text \<open>The trees that \<open>negate256\<close> and \<open>absWord\<close> return on a \<open>biguint\<close>.\<close>

definition negWord :: "expr \<Rightarrow> expr" where
  "negWord e = wrapMod256 (makeBigUIntBinOp (makeBigUIntBinOp (makeIntegerConstant pow256Minus1 biguintType) BigSub e)
     BigAdd (makeBiguintConstant ''1''))"

definition magWord :: "expr \<Rightarrow> expr" where
  "magWord e = makeConditional (isNegative256 e None) (negWord e) e biguintType"

text \<open>The smallest number that a sign test reads as negative, and what \<open>slt\<close> computes with it.\<close>

definition sign_threshold :: "wtype \<Rightarrow> nat" where
  "sign_threshold t = (if t = uint64Type then 2 ^ 63 else 2 ^ 255)"

definition slt_val :: "wtype \<Rightarrow> wtype \<Rightarrow> nat \<Rightarrow> nat \<Rightarrow> bool" where
  "slt_val t u m n =
     (if (sign_threshold t \<le> m) = (sign_threshold u \<le> n) then m < n else sign_threshold t \<le> m)"

lemma two63: "nat_of_dec ''9223372036854775808'' = Some 9223372036854775808"
  by (simp add: nat_of_dec_def dec_value_def is_digit_def)

lemma slt_val_zero: "slt_val t u m 0 \<longleftrightarrow> sign_threshold t \<le> m" "slt_val t u 0 n \<longleftrightarrow> 0 < n \<and> n < sign_threshold u"
  by (auto simp: slt_val_def sign_threshold_def)

lemma slt_val_signed:
  assumes "m < W256" "n < W256" "t = uint64Type \<Longrightarrow> m < 2 ^ 63" "u = uint64Type \<Longrightarrow> n < 2 ^ 63"
  shows "slt_val t u m n \<longleftrightarrow> sgn256 m < sgn256 n"
  using assms unfolding slt_val_def sign_threshold_def signed_of_def W256_def by (auto split: if_splits)

lemma negate256_ret [simp]: "wtypeOf e = biguintType \<Longrightarrow> negate256 e = ret (negWord e)"
  by (simp add: negate256_def negWord_def)

lemma absWord_ret [simp]: "wtypeOf e = biguintType \<Longrightarrow> absWord e = ret (magWord e)"
  by (simp add: absWord_def magWord_def)

lemma wtype_magWord [simp]: "wtypeOf (magWord e) = biguintType"
  by (simp add: magWord_def)

context avm
begin

lemma bigIs_max: "bigIs ev K \<sigma> (makeIntegerConstant pow256Minus1 biguintType) (W256 - 1)"
  "bigIs ev K \<sigma> (makeBiguintConstant pow256Minus1) (W256 - 1)"
  unfolding makeBiguintConstant_def by (rule bigIs_const; simp add: nat_of_pow256Minus1 W256_def)+

lemma bigIs_small: "bigIs ev K \<sigma> (makeBiguintConstant ''0'') 0" "bigIs ev K \<sigma> (makeBiguintConstant ''1'') 1"
  by (rule bigIs_biguintConst; simp)+

lemma sbool_negative: "bigIs ev K \<sigma> e n \<Longrightarrow> sbool ev K \<sigma> (isNegative256 e None) (2 ^ 255 \<le> n)"
  unfolding isNegative256_def bigIs_def by (simp add: sbool_isNegative256[simplified])

lemma negate_word:
  assumes "bigIs ev K \<sigma> e n" "n < W256"
  shows "bigIs ev K \<sigma> (negWord e) ((W256 - n) mod W256)"
proof -
  let ?sub = "makeBigUIntBinOp (makeIntegerConstant pow256Minus1 biguintType) BigSub e"
  have s: "bigIs ev K \<sigma> ?sub (W256 - 1 - n)" by (rule bigIs_bin(3)[OF bigIs_max(1) assms(1)]) (use assms(2) in simp)
  have "W256 - 1 - n + 1 < 2 ^ 512" using W256_bounds by linarith
  from bigIs_wrap[OF bigIs_bin(1)[OF s bigIs_small(2) this]] assms(2)
  show ?thesis unfolding negWord_def by (simp add: Suc_diff_Suc)
qed

lemma abs_word:
  assumes "bigIs ev K \<sigma> e n" "n < W256"
  shows "bigIs ev K \<sigma> (magWord e) (mag 256 n)"
proof -
  have "(if 2 ^ 255 \<le> n then (W256 - n) mod W256 else n) = mag 256 n"
    using assms(2) unfolding mag_def neg_at_256 W256_def by auto
  with bigIs_cond[OF sbool_negative[OF assms(1)] negate_word[OF assms] assms(1)] show ?thesis
    by (simp add: magWord_def)
qed

lemma ensure_bool:
  assumes "wtypeOf e = boolType" "sbool ev K \<sigma> e p"
  obtains e' where "ensureBiguint e = ret e'" "bigIs ev K \<sigma> e' (of_bool p)"
proof -
  have "bigIs ev K \<sigma> (makeConditional e (makeBiguintConstant ''1'') (makeBiguintConstant ''0'') biguintType) (if p then 1 else 0)"
    by (intro bigIs_cond assms(2) bigIs_small)
  with assms(1) show thesis
    by (intro that[of "makeConditional e (makeBiguintConstant ''1'') (makeBiguintConstant ''0'') biguintType"])
       (simp_all add: ensureBiguint_def of_bool_def)
qed

text \<open>The zero-divisor guard of the signed divisions.\<close>

lemma nonzero_guard:
  assumes "bigIs ev K \<sigma> b n" "n \<noteq> 0 \<Longrightarrow> bigIs ev K \<sigma> r x"
  shows "bigIs ev K \<sigma> (makeConditional (makeNumericCompare b Ne (makeBiguintConstant ''0'')) r
    (makeBiguintConstant ''0'') biguintType) (if n = 0 then 0 else x)"
proof -
  have "bigIs ev K \<sigma> (makeConditional (makeNumericCompare b Ne (makeBiguintConstant ''0'')) r
    (makeBiguintConstant ''0'') biguintType) (if num_cmp Ne n 0 then x else 0)"
    by (rule bigIs_cond[OF bigIs_cmp[OF assms(1) bigIs_small(1)]]) (simp_all add: assms(2) bigIs_small)
  moreover have "(if num_cmp Ne n 0 then x else 0) = (if n = 0 then 0 else x)" by simp
  ultimately show ?thesis by (simp only:)
qed

lemma sdiv_correct:
  assumes "yword ev K \<sigma> a m" "yword ev K \<sigma> b n" "covers K s"
  shows "built (handleSdiv [a, b]) s (\<lambda>r s'. \<exists>e. r = Some e \<and>
    yields ev K \<sigma> s (if n = 0 then 0 else tc256 (sgn256 m sdiv sgn256 n)) e s')"
proof -
  have lt: "m < W256" "n < W256" using assms(1,2) by (simp_all add: yword_def)
  from assms(1) obtain a' where a: "ensureBiguint a = ret a'" "bigIs ev K \<sigma> a' m" by (auto simp: yword_def elim: ensure_word)
  from assms(2) obtain b' where b: "ensureBiguint b = ret b'" "bigIs ev K \<sigma> b' n" by (auto simp: yword_def elim: ensure_word)
  from ensure_bool[OF _ sbool_negative[OF a(2)]] obtain na where na: "ensureBiguint (isNegative256 a' None) = ret na"
    "bigIs ev K \<sigma> na (of_bool (2 ^ 255 \<le> m))" by auto
  from ensure_bool[OF _ sbool_negative[OF b(2)]] obtain nb where nb: "ensureBiguint (isNegative256 b' None) = ret nb"
    "bigIs ev K \<sigma> nb (of_bool (2 ^ 255 \<le> n))" by auto
  let ?q = "makeBigUIntBinOp (magWord a') BigFloorDiv (magWord b')" and ?k = "mag 256 m div mag 256 n"
  have "bigIs ev K \<sigma> (makeConditional (makeNumericCompare na Ne nb) (negWord ?q) ?q biguintType) (tc256 (sgn256 m sdiv sgn256 n))" if "n \<noteq> 0"
  proof -
    have "mag 256 n \<noteq> 0" using that lt(2) unfolding mag_def W256_def by auto
    from bigIs_bin(4)[OF abs_word[OF a(2) lt(1)] abs_word[OF b(2) lt(2)] this] have q: "bigIs ev K \<sigma> ?q ?k" .
    have "?k < W256" by (rule le_less_trans[OF div_le_dividend mag_less[OF lt(1)]])
    from bigIs_cond[OF bigIs_cmp[OF na(2) nb(2)] negate_word[OF q this] q, of Ne] show ?thesis
      unfolding tc256_sdiv[OF lt] by (simp add: of_bool_eq_iff)
  qed
  from nonzero_guard[OF b(2) this] a b na(1) nb(1) assms(3) show ?thesis
    by (simp add: handleSdiv_def Let_def bigIs_def split: if_splits)
qed

lemma smod_correct:
  assumes "yword ev K \<sigma> a m" "yword ev K \<sigma> b n" "covers K s"
  shows "built (handleSmod [a, b]) s (\<lambda>r s'. \<exists>e. r = Some e \<and>
    yields ev K \<sigma> s (if n = 0 then 0 else tc256 (sgn256 m smod sgn256 n)) e s')"
proof -
  have lt: "m < W256" "n < W256" using assms(1,2) by (simp_all add: yword_def)
  from assms(1) obtain a' where a: "ensureBiguint a = ret a'" "bigIs ev K \<sigma> a' m" by (auto simp: yword_def elim: ensure_word)
  from assms(2) obtain b' where b: "ensureBiguint b = ret b'" "bigIs ev K \<sigma> b' n" by (auto simp: yword_def elim: ensure_word)
  let ?q = "makeBigUIntBinOp (magWord a') BigMod (magWord b')" and ?k = "mag 256 m mod mag 256 n"
  have "bigIs ev K \<sigma> (makeConditional (isNegative256 a' None) (negWord ?q) ?q biguintType) (tc256 (sgn256 m smod sgn256 n))" if "n \<noteq> 0"
  proof -
    have "mag 256 n \<noteq> 0" using that lt(2) unfolding mag_def W256_def by auto
    from bigIs_bin(5)[OF abs_word[OF a(2) lt(1)] abs_word[OF b(2) lt(2)] this] have q: "bigIs ev K \<sigma> ?q ?k" .
    have "?k < W256" by (rule le_less_trans[OF mod_less_eq_dividend mag_less[OF lt(1)]])
    from bigIs_cond[OF sbool_negative[OF a(2)] negate_word[OF q this] q] show ?thesis
      unfolding tc256_smod[OF lt that] .
  qed
  from nonzero_guard[OF b(2) this] a b assms(3) show ?thesis
    by (simp add: handleSmod_def Let_def bigIs_def split: if_splits)
qed

lemma sarBody_correct:
  assumes "yval ev K \<sigma> a n" "yval ev K \<sigma> b v" "v < W256" "covers K s"
  shows "built (sarBody a b) s (yields ev K \<sigma> s (tc256 (sgn256 v div 2 ^ n)))"
proof -
  from assms(2) obtain b' where b: "ensureBiguint b = ret b'" "bigIs ev K \<sigma> b' v" by (elim ensure_word)
  have w: "bigIs ev K \<sigma> (wrapMod256 b') v" using bigIs_wrap[OF b(2)] assms(3) by simp
  have max: "W256 - 1 < W256" using W256_bounds by simp
  have post: "bigIs ev K \<sigma> (makeConditional (isNegative256 val None)
      (makeAsBiguint (makeBytesOr (makeAsBytes x) (makeAsBytes (makeBigUIntBinOp (makeBiguintConstant pow256Minus1) BigSub y)))) z biguintType)
      (tc256 (sgn256 v div 2 ^ n))"
    if "bigIs ev K \<sigma> val v" "bigIs ev K \<sigma> x (shr_val n v)" "bigIs ev K \<sigma> y (shr_val n (W256 - 1))" "bigIs ev K \<sigma> z (shr_val n v)" for val x y z
  proof -
    have "shr_val n (W256 - 1) \<le> W256 - 1" by (simp add: shr_val_def)
    from bigIs_bin(3)[OF bigIs_max(2) that(3) this]
    have f: "bigIs ev K \<sigma> (makeBigUIntBinOp (makeBiguintConstant pow256Minus1) BigSub y) (W256 - 1 - shr_val n (W256 - 1))" .
    have op: "avm_op ''b|'' [] [VB x, VB y] = Some (VB (bytes_bitop (OR) x y))" for x y by (simp add: avm_op_def)
    from bigIs_bitop[where f = "(OR)" and g = "(OR)", OF that(2) f _ op be_nat_bytes_or]
    have "bigIs ev K \<sigma> (makeAsBiguint (makeBytesOr (makeAsBytes x) (makeAsBytes (makeBigUIntBinOp (makeBiguintConstant pow256Minus1) BigSub y))))
        (shr_val n v OR (W256 - 1 - shr_val n (W256 - 1)))" unfolding makeBytesOr_def by simp
    from bigIs_cond[OF sbool_negative[OF that(1)] this that(4)] show ?thesis unfolding tc256_sar[OF assms(3)] .
  qed
  show ?thesis
    unfolding sarBody_def b(1) Let_def
  proof (simp add: w[unfolded bigIs_def] b(2)[unfolded bigIs_def], rule big_evalOnce[OF w assms(4)])
    fix val s1
    assume v: "bigIs ev K \<sigma> val v" "covers K s1" "preEffects s1 = preEffects s"
    show "built (shrBody a val) s1 (\<lambda>x s'. built (shrBody a (makeBiguintConstant pow256Minus1)) s' (\<lambda>y s'.
       built (asmBigUIntBinOp (makeBiguintConstant pow256Minus1) BigSub y) s' (\<lambda>f s'. built (shrBody a val) s' (\<lambda>z s'.
         yields ev K \<sigma> s (tc256 (sgn256 v div 2 ^ n)) (makeConditional (isNegative256 val None)
      (makeAsBiguint (makeBytesOr (makeAsBytes x) (makeAsBytes f))) z biguintType) s'))))"
    proof (rule built_mono[OF shrBody_correct[OF assms(1) yval_big[OF v(1)] assms(3) v(2)]], elim conjE,
        rule built_mono[OF shrBody_correct[OF assms(1) yval_big[OF bigIs_max(2)] max]], assumption, elim conjE)
      fix x y and s2 s3 :: bst
      assume h: "bigIs ev K \<sigma> x (shr_val n v)" "covers K s2" "preEffects s2 = preEffects s1"
        "bigIs ev K \<sigma> y (shr_val n (W256 - 1))" "covers K s3" "preEffects s3 = preEffects s2"
      have y: "wtypeOf y = biguintType" using h(4) by (simp add: bigIs_def)
      show "built (asmBigUIntBinOp (makeBiguintConstant pow256Minus1) BigSub y) s3 (\<lambda>f s'. built (shrBody a val) s' (\<lambda>z s'.
         yields ev K \<sigma> s (tc256 (sgn256 v div 2 ^ n)) (makeConditional (isNegative256 val None)
      (makeAsBiguint (makeBytesOr (makeAsBytes x) (makeAsBytes f))) z biguintType) s'))"
        unfolding asmBin_big[OF wtype_makers(3) y] built_ret
        by (rule built_mono[OF shrBody_correct[OF assms(1) yval_big[OF v(1)] assms(3) h(5)]])
           (use post[OF v(1) h(1,4)] v h in auto)
    qed
  qed
qed

text \<open>The comparison: the sign tests use the threshold of each operand's type.\<close>

lemma sbool_typed_negative:
  assumes "bigIs ev K \<sigma> e n"
  shows "sbool ev K \<sigma> (isNegative256 e (Some t)) (sign_threshold t \<le> n)"
proof -
  define w :: nat where "w = (if t = uint64Type then 64 else 256)"
  have w: "0 < w" "w \<le> 256" "sign_threshold t = 2 ^ (w - 1)" by (simp_all add: w_def sign_threshold_def)
  have "(2::nat) ^ (w - 1) < 2 ^ 512" by (rule power_strict_increasing) (use w in simp_all)
  from bigIs_cmp[OF assms bigIs_const[OF pow2NAndHalf_values(2)[OF w(1,2)] this], of Gte] show ?thesis
    unfolding isNegative256_def isNegativeSigned_def w(3) by (simp only: w_def option.inject num_cmp.simps)
qed

lemma literal_zero: "bigIs ev K \<sigma> e n \<Longrightarrow> isZeroLiteral e \<Longrightarrow> n = 0"
  using literal_value[OF yval_big, of K \<sigma> e n "''0''"] by (simp add: isZeroLiteral_def)

lemma positive_below:
  assumes "bigIs ev K \<sigma> b n"
  shows "sbool ev K \<sigma> (makeBoolBinOp (makeNumericCompare b Gt (makeBiguintConstant ''0'')) And
    (makeNumericCompare b Lt (makeIntegerConstant (if Some t = Some uint64Type then ''9223372036854775808'' else kHalfMax_256) biguintType)))
    (0 < n \<and> n < sign_threshold t)"
proof -
  have k: "bigIs ev K \<sigma> (makeIntegerConstant (if Some t = Some uint64Type then ''9223372036854775808'' else kHalfMax_256) biguintType) (sign_threshold t)"
    by (rule bigIs_const) (simp_all add: sign_threshold_def two63)
  from sval_and[OF bigIs_cmp[OF assms bigIs_small(1), of Gt] bigIs_cmp[OF assms k, of Lt]] show ?thesis
    unfolding makeBoolBinOp_def by simp
qed

lemma sltBody_value:
  assumes "yval ev K \<sigma> a m" "yval ev K \<sigma> b n" "covers K s"
  shows "built (sltBody a b) s (yields ev K \<sigma> s (of_bool (slt_val (wtypeOf a) (wtypeOf b) m n)))"
proof -
  from assms(1) obtain a' where a: "ensureBiguint a = ret a'" "bigIs ev K \<sigma> a' m" by (elim ensure_word)
  from assms(2) obtain b' where b: "ensureBiguint b = ret b'" "bigIs ev K \<sigma> b' n" by (elim ensure_word)
  let ?na = "isNegative256 a' (Some (wtypeOf a))" and ?nb = "isNegative256 b' (Some (wtypeOf b))"
  note neg = sbool_typed_negative[OF a(2), of "wtypeOf a"] sbool_typed_negative[OF b(2), of "wtypeOf b"]
  from ensure_bool[OF _ neg(1)] obtain na where na: "ensureBiguint ?na = ret na" "bigIs ev K \<sigma> na (of_bool (sign_threshold (wtypeOf a) \<le> m))" by auto
  from ensure_bool[OF _ neg(2)] obtain nb where nb: "ensureBiguint ?nb = ret nb" "bigIs ev K \<sigma> nb (of_bool (sign_threshold (wtypeOf b) \<le> n))" by auto
  consider (bz) "isZeroLiteral b'" | (az) "\<not> isZeroLiteral b'" "isZeroLiteral a'" | (gen) "\<not> isZeroLiteral b'" "\<not> isZeroLiteral a'" by blast
  then show ?thesis
  proof cases
    case bz
    with literal_zero[OF b(2) bz] a b na assms(3) show ?thesis by (simp add: sltBody_def slt_val_zero split: if_splits)
  next
    case az
    from ensure_bool[OF _ positive_below[OF b(2), of "wtypeOf b"]] obtain r where
      "ensureBiguint (makeBoolBinOp (makeNumericCompare b' Gt (makeBiguintConstant ''0'')) And (makeNumericCompare b' Lt
        (makeIntegerConstant (if Some (wtypeOf b) = Some uint64Type then ''9223372036854775808'' else kHalfMax_256) biguintType))) = ret r"
      "bigIs ev K \<sigma> r (of_bool (0 < n \<and> n < sign_threshold (wtypeOf b)))" by auto
    with literal_zero[OF a(2) az(2)] az a b assms(3) show ?thesis
      by (simp add: sltBody_def slt_val_zero Let_def split: if_splits)
  next
    case gen
    have "sbool ev K \<sigma> (makeConditional (makeNumericCompare na Eq nb) (makeNumericCompare a' Lt b') ?na boolType) (slt_val (wtypeOf a) (wtypeOf b) m n)"
      unfolding makeConditional_def
    proof (rule sval_cond[OF bigIs_cmp[OF na(2) nb(2), of Eq]])
      show "sbool ev K \<sigma> (makeNumericCompare a' Lt b') (slt_val (wtypeOf a) (wtypeOf b) m n)"
        if "num_cmp Eq (of_bool (sign_threshold (wtypeOf a) \<le> m)) (of_bool (sign_threshold (wtypeOf b) \<le> n) :: nat)"
        using bigIs_cmp[OF a(2) b(2), of Lt] that by (simp add: slt_val_def of_bool_eq_iff)
      show "sbool ev K \<sigma> ?na (slt_val (wtypeOf a) (wtypeOf b) m n)"
        if "\<not> num_cmp Eq (of_bool (sign_threshold (wtypeOf a) \<le> m)) (of_bool (sign_threshold (wtypeOf b) \<le> n) :: nat)"
        using neg(1) that by (simp only: slt_val_def of_bool_eq_iff num_cmp.simps if_False)
    qed
    from ensure_bool[OF _ this] obtain r where "ensureBiguint (makeConditional (makeNumericCompare na Eq nb) (makeNumericCompare a' Lt b') ?na boolType) = ret r"
      "bigIs ev K \<sigma> r (of_bool (slt_val (wtypeOf a) (wtypeOf b) m n))" by auto
    with gen a b na nb assms(3) show ?thesis by (simp add: sltBody_def Let_def)
  qed
qed

end

end
