(* ===== verification/YulExt.thy ===== *)
theory YulExt
  imports YulSigned
begin

text \<open>
  The builtins \<open>byte\<close>, \<open>signextend\<close> and the constant case of \<open>exp\<close>, on natural numbers below \<open>2^256\<close>.
\<close>

lemmas dec_eval = nat_of_dec_def dec_value_def is_digit_def

section \<open>Facts about bytes and powers\<close>

definition byte_val :: "nat \<Rightarrow> nat \<Rightarrow> nat" where
  "byte_val n v = (if n < 32 then v div 256 ^ (31 - n) mod 256 else 0)"

lemma be_nat_byte:
  assumes "i < n"
  shows "be_nat (take 1 (drop i (be_fixed n v))) = v div 256 ^ (n - 1 - i) mod 256"
proof -
  let ?b = "be_fixed n v" and ?k = "n - 1 - i"
  have s: "n - i = Suc ?k" "length (drop (Suc i) ?b) = ?k" using assms by simp_all
  have "take 1 (drop i ?b) @ drop (Suc i) ?b = drop i ?b" by (metis append_take_drop_id drop_drop plus_1_eq_Suc)
  then have "be_nat (drop i ?b) = be_nat (take 1 (drop i ?b)) * 256 ^ ?k + be_nat (drop (Suc i) ?b)"
    by (metis be_nat_append s(2))
  moreover have "be_nat (drop (Suc i) ?b) < 256 ^ ?k" using be_nat_bound[of "drop (Suc i) ?b"] s(2) by simp
  ultimately have "be_nat (take 1 (drop i ?b)) = be_nat (drop i ?b) div 256 ^ ?k" by simp
  also have "\<dots> = v mod 256 ^ n mod 256 ^ Suc ?k div 256 ^ ?k"
    using be_nat_drop[of i ?b] assms s(1) by (simp add: be_nat_be_fixed)
  also have "v mod 256 ^ n mod 256 ^ Suc ?k = v mod 256 ^ Suc ?k"
    by (rule mod_mod_cancel) (rule le_imp_power_dvd, use assms in simp)
  also have "\<dots> = 256 ^ ?k * (v div 256 ^ ?k mod 256) + v mod 256 ^ ?k"
    unfolding power_Suc2 by (rule mod_mult2_eq)
  also have "\<dots> div 256 ^ ?k = v div 256 ^ ?k mod 256" by simp
  finally show ?thesis .
qed

text \<open>The folding loop of \<open>handleExp\<close> ends with the power.\<close>

lemma constExpLoop_power: "r < 2 ^ 256 \<Longrightarrow> constExpLoop r b e = r * b ^ e mod 2 ^ 256"
proof (induction r b e rule: constExpLoop.induct)
  case (1 r b e)
  show ?case
  proof (cases "e = 0")
    case True
    with 1(2) show ?thesis by (subst constExpLoop.simps) simp
  next
    case False
    have "(if e mod 2 \<noteq> 0 then r * b mod 2 ^ 256 else r) < 2 ^ 256" using 1(2) by simp
    from 1(1)[OF False this] power_step_mod[of e r b "2 ^ 256"] False show ?thesis
      by (subst constExpLoop.simps) (simp add: odd_iff_mod_2_eq_one del: power_numeral)
  qed
qed

section \<open>Sign extension as two shifts\<close>

definition signext_shift :: "nat \<Rightarrow> nat" where
  "signext_shift b = 248 - 8 * min b 31"

definition signext_val :: "nat \<Rightarrow> nat \<Rightarrow> nat" where
  "signext_val b v = tc256 (sgn256 (shl_val (signext_shift b) v) div 2 ^ signext_shift b)"

lemma tc256_sgn256: "v < W256 \<Longrightarrow> tc256 (sgn256 v) = v"
  unfolding W256_def twos_def signed_of_def by auto

lemma shl_val_less: "shl_val n v < W256"
  using W256_bounds(1) by (simp add: shl_val_def)

lemma signext_val_high: "31 \<le> b \<Longrightarrow> v < W256 \<Longrightarrow> signext_val b v = v"
  by (simp add: signext_val_def signext_shift_def shl_val_def tc256_sgn256)

section \<open>The handlers\<close>

context avm
begin

lemma byte_correct:
  assumes "yval ev K \<sigma> a n" "sbytes ev K \<sigma> b w" "be_nat w = v" "length w \<le> 64" "covers K s"
  shows "built (handleByte [a, b]) s (\<lambda>r s'. \<exists>e. r = Some e \<and> yields ev K \<sigma> s (byte_val n v) e s')"
proof -
  have res: "bigIs ev K \<sigma> (makeConditional (makeNumericCompare nBig Lt (makeIntegerConstant ''32'' biguintType))
      (makeAsBiguint (makeExtract3 p (safeBtoi nBig) (makeOne uint64Type) None)) (makeBiguintConstant ''0'') biguintType) (byte_val n v)"
    if p: "sbytes ev K \<sigma> p (be_fixed 32 v)" and nb: "bigIs ev K \<sigma> nBig n" for p nBig
  proof -
    have k: "bigIs ev K \<sigma> (makeIntegerConstant ''32'' biguintType) 32" by (rule bigIs_const) (simp_all add: dec_eval)
    have x: "bigIs ev K \<sigma> (makeAsBiguint (makeExtract3 p (safeBtoi nBig) (makeOne uint64Type) None)) (v div 256 ^ (31 - n) mod 256)"
      if "n < 32"
    proof -
      have i: "su64 ev K \<sigma> (safeBtoi nBig) n"
        using su64_biguintToUInt64[of K \<sigma> nBig n] nb that by (simp add: bigIs_def safeBtoi_def)
      have one: "su64 ev K \<sigma> (makeOne uint64Type) 1" unfolding makeOne_def makeIntegerConstant_def by (rule sval_int64) simp_all
      have "sbytes ev K \<sigma> (makeAsBiguint (makeExtract3 p (safeBtoi nBig) (makeOne uint64Type) None)) (take 1 (drop n (be_fixed 32 v)))"
        unfolding makeAsBiguint_def makeReinterpretCast_def makeExtract3_def makeIntrinsicCall_def
        by (intro sval_cast sbytes_extract3[OF p i one]) (use that in simp)
      from sbigI[OF this] be_nat_byte[OF that, of v] show ?thesis by (simp add: bigIs_def)
    qed
    from bigIs_cond[OF bigIs_cmp[OF nb k, of Lt] _ bigIs_small(1)] x show ?thesis by (simp add: byte_val_def)
  qed
  show ?thesis
    unfolding handleByte_def
  proof (simp add: Let_def, rule built_mono[OF padTo32_correct[OF assms(2,4,5)]], elim conjE, rule built_ensure[OF assms(1)],
      rule big_evalOnce, assumption, assumption)
    fix p s1 n' nBig s2
    assume "sbytes ev K \<sigma> p (be_fixed 32 (be_nat w))" "bigIs ev K \<sigma> nBig n" "covers K s2" "preEffects s2 = preEffects s1" "preEffects s1 = preEffects s"
    with res[of p nBig] assms(3) show "yields ev K \<sigma> s (byte_val n v) (makeConditional (makeNumericCompare nBig Lt (makeIntegerConstant ''32'' biguintType))
      (makeAsBiguint (makeExtract3 p (safeBtoi nBig) (makeOne uint64Type) None)) (makeBiguintConstant ''0'') biguintType) s2"
      by (simp del: be_fixed.simps)
  qed
qed

lemma signextendShift_correct:
  assumes "yval ev K \<sigma> b n"
  shows "built (signextendShift b) s (\<lambda>e s'. bigIs ev K \<sigma> e (signext_shift n) \<and> s' = s)"
proof -
  from assms obtain b' where b: "ensureBiguint b = ret b'" "bigIs ev K \<sigma> b' n" by (elim ensure_word)
  have k: "bigIs ev K \<sigma> (makeIntegerConstant ''31'' biguintType) 31" "bigIs ev K \<sigma> (makeIntegerConstant ''8'' biguintType) 8"
    "bigIs ev K \<sigma> (makeIntegerConstant ''248'' biguintType) 248" by (rule bigIs_const; simp add: dec_eval)+
  let ?bc = "makeConditional (makeNumericCompare b' Lt (makeIntegerConstant ''31'' biguintType)) b' (makeIntegerConstant ''31'' biguintType) biguintType"
  have "(if num_cmp Lt n 31 then n else 31) = min n 31" by auto
  with bigIs_cond[OF bigIs_cmp[OF b(2) k(1), of Lt] b(2) k(1)] have "bigIs ev K \<sigma> ?bc (min n 31)" by (simp only:)
  from bigIs_bin(2)[OF this k(2)] have m: "bigIs ev K \<sigma> (makeBigUIntBinOp ?bc BigMult (makeIntegerConstant ''8'' biguintType)) (min n 31 * 8)"
    by (simp add: min_def)
  from bigIs_bin(3)[OF k(3) m] have "bigIs ev K \<sigma> (makeBigUIntBinOp (makeIntegerConstant ''248'' biguintType) BigSub
      (makeBigUIntBinOp ?bc BigMult (makeIntegerConstant ''8'' biguintType))) (signext_shift n)"
    by (simp add: signext_shift_def mult.commute)
  with b show ?thesis by (simp add: signextendShift_def Let_def)
qed

lemma shift_pair:
  assumes "yval ev K \<sigma> c1 (signext_shift n)" "yval ev K \<sigma> c2 (signext_shift n)" "bigIs ev K \<sigma> x v" "v < W256" "covers K s"
  shows "built (shlBody c1 x) s (\<lambda>y s'. built (sarBody c2 y) s' (yields ev K \<sigma> s (signext_val n v)))"
proof (rule built_mono[OF shlBody_correct[OF assms(1) yval_big[OF assms(3)] assms(4,5)]], elim conjE)
  fix y s1
  assume y: "bigIs ev K \<sigma> y (shl_val (signext_shift n) v)" "covers K s1" "preEffects s1 = preEffects s"
  show "built (sarBody c2 y) s1 (yields ev K \<sigma> s (signext_val n v))"
    by (rule built_mono[OF sarBody_correct[OF assms(2) yval_big[OF y(1)] shl_val_less y(2)]])
       (use y(3) in \<open>simp add: signext_val_def\<close>)
qed

lemma signextend_correct:
  assumes "yval ev K \<sigma> a n" "yword ev K \<sigma> b v" "covers K s" "intLiteral a \<noteq> None \<Longrightarrow> n < 2 ^ 64"
  shows "built (handleSignextend [a, b]) s (\<lambda>r s'. \<exists>e. r = Some e \<and> yields ev K \<sigma> s (signext_val n v) e s')"
proof -
  from assms(2) have v: "v < W256" and y: "yval ev K \<sigma> b v" by (simp_all add: yword_def)
  from y obtain x where x: "ensureBiguint b = ret x" "bigIs ev K \<sigma> x v" by (elim ensure_word)
  show ?thesis
  proof (cases "intLiteral a")
    case (Some lit)
    from assms(4) Some have lt: "n < 2 ^ 64" by simp
    with stoull_decimal[OF literal_value[OF assms(1) Some]] have n: "stoull lit = Some n" by simp
    show ?thesis
    proof (cases "31 \<le> n")
      case True
      with Some n lt x assms(3) v show ?thesis
        by (simp add: handleSignextend_def checkArity_def signext_val_high)
    next
      case False
      have c: "yval ev K \<sigma> (makeIntegerConstant (dec_of_nat (248 - 8 * n)) biguintType) (signext_shift n)"
      proof (rule yval_big, rule bigIs_const)
        show "nat_of_dec (dec_of_nat (248 - 8 * n)) = Some (signext_shift n)" using False by (simp add: signext_shift_def)
        show "signext_shift n < 2 ^ 512" using False by (simp add: signext_shift_def)
      qed
      from shift_pair[OF c c x(2) v assms(3)] Some n lt x False show ?thesis
        by (simp add: handleSignextend_def checkArity_def Let_def)
    qed
  next
    case None
    have "built (signextendShift a) s (\<lambda>c1 s1. built (shlBody c1 x) s1 (\<lambda>y s2. built (signextendShift a) s2 (\<lambda>c2 s3.
        built (sarBody c2 y) s3 (yields ev K \<sigma> s (signext_val n v)))))"
    proof (rule built_mono[OF signextendShift_correct[OF assms(1)]], elim conjE, hypsubst)
      fix c1 assume c1: "bigIs ev K \<sigma> c1 (signext_shift n)"
      show "built (shlBody c1 x) s (\<lambda>y s2. built (signextendShift a) s2 (\<lambda>c2 s3. built (sarBody c2 y) s3 (yields ev K \<sigma> s (signext_val n v))))"
      proof (rule built_mono[OF shlBody_correct[OF yval_big[OF c1] yval_big[OF x(2)] v assms(3)]], elim conjE,
          rule built_mono[OF signextendShift_correct[OF assms(1)]], elim conjE, hypsubst)
        fix y c2 s3
        assume y: "bigIs ev K \<sigma> y (shl_val (signext_shift n) v)" "covers K s3" "preEffects s3 = preEffects s"
          and c2: "bigIs ev K \<sigma> c2 (signext_shift n)"
        show "built (sarBody c2 y) s3 (yields ev K \<sigma> s (signext_val n v))"
          by (rule built_mono[OF sarBody_correct[OF yval_big[OF c2] yval_big[OF y(1)] shl_val_less y(2)]])
             (use y(3) in \<open>simp add: signext_val_def\<close>)
      qed
    qed
    with None x show ?thesis by (simp add: handleSignextend_def checkArity_def)
  qed
qed

end

end
