(* ===== verification/YulEvm.thy ===== *)
theory YulEvm
  imports YulExt
begin

text \<open>
  The EVM's arithmetic as a reference on 256-bit machine words, written with the word operations of
  the library and without looking at the translator, and the lemmas that identify its operations
  with the natural numbers that the handlers of \<open>YulArith\<close> compute.
\<close>

type_synonym evm_word = "256 word"

section \<open>The reference\<close>

definition evm1 :: "evm_word \<Rightarrow> (string \<times> evm_word) list" where
  "evm1 a = [(''iszero'', of_bool (a = 0)), (''not'', NOT a)]"

definition evm2 :: "evm_word \<Rightarrow> evm_word \<Rightarrow> (string \<times> evm_word) list" where
  "evm2 a b =
     [(''add'', a + b), (''sub'', a - b), (''mul'', a * b), (''exp'', a ^ unat b),
      (''div'', if b = 0 then 0 else a div b), (''mod'', if b = 0 then 0 else a mod b),
      (''sdiv'', if b = 0 then 0 else word_of_int (sint a sdiv sint b)),
      (''smod'', if b = 0 then 0 else word_of_int (sint a smod sint b)),
      (''lt'', of_bool (a < b)), (''gt'', of_bool (b < a)), (''eq'', of_bool (a = b)),
      (''slt'', of_bool (sint a < sint b)), (''sgt'', of_bool (sint b < sint a)),
      (''and'', a AND b), (''or'', a OR b), (''xor'', a XOR b),
      (''shl'', push_bit (unat a) b), (''shr'', drop_bit (unat a) b), (''sar'', signed_drop_bit (unat a) b),
      (''byte'', if unat a < 32 then drop_bit (8 * (31 - unat a)) b AND 0xFF else 0),
      (''signextend'', if unat a < 31 then signed_take_bit (8 * unat a + 7) b else b)]"

definition evm3 :: "evm_word \<Rightarrow> evm_word \<Rightarrow> evm_word \<Rightarrow> (string \<times> evm_word) list" where
  "evm3 a b n =
     [(''addmod'', if n = 0 then 0 else word_of_nat ((unat a + unat b) mod unat n)),
      (''mulmod'', if n = 0 then 0 else word_of_nat ((unat a * unat b) mod unat n))]"

definition evm_op :: "string \<Rightarrow> evm_word list \<Rightarrow> evm_word option" where
  "evm_op name ws =
     (case ws of [a] \<Rightarrow> map_of (evm1 a) name | [a, b] \<Rightarrow> map_of (evm2 a b) name
      | [a, b, n] \<Rightarrow> map_of (evm3 a b n) name | _ \<Rightarrow> None)"

section \<open>The reference on natural numbers\<close>

lemma unat_W256 [simp]: "unat (w :: evm_word) < W256"
  unfolding W256_def using unsigned_less[of w] by simp

lemma unat_of_nat_W256: "unat (word_of_nat n :: evm_word) = n mod W256"
  by (simp add: W256_def unsigned_of_nat take_bit_eq_mod)

lemma unat_by_nat: "w = word_of_nat n \<Longrightarrow> unat (w :: evm_word) = n mod W256"
  by (simp add: unat_of_nat_W256)

lemma word_W256 [simp]: "(word_of_nat W256 :: evm_word) = 0"
  by (simp add: word_unat_eq_iff unat_of_nat_W256)

lemma unat_add_W256: "unat (a + b :: evm_word) = (unat a + unat b) mod W256"
  by (rule unat_by_nat) simp

lemma unat_mul_W256: "unat (a * b :: evm_word) = unat a * unat b mod W256"
  by (rule unat_by_nat) simp

lemma unat_power_W256: "unat (a ^ n :: evm_word) = unat a ^ n mod W256"
  by (rule unat_by_nat) simp

lemma unat_sub_W256: "unat (a - b :: evm_word) = (unat a + W256 - unat b) mod W256"
proof (rule unat_by_nat)
  have "unat b \<le> unat a + W256" using unat_W256[of b] by linarith
  then show "a - b = word_of_nat (unat a + W256 - unat b)" by (simp add: of_nat_diff)
qed

lemma unat_not_W256: "unat (NOT a :: evm_word) = W256 - 1 - unat a"
proof -
  have le: "unat a \<le> W256 - 1" using unat_W256[of a] by linarith
  have "NOT a = word_of_nat (W256 - 1 - unat a)"
    using le W256_bounds(1) by (simp add: of_nat_diff not_eq_complement Suc_le_eq)
  from unat_by_nat[OF this] show ?thesis using W256_bounds(1) by simp
qed

lemma sint_sgn256: "sint (a :: evm_word) = sgn256 (unat a)"
proof -
  define u where "u = unat a"
  have "u < 2 ^ 256" unfolding u_def using unsigned_less[of a] by simp
  have s: "sint a = (int u + 2 ^ 255) mod 2 ^ 256 - 2 ^ 255"
    unfolding sint_uint u_def by (simp add: signed_take_bit_eq_take_bit_shift take_bit_eq_mod)
  show ?thesis
  proof (cases "u < 2 ^ 255")
    case True
    then have "(int u + 2 ^ 255) mod 2 ^ 256 = int u + 2 ^ 255" by (intro mod_pos_pos_trivial) simp_all
    with True s show ?thesis unfolding signed_of_def u_def by simp
  next
    case False
    have "(int u + 2 ^ 255) mod 2 ^ 256 = (int u - 2 ^ 255 + 2 ^ 256) mod 2 ^ 256" by (simp add: add.commute)
    also have "\<dots> = int u - 2 ^ 255" unfolding mod_add_self2 using False \<open>u < 2 ^ 256\<close> by (intro mod_pos_pos_trivial) simp_all
    finally show ?thesis using False s unfolding signed_of_def u_def by simp
  qed
qed

lemma unat_tc256: "unat (word_of_int z :: evm_word) = tc256 z"
  by (simp add: twos_def unsigned_of_int take_bit_eq_mod)

lemma unat_sint: "unat (a :: evm_word) = tc256 (sint a)"
  using unat_tc256[of "sint a"] by simp

lemma unat_shl: "unat (push_bit n b :: evm_word) = shl_val n (unat b)"
proof (cases "n < 256")
  case True
  have "unat (push_bit n b) = unat b * 2 ^ n mod W256"
    by (rule unat_by_nat) (simp add: push_bit_eq_mult)
  with True show ?thesis by (simp add: shl_val_def)
next
  case False
  then have "push_bit n b = 0" by (intro bit_word_eqI) (simp add: bit_simps)
  with False show ?thesis by (simp add: shl_val_def)
qed

lemma unat_shr: "unat (drop_bit n b :: evm_word) = shr_val n (unat b)"
proof (cases "n < 256")
  case True
  have "unat (drop_bit n b) = drop_bit n (unat b)"
    by (rule bit_eqI) (auto simp: bit_simps dest: bit_imp_le_length)
  with True show ?thesis by (simp add: shr_val_def drop_bit_eq_div)
next
  case False
  then have "drop_bit n b = 0" by (intro bit_word_eqI) (auto simp: bit_simps dest: bit_imp_le_length)
  with False show ?thesis by (simp add: shr_val_def)
qed

lemma unat_sar: "unat (signed_drop_bit n b :: evm_word) = tc256 (sgn256 (unat b) div 2 ^ n)"
proof -
  have "sint (signed_drop_bit n b) = sgn256 (unat b) div 2 ^ n"
    unfolding sint_sgn256[symmetric, of b] by (simp only: sint_signed_drop_bit_eq drop_bit_eq_div)
  with unat_sint[of "signed_drop_bit n b"] show ?thesis by simp
qed

lemma sar_shl:
  assumes "s < 256"
  shows "signed_drop_bit s (push_bit s b) = signed_take_bit (255 - s) (b :: evm_word)"
proof (rule bit_word_eqI)
  fix n assume "n < LENGTH(256)"
  then have n: "n < 256" by simp
  show "bit (signed_drop_bit s (push_bit s b)) n = bit (signed_take_bit (255 - s) b) n"
  proof (cases "n \<le> 255 - s")
    case True
    then have "n + s < 256" "s \<le> n + s" "\<not> 256 - s \<le> n" using assms n by linarith+
    with True show ?thesis using assms n by (simp add: bit_simps min_def add.commute)
  next
    case False
    then have "256 - s \<le> n" using assms by linarith
    with False show ?thesis using assms n by (simp add: bit_simps min_def)
  qed
qed

lemma unat_signextend: "unat (if unat a < 31 then signed_take_bit (8 * unat a + 7) b else b :: evm_word) = signext_val (unat a) (unat b)"
proof (cases "unat a < 31")
  case True
  then have "signext_shift (unat a) = 248 - 8 * unat a" "248 - 8 * unat a < 256" "255 - (248 - 8 * unat a) = 7 + 8 * unat a"
    by (simp_all add: signext_shift_def)
  with True show ?thesis using sar_shl[of "248 - 8 * unat a" b] unat_sar[of "248 - 8 * unat a" "push_bit (248 - 8 * unat a) b"]
    by (simp add: signext_val_def unat_shl add.commute)
qed (simp add: signext_val_high)

lemma unat_byte: "unat (if unat a < 32 then drop_bit (8 * (31 - unat a)) b AND 0xFF else 0 :: evm_word) = byte_val (unat a) (unat b)"
proof (cases "unat a < 32")
  case True
  have m: "unat (w AND 0xFF) = unat w mod 256" for w :: evm_word
  proof -
    have "(0xFF :: evm_word) = mask 8" by (simp add: mask_eq_exp_minus_1)
    then have "unat (w AND 0xFF) = take_bit 8 (unat w)" by (simp only: unsigned_take_bit_eq flip: take_bit_eq_mask)
    then show ?thesis by (simp add: take_bit_eq_mod)
  qed
  have "(256::nat) ^ (31 - unat a) = 2 ^ (8 * (31 - unat a))" by (simp add: power_mult)
  with True show ?thesis by (simp add: byte_val_def m unat_shr shr_val_def)
qed (simp add: byte_val_def)

end
