(* ===== verification/YulRefine.thy ===== *)
theory YulRefine
  imports YulEvm
begin

text \<open>
  Every row of the dispatch table modelled in \<open>YulArith\<close> implements the EVM operation of its name:
  from operands that denote words it builds an expression that denotes the word the EVM computes.
\<close>

definition resultType :: "string \<Rightarrow> wtype" where
  "resultType name = (if name \<in> {''iszero'', ''eq'', ''lt'', ''gt''} then boolType else biguintType)"

text \<open>
  What a handler asks of its operands beyond denoting words: a \<open>uint64\<close> operand of a signed
  comparison is below \<open>2^63\<close>, the second operand of \<open>byte\<close> is held as bytes, and a literal first
  operand of \<open>signextend\<close> fits in 64 bits.
\<close>

definition args_ok :: "string \<Rightarrow> expr list \<Rightarrow> evm_word list \<Rightarrow> bool" where
  "args_ok name args ws \<longleftrightarrow>
     (name \<in> {''slt'', ''sgt''} \<longrightarrow> list_all2 (\<lambda>e w. wtypeOf e = uint64Type \<longrightarrow> unat w < 2 ^ 63) args ws) \<and>
     (name = ''byte'' \<longrightarrow> wtypeOf (args ! 1) \<notin> {boolType, uint64Type}) \<and>
     (name = ''signextend'' \<longrightarrow> intLiteral (args ! 0) \<noteq> None \<longrightarrow> unat (ws ! 0) < 2 ^ 64)"

definition denotes_word :: "'z evaluator \<Rightarrow> (expr \<times> int) set \<Rightarrow> 'z menv_scheme \<Rightarrow> expr \<Rightarrow> evm_word \<Rightarrow> bool" where
  "denotes_word ev K \<sigma> e w \<longleftrightarrow> yword ev K \<sigma> e (unat w)"

text \<open>The result of a handler: an expression for \<open>w\<close>, of the type its name says, and nothing queued.\<close>

definition gives :: "'z evaluator \<Rightarrow> (expr \<times> int) set \<Rightarrow> 'z menv_scheme \<Rightarrow> bst \<Rightarrow> wtype \<Rightarrow> evm_word \<Rightarrow> expr option \<Rightarrow> bst \<Rightarrow> bool" where
  "gives ev K \<sigma> s t w r s' \<longleftrightarrow>
     (\<exists>e. r = Some e \<and> wtypeOf e = t \<and> denotes_word ev K \<sigma> e w \<and> covers K s' \<and> preEffects s' = preEffects s)"

lemma gives_yields:
  assumes "built h s (\<lambda>r s'. \<exists>e. r = Some e \<and> yields ev K \<sigma> s n e s')" "n = unat w"
  shows "built h s (gives ev K \<sigma> s biguintType w)"
  by (rule built_mono[OF assms(1)]) (auto simp: gives_def denotes_word_def yword_def yval_def bigIs_def assms(2))

lemma unat_of_bool: "unat (of_bool p :: evm_word) = of_bool p"
  by simp

lemma gives_bool:
  assumes "built h s (\<lambda>r s'. \<exists>e. r = Some e \<and> boolIs ev K \<sigma> e p \<and> s' = s)" "covers K s"
  shows "built h s (gives ev K \<sigma> s boolType (of_bool p))"
proof (rule built_mono[OF assms(1)], elim exE conjE)
  fix r s' e assume e: "r = Some e" "boolIs ev K \<sigma> e p" "s' = s"
  have "yval ev K \<sigma> e (of_bool p)" using e(2) unfolding yval_def boolIs_def by blast
  moreover have "of_bool p < W256" using W256_bounds(5) by (cases p) simp_all
  ultimately show "gives ev K \<sigma> s boolType (of_bool p) r s'"
    using e assms(2) by (simp only: gives_def denotes_word_def yword_def unat_of_bool boolIs_def) blast
qed

lemma guarded_word: "unat (if b = 0 then 0 else w) = (if unat b = 0 then 0 else unat w)" for b w :: evm_word
  by (simp add: unat_eq_zero)

context avm
begin

lemma unary_refines:
  assumes "map_of (kArgsBuiltins wide) name = Some h" "map_of (evm1 a) name = Some w"
    and "denotes_word ev K \<sigma> x a" "covers K s"
  shows "built (h [x]) s (gives ev K \<sigma> s (resultType name) w)"
proof -
  have x: "yword ev K \<sigma> x (unat a)" using assms(3) by (simp add: denotes_word_def)
  have "built (handleIszero [x]) s (gives ev K \<sigma> s boolType (of_bool (a = 0)))"
    using gives_bool[OF iszero_correct[OF x assms(4)] assms(4)] by (simp add: unat_eq_zero)
  moreover have "built (handleNot [x]) s (gives ev K \<sigma> s biguintType (NOT a))"
    by (rule gives_yields[OF not_correct[OF x assms(4)]]) (simp add: unat_not_W256)
  ultimately show ?thesis using assms(1,2)
    by (auto simp: evm1_def kArgsBuiltins_def resultType_def split: if_splits)
qed

lemma ternary_refines:
  assumes "map_of (kArgsBuiltins wide) name = Some h" "map_of (evm3 a b n) name = Some w"
    and "denotes_word ev K \<sigma> x a" "denotes_word ev K \<sigma> y b" "denotes_word ev K \<sigma> z n" "wide_ok wide \<sigma>" "covers K s"
  shows "built (h [x, y, z]) s (gives ev K \<sigma> s (resultType name) w)"
proof -
  have x: "yword ev K \<sigma> x (unat a)" "yword ev K \<sigma> y (unat b)" "yword ev K \<sigma> z (unat n)"
    using assms(3-5) by (simp_all add: denotes_word_def)
  have m: "unat (word_of_nat (k mod unat n) :: evm_word) = k mod unat n" if "n \<noteq> 0" for k
  proof -
    have "k mod unat n < unat n" using that by (simp add: unat_eq_zero flip: neq0_conv)
    also have "\<dots> < W256" by simp
    finally show ?thesis by (simp add: unat_of_nat_W256)
  qed
  have "built (handleAddmod wide [x, y, z]) s (gives ev K \<sigma> s biguintType (if n = 0 then 0 else word_of_nat ((unat a + unat b) mod unat n)))"
    by (rule gives_yields[OF addmod_correct[OF x assms(6,7)]]) (simp add: guarded_op_def m unat_eq_zero)
  moreover have "built (handleMulmod wide [x, y, z]) s (gives ev K \<sigma> s biguintType (if n = 0 then 0 else word_of_nat ((unat a * unat b) mod unat n)))"
    by (rule gives_yields[OF mulmod_correct[OF x assms(6,7)]]) (simp add: guarded_op_def m unat_eq_zero)
  ultimately show ?thesis using assms(1,2)
    by (auto simp: evm3_def kArgsBuiltins_def resultType_def split: if_splits)
qed

lemma binary_arith_rows:
  assumes "yword ev K \<sigma> x (unat a)" "yword ev K \<sigma> y (unat b)" "wide_ok wide \<sigma>" "covers K s"
  shows "built (handleAdd [x, y]) s (gives ev K \<sigma> s biguintType (a + b))"
    and "built (handleSub [x, y]) s (gives ev K \<sigma> s biguintType (a - b))"
    and "built (handleMul [x, y]) s (gives ev K \<sigma> s biguintType (a * b))"
    and "built (handleDiv wide [x, y]) s (gives ev K \<sigma> s biguintType (if b = 0 then 0 else a div b))"
    and "built (handleMod wide [x, y]) s (gives ev K \<sigma> s biguintType (if b = 0 then 0 else a mod b))"
    and "built (handleSdiv [x, y]) s (gives ev K \<sigma> s biguintType (if b = 0 then 0 else word_of_int (sint a sdiv sint b)))"
    and "built (handleSmod [x, y]) s (gives ev K \<sigma> s biguintType (if b = 0 then 0 else word_of_int (sint a smod sint b)))"
  using assms(3,4)
  by (auto intro!: gives_yields[OF add_correct[OF assms(1,2)]] gives_yields[OF sub_correct[OF assms(1,2)]]
      gives_yields[OF mul_correct[OF assms(1,2)]] gives_yields[OF div_correct[OF assms(1,2)]]
      gives_yields[OF mod_correct[OF assms(1,2)]] gives_yields[OF sdiv_correct[OF assms(1,2)]]
      gives_yields[OF smod_correct[OF assms(1,2)]]
      simp: unat_add_W256 unat_sub_W256 unat_mul_W256 guarded_op_def guarded_word unat_div unat_mod unat_tc256 sint_sgn256 unat_eq_zero)

lemma compare_row:
  assumes "yword ev K \<sigma> x (unat a)" "yword ev K \<sigma> y (unat b)" "covers K s"
  shows "built (makeYulCompare cmp name [x, y]) s (gives ev K \<sigma> s boolType (of_bool (num_cmp cmp (unat a) (unat b))))"
  by (rule gives_bool[OF compare_correct[OF assms] assms(3)])

lemma slt_row:
  fixes a b :: evm_word
  assumes "yword ev K \<sigma> x (unat a)" "yword ev K \<sigma> y (unat b)" "covers K s"
    and "wtypeOf x = uint64Type \<Longrightarrow> unat a < 2 ^ 63" "wtypeOf y = uint64Type \<Longrightarrow> unat b < 2 ^ 63"
  shows "built (do { e \<leftarrow> sltBody x y; ret (Some e) }) s (gives ev K \<sigma> s biguintType (of_bool (sint a < sint b)))"
proof (rule gives_yields)
  from assms(1,2) have y: "yval ev K \<sigma> x (unat a)" "yval ev K \<sigma> y (unat b)" by (simp_all add: yword_def)
  from sltBody_value[OF y assms(3)]
  show "built (do { e \<leftarrow> sltBody x y; ret (Some e) }) s (\<lambda>r s'. \<exists>e. r = Some e \<and>
      yields ev K \<sigma> s (of_bool (slt_val (wtypeOf x) (wtypeOf y) (unat a) (unat b))) e s')" by simp
  show "of_bool (slt_val (wtypeOf x) (wtypeOf y) (unat a) (unat b)) = unat (of_bool (sint a < sint b) :: evm_word)"
    unfolding unat_of_bool sint_sgn256 using slt_val_signed[OF unat_W256 unat_W256 assms(4,5)] by (simp only:)
qed

lemma binary_bit_rows:
  assumes "yword ev K \<sigma> x (unat a)" "yword ev K \<sigma> y (unat b)" "covers K s"
  shows "built (handleAnd [x, y]) s (gives ev K \<sigma> s biguintType (a AND b))"
    and "built (handleOr [x, y]) s (gives ev K \<sigma> s biguintType (a OR b))"
    and "built (handleXor [x, y]) s (gives ev K \<sigma> s biguintType (a XOR b))"
    and "built (handleShl [x, y]) s (gives ev K \<sigma> s biguintType (push_bit (unat a) b))"
    and "built (handleShr [x, y]) s (gives ev K \<sigma> s biguintType (drop_bit (unat a) b))"
    and "built (handleSar [x, y]) s (gives ev K \<sigma> s biguintType (signed_drop_bit (unat a) b))"
proof -
  note y = assms(1,2)[unfolded yword_def, THEN conjunct1]
  show "built (handleAnd [x, y]) s (gives ev K \<sigma> s biguintType (a AND b))"
    by (rule gives_yields[OF bitwise_correct(1)[OF assms]]) (simp add: unsigned_and_eq)
  show "built (handleOr [x, y]) s (gives ev K \<sigma> s biguintType (a OR b))"
    by (rule gives_yields[OF bitwise_correct(2)[OF assms]]) (simp add: unsigned_or_eq)
  show "built (handleXor [x, y]) s (gives ev K \<sigma> s biguintType (a XOR b))"
    by (rule gives_yields[OF bitwise_correct(3)[OF assms]]) (simp add: unsigned_xor_eq)
  show "built (handleShl [x, y]) s (gives ev K \<sigma> s biguintType (push_bit (unat a) b))"
    by (rule gives_yields[OF _ unat_shl[symmetric]]) (simp add: handleShl_def shlBody_correct[OF y unat_W256 assms(3)])
  show "built (handleShr [x, y]) s (gives ev K \<sigma> s biguintType (drop_bit (unat a) b))"
    by (rule gives_yields[OF _ unat_shr[symmetric]]) (simp add: handleShr_def shrBody_correct[OF y unat_W256 assms(3)])
  show "built (handleSar [x, y]) s (gives ev K \<sigma> s biguintType (signed_drop_bit (unat a) b))"
    by (rule gives_yields[OF _ unat_sar[symmetric]]) (simp add: handleSar_def sarBody_correct[OF y unat_W256 assms(3)])
qed

lemma word_bytes:
  assumes "yval ev K \<sigma> e n" "wtypeOf e \<notin> {boolType, uint64Type}"
  obtains b where "sbytes ev K \<sigma> e b" "be_nat b = n" "length b \<le> 64"
  using assms unfolding yval_def bigIs_def sbig_def by blast

lemma byte_row:
  assumes "yword ev K \<sigma> x (unat a)" "yword ev K \<sigma> y (unat b)" "covers K s" "wtypeOf y \<notin> {boolType, uint64Type}"
  shows "built (handleByte [x, y]) s (gives ev K \<sigma> s biguintType (if unat a < 32 then drop_bit (8 * (31 - unat a)) b AND 0xFF else 0))"
proof -
  from assms(1,2) have y: "yval ev K \<sigma> x (unat a)" "yval ev K \<sigma> y (unat b)" by (simp_all add: yword_def)
  from word_bytes[OF y(2) assms(4)] obtain c where "sbytes ev K \<sigma> y c" "be_nat c = unat b" "length c \<le> 64" .
  from gives_yields[OF byte_correct[OF y(1) this assms(3)] unat_byte[symmetric]] show ?thesis .
qed

lemma signextend_row:
  assumes "yword ev K \<sigma> x (unat a)" "yword ev K \<sigma> y (unat b)" "covers K s" "intLiteral x \<noteq> None \<Longrightarrow> unat a < 2 ^ 64"
  shows "built (handleSignextend [x, y]) s (gives ev K \<sigma> s biguintType (if unat a < 31 then signed_take_bit (8 * unat a + 7) b else b))"
proof -
  from assms(1) have y: "yval ev K \<sigma> x (unat a)" by (simp add: yword_def)
  from gives_yields[OF signextend_correct[OF y assms(2,3)] unat_signextend[symmetric]] assms(4) show ?thesis by blast
qed

lemma binary_refines:
  assumes "map_of (kArgsBuiltins wide) name = Some h" "map_of (evm2 a b) name = Some w" "name \<noteq> ''exp''"
    and "denotes_word ev K \<sigma> x a" "denotes_word ev K \<sigma> y b" "args_ok name [x, y] [a, b]" "wide_ok wide \<sigma>" "covers K s"
  shows "built (h [x, y]) s (gives ev K \<sigma> s (resultType name) w)"
proof -
  have x: "yword ev K \<sigma> x (unat a)" "yword ev K \<sigma> y (unat b)" using assms(4,5) by (simp_all add: denotes_word_def)
  have cmp: "built (handleLt [x, y]) s (gives ev K \<sigma> s boolType (of_bool (a < b)))"
    "built (handleGt [x, y]) s (gives ev K \<sigma> s boolType (of_bool (b < a)))"
    "built (handleEq [x, y]) s (gives ev K \<sigma> s boolType (of_bool (a = b)))"
    unfolding handleLt_def handleGt_def handleEq_def
    using compare_row[OF x assms(8), of Lt "''lt''"] compare_row[OF x assms(8), of Gt "''gt''"] compare_row[OF x assms(8), of Eq "''eq''"]
    by (simp_all add: word_less_nat_alt word_unat_eq_iff)
  have slt: "built (handleSlt [x, y]) s (gives ev K \<sigma> s biguintType (of_bool (sint a < sint b)))" if "name = ''slt''"
    using slt_row[OF x assms(8)] assms(6) that by (simp add: handleSlt_def args_ok_def)
  have sgt: "built (handleSgt [x, y]) s (gives ev K \<sigma> s biguintType (of_bool (sint b < sint a)))" if "name = ''sgt''"
    using slt_row[OF x(2,1) assms(8)] assms(6) that by (simp add: handleSgt_def args_ok_def)
  note rest = byte_row[OF x assms(8)] signextend_row[OF x assms(8)]
  from assms(1,2,3) show ?thesis
    using binary_arith_rows[OF x assms(7,8)] binary_bit_rows[OF x assms(8)] cmp slt sgt rest assms(6)
    unfolding evm2_def kArgsBuiltins_def resultType_def args_ok_def
    by (simp split: if_split_asm)
qed

theorem builtin_refines:
  assumes "map_of (kArgsBuiltins wide) name = Some h" "evm_op name ws = Some w" "name \<noteq> ''exp''"
    and "list_all2 (denotes_word ev K \<sigma>) args ws" "args_ok name args ws" "wide_ok wide \<sigma>" "covers K s"
  shows "built (h args) s (gives ev K \<sigma> s (resultType name) w)"
proof -
  from assms(2) consider (1) a where "ws = [a]" | (2) a b where "ws = [a, b]" | (3) a b c where "ws = [a, b, c]"
    by (auto simp: evm_op_def split: list.splits)
  then show ?thesis
  proof cases
    case 1
    with assms(4) obtain x where x: "args = [x]" "denotes_word ev K \<sigma> x a" by (auto simp: list_all2_Cons2)
    from unary_refines[OF assms(1) _ x(2) assms(7)] assms(2) show ?thesis unfolding x(1) 1 by (simp add: evm_op_def)
  next
    case 2
    with assms(4) obtain x y where x: "args = [x, y]" "denotes_word ev K \<sigma> x a" "denotes_word ev K \<sigma> y b"
      by (auto simp: list_all2_Cons2)
    from binary_refines[OF assms(1) _ assms(3) x(2,3) _ assms(6,7)] assms(2,5) show ?thesis
      unfolding x(1) 2 by (simp add: evm_op_def)
  next
    case 3
    with assms(4) obtain x y z where x: "args = [x, y, z]" "denotes_word ev K \<sigma> x a" "denotes_word ev K \<sigma> y b" "denotes_word ev K \<sigma> z c"
      by (auto simp: list_all2_Cons2)
    from ternary_refines[OF assms(1) _ x(2-4) assms(6,7)] assms(2) show ?thesis
      unfolding x(1) 3 by (simp add: evm_op_def)
  qed
qed

end

end
