(* ===== verification/Arc4Defaults.thy ===== *)
theory Arc4Defaults
  imports NodeFactory
begin

text \<open>
  The ARC-4 analysis of AWST types (\<open>src/src/builder/sol-types/Arc4Defaults.cpp\<close>): which types
  are encoded, which are dynamic, the encoding of the default value, the fixed encoded size and the
  rule that places a memory aggregate in the scratch pages.  The \<open>int64_t\<close> sizes are exact
  integers; the \<open>int\<close> sizes of \<open>computeEncodedElementSize\<close> wrap at 32 bits.  A vector of
  negative length throws \<open>std::length_error\<close>, the \<open>Inl\<close> of the results.
\<close>

section \<open>Classification\<close>

definition isArc4EncodedType :: "wtype \<Rightarrow> bool" where
  "isArc4EncodedType t \<longleftrightarrow>
     t = arc4BoolType \<or>
     kind t \<in> {KARC4UIntN, KARC4UFixedNxM, KARC4Tuple, KARC4DynamicArray, KARC4StaticArray, KARC4Struct}"

fun arc4IsDynamic :: "wtype \<Rightarrow> bool" where
  "arc4IsDynamic (ARC4DynamicArray _ _ _) = True"
| "arc4IsDynamic (ARC4StaticArray elem _ _ _) = arc4IsDynamic elem"
| "arc4IsDynamic (ARC4Struct _ fs _ _) = list_ex (\<lambda>f. arc4IsDynamic (snd f)) fs"
| "arc4IsDynamic (ARC4Tuple ts) = list_ex arc4IsDynamic ts"
| "arc4IsDynamic (BytesWType len) = (len = None)"
| "arc4IsDynamic _ = False"

section \<open>Zero bytes as expressions\<close>

definition makeZeroBytesRuntime :: "int \<Rightarrow> wtype \<Rightarrow> expr" where
  "makeZeroBytesRuntime n targetType =
     (if targetType = bytesType then makeBzero (nat (n mod 2 ^ 64))
      else makeReinterpretCast (makeBzero (nat (n mod 2 ^ 64))) targetType)"

definition prependArc4LengthHeader :: "expr \<Rightarrow> int \<Rightarrow> wtype \<Rightarrow> expr" where
  "prependArc4LengthHeader e len targetType = makeConvertArray e targetType"

section \<open>The default encoding\<close>

datatype FieldKind = Bool | Static | Dynamic

record FieldEncoding =
  fe_kind :: FieldKind
  fe_bytes :: bytes

text \<open>\<open>a / b\<close> on signed integers, which truncates towards zero.\<close>

definition cdiv :: "int \<Rightarrow> int \<Rightarrow> int" where
  "cdiv a b = (if a < 0 then - ((- a) div b) else a div b)"

definition zeroVector :: "int \<Rightarrow> string + bytes option" where
  "zeroVector n = (if n < 0 then Inl ''std::length_error'' else Inr (Some (replicate (nat n) 0)))"

definition flushBoolRun :: "int \<Rightarrow> int \<Rightarrow> int" where
  "flushBoolRun headSize boolRun = (if boolRun > 0 then headSize + cdiv (boolRun + 7) 8 else headSize)"

definition emitBoolRun :: "bytes \<Rightarrow> int \<Rightarrow> bytes" where
  "emitBoolRun head pendingBools =
     (if pendingBools > 0 then head @ replicate (nat (cdiv (pendingBools + 7) 8)) 0 else head)"

definition offsetBytes :: "int \<Rightarrow> bytes" where
  "offsetBytes off = [word_of_int (drop_bit 8 off AND 0xFF), word_of_int (off AND 0xFF)]"

text \<open>The second loop of \<open>arc4AggregateDefaultEncoding\<close>: heads and tails.\<close>

fun emitFields :: "FieldEncoding list \<Rightarrow> bytes \<Rightarrow> bytes \<Rightarrow> int \<Rightarrow> int \<Rightarrow> bytes option" where
  "emitFields [] head tail tailOffset pendingBools = Some (emitBoolRun head pendingBools @ tail)"
| "emitFields (enc # encs) head tail tailOffset pendingBools =
     (if fe_kind enc = Bool then emitFields encs head tail tailOffset (pendingBools + 1)
      else let head' = emitBoolRun head pendingBools
        in if fe_kind enc = Dynamic
           then (if tailOffset > 0xFFFF then None
                 else emitFields encs (head' @ offsetBytes tailOffset) (tail @ fe_bytes enc)
                        (tailOffset + int (length (fe_bytes enc))) 0)
           else emitFields encs (head' @ fe_bytes enc) tail tailOffset 0)"

definition arrayOfDefault :: "int \<Rightarrow> bool \<Rightarrow> bytes \<Rightarrow> bytes option" where
  "arrayOfDefault N dynamic elemDefault =
     (if dynamic
      then let headSize = N * 2; tailSize = int (length elemDefault)
        in if headSize > 0xFFFF \<or> (tailSize > 0 \<and> N > 0 \<and> N - 1 > cdiv (0xFFFF - headSize) tailSize)
           then None
           else Some (concat (map (\<lambda>i. offsetBytes (headSize + int i * tailSize)) [0..<nat N])
                      @ concat (replicate (nat N) elemDefault))
      else Some (concat (replicate (nat N) elemDefault)))"

lemma size_struct_fields: "size_list size (map snd fs) \<le> size (ARC4Struct n fs fr im)"
  using size_components[of "ARC4Struct n fs fr im"] by (simp add: components_size_def size_list_map comp_def)

text \<open>
  \<open>fieldEncodings\<close> is the first loop of \<open>arc4AggregateDefaultEncoding\<close>, with the encodings
  gathered so far, the head size and the length of the current run of Booleans.
\<close>

function (sequential) arc4DefaultEncoding :: "wtype \<Rightarrow> string + bytes option"
  and fieldEncodings ::
    "wtype list \<Rightarrow> FieldEncoding list \<Rightarrow> int \<Rightarrow> int \<Rightarrow> string + (FieldEncoding list \<times> int) option"
where
  "arc4DefaultEncoding (ARC4UIntN n al) = zeroVector (cdiv n 8)"
| "arc4DefaultEncoding (ARC4UFixedNxM n m) = zeroVector (cdiv n 8)"
| "arc4DefaultEncoding (ARC4DynamicArray e al im) = Inr (Some [0, 0])"
| "arc4DefaultEncoding (ARC4StaticArray elemT N al im) =
     (if N < 0 then Inr None
      else if elemT = arc4BoolType then zeroVector (cdiv (N + 7) 8)
      else (case arc4DefaultEncoding elemT of
              Inl x \<Rightarrow> Inl x
            | Inr None \<Rightarrow> Inr None
            | Inr (Some elemDefault) \<Rightarrow> Inr (arrayOfDefault N (arc4IsDynamic elemT) elemDefault)))"
| "arc4DefaultEncoding (ARC4Struct n fs fr im) =
     (case fieldEncodings (map snd fs) [] 0 0 of
        Inl x \<Rightarrow> Inl x
      | Inr None \<Rightarrow> Inr None
      | Inr (Some (encodings, headSize)) \<Rightarrow>
          Inr (if headSize > 0xFFFF then None else emitFields encodings [] [] headSize 0))"
| "arc4DefaultEncoding (ARC4Tuple ts) =
     (case fieldEncodings ts [] 0 0 of
        Inl x \<Rightarrow> Inl x
      | Inr None \<Rightarrow> Inr None
      | Inr (Some (encodings, headSize)) \<Rightarrow>
          Inr (if headSize > 0xFFFF then None else emitFields encodings [] [] headSize 0))"
| "arc4DefaultEncoding (BytesWType (Some n)) = zeroVector n"
| "arc4DefaultEncoding (BytesWType None) = Inr (Some [0, 0])"
| "arc4DefaultEncoding t =
     (if t = biguintType then zeroVector 32
      else if t = uint64Type then zeroVector 8
      else if t = boolType then Inr (Some [0])
      else if t = arc4BoolType then Inr (Some [0])
      else if t = accountType then zeroVector 32
      else Inr None)"
| "fieldEncodings [] encodings headSize boolRun =
     Inr (Some (encodings, flushBoolRun headSize boolRun))"
| "fieldEncodings (fieldType # rest) encodings headSize boolRun =
     (if fieldType = arc4BoolType
      then fieldEncodings rest (encodings @ [\<lparr>fe_kind = Bool, fe_bytes = []\<rparr>]) headSize (boolRun + 1)
      else (case arc4DefaultEncoding fieldType of
              Inl x \<Rightarrow> Inl x
            | Inr None \<Rightarrow> Inr None
            | Inr (Some fieldDefault) \<Rightarrow>
                fieldEncodings rest
                  (encodings @ [\<lparr>fe_kind = (if arc4IsDynamic fieldType then Dynamic else Static),
                                fe_bytes = fieldDefault\<rparr>])
                  (flushBoolRun headSize boolRun
                     + (if arc4IsDynamic fieldType then 2 else int (length fieldDefault))) 0))"
  by pat_completeness auto

termination
proof (relation "measure (case_sum (\<lambda>t. Suc (2 * size t)) (\<lambda>(ts, _). 2 * size_list size ts))", goal_cases)
  case (3 n fs fr im)
  show ?case using size_struct_fields[of fs n fr im] by (simp del: wtype.size)
qed auto

section \<open>The fixed encoded size\<close>

text \<open>A value stored into a 32-bit \<open>int\<close>.\<close>

definition to_int32 :: "int \<Rightarrow> int" where
  "to_int32 x = sint (word_of_int x :: 32 word)"

function (sequential) computeEncodedElementSize :: "wtype \<Rightarrow> int"
  and aggregateSize :: "wtype list \<Rightarrow> int \<Rightarrow> int \<Rightarrow> int"
where
  "computeEncodedElementSize (ARC4UIntN n al) = cdiv n 8"
| "computeEncodedElementSize (ARC4UFixedNxM n m) = cdiv n 8"
| "computeEncodedElementSize (ARC4Struct n fs fr im) = aggregateSize (map snd fs) 0 0"
| "computeEncodedElementSize (ARC4Tuple ts) = aggregateSize ts 0 0"
| "computeEncodedElementSize (ARC4StaticArray e n al im) =
     (if e = arc4BoolType then to_int32 (cdiv (n + 7) 8)
      else let elemSize = computeEncodedElementSize e
        in if elemSize = 0 then 0 else to_int32 (n * elemSize))"
| "computeEncodedElementSize (ReferenceArray e im (Some n)) =
     (let elemSize = computeEncodedElementSize e
      in if elemSize = 0 then 0 else to_int32 (n * elemSize))"
| "computeEncodedElementSize (ReferenceArray e im None) = 0"
| "computeEncodedElementSize (ARC4DynamicArray e al im) = 0"
| "computeEncodedElementSize (BytesWType (Some n)) = n"
| "computeEncodedElementSize (BytesWType None) = 0"
| "computeEncodedElementSize t =
     (if t = biguintType then 32
      else if t = uint64Type then 8
      else if t = boolType then 8
      else if t = accountType then 32
      else 0)"
| "aggregateSize [] acc boolRun = to_int32 (flushBoolRun acc boolRun)"
| "aggregateSize (fieldType # rest) acc boolRun =
     (if fieldType = arc4BoolType then aggregateSize rest acc (boolRun + 1)
      else let fieldSize = computeEncodedElementSize fieldType
        in if fieldSize = 0 then 0
           else aggregateSize rest (to_int32 (flushBoolRun acc boolRun + fieldSize)) 0)"
  by pat_completeness auto

termination
proof (relation "measure (case_sum (\<lambda>t. Suc (2 * size t)) (\<lambda>(ts, _). 2 * size_list size ts))", goal_cases)
  case (2 n fs fr im)
  show ?case using size_struct_fields[of fs n fr im] by (simp del: wtype.size)
qed auto

definition memoryUsesBlob :: "wtype \<Rightarrow> bool" where
  "memoryUsesBlob t \<longleftrightarrow> computeEncodedElementSize t > 4096"

end
