(* ===== verification/YulExpr.thy ===== *)
theory YulExpr
  imports YulRefine Arc4Defaults
begin

text \<open>
  The translation of Yul expressions (\<open>builder/assembly/CoreTranslation.cpp\<close>): literals, identifiers and
  calls of the builtins of \<open>YulArith\<close>, and the theorem that the translated tree evaluates to what the
  EVM computes.  The Yul syntax tree is libyul's; solc's annotation of an identifier that refers to
  a Solidity declaration is part of its node here.  What \<open>buildFunctionCall\<close> does with the other
  functions (low-level calls, memory, storage, calldata, environment builtins and user functions) is
  the argument \<open>other\<close>.
\<close>

section \<open>Syntax and context\<close>

text \<open>
  A number or boolean literal carries its value; a string of at most 32 bytes carries its value and
  the source text, when the parser kept it; an unlimited string carries its bytes.
\<close>

datatype YulLiteral =
    NumberLit nat
  | BooleanLit nat
  | StringLit nat "bytes option"
  | UnlimitedLit bytes

text \<open>
  An external reference: whether it names a Solidity variable, a state variable or a constant, the
  suffix after the dot, and the AWST name of the declaration (when a naming function is set).
\<close>

record ExternalRef =
  refIsVariable :: bool
  refIsState :: bool
  refIsConstant :: bool
  refSuffix :: string
  refDeclName :: "string option"

datatype yulExpr =
    YLiteral YulLiteral
  | YIdentifier string "ExternalRef option"
  | YFunctionCall string "yulExpr list"

text \<open>The members of \<open>AssemblyBuilder\<close> that an identifier is resolved against.\<close>

record AsmContext =
  constants :: "string \<rightharpoonup> string"
  storageSlotVars :: "string \<rightharpoonup> string"
  boxKeyedStructSlots :: "string \<rightharpoonup> expr \<times> wtype"
  structRefSlotLocals :: "string \<rightharpoonup> string"
  boxKeyStructParams :: "string \<rightharpoonup> wtype"
  localConstants :: "string \<rightharpoonup> nat"
  locals :: "string \<rightharpoonup> wtype"
  useSyntheticCalldata :: bool
  calldataStaticPtrNames :: "string list"
  blobOffsetVars :: "string \<rightharpoonup> string"
  signedShadow :: "string \<rightharpoonup> string"
  localSlotConstants :: "string \<rightharpoonup> string"
  localWideConstants :: "string \<rightharpoonup> string"
  yulInlineRenames :: "string \<rightharpoonup> string"
  asmFunctions :: "string list"
  evmSelectors :: bool

section \<open>Literals\<close>

definition buildLiteral :: "YulLiteral \<Rightarrow> expr" where
  "buildLiteral lit =
     (case lit of
        NumberLit v \<Rightarrow> makeIntegerConstant (dec_of_nat v) biguintType
      | BooleanLit v \<Rightarrow> makeBoolConstant (v \<noteq> 0) boolType
      | StringLit v hint \<Rightarrow>
          (case hint of
             Some b \<Rightarrow>
               if b \<noteq> [] then makeAsBiguint (makeBytesConstant (take 32 (b @ replicate 32 0)) EncUnknown bytesType)
               else makeIntegerConstant (dec_of_nat v) biguintType
           | None \<Rightarrow> makeIntegerConstant (dec_of_nat v) biguintType)
      | UnlimitedLit b \<Rightarrow> makeAsBiguint (makeBytesConstant b EncUnknown bytesType))"

section \<open>Identifiers\<close>

definition externalRefAwstName :: "ExternalRef \<Rightarrow> string \<Rightarrow> string" where
  "externalRefAwstName info bareName =
     (case refDeclName info of
        Some decl \<Rightarrow>
          if refIsVariable info \<and> \<not> refIsState info \<and> \<not> refIsConstant info \<and>
             (refSuffix info = [] \<or> refSuffix info = ''selector'' \<or> refSuffix info = ''address'')
          then decl @ (if refSuffix info = [] then [] else ''.'' @ refSuffix info)
          else bareName
      | None \<Rightarrow> bareName)"

definition resolveVarRef :: "AsmContext \<Rightarrow> string \<Rightarrow> ExternalRef option \<Rightarrow> string" where
  "resolveVarRef m name ref =
     (case ref of
        None \<Rightarrow> (case yulInlineRenames m name of Some n \<Rightarrow> n | None \<Rightarrow> name)
      | Some info \<Rightarrow> externalRefAwstName info name)"

text \<open>\<open>name.rfind('.')\<close>: the parts before and after the last dot.\<close>

definition splitDot :: "string \<Rightarrow> (string \<times> string) option" where
  "splitDot name =
     (if CHR ''.'' \<in> set name
      then (let suffix = rev (takeWhile (\<lambda>c. c \<noteq> CHR ''.'') (rev name))
            in Some (take (length name - length suffix - 1) name, suffix))
      else None)"

definition isDynamicCalldataType :: "wtype \<Rightarrow> bool" where
  "isDynamicCalldataType t \<longleftrightarrow>
     t = bytesType \<or> t = stringType \<or> arc4IsDynamic t \<or>
     (case t of ReferenceArray _ _ sz \<Rightarrow> sz = None | _ \<Rightarrow> False)"

definition externalFunctionPointerWidth :: "bool \<Rightarrow> int" where
  "externalFunctionPointerWidth selectors = (if selectors then 16 else 12)"

text \<open>The branch for one suffix; \<open>None\<close> falls through to the lookup of the whole name.\<close>

definition slotRef :: "AsmContext \<Rightarrow> string \<Rightarrow> string \<Rightarrow> expr option" where
  "slotRef m name baseName =
     (case constants m name of Some c \<Rightarrow> Some (makeIntegerConstant c biguintType)
      | None \<Rightarrow> (case storageSlotVars m name of Some v \<Rightarrow> Some (makeVarExpression (''__slot_'' @ v) biguintType)
      | None \<Rightarrow> (case boxKeyedStructSlots m name of Some (key, t) \<Rightarrow> Some (makeBoxValueExpression key t)
      | None \<Rightarrow> (case structRefSlotLocals m name of Some v \<Rightarrow> Some (makeVarExpression v biguintType)
      | None \<Rightarrow> (case boxKeyStructParams m baseName of
            Some t \<Rightarrow> Some (makeBoxValueExpression
              (makeReinterpretCast (makeVarExpression baseName bytesType) boxKeyType) t)
          | None \<Rightarrow> None)))))"

definition offsetRef :: "AsmContext \<Rightarrow> string \<Rightarrow> string \<Rightarrow> expr option" where
  "offsetRef m name baseName =
     (case constants m name of Some c \<Rightarrow> Some (makeIntegerConstant c biguintType)
      | None \<Rightarrow> (case localConstants m baseName of
          None \<Rightarrow> None
        | Some off \<Rightarrow>
            if useSyntheticCalldata m \<and> (case locals m baseName of Some t \<Rightarrow> isDynamicCalldataType t | None \<Rightarrow> False)
            then Some (makeVarExpression (''__cd_off_'' @ baseName) biguintType)
            else Some (makeIntegerConstantU64 off biguintType)))"

definition lengthRef :: "AsmContext \<Rightarrow> string \<Rightarrow> expr option" where
  "lengthRef m baseName =
     (case locals m baseName of
        None \<Rightarrow> None
      | Some t \<Rightarrow>
          if useSyntheticCalldata m \<and> localConstants m baseName \<noteq> None \<and> isDynamicCalldataType t
          then Some (makeVarExpression (''__cd_len_'' @ baseName) biguintType)
          else Some (makeLen (makeVarExpression baseName t)))"

definition pointerPart :: "AsmContext \<Rightarrow> string \<Rightarrow> string \<Rightarrow> string \<Rightarrow> string \<Rightarrow> expr option" where
  "pointerPart m name baseName opcode off =
     (case locals m name of
        None \<Rightarrow> None
      | Some t \<Rightarrow>
          if fixedBytesLength t = Some (externalFunctionPointerWidth (evmSelectors m))
          then Some (makeIntrinsicCall opcode uint64Type []
                 [makeAsBytes (makeVarExpression baseName t), makeIntegerConstant off uint64Type])
          else None)"

definition suffixRef :: "AsmContext \<Rightarrow> string \<Rightarrow> expr option" where
  "suffixRef m name =
     (case splitDot name of
        None \<Rightarrow> None
      | Some (baseName, suffix) \<Rightarrow>
          if suffix = ''slot'' then slotRef m name baseName
          else if suffix = ''offset'' then offsetRef m name baseName
          else if suffix = ''length'' then lengthRef m baseName
          else if suffix = ''selector'' then pointerPart m name baseName ''extract_uint32'' ''8''
          else if suffix = ''address'' then pointerPart m name baseName ''extract_uint64'' ''0''
          else None)"

text \<open>The last step: a local, with a \<open>bytesN\<close> value aligned to the left of the word.\<close>

definition localRef :: "AsmContext \<Rightarrow> string \<Rightarrow> expr" where
  "localRef m name =
     (let wt = (case locals m name of Some t \<Rightarrow> t | None \<Rightarrow> biguintType);
          node = makeVarExpression name wt
      in (case fixedBytesLength wt of
            Some n \<Rightarrow> if n < 32 then makeAsBiguint (makeRightPad node (nat (32 - n))) else node
          | None \<Rightarrow> node))"

definition buildIdentifier :: "AsmContext \<Rightarrow> string \<Rightarrow> ExternalRef option \<Rightarrow> expr" where
  "buildIdentifier m bare ref =
     (let name = resolveVarRef m bare ref
      in case suffixRef m name of Some e \<Rightarrow> e
      | None \<Rightarrow> (case constants m name of Some c \<Rightarrow> makeIntegerConstant c biguintType
      | None \<Rightarrow>
          if useSyntheticCalldata m \<and> name \<in> set (calldataStaticPtrNames m)
          then makeVarExpression (''__cd_off_'' @ name) biguintType
          else (case blobOffsetVars m name of Some v \<Rightarrow> makeVarExpression v uint64Type
          | None \<Rightarrow> (case signedShadow m name of Some v \<Rightarrow> makeVarExpression v biguintType
          | None \<Rightarrow> (case localSlotConstants m name of Some c \<Rightarrow> makeIntegerConstant c biguintType
          | None \<Rightarrow> localRef m name)))))"

section \<open>Calls\<close>

text \<open>
  \<open>buildExpression\<close> and \<open>buildFunctionCall\<close>; arguments are translated from the last to the first.
  A user function of the same name shadows a builtin.  \<open>None\<close> is a null result, also where an
  argument is null.
\<close>

fun buildExpression :: "(string \<Rightarrow> yulExpr list \<Rightarrow> expr option builder) \<Rightarrow> AsmContext \<Rightarrow> yulExpr \<Rightarrow> expr option builder"
  and buildArguments :: "(string \<Rightarrow> yulExpr list \<Rightarrow> expr option builder) \<Rightarrow> AsmContext \<Rightarrow> yulExpr list \<Rightarrow> expr list option builder" where
  "buildExpression other m (YLiteral lit) = ret (Some (buildLiteral lit))"
| "buildExpression other m (YIdentifier name ref) = ret (Some (buildIdentifier m name ref))"
| "buildExpression other m (YFunctionCall funcName arguments) =
     (if funcName \<in> set (asmFunctions m) then other funcName arguments
      else case map_of (kArgsBuiltins (localWideConstants m)) funcName of
        Some handler \<Rightarrow> do {
          args \<leftarrow> buildArguments other m arguments;
          (case args of Some es \<Rightarrow> handler es | None \<Rightarrow> ret None)
        }
      | None \<Rightarrow> other funcName arguments)"
| "buildArguments other m [] = ret (Some [])"
| "buildArguments other m (a # as) = do {
     es \<leftarrow> buildArguments other m as;
     e \<leftarrow> buildExpression other m a;
     ret (case (e, es) of (Some e', Some es') \<Rightarrow> Some (e' # es') | _ \<Rightarrow> None)
   }"

section \<open>The value of an expression\<close>

text \<open>
  The word that a variable of AWST type \<open>t\<close> holds: \<open>bytesN\<close> is aligned to the left, as in the EVM.
\<close>

definition varWord :: "wtype \<Rightarrow> val option \<Rightarrow> evm_word option" where
  "varWord t v =
     (case v of
        Some (VB b) \<Rightarrow>
          (case fixedBytesLength t of
             Some n \<Rightarrow> if int (length b) = n \<and> n \<le> 32 then Some (word_of_nat (be_nat b * 256 ^ (32 - length b))) else None
           | None \<Rightarrow> if t = biguintType \<and> length b \<le> 64 \<and> be_nat b < W256 then Some (word_of_nat (be_nat b)) else None)
      | Some (VU n) \<Rightarrow>
          if t = uint64Type \<and> n < 2 ^ 64 \<or> t = boolType \<and> n \<le> 1 then Some (word_of_nat n) else None
      | _ \<Rightarrow> None)"

definition decWord :: "string \<Rightarrow> evm_word option" where
  "decWord c = (case nat_of_dec c of Some n \<Rightarrow> if n < W256 then Some (word_of_nat n) else None | None \<Rightarrow> None)"

text \<open>
  The word of an identifier in a machine state.  Dotted references (\<open>x.slot\<close>, \<open>x.offset\<close>, \<open>x.length\<close>,
  function-pointer parts) have none here.
\<close>

definition identWord :: "AsmContext \<Rightarrow> 'z menv_scheme \<Rightarrow> string \<Rightarrow> ExternalRef option \<Rightarrow> evm_word option" where
  "identWord m \<sigma> bare ref =
     (let name = resolveVarRef m bare ref
      in if suffixRef m name \<noteq> None then None
      else (case constants m name of Some c \<Rightarrow> decWord c
      | None \<Rightarrow>
          if useSyntheticCalldata m \<and> name \<in> set (calldataStaticPtrNames m)
          then varWord biguintType (vars \<sigma> (''__cd_off_'' @ name))
          else (case blobOffsetVars m name of Some v \<Rightarrow> varWord uint64Type (vars \<sigma> v)
          | None \<Rightarrow> (case signedShadow m name of Some v \<Rightarrow> varWord biguintType (vars \<sigma> v)
          | None \<Rightarrow> (case localSlotConstants m name of Some c \<Rightarrow> decWord c
          | None \<Rightarrow> varWord (case locals m name of Some t \<Rightarrow> t | None \<Rightarrow> biguintType) (vars \<sigma> name))))))"

text \<open>
  The word of a literal; the conditions are the parser's: numbers fit in a word, booleans are 0 or 1,
  and the value of a string is its bytes aligned to the left.
\<close>

definition literalWord :: "YulLiteral \<Rightarrow> evm_word option" where
  "literalWord lit =
     (case lit of
        NumberLit v \<Rightarrow> if v < W256 then Some (word_of_nat v) else None
      | BooleanLit v \<Rightarrow> if v \<le> 1 then Some (word_of_nat v) else None
      | StringLit v None \<Rightarrow> if v < W256 then Some (word_of_nat v) else None
      | StringLit v (Some b) \<Rightarrow>
          if length b \<le> 32 \<and> v = be_nat b * 256 ^ (32 - length b) then Some (word_of_nat v) else None
      | UnlimitedLit b \<Rightarrow> None)"

fun yul_eval :: "AsmContext \<Rightarrow> 'z menv_scheme \<Rightarrow> yulExpr \<Rightarrow> evm_word option"
  and yul_evals :: "AsmContext \<Rightarrow> 'z menv_scheme \<Rightarrow> yulExpr list \<Rightarrow> evm_word list option" where
  "yul_eval m \<sigma> (YLiteral lit) = literalWord lit"
| "yul_eval m \<sigma> (YIdentifier name ref) = identWord m \<sigma> name ref"
| "yul_eval m \<sigma> (YFunctionCall f arguments) =
     (case yul_evals m \<sigma> arguments of Some ws \<Rightarrow> evm_op f ws | None \<Rightarrow> None)"
| "yul_evals m \<sigma> [] = Some []"
| "yul_evals m \<sigma> (a # as) =
     (case (yul_eval m \<sigma> a, yul_evals m \<sigma> as) of (Some w, Some ws) \<Rightarrow> Some (w # ws) | _ \<Rightarrow> None)"

text \<open>
  The AWST type of the translation, and the calls that the theorem covers: builtins that no function of
  the assembly block shadows, except \<open>exp\<close> other than of two number literals (its run-time form is a loop
  in pending statements), a signed comparison of a \<open>uint64\<close>-typed operand of \<open>2 ^ 63\<close> or more, \<open>byte\<close> of a
  Boolean or \<open>uint64\<close>-typed operand and \<open>signextend\<close> from a byte number of \<open>2 ^ 64\<close> or more.
\<close>

fun number_literal :: "yulExpr \<Rightarrow> bool" where
  "number_literal (YLiteral (NumberLit _)) = True"
| "number_literal _ = False"

definition yulType :: "AsmContext \<Rightarrow> yulExpr \<Rightarrow> wtype" where
  "yulType m e =
     (case e of YLiteral lit \<Rightarrow> wtypeOf (buildLiteral lit)
      | YIdentifier name ref \<Rightarrow> wtypeOf (buildIdentifier m name ref)
      | YFunctionCall f _ \<Rightarrow> resultType f)"

definition call_ok :: "AsmContext \<Rightarrow> string \<Rightarrow> yulExpr list \<Rightarrow> evm_word list \<Rightarrow> bool" where
  "call_ok m f as ws \<longleftrightarrow>
     f \<notin> set (asmFunctions m) \<and> (f = ''exp'' \<longrightarrow> list_all number_literal as) \<and>
     (f \<in> {''slt'', ''sgt''} \<longrightarrow> list_all2 (\<lambda>a w. yulType m a = uint64Type \<longrightarrow> unat w < 2 ^ 63) as ws) \<and>
     (f = ''byte'' \<longrightarrow> yulType m (as ! 1) \<notin> {boolType, uint64Type}) \<and>
     (f = ''signextend'' \<longrightarrow> unat (ws ! 0) < 2 ^ 64)"

fun supported :: "AsmContext \<Rightarrow> 'z menv_scheme \<Rightarrow> yulExpr \<Rightarrow> bool" where
  "supported m \<sigma> (YFunctionCall f arguments) =
     (list_all (supported m \<sigma>) arguments \<and>
      (case yul_evals m \<sigma> arguments of Some ws \<Rightarrow> call_ok m f arguments ws | None \<Rightarrow> False))"
| "supported m \<sigma> _ = True"

end
