(* ===== verification/YulExprCorrect.thy ===== *)
theory YulExprCorrect
  imports YulExpr
begin

text \<open>
  The translation of a Yul expression denotes the word that the expression has in the EVM: by
  induction on the syntax tree, from the refinement of the single builtins.
\<close>

lemma denotes_big: "bigIs ev K \<sigma> e n \<Longrightarrow> n < W256 \<Longrightarrow> denotes_word ev K \<sigma> e (word_of_nat n)"
  by (simp add: denotes_word_def yword_def yval_def unat_of_nat_W256)

lemma unat_of_small: "n < W256 \<Longrightarrow> unat (word_of_nat n :: evm_word) = n"
  by (simp add: unat_of_nat_W256)

lemma be_nat_left: "be_nat (b @ replicate n 0) = be_nat b * 256 ^ n"
  by (simp add: be_nat_append)

lemma left_aligned_less: "length b \<le> 32 \<Longrightarrow> be_nat b * 256 ^ (32 - length b) < W256"
  using be_nat_bound[of "b @ replicate (32 - length b) 0"] by (simp add: be_nat_left W256_def)

lemma bytes_kind: "fixedBytesLength t = Some n \<Longrightarrow> kind t = KBytes"
  by (cases t) simp_all

lemma small_types: "fixedBytesLength biguintType = None" "fixedBytesLength uint64Type = None" "fixedBytesLength boolType = None"
  by (simp_all add: basic_type_defs)

text \<open>A variable as \<open>localRef\<close> reads it.\<close>

definition alignedVar :: "wtype \<Rightarrow> string \<Rightarrow> expr" where
  "alignedVar t x =
     (case fixedBytesLength t of
        Some n \<Rightarrow> if n < 32 then makeAsBiguint (makeRightPad (makeVarExpression x t) (nat (32 - n))) else makeVarExpression x t
      | None \<Rightarrow> makeVarExpression x t)"

lemma localRef_aligned: "localRef m name = alignedVar (case locals m name of Some t \<Rightarrow> t | None \<Rightarrow> biguintType) name"
  by (simp add: localRef_def alignedVar_def Let_def split: option.splits)

lemma alignedVar_plain: "alignedVar biguintType x = makeVarExpression x biguintType" "alignedVar uint64Type x = makeVarExpression x uint64Type"
  by (simp_all add: alignedVar_def small_types)

lemma var_node [simp]: "wtypeOf (makeVarExpression x t) = t" "intLiteral (makeVarExpression x t) = None"
  by (simp_all add: makeVarExpression_def intLiteral_def)

lemma bool_node [simp]: "wtypeOf (makeBoolConstant p t) = t" "intLiteral (makeBoolConstant p t) = None"
  by (simp_all add: makeBoolConstant_def intLiteral_def)

lemma yval_boolI: "wtypeOf e = boolType \<Longrightarrow> intLiteral e = None \<Longrightarrow> sbool ev K \<sigma> e p \<Longrightarrow> yval ev K \<sigma> e (of_bool p)"
  unfolding yval_def by blast

text \<open>Every operation of the reference has a row in the dispatch table.\<close>

lemma evm_op_in_table:
  assumes "evm_op f ws = Some w"
  shows "\<exists>h. map_of (kArgsBuiltins wide) f = Some h"
proof -
  have "f \<in> fst ` set (kArgsBuiltins wide)"
    using assms unfolding evm_op_def evm1_def evm2_def evm3_def kArgsBuiltins_def
    by (auto split: list.splits if_splits)
  then show ?thesis by (metis map_of_eq_None_iff not_None_eq)
qed

text \<open>The number a machine value stands for, and a context in which every identifier is a plain local.\<close>

fun val_nat :: "val \<Rightarrow> nat" where
  "val_nat (VB b) = be_nat b"
| "val_nat (VU n) = n"
| "val_nat _ = 0"


text \<open>\<open>exp\<close> of two number literals is folded.\<close>

lemma number_literalE: "number_literal a \<Longrightarrow> (\<And>n. a = YLiteral (NumberLit n) \<Longrightarrow> P) \<Longrightarrow> P"
  by (cases a rule: number_literal.cases) auto

lemma handleExp_literals:
  "handleExp [IntegerConstant t (dec_of_nat b), IntegerConstant u (dec_of_nat e)] =
     ret (Some (makeIntegerConstant (dec_of_nat (b ^ e mod 2 ^ 256)) biguintType))"
proof -
  have "constExpLoop 1 (b mod 2 ^ 256) e = b ^ e mod 2 ^ 256"
    by (simp add: constExpLoop_power power_mod del: power_numeral One_nat_def)
  then show ?thesis by (simp add: handleExp_def checkArity_def intLiteral_def del: power_numeral)
qed

context avm
begin

lemma bytes_var_denotes:
  assumes "vars \<sigma> x = Some (VB b)" "fixedBytesLength t = Some (int (length b))" "length b \<le> 32"
  shows "denotes_word ev K \<sigma> (alignedVar t x) (word_of_nat (be_nat b * 256 ^ (32 - length b)))"
proof (cases "length b < 32")
  case True
  have v: "sbytes ev K \<sigma> (makeVarExpression x t) b" unfolding makeVarExpression_def by (rule sval_var[OF assms(1)])
  let ?e = "makeAsBiguint (makeRightPad (makeVarExpression x t) (32 - length b))"
  have "sbytes ev K \<sigma> ?e (b @ replicate (32 - length b) 0)"
    unfolding makeAsBiguint_def makeReinterpretCast_def makeRightPad_def
    by (intro sval_cast sbytes_concat[OF v] sbytes_bzero) (use assms(3) in simp_all)
  from sbigI[OF this] assms(3) have "bigIs ev K \<sigma> ?e (be_nat b * 256 ^ (32 - length b))"
    by (simp add: bigIs_def be_nat_left)
  moreover have "nat (32 - int (length b)) = 32 - length b" by simp
  ultimately show ?thesis using denotes_big[OF _ left_aligned_less[OF assms(3)]] True assms(2)
    by (simp add: alignedVar_def del: of_nat_mult of_nat_power)
next
  case False
  with assms(3) have l: "length b = 32" by simp
  have v: "sbytes ev K \<sigma> (makeVarExpression x t) b" unfolding makeVarExpression_def by (rule sval_var[OF assms(1)])
  have "yval ev K \<sigma> (makeVarExpression x t) (be_nat b)"
    unfolding yval_def using v l bytes_kind[OF assms(2)] var_node[of x t] by (intro disjI2) auto
  then show ?thesis using left_aligned_less[OF assms(3)] l assms(2) unfolding denotes_word_def yword_def alignedVar_def
    by (simp add: unat_of_small)
qed

lemma varWord_denotes:
  assumes "varWord t (vars \<sigma> x) = Some w"
  shows "denotes_word ev K \<sigma> (alignedVar t x) w"
proof -
  from assms consider
      (big) b where "vars \<sigma> x = Some (VB b)" "t = biguintType" "length b \<le> 64" "be_nat b < W256" "w = word_of_nat (be_nat b)"
    | (fixed) b where "vars \<sigma> x = Some (VB b)" "fixedBytesLength t = Some (int (length b))" "length b \<le> 32"
        "w = word_of_nat (be_nat b * 256 ^ (32 - length b))"
    | (u64) n where "vars \<sigma> x = Some (VU n)" "t = uint64Type" "n < 2 ^ 64" "w = word_of_nat n"
    | (bool) n where "vars \<sigma> x = Some (VU n)" "t = boolType" "n \<le> 1" "w = word_of_nat n"
    by (auto simp: varWord_def split: option.splits val.splits if_splits)
  then show ?thesis
  proof cases
    case big
    have "bigIs ev K \<sigma> (makeVarExpression x biguintType) (be_nat b)"
      using sbig_temp[OF big(1) refl big(3)] by (simp add: bigIs_def makeVarExpression_def)
    from denotes_big[OF this big(4)] big show ?thesis by (simp add: alignedVar_plain)
  next
    case fixed
    from bytes_var_denotes[OF fixed(1-3)] fixed(4) show ?thesis by simp
  next
    case u64
    have "n < W256" using u64(3) by (simp add: W256_def)
    moreover have "yval ev K \<sigma> (makeVarExpression x uint64Type) n"
      using sval_var[OF u64(1)] u64(3) by (simp add: yval_def makeVarExpression_def)
    ultimately show ?thesis unfolding denotes_word_def yword_def u64(2,4) alignedVar_plain by (simp add: unat_of_small)
  next
    case bool
    then obtain p where p: "n = of_bool p" by (cases n) (auto intro: that[of False] that[of True])
    have "n < W256" using bool(3) W256_bounds(5) by simp
    moreover have "yval ev K \<sigma> (makeVarExpression x boolType) n"
      unfolding p by (rule yval_boolI) (use sval_var[OF bool(1), of K boolType] p in \<open>simp_all only: var_node makeVarExpression_def[symmetric]\<close>)
    ultimately show ?thesis unfolding denotes_word_def yword_def bool(2,4) alignedVar_def small_types by (simp add: unat_of_small)
  qed
qed

lemma decWord_denotes:
  assumes "decWord c = Some w"
  shows "denotes_word ev K \<sigma> (makeIntegerConstant c biguintType) w"
proof -
  from assms obtain n where n: "nat_of_dec c = Some n" "n < W256" "w = word_of_nat n"
    by (auto simp: decWord_def split: option.splits if_splits)
  have "n < 2 ^ 512" using n(2) W256_bounds(2) by linarith
  from denotes_big[OF bigIs_const[OF n(1) this] n(2)] n(3) show ?thesis by simp
qed

lemma identWord_denotes:
  assumes "identWord m \<sigma> bare ref = Some w"
  shows "denotes_word ev K \<sigma> (buildIdentifier m bare ref) w"
  using assms varWord_denotes[where K = K] decWord_denotes[where K = K and \<sigma> = \<sigma>]
  unfolding identWord_def buildIdentifier_def Let_def localRef_aligned
  by (auto simp: alignedVar_plain[symmetric] split: option.splits if_splits)

lemma literalWord_denotes:
  assumes "literalWord lit = Some w"
  shows "denotes_word ev K \<sigma> (buildLiteral lit) w"
proof -
  have num: "denotes_word ev K \<sigma> (makeIntegerConstant (dec_of_nat v) biguintType) (word_of_nat v)" if "v < W256" for v
    by (rule decWord_denotes) (simp add: decWord_def that)
  have bool: "denotes_word ev K \<sigma> (makeBoolConstant p boolType) (word_of_nat (of_bool p))" for p
  proof -
    have "yval ev K \<sigma> (makeBoolConstant p boolType) (of_bool p)"
      by (rule yval_boolI) (use sval_true[of K \<sigma> boolType p] in \<open>simp_all only: bool_node makeBoolConstant_def[symmetric]\<close>)
    moreover have "of_bool p < W256" using W256_bounds(5) by (cases p) simp_all
    ultimately show ?thesis unfolding denotes_word_def yword_def by (simp only: unat_of_small simp_thms)
  qed
  have str: "denotes_word ev K \<sigma> (makeAsBiguint (makeBytesConstant (take 32 (b @ replicate 32 0)) EncUnknown bytesType))
      (word_of_nat (be_nat b * 256 ^ (32 - length b)))" if "length b \<le> 32" for b
  proof -
    have t: "take 32 (b @ replicate 32 0) = b @ replicate (32 - length b) 0" using that by (simp add: min_def)
    have "sbytes ev K \<sigma> (makeAsBiguint (makeBytesConstant (b @ replicate (32 - length b) 0) EncUnknown bytesType)) (b @ replicate (32 - length b) 0)"
      unfolding makeAsBiguint_def makeReinterpretCast_def makeBytesConstant_def
      by (intro sval_cast sval_bytes) (use that in simp)
    from sbigI[OF this] that have "bigIs ev K \<sigma> (makeAsBiguint (makeBytesConstant (b @ replicate (32 - length b) 0) EncUnknown bytesType))
        (be_nat b * 256 ^ (32 - length b))" by (simp add: bigIs_def be_nat_left)
    from denotes_big[OF this left_aligned_less[OF that]] show ?thesis unfolding t .
  qed
  show ?thesis
  proof (cases lit)
    case (NumberLit v)
    with assms num show ?thesis by (auto simp: literalWord_def buildLiteral_def split: if_splits)
  next
    case (BooleanLit v)
    with assms have "v \<le> 1" "w = word_of_nat v" by (auto simp: literalWord_def split: if_splits)
    moreover from \<open>v \<le> 1\<close> have "v = of_bool (v \<noteq> 0)" by (cases v) auto
    ultimately show ?thesis using bool[of "v \<noteq> 0"] BooleanLit by (simp only: buildLiteral_def YulLiteral.simps)
  next
    case (StringLit v h)
    with assms num[of v] str num[of 0] show ?thesis
      by (auto simp: literalWord_def buildLiteral_def W256_bounds split: option.splits if_splits)
  next
    case (UnlimitedLit b)
    with assms show ?thesis by (simp add: literalWord_def)
  qed
qed

text \<open>The arguments of a call, when each of them is translated correctly.\<close>

lemma arguments_correct:
  assumes "\<And>a w s. a \<in> set as \<Longrightarrow> supported m \<sigma> a \<Longrightarrow> yul_eval m \<sigma> a = Some w \<Longrightarrow> covers K s \<Longrightarrow>
      built (buildExpression other m a) s (gives ev K \<sigma> s (yulType m a) w)"
    and "list_all (supported m \<sigma>) as" "yul_evals m \<sigma> as = Some ws" "covers K s"
  shows "built (buildArguments other m as) s (\<lambda>r s'. \<exists>es. r = Some es \<and> list_all2 (denotes_word ev K \<sigma>) es ws \<and>
      map wtypeOf es = map (yulType m) as \<and> covers K s' \<and> preEffects s' = preEffects s)"
  using assms
proof (induction as arbitrary: ws s)
  case (Cons a as)
  from Cons.prems(3) obtain w us where w: "yul_eval m \<sigma> a = Some w" "yul_evals m \<sigma> as = Some us" "ws = w # us"
    by (auto split: option.splits)
  from Cons.prems(2) have sup: "supported m \<sigma> a" "list_all (supported m \<sigma>) as" by simp_all
  have tail: "built (buildArguments other m as) s (\<lambda>r s'. \<exists>es. r = Some es \<and> list_all2 (denotes_word ev K \<sigma>) es us \<and>
      map wtypeOf es = map (yulType m) as \<and> covers K s' \<and> preEffects s' = preEffects s)"
    by (rule Cons.IH[OF Cons.prems(1) sup(2) w(2) Cons.prems(4)]) simp_all
  show ?case
    unfolding buildArguments.simps built_bind
  proof (rule built_mono[OF tail], elim exE conjE)
    fix r s1 es
    assume es: "r = Some es" "list_all2 (denotes_word ev K \<sigma>) es us" "map wtypeOf es = map (yulType m) as"
      "covers K s1" "preEffects s1 = preEffects s"
    have a: "a \<in> set (a # as)" by simp
    show "built (buildExpression other m a) s1 (\<lambda>e s'. built (ret (case (e, r) of (Some e', Some es') \<Rightarrow> Some (e' # es') | _ \<Rightarrow> None)) s'
        (\<lambda>r s'. \<exists>es. r = Some es \<and> list_all2 (denotes_word ev K \<sigma>) es ws \<and> map wtypeOf es = map (yulType m) (a # as) \<and>
          covers K s' \<and> preEffects s' = preEffects s))"
      by (rule built_mono[OF Cons.prems(1)[OF a sup(1) w(1) es(4)]]) (use es w(3) in \<open>auto simp: gives_def\<close>)
  qed
qed simp

lemma call_args_ok:
  assumes "call_ok m f as ws" "evm_op f ws \<noteq> None" "list_all2 (denotes_word ev K \<sigma>) es ws" "map wtypeOf es = map (yulType m) as"
  shows "args_ok f es ws"
proof -
  have len: "length es = length as" "length es = length ws" using assms(3,4) by (auto dest: list_all2_lengthD map_eq_imp_length_eq)
  have t: "wtypeOf (es ! i) = yulType m (as ! i)" if "i < length es" for i
    using arg_cong[OF assms(4), of "\<lambda>l. l ! i"] that len by simp
  have "length ws = 2" if "f = ''byte''"
    using assms(2) that by (auto simp: evm_op_def evm1_def evm3_def split: list.splits)
  with assms(1) t len show ?thesis
    unfolding args_ok_def call_ok_def list_all2_conv_all_nth by auto
qed

lemma exp_literals_correct:
  assumes "list_all number_literal as" "yul_evals m \<sigma> as = Some ws" "evm_op ''exp'' ws = Some w" "covers K s"
  shows "built (buildArguments other m as) s (\<lambda>r s'. built (case r of Some es \<Rightarrow> handleExp es | None \<Rightarrow> ret None) s'
      (gives ev K \<sigma> s (resultType ''exp'') w))"
proof -
  from assms(2,3) obtain a b where as: "as = [a, b]"
    by (cases as; cases "tl as"; cases "tl (tl as)") (auto simp: evm_op_def evm1_def evm3_def split: option.splits list.splits if_splits)
  with assms(1) obtain p q where pq: "a = YLiteral (NumberLit p)" "b = YLiteral (NumberLit q)"
    by (auto elim!: number_literalE)
  with assms(2) as have lt: "p < W256" "q < W256" and ws: "ws = [word_of_nat p, word_of_nat q]"
    by (auto simp: literalWord_def split: if_splits)
  with assms(3) have w: "w = word_of_nat p ^ unat (word_of_nat q :: evm_word)" by (simp add: evm_op_def evm2_def)
  have "unat w = p ^ q mod 2 ^ 256"
    unfolding w unat_power_W256 unat_of_nat_W256 using lt by (simp add: W256_def)
  then have "word_of_nat (p ^ q mod 2 ^ 256) = w" by (metis of_nat_unat ucast_id)
  then have "decWord (dec_of_nat (p ^ q mod 2 ^ 256)) = Some w"
    unfolding decWord_def W256_def by (simp del: power_numeral)
  from decWord_denotes[OF this] have d: "denotes_word ev K \<sigma> (makeIntegerConstant (dec_of_nat (p ^ q mod 2 ^ 256)) biguintType) w" .
  show ?thesis unfolding as pq
    using d assms(4) handleExp_literals[of biguintType p biguintType q]
    by (simp add: buildLiteral_def makeIntegerConstant_def gives_def resultType_def del: power_numeral)
qed

lemma expression_correct:
  assumes "wide_ok (localWideConstants m) \<sigma>" "supported m \<sigma> e" "yul_eval m \<sigma> e = Some w" "covers K s"
  shows "built (buildExpression other m e) s (gives ev K \<sigma> s (yulType m e) w)"
  using assms(2-4)
proof (induction e arbitrary: w s)
  case (YLiteral lit)
  then show ?case using literalWord_denotes[of lit w K \<sigma>] by (simp add: gives_def yulType_def)
next
  case (YIdentifier name ref)
  then show ?case using identWord_denotes[of m \<sigma> name ref w K] by (simp add: gives_def yulType_def)
next
  case (YFunctionCall f as)
  from YFunctionCall.prems(1,2) obtain ws where ws: "yul_evals m \<sigma> as = Some ws" "evm_op f ws = Some w" "call_ok m f as ws"
    "list_all (supported m \<sigma>) as" by (auto split: option.splits)
  from evm_op_in_table[OF ws(2)] obtain h where h: "map_of (kArgsBuiltins (localWideConstants m)) f = Some h" by blast
  from ws(3) have f: "f \<notin> set (asmFunctions m)" and lits: "f = ''exp'' \<Longrightarrow> list_all number_literal as" by (simp_all add: call_ok_def)
  have args: "built (buildArguments other m as) s (\<lambda>r s'. \<exists>es. r = Some es \<and> list_all2 (denotes_word ev K \<sigma>) es ws \<and>
      map wtypeOf es = map (yulType m) as \<and> covers K s' \<and> preEffects s' = preEffects s)"
    by (rule arguments_correct[OF YFunctionCall.IH ws(4,1) YFunctionCall.prems(3)])
  have "built (buildArguments other m as) s (\<lambda>r s'. built (case r of Some es \<Rightarrow> h es | None \<Rightarrow> ret None) s'
      (gives ev K \<sigma> s (resultType f) w))"
  proof (cases "f = ''exp''")
    case True
    with h have hh: "h = handleExp" by (simp add: kArgsBuiltins_def)
    show ?thesis unfolding hh True
      by (rule exp_literals_correct[OF lits[OF True] ws(1) ws(2)[unfolded True] YFunctionCall.prems(3)])
  next
    case False
    show ?thesis
  proof (rule built_mono[OF args], elim exE conjE)
    fix r s1 es
    assume es: "r = Some es" "list_all2 (denotes_word ev K \<sigma>) es ws" "map wtypeOf es = map (yulType m) as"
      "covers K s1" "preEffects s1 = preEffects s"
    have "args_ok f es ws" by (rule call_args_ok[OF ws(3) _ es(2,3)]) (simp add: ws(2))
    from builtin_refines[OF h ws(2) False es(2) this assms(1) es(4)]
    show "built (case r of Some es \<Rightarrow> h es | None \<Rightarrow> ret None) s1 (gives ev K \<sigma> s (resultType f) w)"
      unfolding es(1) option.case by (rule built_mono) (simp add: gives_def es(5))
  qed
  qed
  with f h show ?case by (simp add: yulType_def)
qed

lemma bigIs_eval:
  assumes "bigIs ev K \<sigma> e n" "ok_cache ev K \<sigma> (cache \<sigma>)"
  shows "\<exists>b c. ev \<sigma> e = Some (VB b, \<sigma>\<lparr>cache := c\<rparr>) \<and> be_nat b = n"
proof -
  from assms(1) obtain b where b: "sval ev K \<sigma> e (VB b)" "be_nat b = n" by (auto simp: bigIs_def sbig_def)
  from svalE[OF b(1) assms(2)] obtain c where "ev \<sigma> e = Some (VB b, \<sigma>\<lparr>cache := c\<rparr>)" by auto
  with b(2) show ?thesis by blast
qed

lemma denotes_eval:
  assumes "denotes_word ev K \<sigma> e w" "ok_cache ev K \<sigma> (cache \<sigma>)"
  shows "\<exists>v c. ev \<sigma> e = Some (v, \<sigma>\<lparr>cache := c\<rparr>) \<and> val_nat v = unat w"
proof -
  from assms(1) obtain v where v: "sval ev K \<sigma> e v" "val_nat v = unat w"
    unfolding denotes_word_def yword_def yval_def bigIs_def sbig_def by fastforce
  from svalE[OF v(1) assms(2)] obtain c where "ev \<sigma> e = Some (v, \<sigma>\<lparr>cache := c\<rparr>)" by auto
  with v(2) show ?thesis by blast
qed

end

section \<open>Properties\<close>

text \<open>
  (C21) Every arithmetic, comparison, bitwise and shift builtin of the dispatch table but \<open>exp\<close>, applied to
  operand expressions of scalar AWST types that denote 256-bit words, builds a tree that evaluates
  to the word the EVM computes, including wrap-around, division by zero, shifts of 256 and more and
  the signed operations; nothing is queued and the operands are evaluated without other effects.
  \<open>args_ok\<close> leaves out the operands on which this fails: \<open>uint64\<close>-typed ones of \<open>2 ^ 63\<close> or more in \<open>slt\<close>
  and \<open>sgt\<close> (C21), a Boolean or \<open>uint64\<close>-typed second operand of \<open>byte\<close>, and a literal byte number of
  \<open>2 ^ 64\<close> or more in \<open>signextend\<close>.
\<close>

theorem kArgsBuiltins_refine_evm:
  assumes "avm ev" and "map_of (kArgsBuiltins wide) name = Some h" "name \<noteq> ''exp''" "evm_op name ws = Some w"
    and "list_all2 (denotes_word ev (fresh_ids s) \<sigma>) args ws" "args_ok name args ws" "wide_ok wide \<sigma>"
    and "ids_free s \<sigma>" "run_state (h args) s = (r, s')"
  shows "\<exists>e v c. r = Some e \<and> preEffects s' = preEffects s \<and> ev \<sigma> e = Some (v, \<sigma>\<lparr>cache := c\<rparr>) \<and> val_nat v = unat w"
proof -
  from avm.builtin_refines[OF assms(1,2,4,3,5,6,7) covers_fresh_ids]
  have "gives ev (fresh_ids s) \<sigma> s (resultType name) w r s'" by (rule built_run[OF _ assms(9)])
  then obtain e where e: "r = Some e" "denotes_word ev (fresh_ids s) \<sigma> e w" "preEffects s' = preEffects s"
    by (auto simp: gives_def)
  from avm.denotes_eval[OF assms(1) e(2) ok_cache_fresh_ids[OF assms(8)]] e show ?thesis by auto
qed

theorem kArgsBuiltins_refine_evm_witness:
  "\<exists>e v c. fst (run_state (handleSub [makeIntegerConstant ''3'' biguintType, VarExpression biguintType ''y'']) initialBst) = Some e \<and>
     aeval (env_of [(''y'', VB [5])]) e = Some (v, (env_of [(''y'', VB [5])])\<lparr>cache := c\<rparr>) \<and> val_nat v = 2 ^ 256 - 2"
proof -
  let ?y = "VarExpression biguintType ''y''" and ?three = "makeIntegerConstant ''3'' biguintType"
  let ?\<sigma> = "env_of [(''y'', VB [5])]" and ?K = "fresh_ids initialBst"
  obtain r s' where r: "run_state (handleSub [?three, ?y]) initialBst = (r, s')" by force
  have n: "be_nat [5] = 5" by (simp add: be_nat_def One_nat_def)
  have y: "denotes_word aeval ?K ?\<sigma> ?y 5"
    using ref.varWord_denotes[of biguintType ?\<sigma> "''y''" 5 ?K]
    by (simp add: varWord_def small_types n W256_def alignedVar_plain makeVarExpression_def)
  have c: "denotes_word aeval ?K ?\<sigma> ?three 3"
    by (rule ref.decWord_denotes) (simp add: decWord_def W256_def dec_eval)
  have "\<exists>e v c. r = Some e \<and> preEffects s' = preEffects initialBst \<and> aeval ?\<sigma> e = Some (v, ?\<sigma>\<lparr>cache := c\<rparr>) \<and>
      val_nat v = unat (3 - 5 :: evm_word)"
    by (rule kArgsBuiltins_refine_evm[where h = handleSub and wide = Map.empty and name = "''sub''" and ws = "[3, 5]", OF ref.avm_axioms])
       (use y c r in \<open>simp_all add: kArgsBuiltins_def evm_op_def evm2_def args_ok_def wide_ok_def ids_free_def\<close>)
  moreover have "unat (3 - 5 :: evm_word) = 2 ^ 256 - 2" by (simp add: unat_sub_W256 W256_def One_nat_def)
  ultimately show ?thesis using r by auto
qed



text \<open>
  (C22) \<open>exp\<close> of two literals is folded at compile time: the squaring loop ends, for exponents of any
  size, with the constant \<open>base ^ exponent mod 2^256\<close>, and nothing is queued.
\<close>

theorem handleExp_constant:
  "run_state (handleExp [IntegerConstant t (dec_of_nat b), IntegerConstant u (dec_of_nat e)]) s =
     (Some (makeIntegerConstant (dec_of_nat (b ^ e mod 2 ^ 256)) biguintType), s)"
  by (simp add: handleExp_literals State_Monad.return_def del: power_numeral)

text \<open>
  (C23) \<open>slt\<close> compares \<open>uint64\<close>-typed operands as signed 64-bit numbers: for all values \<open>a\<close> and \<open>b\<close> of the
  operands the emitted tree evaluates to whether \<open>a\<close> is below \<open>b\<close> in two's complement of 64 bits, while the
  EVM, for which both words are positive, compares \<open>a\<close> and \<open>b\<close>.  The results differ exactly when one operand,
  and only one, is \<open>2 ^ 63\<close> or more, as an unsigned \<open>uint64\<close> local can be.
\<close>

theorem slt_uint64_divergence:
  assumes "avm ev" "ids_free s \<sigma>" "wtypeOf x = uint64Type" "wtypeOf y = uint64Type"
    and "yval ev (fresh_ids s) \<sigma> x a" "yval ev (fresh_ids s) \<sigma> y b" "a < 2 ^ 64" "b < 2 ^ 64"
    and "run_state (handleSlt [x, y]) s = (r, s')"
  shows "\<exists>e v c. r = Some e \<and> ev \<sigma> e = Some (VB v, \<sigma>\<lparr>cache := c\<rparr>) \<and>
      be_nat v = of_bool (signed_of 64 a < signed_of 64 b) \<and>
      evm_op ''slt'' [word_of_nat a, word_of_nat b] = Some (of_bool (a < b)) \<and>
      ((signed_of 64 a < signed_of 64 b) \<noteq> (a < b) \<longleftrightarrow> (2 ^ 63 \<le> a) \<noteq> (2 ^ 63 \<le> b))"
proof -
  have "slt_val uint64Type uint64Type a b = (signed_of 64 a < signed_of 64 b)"
    using assms(7,8) by (auto simp: slt_val_def sign_threshold_def signed_of_def)
  with avm.sltBody_value[OF assms(1,5,6) covers_fresh_ids, unfolded assms(3,4)]
  have body: "built (sltBody x y) s (yields ev (fresh_ids s) \<sigma> s (of_bool (signed_of 64 a < signed_of 64 b)))" by (simp only:)
  have "built (sltBody x y) s (yields ev (fresh_ids s) \<sigma> s n) \<Longrightarrow>
      built (handleSlt [x, y]) s (\<lambda>r s'. \<exists>e. r = Some e \<and> bigIs ev (fresh_ids s) \<sigma> e n)" for n
    by (simp add: handleSlt_def) (erule built_mono, simp)
  from built_run[OF this[OF body] assms(9)] obtain e where e: "r = Some e"
    "bigIs ev (fresh_ids s) \<sigma> e (of_bool (signed_of 64 a < signed_of 64 b))" by blast
  from avm.bigIs_eval[OF assms(1) e(2) ok_cache_fresh_ids[OF assms(2)]] obtain v c where
    v: "ev \<sigma> e = Some (VB v, \<sigma>\<lparr>cache := c\<rparr>)" "be_nat v = of_bool (signed_of 64 a < signed_of 64 b)" by blast
  have "a < W256" "b < W256" using assms(7,8) by (simp_all add: W256_def)
  then have "sint (word_of_nat a :: evm_word) = int a" "sint (word_of_nat b :: evm_word) = int b"
    using assms(7,8) by (simp_all add: sint_sgn256 unat_of_small signed_of_def)
  then have "evm_op ''slt'' [word_of_nat a, word_of_nat b] = Some (of_bool (a < b))"
    by (simp add: evm_op_def evm2_def)
  moreover have "(signed_of 64 a < signed_of 64 b) \<noteq> (a < b) \<longleftrightarrow> (2 ^ 63 \<le> a) \<noteq> (2 ^ 63 \<le> b)"
    using assms(7,8) by (auto simp: signed_of_def)
  ultimately show ?thesis using e(1) v by blast
qed

theorem slt_uint64_divergence_witness:
  "\<exists>e v c. fst (run_state (handleSlt [VarExpression uint64Type ''x'', VarExpression uint64Type ''y'']) initialBst) = Some e \<and>
     aeval (env_of [(''x'', VU (2 ^ 63)), (''y'', VU 1)]) e = Some (VB v, (env_of [(''x'', VU (2 ^ 63)), (''y'', VU 1)])\<lparr>cache := c\<rparr>) \<and>
     be_nat v = 1 \<and> evm_op ''slt'' [2 ^ 63, 1] = Some 0"
proof -
  let ?x = "VarExpression uint64Type ''x''" and ?y = "VarExpression uint64Type ''y''"
  let ?\<sigma> = "env_of [(''x'', VU (2 ^ 63)), (''y'', VU 1)]" and ?K = "fresh_ids initialBst"
  obtain r s' where r: "run_state (handleSlt [?x, ?y]) initialBst = (r, s')" by force
  have x: "yval aeval ?K ?\<sigma> ?x (2 ^ 63)" using ref.sval_var[of ?\<sigma> "''x''" "VU (2 ^ 63)" ?K uint64Type] by (simp add: yval_def)
  have y: "yval aeval ?K ?\<sigma> ?y 1" using ref.sval_var[of ?\<sigma> "''y''" "VU 1" ?K uint64Type] by (simp add: yval_def)
  have "ids_free initialBst ?\<sigma>" by (simp add: ids_free_def)
  from slt_uint64_divergence[OF ref.avm_axioms this _ _ x y _ _ r] obtain e v c where
    e: "r = Some e" "aeval ?\<sigma> e = Some (VB v, ?\<sigma>\<lparr>cache := c\<rparr>)" "be_nat v = of_bool (signed_of 64 (2 ^ 63) < signed_of 64 1)"
    "evm_op ''slt'' [word_of_nat (2 ^ 63), word_of_nat 1] = Some (of_bool ((2::nat) ^ 63 < 1))" by auto
  have "signed_of 64 (2 ^ 63) < signed_of 64 1" by (simp add: signed_of_def)
  with e r show ?thesis by auto
qed

end
