(* ===== verification/Termination.thy ===== *)
theory Termination
  imports AwstExec
begin

text \<open>
  The control-flow helpers of \<open>awst/Termination.hpp\<close> and \<open>awst/StatementWalk.h\<close>: the enumeration of
  the child blocks of a statement, the test that a block cannot fall through, and the removal of
  unreachable statements.  The tests are sound for the statement semantics, and the removal keeps
  every behaviour and leaves no dead statement behind, which the puya backend rejects.  What it means
  that a statement never falls through, and that one block lies inside another, is defined a second
  time by rules, so that the cleanness of the result does not rest on the tests themselves.
\<close>

section \<open>The statement walker\<close>

text \<open>\<open>forEachChildBlock\<close> as the list of visited blocks with their loop flag, and as an in-place update.\<close>

fun childBlocks :: "stmt \<Rightarrow> (stmt \<times> bool) list" where
  "childBlocks (Block body l c) = [(Block body l c, False)]"
| "childBlocks (IfElse c i e) = (case i of Some b \<Rightarrow> [(b, False)] | None \<Rightarrow> []) @
     (case e of Some b \<Rightarrow> [(b, False)] | None \<Rightarrow> [])"
| "childBlocks (WhileLoop c b) = (case b of Some b \<Rightarrow> [(b, True)] | None \<Rightarrow> [])"
| "childBlocks (SwitchStmt v cs d) =
     [(b, False). (_, Some b) \<leftarrow> cs] @ (case d of Some b \<Rightarrow> [(b, False)] | None \<Rightarrow> [])"
| "childBlocks (ForInLoop s x b) = (case b of Some b \<Rightarrow> [(b, True)] | None \<Rightarrow> [])"
| "childBlocks _ = []"

fun forEachChildBlock :: "(stmt \<Rightarrow> bool \<Rightarrow> stmt) \<Rightarrow> stmt \<Rightarrow> stmt" where
  "forEachChildBlock f (Block body l c) = f (Block body l c) False"
| "forEachChildBlock f (IfElse c i e) =
     IfElse c (map_option (\<lambda>b. f b False) i) (map_option (\<lambda>b. f b False) e)"
| "forEachChildBlock f (WhileLoop c b) = WhileLoop c (map_option (\<lambda>b. f b True) b)"
| "forEachChildBlock f (SwitchStmt v cs d) =
     SwitchStmt v (map (\<lambda>(e, b). (e, map_option (\<lambda>b. f b False) b)) cs) (map_option (\<lambda>b. f b False) d)"
| "forEachChildBlock f (ForInLoop s x b) = ForInLoop s x (map_option (\<lambda>b. f b True) b)"
| "forEachChildBlock f s = s"

text \<open>\<open>block.body\<close> as an lvalue.\<close>

fun updateBody :: "(stmt list \<Rightarrow> stmt list) \<Rightarrow> stmt \<Rightarrow> stmt" where
  "updateBody f (Block body l c) = Block (f body) l c"
| "updateBody f s = s"

fun blockBody :: "stmt \<Rightarrow> stmt list" where
  "blockBody (Block body l c) = body"
| "blockBody s = []"

lemma forEachChildBlock_cong [fundef_cong]:
  assumes "s = t" and "\<And>b fl. (b, fl) \<in> set (childBlocks t) \<Longrightarrow> f b fl = g b fl"
  shows "forEachChildBlock f s = forEachChildBlock g t"
  using assms by (cases t) (auto split: option.splits intro!: option.map_cong)

lemma updateBody_cong [fundef_cong]:
  "b = b' \<Longrightarrow> f (blockBody b') = g (blockBody b') \<Longrightarrow> updateBody f b = updateBody g b'"
  by (cases b') auto

lemma childBlocks_size: "(b, fl) \<in> set (childBlocks s) \<Longrightarrow> size b \<le> size s"
proof (cases s)
  case (SwitchStmt v cs d)
  assume m: "(b, fl) \<in> set (childBlocks s)"
  then have "size b < size s"
  proof (cases "d = Some b")
    case False
    with m SwitchStmt obtain e where "(e, Some b) \<in> set cs" by (auto split: option.splits)
    then show ?thesis unfolding SwitchStmt
      by (induction cs) auto
  qed (simp add: SwitchStmt)
  then show ?thesis by simp
qed (auto split: option.splits)

lemma blockBody_size: "size_list size (blockBody b) < size b \<or> blockBody b = []"
  by (cases b) auto

section \<open>Statements that never fall through\<close>

definition isFalseAssert :: "expr \<Rightarrow> bool" where
  "isFalseAssert e = (case e of
     AssertExpression _ condition _ _ \<Rightarrow> (case condition of BoolConstant _ value \<Rightarrow> \<not> value | _ \<Rightarrow> False)
   | _ \<Rightarrow> False)"

definition isProgramExit :: "expr \<Rightarrow> bool" where
  "isProgramExit e = (case e of IntrinsicCall _ opCode _ _ \<Rightarrow> opCode = ''return'' | _ \<Rightarrow> False)"

fun statementAlwaysTerminates :: "stmt \<Rightarrow> bool"
  and blockAlwaysTerminates :: "stmt option \<Rightarrow> bool" where
  "statementAlwaysTerminates (ReturnStatement _) = True"
| "statementAlwaysTerminates LoopExit = True"
| "statementAlwaysTerminates LoopContinue = True"
| "statementAlwaysTerminates (Block body l c) = list_ex statementAlwaysTerminates body"
| "statementAlwaysTerminates (IfElse c i e) = (blockAlwaysTerminates i \<and> blockAlwaysTerminates e)"
| "statementAlwaysTerminates (SwitchStmt v cs d) =
     (blockAlwaysTerminates d \<and> list_all (\<lambda>cs. blockAlwaysTerminates (snd cs)) cs)"
| "statementAlwaysTerminates (ExpressionStatement e) = (isFalseAssert e \<or> isProgramExit e)"
| "statementAlwaysTerminates _ = False"
| "blockAlwaysTerminates (Some (Block body l c)) = list_ex statementAlwaysTerminates body"
| "blockAlwaysTerminates _ = False"

section \<open>Dead code\<close>

function removeDeadCode :: "stmt list \<Rightarrow> stmt list" where
  "removeDeadCode [] = []"
| "removeDeadCode (s # rest) =
     (let s' = forEachChildBlock (\<lambda>block _. updateBody removeDeadCode block) s
      in if statementAlwaysTerminates s' \<and> rest \<noteq> [] then [s'] else s' # removeDeadCode rest)"
  by pat_completeness auto
termination
proof (relation "measure (size_list size)", goal_cases)
  case (2 s rest b fl)
  then show ?case using childBlocks_size[OF 2] blockBody_size[of b] by auto
qed auto

text \<open>No block of a statement list has a statement after one that cannot fall through.\<close>

function noDeadCode :: "stmt list \<Rightarrow> bool" where
  "noDeadCode [] = True"
| "noDeadCode (s # rest) =
     ((\<forall>(b, fl) \<in> set (childBlocks s). noDeadCode (blockBody b)) \<and>
      (statementAlwaysTerminates s \<longrightarrow> rest = []) \<and> noDeadCode rest)"
  by pat_completeness auto
termination
proof (relation "measure (size_list size)", goal_cases)
  case (2 s rest bf b fl)
  then show ?case using childBlocks_size[of b fl s] blockBody_size[of b] by auto
qed auto

section \<open>What it means to leave a block\<close>

fun is_block :: "stmt \<Rightarrow> bool" where
  "is_block (Block _ _ _) = True"
| "is_block _ = False"

text \<open>The statements after which control never reaches the next statement, by rules.\<close>

inductive leaves_block :: "stmt \<Rightarrow> bool" where
  leaves_Return: "leaves_block (ReturnStatement e)"
| leaves_Exit: "leaves_block LoopExit"
| leaves_Continue: "leaves_block LoopContinue"
| leaves_Assert: "leaves_block (ExpressionStatement (AssertExpression t (BoolConstant t' False) m x))"
| leaves_Program: "leaves_block (ExpressionStatement (IntrinsicCall t ''return'' imms args))"
| leaves_Block: "s \<in> set body \<Longrightarrow> leaves_block s \<Longrightarrow> leaves_block (Block body l c)"
| leaves_If: "is_block i \<Longrightarrow> leaves_block i \<Longrightarrow> is_block e \<Longrightarrow> leaves_block e \<Longrightarrow> leaves_block (IfElse c (Some i) (Some e))"
| leaves_Switch: "is_block d \<Longrightarrow> leaves_block d \<Longrightarrow> (\<And>e b. (e, b) \<in> set cs \<Longrightarrow> \<exists>s. b = Some s \<and> is_block s \<and> leaves_block s) \<Longrightarrow>
    leaves_block (SwitchStmt v cs (Some d))"

text \<open>\<open>within ss b\<close>: \<open>b\<close> is \<open>ss\<close> itself or the body of a block that occurs in \<open>ss\<close> at some depth.\<close>

inductive within :: "stmt list \<Rightarrow> stmt list \<Rightarrow> bool" where
  within_self: "within ss ss"
| within_Block: "Block body l c \<in> set ss \<Longrightarrow> within body b \<Longrightarrow> within ss b"
| within_Then: "IfElse c (Some (Block body l k)) e \<in> set ss \<Longrightarrow> within body b \<Longrightarrow> within ss b"
| within_Else: "IfElse c i (Some (Block body l k)) \<in> set ss \<Longrightarrow> within body b \<Longrightarrow> within ss b"
| within_While: "WhileLoop c (Some (Block body l k)) \<in> set ss \<Longrightarrow> within body b \<Longrightarrow> within ss b"
| within_ForIn: "ForInLoop xs it (Some (Block body l k)) \<in> set ss \<Longrightarrow> within body b \<Longrightarrow> within ss b"
| within_Case: "SwitchStmt v cs d \<in> set ss \<Longrightarrow> (e, Some (Block body l k)) \<in> set cs \<Longrightarrow> within body b \<Longrightarrow> within ss b"
| within_Default: "SwitchStmt v cs (Some (Block body l k)) \<in> set ss \<Longrightarrow> within body b \<Longrightarrow> within ss b"

text \<open>In no block of a statement list, at any depth, is a statement preceded by one that leaves the block.\<close>

definition unreachable_free :: "stmt list \<Rightarrow> bool" where
  "unreachable_free ss \<longleftrightarrow> (\<forall>b pre s post. within ss b \<longrightarrow> b = pre @ s # post \<longrightarrow> leaves_block s \<longrightarrow> post = [])"

text \<open>The bodies without a \<open>goto\<close>: all that the compiler builds.\<close>

primrec gotoFree :: "stmt \<Rightarrow> bool" where
  "gotoFree (Block body l c) = list_all (\<lambda>p. p) (map gotoFree body)"
| "gotoFree (ExpressionStatement e) = True"
| "gotoFree (ReturnStatement e) = True"
| "gotoFree (IfElse c i e) = (pred_option (\<lambda>p. p) (map_option gotoFree i) \<and> pred_option (\<lambda>p. p) (map_option gotoFree e))"
| "gotoFree (WhileLoop c b) = pred_option (\<lambda>p. p) (map_option gotoFree b)"
| "gotoFree LoopExit = True"
| "gotoFree LoopContinue = True"
| "gotoFree (AssignmentStatement p e) = True"
| "gotoFree (GotoStmt l) = False"
| "gotoFree (SwitchStmt v cs d) =
     (list_all (\<lambda>c. pred_option (\<lambda>p. p) (snd c)) (map (map_prod id (map_option gotoFree)) cs) \<and>
      pred_option (\<lambda>p. p) (map_option gotoFree d))"
| "gotoFree (ForInLoop xs it b) = pred_option (\<lambda>p. p) (map_option gotoFree b)"
| "gotoFree (UInt64AugmentedAssignment p o64 e) = True"
| "gotoFree (BigUIntAugmentedAssignment p ob e) = True"

section \<open>Soundness of the termination test\<close>

lemma blockAlwaysTerminates_stmt: "blockAlwaysTerminates (Some s) \<Longrightarrow> statementAlwaysTerminates s"
  by (cases s) auto

lemma is_exit_iff: "is_exit e = isProgramExit e"
  by (cases e) (simp_all add: isProgramExit_def)

lemma isFalseAssert_iff: "isFalseAssert e \<longleftrightarrow> (\<exists>t t' m x. e = AssertExpression t (BoolConstant t' False) m x)"
  unfolding isFalseAssert_def by (auto split: expr.splits)

lemma terminates_leaves:
  "statementAlwaysTerminates s \<Longrightarrow> leaves_block s"
  "blockAlwaysTerminates b \<Longrightarrow> \<exists>s. b = Some s \<and> is_block s \<and> leaves_block s"
proof (induction s and b rule: statementAlwaysTerminates_blockAlwaysTerminates.induct)
  case (6 v cs d)
  from 6(3) obtain s where s: "d = Some s" "is_block s" "leaves_block s" using 6(1) by auto
  have "\<exists>s. b = Some s \<and> is_block s \<and> leaves_block s" if "(e, b) \<in> set cs" for e b
    using 6(2)[OF that] 6(3) that by (auto simp: list_all_iff)
  with s show ?case by (auto intro: leaves_Switch)
qed (auto simp: list_ex_iff isFalseAssert_iff isProgramExit_def split: expr.splits intro: leaves_block.intros)

lemma leaves_terminates: "leaves_block s \<Longrightarrow> statementAlwaysTerminates s"
proof (induction rule: leaves_block.induct)
  case (leaves_If i e c)
  then show ?case by (cases i; cases e) auto
next
  case (leaves_Switch d cs v)
  have "blockAlwaysTerminates b" if "(e, b) \<in> set cs" for e b
  proof -
    from leaves_Switch.IH(2)[OF that] obtain s where "b = Some s" "is_block s" "statementAlwaysTerminates s" by blast
    then show ?thesis by (cases s) auto
  qed
  moreover have "blockAlwaysTerminates (Some d)" using leaves_Switch by (cases d) auto
  ultimately show ?case by (auto simp: list_all_iff)
qed (auto simp: list_ex_iff isFalseAssert_def isProgramExit_def)

lemma pick_case_branch: "pick_case ev \<sigma> v cs d = Some (b, \<sigma>') \<Longrightarrow> b = d \<or> b \<in> snd ` set cs"
proof (induction cs arbitrary: \<sigma>)
  case (Cons c cs)
  obtain e b' where c: "c = (e, b')" by (cases c)
  from Cons.prems Cons.IH show ?case by (force simp: c split: option.splits if_splits)
qed simp

context avm
begin

lemma terminates_sound:
  "exec ev \<sigma> s out \<Longrightarrow> statementAlwaysTerminates s \<Longrightarrow> \<not> falls_through out"
  "execs ev \<sigma> ss out \<Longrightarrow> list_ex statementAlwaysTerminates ss \<Longrightarrow> \<not> falls_through out"
  "exec_branch ev \<sigma> b out \<Longrightarrow> blockAlwaysTerminates b \<Longrightarrow> \<not> falls_through out"
  "exec_items ev \<sigma> xs it k n b out \<Longrightarrow> True"
proof (induction rule: exec_execs_exec_branch_exec_items.inducts)
  case (Expr e \<sigma> v \<sigma>')
  then show ?case by (auto simp: is_exit_iff isFalseAssert_iff sem_assert sem_bool)
next
  case (Switch \<sigma> e v \<sigma>1 cs d b \<sigma>2 out)
  then show ?case using pick_case_branch[of ev \<sigma>1 v cs d b \<sigma>2] by (auto simp: list_all_iff)
qed (auto dest: blockAlwaysTerminates_stmt)

end

section \<open>Removing dead code keeps the behaviour\<close>

lemma while_mono:
  assumes "\<And>\<sigma> out. exec_branch ev \<sigma> b out \<Longrightarrow> exec_branch ev \<sigma> b' out"
  shows "exec ev \<sigma> s out \<Longrightarrow> s = WhileLoop c b \<Longrightarrow> exec ev \<sigma> (WhileLoop c b') out"
    and "execs ev \<sigma> ss out \<Longrightarrow> True" and "exec_branch ev \<sigma> br out \<Longrightarrow> True"
    and "exec_items ev \<sigma> xs it k n br out \<Longrightarrow> br = b \<Longrightarrow> exec_items ev \<sigma> xs it k n b' out"
  by (induction rule: exec_execs_exec_branch_exec_items.inducts)
     (use assms in \<open>auto intro: exec_execs_exec_branch_exec_items.intros\<close>)

lemma while_cong:
  assumes "\<And>\<sigma> out. exec_branch ev \<sigma> b out \<longleftrightarrow> exec_branch ev \<sigma> b' out"
  shows "exec ev \<sigma> (WhileLoop c b) out \<longleftrightarrow> exec ev \<sigma> (WhileLoop c b') out"
  using while_mono(1)[of ev b b' \<sigma> _ out c] while_mono(1)[of ev b' b \<sigma> _ out c] assms by blast

lemma for_cong:
  assumes "\<And>\<sigma> out. exec_branch ev \<sigma> b out \<longleftrightarrow> exec_branch ev \<sigma> b' out"
  shows "exec ev \<sigma> (ForInLoop xs it b) out \<longleftrightarrow> exec ev \<sigma> (ForInLoop xs it b') out"
  using while_mono(4)[of ev b b' _ xs it _ _ b out] while_mono(4)[of ev b' b _ xs it _ _ b' out] assms
  by (auto simp: exec_ForIn)

lemma pick_case_map:
  "pick_case ev \<sigma> v (map (\<lambda>(e, b). (e, g b)) cs) (g d) = map_option (\<lambda>(b, \<sigma>'). (g b, \<sigma>')) (pick_case ev \<sigma> v cs d)"
  by (induction cs arbitrary: \<sigma>) (auto split: option.splits)

lemma branch_map:
  "(\<And>b. br = Some b \<Longrightarrow> exec ev \<sigma> (g b) out \<longleftrightarrow> exec ev \<sigma> b out) \<Longrightarrow>
   exec_branch ev \<sigma> (map_option g br) out \<longleftrightarrow> exec_branch ev \<sigma> br out"
  by (cases br) simp_all

text \<open>An update of the child blocks that keeps their behaviour keeps that of the statement.\<close>

lemma walk_exec:
  assumes "\<And>b fl \<sigma> out. (b, fl) \<in> set (childBlocks s) \<Longrightarrow> exec ev \<sigma> (f b fl) out \<longleftrightarrow> exec ev \<sigma> b out"
  shows "exec ev \<sigma> (forEachChildBlock f s) out \<longleftrightarrow> exec ev \<sigma> s out"
proof (cases s)
  case (IfElse c i e)
  have "exec_branch ev \<sigma> (map_option (\<lambda>b. f b False) i) out \<longleftrightarrow> exec_branch ev \<sigma> i out"
    "exec_branch ev \<sigma> (map_option (\<lambda>b. f b False) e) out \<longleftrightarrow> exec_branch ev \<sigma> e out" for \<sigma> out
    using assms by (auto simp: IfElse intro!: branch_map)
  then show ?thesis unfolding IfElse by (simp add: exec_If)
next
  case (WhileLoop c b)
  then show ?thesis using assms by (auto intro!: while_cong branch_map)
next
  case (ForInLoop xs it b)
  then show ?thesis using assms by (auto intro!: for_cong branch_map)
next
  case (SwitchStmt v cs d)
  let ?g = "map_option (\<lambda>b. f b False)"
  have "exec_branch ev \<tau> (?g b) r \<longleftrightarrow> exec_branch ev \<tau> b r" if "b = d \<or> b \<in> snd ` set cs" for b \<tau> r
    by (rule branch_map, rule assms) (use that in \<open>force simp: SwitchStmt\<close>)
  then have "exec_branch ev \<tau> (?g b) r \<longleftrightarrow> exec_branch ev \<tau> b r" if "pick_case ev \<sigma>1 w cs d = Some (b, \<tau>)" for b \<tau> r \<sigma>1 w
    using pick_case_branch[OF that] by blast
  moreover have "pick_case ev \<sigma>1 w (map (\<lambda>(e, b). (e, ?g b)) cs) (?g d) = map_option (\<lambda>(b, \<sigma>'). (?g b, \<sigma>')) (pick_case ev \<sigma>1 w cs d)" for \<sigma>1 w
    by (rule pick_case_map)
  ultimately show ?thesis unfolding SwitchStmt by (fastforce simp: exec_Switch)
qed (use assms in auto)

context avm
begin

lemma removeDeadCode_execs: "execs ev \<sigma> (removeDeadCode ss) out \<longleftrightarrow> execs ev \<sigma> ss out"
proof (induction ss arbitrary: \<sigma> out rule: removeDeadCode.induct)
  case (2 s rest)
  let ?s = "forEachChildBlock (\<lambda>block _. updateBody removeDeadCode block) s"
  have s: "exec ev \<sigma> ?s out \<longleftrightarrow> exec ev \<sigma> s out" for \<sigma> out
  proof (rule walk_exec)
    fix b fl \<sigma> out
    assume b: "(b, fl) \<in> set (childBlocks s)"
    from 2(1)[OF b] show "exec ev \<sigma> (updateBody removeDeadCode b) out = exec ev \<sigma> b out"
      by (cases b) simp_all
  qed
  show ?case
  proof (cases "statementAlwaysTerminates ?s \<and> rest \<noteq> []")
    case True
    then have "\<not> exec ev \<sigma> s (Normal \<tau>)" for \<tau> using terminates_sound(1)[of \<sigma> ?s "Normal \<tau>"] s by auto
    with True s show ?thesis by (cases out) (auto simp: Let_def execs_Cons)
  next
    case False
    with 2(2)[OF refl False] s show ?thesis by (auto simp: Let_def execs_Cons)
  qed
qed simp

end

section \<open>Nothing dead is left\<close>

lemma case_blocks_map:
  "[(b, False). (_, Some b) \<leftarrow> map (\<lambda>(e, b). (e, map_option g b)) cs] = map (\<lambda>(b, fl). (g b, fl)) [(b, False). (_, Some b) \<leftarrow> cs]"
  by (induction cs) (auto split: option.splits)

lemma childBlocks_updateBody:
  "set (childBlocks (forEachChildBlock (\<lambda>b _. updateBody f b) s)) = (\<lambda>(b, fl). (updateBody f b, fl)) ` set (childBlocks s)"
proof (cases s)
  case (SwitchStmt v cs d)
  then show ?thesis
    by (simp only: forEachChildBlock.simps childBlocks.simps case_blocks_map set_append image_Un set_map) (cases d, simp_all)
qed (auto split: option.splits)

lemma blockBody_updateBody: "f [] = [] \<Longrightarrow> blockBody (updateBody f b) = f (blockBody b)"
  by (cases b) simp_all

lemma removeDeadCode_clean: "noDeadCode (removeDeadCode ss)"
proof (induction ss rule: removeDeadCode.induct)
  case (2 s rest)
  let ?s = "forEachChildBlock (\<lambda>block _. updateBody removeDeadCode block) s"
  have "\<forall>(b, fl) \<in> set (childBlocks ?s). noDeadCode (blockBody b)"
    using 2(1) by (auto simp: childBlocks_updateBody blockBody_updateBody)
  with 2(2)[OF refl] show ?case by (auto simp: Let_def)
qed simp

lemma noDeadCode_append: "noDeadCode (pre @ s # post) \<Longrightarrow> statementAlwaysTerminates s \<Longrightarrow> post = []"
  by (induction pre) auto

lemma noDeadCode_child: "noDeadCode ss \<Longrightarrow> s \<in> set ss \<Longrightarrow> (b, fl) \<in> set (childBlocks s) \<Longrightarrow> noDeadCode (blockBody b)"
  by (induction ss) auto

lemma noDeadCode_within: "within ss b \<Longrightarrow> noDeadCode ss \<Longrightarrow> noDeadCode b"
proof (induction rule: within.induct)
  case (within_Case v cs d ss e body l k b)
  have "(Block body l k, False) \<in> set (childBlocks (SwitchStmt v cs d))" using within_Case.hyps(2) by force
  from within_Case.IH noDeadCode_child[OF within_Case.prems within_Case.hyps(1) this] show ?case by simp
qed (force dest: noDeadCode_child)+

lemma noDeadCode_unreachable_free: "noDeadCode ss \<Longrightarrow> unreachable_free ss"
  unfolding unreachable_free_def by (auto dest: noDeadCode_within noDeadCode_append leaves_terminates)

lemma forEachChildBlock_id:
  "(\<And>b fl. (b, fl) \<in> set (childBlocks s) \<Longrightarrow> f b fl = b) \<Longrightarrow> forEachChildBlock f s = s"
  by (cases s) (auto split: option.splits intro!: map_idI option.map_ident_strong)

lemma removeDeadCode_fixed: "noDeadCode ss \<Longrightarrow> removeDeadCode ss = ss"
proof (induction ss rule: removeDeadCode.induct)
  case (2 s rest)
  have "updateBody removeDeadCode b = b" if b: "(b, fl) \<in> set (childBlocks s)" for b fl
    using 2(1)[OF b] 2(3) b by (cases b) auto
  then have s: "forEachChildBlock (\<lambda>block _. updateBody removeDeadCode block) s = s" by (rule forEachChildBlock_id)
  with 2(2)[OF refl] 2(3) show ?case by (auto simp: Let_def)
qed simp

section \<open>Properties\<close>

text \<open>A block both of whose branches leave it, followed by a dead statement.\<close>

definition branching_block :: stmt where
  "branching_block = Block [IfElse (VarExpression boolType ''b'') (Some (Block [ReturnStatement None] None None))
      (Some (Block [ExpressionStatement (AssertExpression voidType (BoolConstant boolType False) None False)] None None)),
      LoopExit] None None"

text \<open>
  (C17) The termination test is sound: a block without \<open>goto\<close> for which it holds never falls through,
  whatever the state: every outcome is a return, a loop transfer, the end of the program or a trap.  The
  builders rely on it to leave out the implicit return.
\<close>

theorem blockAlwaysTerminates_sound:
  assumes "avm ev" and "gotoFree block" and "blockAlwaysTerminates (Some block)" and "exec ev \<sigma> block out"
  shows "\<not> falls_through out"
  using avm.terminates_sound(1)[OF assms(1,4)] blockAlwaysTerminates_stmt[OF assms(3)] by blast

theorem blockAlwaysTerminates_sound_witness:
  "exec aeval (env_of [(''b'', VU 1)]) branching_block (Returned None (env_of [(''b'', VU 1)])) \<and>
    exec aeval (env_of [(''b'', VU 0)]) branching_block Trap \<and>
    \<not> falls_through (Returned None (env_of [(''b'', VU 1)])) \<and> \<not> falls_through (Trap :: menv outcome)"
proof -
  have g: "gotoFree branching_block" "blockAlwaysTerminates (Some branching_block)" by (simp_all add: branching_block_def isFalseAssert_def)
  have r: "exec aeval (env_of [(''b'', VU 1)]) branching_block (Returned None (env_of [(''b'', VU 1)]))"
    unfolding branching_block_def exec_Block by (rule Stop, rule IfTrue) (auto intro!: Stop ReturnVoid)
  have t: "exec aeval (env_of [(''b'', VU 0)]) branching_block Trap"
    unfolding branching_block_def exec_Block by (rule Stop, rule IfFalse) (auto intro!: Stop ExprTrap)
  show ?thesis
    using r t blockAlwaysTerminates_sound[OF ref.avm_axioms g r] blockAlwaysTerminates_sound[OF ref.avm_axioms g t] by blast
qed

text \<open>
  (C18) Removing dead code keeps the behaviour of a body without \<open>goto\<close>: the pruned body has exactly the
  outcomes of the original one in every state, and none where the original has none.  All other
  statements may occur, loops over arrays and augmented assignments included; a jump to a label behind a
  terminator would be lost.
\<close>

theorem removeDeadCode_refines:
  assumes "avm ev" and "list_all gotoFree body"
  shows "execs ev \<sigma> (removeDeadCode body) out \<longleftrightarrow> execs ev \<sigma> body out"
  by (rule avm.removeDeadCode_execs[OF assms(1)])

theorem removeDeadCode_refines_witness:
  "execs aeval (env_of []) (removeDeadCode [Block [ReturnStatement None, LoopExit] None None, LoopContinue]) (Returned None (env_of []))"
  by (rule removeDeadCode_refines[OF ref.avm_axioms, THEN iffD2], simp, rule Stop, simp, rule Stop) (auto intro: ReturnVoid)

text \<open>
  (C19) The pruned body is clean: in no block, at any depth, does a statement follow one that leaves the
  block; and pruning it again changes nothing.
\<close>

theorem removeDeadCode_complete:
  "unreachable_free (removeDeadCode body) \<and> removeDeadCode (removeDeadCode body) = removeDeadCode body"
  using noDeadCode_unreachable_free removeDeadCode_clean removeDeadCode_fixed by blast

end
