(* ===== verification/Scratch.thy ===== *)
theory Scratch
  imports AwstExec
begin

text \<open>
  The scratch-space layout of one compilation (\<open>builder/ScratchLayout.h\<close>) and the abstract EVM memory
  that the reserved slots stand for: the pages 0 to N-1, of 4096 bytes each, one after the other.
  The lemmas relate the bytes of a page to the bytes of that memory.
\<close>

section \<open>The layout\<close>

record ScratchLayout =
  memorySlotCount :: int

definition slotSize :: nat where "slotSize = 4096"
definition flashSlotCount :: int where "flashSlotCount = 10"
definition maxScratchSlot :: int where "maxScratchSlot = 255"
definition defaultMemorySlots :: int where "defaultMemorySlots = 5"
definition maxMemorySlots :: int where "maxMemorySlots = 88"

text \<open>The constructor throws (\<open>None\<close>) when the count is out of range.\<close>

definition makeScratchLayout :: "int \<Rightarrow> ScratchLayout option" where
  "makeScratchLayout memorySlots =
     (if memorySlots < 1 \<or> memorySlots > maxMemorySlots then None
      else Some \<lparr>memorySlotCount = memorySlots\<rparr>)"

definition memoryFirst :: "ScratchLayout \<Rightarrow> int" where "memoryFirst l = 0"
definition memoryLast :: "ScratchLayout \<Rightarrow> int" where "memoryLast l = memorySlotCount l - 1"
definition memoryCount :: "ScratchLayout \<Rightarrow> int" where "memoryCount l = memorySlotCount l"
definition transientSlot :: "ScratchLayout \<Rightarrow> int" where "transientSlot l = memorySlotCount l"
definition flashFirst :: "ScratchLayout \<Rightarrow> int" where "flashFirst l = memorySlotCount l + 1"
definition flashLast :: "ScratchLayout \<Rightarrow> int" where "flashLast l = memorySlotCount l + flashSlotCount"

definition memorySlots :: "ScratchLayout \<Rightarrow> int list" where
  "memorySlots l = [memoryFirst l..memoryLast l]"

definition reservedSlots :: "ScratchLayout \<Rightarrow> int list" where
  "reservedSlots l = memorySlots l @ [transientSlot l] @ [flashFirst l..flashLast l]"

lemmas layout_defs =
  memoryFirst_def memoryLast_def memoryCount_def transientSlot_def flashFirst_def flashLast_def
  flashSlotCount_def maxMemorySlots_def maxScratchSlot_def

lemma makeScratchLayout_count:
  "makeScratchLayout n = Some l \<Longrightarrow> memorySlotCount l = n \<and> 1 \<le> n \<and> n \<le> 88"
  by (auto simp: makeScratchLayout_def maxMemorySlots_def split: if_splits)

lemma reserved_upto:
  assumes "makeScratchLayout n = Some l"
  shows "reservedSlots l = [0..n + 10]"
proof -
  have n: "memorySlotCount l = n" "1 \<le> n" using makeScratchLayout_count[OF assms] by simp_all
  have "[0..n + 10] = [0..n - 1] @ [n..n + 10]" using upto_split1[of 0 n "n + 10"] n by simp
  also have "[n..n + 10] = n # [n + 1..n + 10]" by (rule upto_rec1) simp
  finally show ?thesis by (simp add: reservedSlots_def memorySlots_def layout_defs n)
qed
text \<open>
  (C26) The reserved scratch slots of a layout are distinct, lie in AVM scratch space below slot 100, and hold the memory
  pages first, the transient-storage slot next and the flash slots last; a count outside 1 to 88 is
  rejected.
\<close>

theorem reservedSlots_layout:
  "makeScratchLayout n = (if 1 \<le> n \<and> n \<le> maxMemorySlots then Some \<lparr>memorySlotCount = n\<rparr> else None) \<and>
   (makeScratchLayout n = Some l \<longrightarrow>
      distinct (reservedSlots l) \<and> set (reservedSlots l) = {memoryFirst l..flashLast l} \<and>
      set (reservedSlots l) \<subseteq> {0..<100} \<and> set (reservedSlots l) \<subseteq> {0..maxScratchSlot} \<and>
      memoryLast l < transientSlot l \<and> transientSlot l < flashFirst l \<and>
      int (length (memorySlots l)) = memoryCount l)"
  by (auto simp: makeScratchLayout_def reserved_upto layout_defs memorySlots_def)
theorem reservedSlots_layout_witness:
  "makeScratchLayout 5 = Some \<lparr>memorySlotCount = 5\<rparr> \<and> distinct (reservedSlots \<lparr>memorySlotCount = 5\<rparr>) \<and>
   flashLast \<lparr>memorySlotCount = 5\<rparr> = 15"
  using reservedSlots_layout[of 5 "\<lparr>memorySlotCount = 5\<rparr>"] by (simp add: layout_defs)

section \<open>EVM memory in scratch space\<close>

definition page :: "'z menv_scheme \<Rightarrow> nat \<Rightarrow> bytes" where
  "page \<sigma> i = (case scratch \<sigma> i of VB b \<Rightarrow> b | _ \<Rightarrow> [])"

text \<open>Every memory slot holds a page of 4096 bytes; the approval program's preamble establishes this.\<close>

definition pages_ok :: "nat \<Rightarrow> 'z menv_scheme \<Rightarrow> bool" where
  "pages_ok N \<sigma> \<longleftrightarrow> (\<forall>i < N. \<exists>b. scratch \<sigma> i = VB b \<and> length b = slotSize)"

definition evm_memory :: "nat \<Rightarrow> 'z menv_scheme \<Rightarrow> bytes" where
  "evm_memory N \<sigma> = concat (map (page \<sigma>) [0..<N])"

text \<open>Reading and writing the abstract memory.\<close>

definition mem_read :: "bytes \<Rightarrow> nat \<Rightarrow> nat \<Rightarrow> bytes" where
  "mem_read m off n = take n (drop off m)"

definition mem_write :: "bytes \<Rightarrow> nat \<Rightarrow> bytes \<Rightarrow> bytes" where
  "mem_write m off b = take off m @ b @ drop (off + length b) m"

lemma length_mem_write [simp]: "off + length b \<le> length m \<Longrightarrow> length (mem_write m off b) = length m"
  by (simp add: mem_write_def)

lemma length_mem_read [simp]: "off + n \<le> length m \<Longrightarrow> length (mem_read m off n) = n"
  by (simp add: mem_read_def)

lemma mem_read_split: "mem_read m off (a + b) = mem_read m off a @ mem_read m (off + a) b"
  by (simp add: mem_read_def take_add add.commute)

lemma mem_write_nth:
  assumes "off + length b \<le> length m" "i < length m"
  shows "mem_write m off b ! i = (if off \<le> i \<and> i < off + length b then b ! (i - off) else m ! i)"
  using assms by (auto simp: mem_write_def nth_append min_def)

lemma mem_write_split:
  assumes "off + length b + length c \<le> length m"
  shows "mem_write (mem_write m off b) (off + length b) c = mem_write m off (b @ c)"
  by (rule nth_equalityI) (use assms in \<open>auto simp: mem_write_nth nth_append add.commute\<close>)

text \<open>What was written is read back, and bytes outside the written range do not change.\<close>

lemma mem_read_write_same: "off + length b \<le> length m \<Longrightarrow> mem_read (mem_write m off b) off (length b) = b"
  by (simp add: mem_read_def mem_write_def)

lemma mem_read_write_other:
  assumes "off + length b \<le> length m" "o' + n \<le> off \<or> off + length b \<le> o'" "o' + n \<le> length m"
  shows "mem_read (mem_write m off b) o' n = mem_read m o' n"
proof (rule nth_equalityI)
  show "length (mem_read (mem_write m off b) o' n) = length (mem_read m o' n)"
    using assms by simp
  fix i assume "i < length (mem_read (mem_write m off b) o' n)"
  with assms show "mem_read (mem_write m off b) o' n ! i = mem_read m o' n ! i"
    by (auto simp: mem_read_def mem_write_nth)
qed

lemma length_page: "pages_ok N \<sigma> \<Longrightarrow> i < N \<Longrightarrow> length (page \<sigma> i) = slotSize"
  by (fastforce simp: pages_ok_def page_def)

lemma page_scratch: "pages_ok N \<sigma> \<Longrightarrow> i < N \<Longrightarrow> scratch \<sigma> i = VB (page \<sigma> i)"
  by (fastforce simp: pages_ok_def page_def)

lemma concat_equal_length:
  assumes "\<forall>x \<in> set xss. length x = k"
  shows "length (concat xss) = k * length xss"
  using assms by (induction xss) auto

lemma concat_equal_nth:
  assumes "\<forall>x \<in> set xss. length x = k" "i < length xss" "j < k"
  shows "concat xss ! (k * i + j) = xss ! i ! j"
  using assms
proof (induction xss arbitrary: i)
  case (Cons x xss)
  then show ?case by (cases i) (auto simp: nth_append algebra_simps)
qed simp

lemma length_evm_memory [simp]: "pages_ok N \<sigma> \<Longrightarrow> length (evm_memory N \<sigma>) = slotSize * N"
  unfolding evm_memory_def by (subst concat_equal_length[where k = slotSize]) (auto simp: length_page)

lemma evm_memory_nth:
  assumes "pages_ok N \<sigma>" "i < N" "j < slotSize"
  shows "evm_memory N \<sigma> ! (slotSize * i + j) = page \<sigma> i ! j"
  unfolding evm_memory_def
  by (subst concat_equal_nth) (use assms in \<open>auto simp: length_page\<close>)

text \<open>A range within one page.\<close>

lemma read_page:
  assumes "pages_ok N \<sigma>" "i < N" "j + n \<le> slotSize"
  shows "mem_read (evm_memory N \<sigma>) (slotSize * i + j) n = take n (drop j (page \<sigma> i))"
proof (rule nth_equalityI)
  have fit: "slotSize * i + (j + n) \<le> slotSize * N"
    using assms(2,3) mult_le_mono2[of "Suc i" N slotSize] by simp
  then show "length (mem_read (evm_memory N \<sigma>) (slotSize * i + j) n) = length (take n (drop j (page \<sigma> i)))"
    using assms by (simp add: length_page)
  fix k assume "k < length (mem_read (evm_memory N \<sigma>) (slotSize * i + j) n)"
  then have "k < n" by (simp add: mem_read_def)
  with assms fit evm_memory_nth[OF assms(1,2), of "j + k"] show
    "mem_read (evm_memory N \<sigma>) (slotSize * i + j) n ! k = take n (drop j (page \<sigma> i)) ! k"
    by (simp add: mem_read_def length_page algebra_simps)
qed

lemma pages_ok_set: "pages_ok N \<sigma> \<Longrightarrow> length b = slotSize \<Longrightarrow> pages_ok N (set_scratch i (VB b) \<sigma>)"
  by (auto simp: pages_ok_def set_scratch_def)

lemma write_page:
  assumes "pages_ok N \<sigma>" "i < N" "j + length v \<le> slotSize"
  shows "evm_memory N (set_scratch i (VB (mem_write (page \<sigma> i) j v)) \<sigma>) =
    mem_write (evm_memory N \<sigma>) (slotSize * i + j) v" (is "evm_memory N ?\<tau> = ?m")
proof (rule nth_equalityI)
  have fit: "slotSize * i + j + length v \<le> slotSize * N"
    using assms(2,3) mult_le_mono2[of "Suc i" N slotSize] by simp
  have ok: "pages_ok N ?\<tau>" by (rule pages_ok_set) (use assms in \<open>simp_all add: length_page\<close>)
  show len: "length (evm_memory N ?\<tau>) = length ?m" using ok assms(1) fit by simp
  fix a assume "a < length (evm_memory N ?\<tau>)"
  then have a: "a < slotSize * N" using ok by simp
  define p q where pq: "p = a div slotSize" "q = a mod slotSize"
  have q: "q < slotSize" "a = slotSize * p + q" "p < N"
    using a unfolding pq by (simp_all add: slotSize_def less_mult_imp_div_less mult.commute)
  have l: "evm_memory N ?\<tau> ! a = page ?\<tau> p ! q" unfolding q(2) by (rule evm_memory_nth[OF ok q(3,1)])
  have r: "evm_memory N \<sigma> ! a = page \<sigma> p ! q" unfolding q(2) by (rule evm_memory_nth[OF assms(1) q(3,1)])
  have lenm: "?m ! a = (if slotSize * i + j \<le> a \<and> a < slotSize * i + j + length v
      then v ! (a - (slotSize * i + j)) else evm_memory N \<sigma> ! a)"
    by (rule mem_write_nth) (use fit a assms(1) in simp_all)
  show "evm_memory N ?\<tau> ! a = ?m ! a"
  proof (cases "p = i")
    case True
    have "mem_write (page \<sigma> i) j v ! q = (if j \<le> q \<and> q < j + length v then v ! (q - j) else page \<sigma> i ! q)"
      by (rule mem_write_nth) (use assms q in \<open>simp_all add: length_page\<close>)
    with True show ?thesis unfolding l lenm r by (auto simp: page_def set_scratch_def q(2))
  next
    case False
    have "a < slotSize * i \<or> slotSize * i + slotSize \<le> a"
    proof (cases "p < i")
      case True
      with q mult_le_mono2[of "Suc p" i slotSize] show ?thesis by simp
    next
      case False
      with \<open>p \<noteq> i\<close> q mult_le_mono2[of "Suc i" p slotSize] show ?thesis by simp
    qed
    with False assms(3) show ?thesis unfolding l lenm r by (auto simp: page_def set_scratch_def)
  qed
qed

end
