(* ===== verification/MemoryOps.thy ===== *)
theory MemoryOps
  imports Scratch YulArith
begin

text \<open>
  EVM memory in the inline-assembly translator (\<open>builder/assembly/MemoryOps.cpp\<close>,
  \<open>MemoryHelpers.cpp\<close> and the memory section of \<open>AssemblyBuilder.cpp\<close>): reads and writes of words,
  bytes and ranges in the scratch pages, the handlers of \<open>mload\<close>, \<open>mstore\<close> and \<open>mstore8\<close>, the
  allocation sequences, and the two analyses of offsets they use (constants and residues modulo 32).
  \<open>m_pendingStatements\<close> is the component \<open>preEffects\<close> of the builder state; a function that appends to
  an output list returns the statements it appends.
\<close>

section \<open>Constant offsets\<close>

text \<open>
  A literal is read by \<open>std::stoull\<close> (\<open>NumberText\<close>), whose exceptions are caught; the arithmetic is that
  of \<open>uint64_t\<close>.
\<close>

fun resolveConstantOffset :: "(string \<rightharpoonup> nat) \<Rightarrow> string list \<Rightarrow> expr \<Rightarrow> nat option" where
  "resolveConstantOffset lc cd (IntegerConstant t v) = stoull v"
| "resolveConstantOffset lc cd (VarExpression t x) = (if x \<in> set cd then None else lc x)"
| "resolveConstantOffset lc cd (BigUIntBinaryOperation t l oper r) =
     (case (resolveConstantOffset lc cd l, resolveConstantOffset lc cd r) of
        (Some a, Some b) \<Rightarrow>
          if oper = BigAdd then Some ((a + b) mod 2 ^ 64)
          else if oper = BigSub then Some ((a + 2 ^ 64 - b) mod 2 ^ 64)
          else if oper = BigMult then Some (a * b mod 2 ^ 64)
          else if oper = BigMod \<and> b > 0 then Some (a mod b)
          else if oper = BigFloorDiv \<and> b > 0 then Some (a div b)
          else None
      | (Some a, None) \<Rightarrow>
          if oper = BigMod \<and> (case intLiteral r of Some v \<Rightarrow> length v > 18 | None \<Rightarrow> False) then Some a else None
      | _ \<Rightarrow> None)"
| "resolveConstantOffset lc cd _ = None"

section \<open>Residues modulo 32\<close>

fun decimalMod32Loop :: "nat \<Rightarrow> string \<Rightarrow> nat option" where
  "decimalMod32Loop r [] = Some r"
| "decimalMod32Loop r (c # v) =
     (if is_digit c then decimalMod32Loop ((r * 10 + (of_char c - 48)) mod 32) v else None)"

definition decimalMod32 :: "string \<Rightarrow> nat option" where
  "decimalMod32 v = (if v = [] then None else decimalMod32Loop 0 v)"

text \<open>The members \<open>m_alignedLocals\<close> and \<open>m_yulConstantValues\<close>.\<close>

record AlignContext =
  alignedLocals :: "string list"
  yulConstantValues :: "string \<rightharpoonup> string"

text \<open>The residue of a sum, difference, product or remainder, from those of its operands.\<close>

definition addMod32 :: "nat option \<Rightarrow> nat option \<Rightarrow> nat option" where
  "addMod32 l r = (case (l, r) of (Some a, Some b) \<Rightarrow> Some ((a + b) mod 32) | _ \<Rightarrow> None)"

definition subMod32 :: "nat option \<Rightarrow> nat option \<Rightarrow> nat option" where
  "subMod32 l r = (case (l, r) of (Some a, Some b) \<Rightarrow> Some ((a + 32 - b) mod 32) | _ \<Rightarrow> None)"

definition multMod32 :: "nat option \<Rightarrow> nat option \<Rightarrow> nat option" where
  "multMod32 l r = (if l = Some 0 \<or> r = Some 0 then Some 0 else None)"

definition modMod32 :: "nat option \<Rightarrow> nat option \<Rightarrow> nat option" where
  "modMod32 l r = (if r = Some 0 then l else None)"

definition shiftMod32 :: "expr \<Rightarrow> nat option" where
  "shiftMod32 k =
     (case intLiteral k of
        Some v \<Rightarrow> if decimalMod32 v \<noteq> None \<and> length v \<le> 2 \<and> dec_value v \<ge> 5 then Some 0 else None
      | None \<Rightarrow> None)"

fun alignmentMod32 :: "AlignContext \<Rightarrow> expr \<Rightarrow> nat option" where
  "alignmentMod32 m (IntegerConstant t v) = decimalMod32 v"
| "alignmentMod32 m (SingleEvaluation t e i) = alignmentMod32 m e"
| "alignmentMod32 m (ReinterpretCast t e) = alignmentMod32 m e"
| "alignmentMod32 m (VarExpression t x) =
     (if x \<in> set (alignedLocals m) then Some 0
      else (case yulConstantValues m x of Some v \<Rightarrow> decimalMod32 v | None \<Rightarrow> None))"
| "alignmentMod32 m (BigUIntBinaryOperation t l oper r) =
     (let a = alignmentMod32 m l; b = alignmentMod32 m r
      in case oper of
           BigAdd \<Rightarrow> addMod32 a b
         | BigSub \<Rightarrow> subMod32 a b
         | BigMult \<Rightarrow> multMod32 a b
         | BigMod \<Rightarrow> modMod32 a b
         | _ \<Rightarrow> None)"
| "alignmentMod32 m (UInt64BinaryOperation t l oper r) =
     (let a = alignmentMod32 m l; b = alignmentMod32 m r
      in case oper of
           U64Add \<Rightarrow> addMod32 a b
         | U64Sub \<Rightarrow> subMod32 a b
         | U64Mult \<Rightarrow> multMod32 a b
         | U64Mod \<Rightarrow> modMod32 a b
         | U64LShift \<Rightarrow> shiftMod32 r
         | _ \<Rightarrow> None)"
| "alignmentMod32 m _ = None"

section \<open>Reading words\<close>

text \<open>Shorthands of the code's lambdas: integer constants and variables of type \<open>uint64\<close>.\<close>

abbreviation u64c :: "nat \<Rightarrow> expr" where
  "u64c n \<equiv> makeIntegerConstantU64 n uint64Type"

definition u64v :: "string \<Rightarrow> expr" where
  "u64v x = makeVarExpression x uint64Type"

definition bytesv :: "string \<Rightarrow> expr" where
  "bytesv x = makeVarExpression x bytesType"

definition offsetToUint64 :: "expr \<Rightarrow> expr builder" where
  "offsetToUint64 off =
     (if wtypeOf off = uint64Type then ret off
      else do { b \<leftarrow> ensureBiguint off; ret (safeBtoi b) })"

definition boundsMessage :: string where
  "boundsMessage = ''EVM memory access exceeds the modeled scratch blob (raise --evm-memory-slots)''"

text \<open>The number of bytes of the modelled memory.\<close>

definition memoryBytes :: "ScratchLayout \<Rightarrow> nat" where
  "memoryBytes sc = slotSize * nat (memoryCount sc)"

definition memBoundsAssert :: "ScratchLayout \<Rightarrow> expr \<Rightarrow> stmt" where
  "memBoundsAssert sc off =
     (let end = makeUInt64BinOp off U64Add (u64c 32);
          cond = makeNumericCompare end Lte (u64c (memoryBytes sc))
      in makeExpressionStatement (makeAssert cond (Some boundsMessage) voidType))"

text \<open>The page of a constant offset: \<open>static_cast<int>\<close> keeps the low 32 bits.\<close>

definition constSlot :: "nat \<Rightarrow> int" where
  "constSlot offset = signed_of 32 (offset div slotSize mod 2 ^ 32)"

definition readMemWordConst :: "ScratchLayout \<Rightarrow> nat \<Rightarrow> expr builder" where
  "readMemWordConst sc offset = do {
     let slot = constSlot offset;
     let sub = offset mod slotSize;
     (if slot \<ge> memoryCount sc then logError MemoryReadBeyondSlots else ret ());
     ret (if sub + 32 \<le> slotSize
          then makeExtract3 (makeLoadSlot (memoryFirst sc + slot)) (u64c sub) (makeIntegerConstant ''32'' uint64Type) None
          else
            (let firstLen = slotSize - sub;
                 part1 = makeExtract3 (makeLoadSlot (memoryFirst sc + slot)) (u64c sub) (u64c firstLen) None;
                 part2 = makeExtract3 (makeLoadSlot (memoryFirst sc + slot + 1))
                           (makeIntegerConstant ''0'' uint64Type) (u64c (32 - firstLen)) None
             in makeConcat part1 part2))
   }"

text \<open>The expression that loads the page of a runtime offset, or the page after it.\<close>

definition loadPage :: "ScratchLayout \<Rightarrow> expr \<Rightarrow> int \<Rightarrow> expr" where
  "loadPage sc off slotDelta =
     (let slot = makeUInt64BinOp off U64FloorDiv (u64c slotSize);
          base = memoryFirst sc + slotDelta;
          slot' = (if base \<noteq> 0 then makeUInt64BinOp slot U64Add (u64c (nat base)) else slot)
      in makeIntrinsicCall ''loads'' bytesType [] [slot'])"

definition pageOffset :: "expr \<Rightarrow> expr" where
  "pageOffset off = makeUInt64BinOp off U64Mod (u64c slotSize)"

definition pageRest :: "expr \<Rightarrow> expr" where
  "pageRest off = makeUInt64BinOp (u64c slotSize) U64Sub (pageOffset off)"

definition shortLiteral :: "expr \<Rightarrow> nat option" where
  "shortLiteral e =
     (case intLiteral e of
        Some v \<Rightarrow> if length v \<le> 3 \<and> list_all is_digit v \<and> v \<noteq> [] then Some (dec_value v) else None
      | None \<Rightarrow> None)"

definition provablyInSlot :: "nat option \<Rightarrow> nat option \<Rightarrow> bool" where
  "provablyInSlot offAlign constLen =
     (case (offAlign, constLen) of (Some r, Some n) \<Rightarrow> n + r \<le> 32 | _ \<Rightarrow> False)"

definition readMemStackRange :: "ScratchLayout \<Rightarrow> expr \<Rightarrow> expr \<Rightarrow> nat option \<Rightarrow> expr builder" where
  "readMemStackRange sc offset len0 offAlign = do {
     let inSlotOnly = provablyInSlot offAlign (shortLiteral len0);
     off \<leftarrow> makeEvalOnce offset;
     len \<leftarrow> makeEvalOnce len0;
     let inSlot = makeExtract3 (loadPage sc off 0) (pageOffset off) len None;
     (if inSlotOnly then ret inSlot
      else
        (let straddle = makeConcat
               (makeExtract3 (loadPage sc off 0) (pageOffset off) (pageRest off) None)
               (makeExtract3 (loadPage sc off 1) (makeIntegerConstant ''0'' uint64Type)
                  (makeUInt64BinOp len U64Sub (pageRest off)) None)
         in ret (makeConditional (makeNumericCompare len Lte (pageRest off)) inSlot straddle bytesType)))
   }"

definition readMemWordDirect :: "ScratchLayout \<Rightarrow> expr \<Rightarrow> nat option \<Rightarrow> expr builder" where
  "readMemWordDirect sc offset offAlign =
     readMemStackRange sc offset (makeIntegerConstant ''32'' uint64Type) offAlign"

text \<open>
  \<open>readMemWordDyn\<close> with a sink: the bounds assertion to append to it, and the word.  Without a sink
  the assertion is a pending statement.
\<close>

definition readMemWordDynSink :: "ScratchLayout \<Rightarrow> AlignContext \<Rightarrow> expr \<Rightarrow> (stmt \<times> expr) builder" where
  "readMemWordDynSink sc m offset = do {
     let align = alignmentMod32 m offset;
     off0 \<leftarrow> offsetToUint64 offset;
     off \<leftarrow> makeEvalOnce off0;
     word \<leftarrow> readMemWordDirect sc off align;
     ret (memBoundsAssert sc off, word)
   }"

definition readMemWordDyn :: "ScratchLayout \<Rightarrow> AlignContext \<Rightarrow> expr \<Rightarrow> expr builder" where
  "readMemWordDyn sc m offset = do {
     p \<leftarrow> readMemWordDynSink sc m offset;
     pushPreEffect (fst p);
     ret (snd p)
   }"

fun readWordsAt :: "ScratchLayout \<Rightarrow> (nat \<Rightarrow> expr) \<Rightarrow> nat list \<Rightarrow> expr option \<Rightarrow> expr option builder" where
  "readWordsAt sc off [] acc = ret acc"
| "readWordsAt sc off (i # is) acc = do {
     word \<leftarrow> readMemWordDirect sc (off i) None;
     readWordsAt sc off is (Some (case acc of Some a \<Rightarrow> makeConcat a word | None \<Rightarrow> word))
   }"

definition wordOffset :: "expr \<Rightarrow> nat \<Rightarrow> expr" where
  "wordOffset off i = (if i = 0 then off else makeUInt64BinOp off U64Add (u64c (i * 32)))"

text \<open>A null result for a length of 0 is \<open>None\<close>.\<close>

definition readMemRangeDirect :: "ScratchLayout \<Rightarrow> expr \<Rightarrow> nat \<Rightarrow> expr option builder" where
  "readMemRangeDirect sc offset byteLen = do {
     acc \<leftarrow> readWordsAt sc (wordOffset offset) [0..<(byteLen + 31) div 32] None;
     ret (if byteLen mod 32 \<noteq> 0
          then map_option (\<lambda>a. makeExtract3 a (makeIntegerConstant ''0'' uint64Type) (u64c byteLen) None) acc
          else acc)
   }"

definition readMemSlot :: "ScratchLayout \<Rightarrow> nat \<Rightarrow> expr builder" where
  "readMemSlot sc offset = do {
     word \<leftarrow> readMemWordDirect sc (u64c offset) None;
     ret (makeAsBiguint word)
   }"

section \<open>Writing words and bytes\<close>

definition storeMemoryBlob :: "ScratchLayout \<Rightarrow> expr \<Rightarrow> int \<Rightarrow> stmt" where
  "storeMemoryBlob sc blob slot = makeExpressionStatement (makeStoreSlot (memoryFirst sc + slot) blob)"

definition writeMemWordConst :: "ScratchLayout \<Rightarrow> nat \<Rightarrow> expr \<Rightarrow> stmt list builder" where
  "writeMemWordConst sc offset value32 = do {
     let slot = constSlot offset;
     let sub = offset mod slotSize;
     (if slot \<ge> memoryCount sc then logError MemoryWriteBeyondSlots else ret ());
     (if sub + 32 \<le> slotSize
      then ret [storeMemoryBlob sc (makeReplace3 (makeLoadSlot (memoryFirst sc + slot)) (u64c sub) value32) slot]
      else do {
        let firstLen = slotSize - sub;
        let tmp = ''__mem_straddle_'' @ dec_of_nat offset;
        assign \<leftarrow> makeAssignmentStatement (bytesv tmp) value32;
        let valPart1 = makeExtract3 (bytesv tmp) (makeIntegerConstant ''0'' uint64Type) (u64c firstLen) None;
        let rep1 = makeReplace3 (makeLoadSlot (memoryFirst sc + slot)) (u64c sub) valPart1;
        let valPart2 = makeExtract3 (bytesv tmp) (u64c firstLen) (u64c (32 - firstLen)) None;
        let rep2 = makeReplace3 (makeLoadSlot (memoryFirst sc + slot + 1)) (makeIntegerConstant ''0'' uint64Type) valPart2;
        ret [assign, storeMemoryBlob sc rep1 slot, storeMemoryBlob sc rep2 (slot + 1)]
      })
   }"

text \<open>The lambda \<open>storeSlot\<close>: replace part of the page in a slot.\<close>

definition storeSlotAt :: "expr \<Rightarrow> expr \<Rightarrow> expr \<Rightarrow> stmt builder" where
  "storeSlotAt slot at bs = do {
     slotOnce \<leftarrow> makeEvalOnce slot;
     let loadsCall = makeIntrinsicCall ''loads'' bytesType [] [slotOnce];
     ret (makeExpressionStatement (makeIntrinsicCall ''stores'' voidType [] [slotOnce, makeReplace3 loadsCall at bs]))
   }"

definition slotExpr :: "ScratchLayout \<Rightarrow> expr \<Rightarrow> expr" where
  "slotExpr sc offset =
     (let slot = makeUInt64BinOp offset U64FloorDiv (u64c slotSize)
      in if memoryFirst sc \<noteq> 0 then makeUInt64BinOp slot U64Add (u64c (nat (memoryFirst sc))) else slot)"

definition writeMemWordDirect :: "ScratchLayout \<Rightarrow> expr \<Rightarrow> expr \<Rightarrow> nat option \<Rightarrow> stmt list builder" where
  "writeMemWordDirect sc offset value32 offAlign = do {
     i \<leftarrow> nameGenNext ''MemoryOps.dynamicStore'';
     let slotN = ''__blobw_slot_'' @ dec_of_nat i;
     let subN = ''__blobw_sub_'' @ dec_of_nat i;
     let valN = ''__blobw_val_'' @ dec_of_nat i;
     s1 \<leftarrow> makeAssignmentStatement (u64v slotN) (slotExpr sc offset);
     s2 \<leftarrow> makeAssignmentStatement (u64v subN) (pageOffset offset);
     s3 \<leftarrow> makeAssignmentStatement (bytesv valN) value32;
     inSlot \<leftarrow> storeSlotAt (u64v slotN) (u64v subN) (bytesv valN);
     (if offAlign = Some 0 then ret [memBoundsAssert sc offset, s1, s2, s3, inSlot]
      else do {
        let firstLen = makeUInt64BinOp (u64c slotSize) U64Sub (u64v subN);
        lo \<leftarrow> storeSlotAt (u64v slotN) (u64v subN)
               (makeExtract3 (bytesv valN) (makeIntegerConstant ''0'' uint64Type) firstLen None);
        hi \<leftarrow> storeSlotAt (makeUInt64BinOp (u64v slotN) U64Add (makeOne uint64Type))
               (makeIntegerConstant ''0'' uint64Type)
               (makeExtract3 (bytesv valN) firstLen
                  (makeUInt64BinOp (makeIntegerConstant ''32'' uint64Type) U64Sub firstLen) None);
        ret [memBoundsAssert sc offset, s1, s2, s3,
             makeIfElse (makeNumericCompare (u64v subN) Lte (u64c (slotSize - 32)))
               (Some (makeBlock [inSlot])) (Some (makeBlock [lo, hi]))]
      })
   }"

definition writeMemWordDyn :: "ScratchLayout \<Rightarrow> AlignContext \<Rightarrow> expr \<Rightarrow> expr \<Rightarrow> stmt list builder" where
  "writeMemWordDyn sc m offset value32 = do {
     i \<leftarrow> nameGenNext ''MemoryOps.dynamicOffset'';
     let offN = ''__mem_dyn_off_'' @ dec_of_nat i;
     let align = alignmentMod32 m offset;
     offVal \<leftarrow> offsetToUint64 offset;
     s0 \<leftarrow> makeAssignmentStatement (u64v offN) offVal;
     ss \<leftarrow> writeMemWordDirect sc (u64v offN) value32 align;
     ret (s0 # ss)
   }"

definition byteBoundsMessage :: string where
  "byteBoundsMessage = ''EVM memory byte access exceeds configured scratch slots''"

definition writeMemByteDirect :: "ScratchLayout \<Rightarrow> expr \<Rightarrow> expr \<Rightarrow> stmt list builder" where
  "writeMemByteDirect sc offset0 valueByte = do {
     offset \<leftarrow> makeEvalOnce offset0;
     let inBounds = makeNumericCompare offset Lt (u64c (memoryBytes sc));
     slotOnce \<leftarrow> makeEvalOnce (slotExpr sc offset);
     let loadsCall = makeIntrinsicCall ''loads'' bytesType [] [slotOnce];
     let replaced = makeReplace3 loadsCall (pageOffset offset) valueByte;
     ret [makeExpressionStatement (makeAssert inBounds (Some byteBoundsMessage) voidType),
          makeExpressionStatement (makeIntrinsicCall ''stores'' voidType [] [slotOnce, replaced])]
   }"

text \<open>\<open>writeMemBytesDirect\<close>: a loop that writes the value word by word, padded with 32 zero bytes.\<close>

definition writeMemBytesDirect :: "ScratchLayout \<Rightarrow> expr \<Rightarrow> expr \<Rightarrow> nat \<Rightarrow> stmt list builder" where
  "writeMemBytesDirect sc offU64 bytesValue uniqueId = do {
     let pfx = ''__blobw_'' @ dec_of_nat uniqueId @ ''_'';
     let v = bytesv (pfx @ ''v'');
     let off = u64v (pfx @ ''off'');
     let len = u64v (pfx @ ''len'');
     let i = u64v (pfx @ ''i'');
     s1 \<leftarrow> makeAssignmentStatement v (makeConcat bytesValue (makeBzero 32));
     s2 \<leftarrow> makeAssignmentStatement off offU64;
     s3 \<leftarrow> makeAssignmentStatement len (makeUInt64BinOp (makeLen v) U64Sub (makeIntegerConstant ''32'' uint64Type));
     s4 \<leftarrow> makeAssignmentStatement i (makeIntegerConstant ''0'' uint64Type);
     ws \<leftarrow> writeMemWordDirect sc (makeUInt64BinOp off U64Add i)
            (makeExtract3 v i (makeIntegerConstant ''32'' uint64Type) None) None;
     step \<leftarrow> makeAssignmentStatement i (makeUInt64BinOp i U64Add (makeIntegerConstant ''32'' uint64Type));
     ret [s1, s2, s3, s4, makeWhileLoop (makeNumericCompare i Lt len) (makeBlock (ws @ [step]))]
   }"

section \<open>Ranges\<close>

text \<open>
  \<open>readMemRangeDyn\<close>: a loop that appends the words at a runtime offset to an accumulator, cut to the
  length.  It registers its offset and index variables as aligned when the offset is a multiple of 32.
  The result is the new alignment context, the statements and the variable that holds the bytes.
\<close>

definition readMemRangeDyn ::
    "ScratchLayout \<Rightarrow> AlignContext \<Rightarrow> expr \<Rightarrow> expr \<Rightarrow> (AlignContext \<times> stmt list \<times> expr) builder" where
  "readMemRangeDyn sc m offset length0 = do {
     uid \<leftarrow> nameGenNext ''MemoryHelpers.readRangeDyn'';
     let nm = (\<lambda>t. ''__memrd_'' @ t @ ''_'' @ dec_of_nat uid);
     let aligned = (alignmentMod32 m offset = Some 0);
     offVal \<leftarrow> offsetToUint64 offset;
     s1 \<leftarrow> makeAssignmentStatement (u64v (nm ''off'')) offVal;
     lenVal \<leftarrow> offsetToUint64 length0;
     s2 \<leftarrow> makeAssignmentStatement (u64v (nm ''len'')) lenVal;
     s3 \<leftarrow> makeAssignmentStatement (bytesv (nm ''acc'')) (makeBytesConstant [] EncUnknown bytesType);
     s4 \<leftarrow> makeAssignmentStatement (u64v (nm ''i'')) (u64c 0);
     let m' = (if aligned then m\<lparr>alignedLocals := nm ''i'' # nm ''off'' # alignedLocals m\<rparr> else m);
     (bound, word) \<leftarrow> readMemWordDynSink sc m' (makeUInt64BinOp (u64v (nm ''off'')) U64Add (u64v (nm ''i'')));
     s5 \<leftarrow> makeAssignmentStatement (bytesv (nm ''acc'')) (makeConcat (bytesv (nm ''acc'')) word);
     s6 \<leftarrow> makeAssignmentStatement (u64v (nm ''i'')) (makeUInt64BinOp (u64v (nm ''i'')) U64Add (u64c 32));
     let loop = makeWhileLoop (makeNumericCompare (u64v (nm ''i'')) Lt (u64v (nm ''len'')))
                  (makeBlock [bound, s5, s6]);
     s7 \<leftarrow> makeAssignmentStatement (bytesv (nm ''v''))
            (makeExtract3 (bytesv (nm ''acc'')) (u64c 0) (u64v (nm ''len'')) None);
     ret (m', [s1, s2, s3, s4, loop, s7], bytesv (nm ''v''))
   }"

text \<open>
  \<open>writeMemRangeDyn\<close>: the value is extended with the destination's own bytes to a whole number of
  words, then written word by word.  The bounds assertion of the tail's read is a pending statement.
\<close>

definition writeMemRangeDyn :: "ScratchLayout \<Rightarrow> AlignContext \<Rightarrow> expr \<Rightarrow> expr \<Rightarrow> stmt list builder" where
  "writeMemRangeDyn sc m offset value = do {
     uid \<leftarrow> nameGenNext ''MemoryHelpers.writeRangeDyn'';
     let nm = (\<lambda>t. ''__memwr_'' @ t @ ''_'' @ dec_of_nat uid);
     offVal \<leftarrow> offsetToUint64 offset;
     s1 \<leftarrow> makeAssignmentStatement (u64v (nm ''dst'')) offVal;
     s2 \<leftarrow> makeAssignmentStatement (bytesv (nm ''src'')) value;
     s3 \<leftarrow> makeAssignmentStatement (u64v (nm ''rem''))
            (makeUInt64BinOp (makeLen (bytesv (nm ''src''))) U64Mod (u64c 32));
     let lastWordOff = makeUInt64BinOp (makeLen (bytesv (nm ''src''))) U64Sub (u64v (nm ''rem''));
     dstLastWord \<leftarrow> readMemWordDyn sc m (makeUInt64BinOp (u64v (nm ''dst'')) U64Add lastWordOff);
     let tailKeep = makeExtract3 dstLastWord (u64v (nm ''rem''))
                      (makeUInt64BinOp (u64c 32) U64Sub (u64v (nm ''rem''))) None;
     s4 \<leftarrow> makeAssignmentStatement (bytesv (nm ''val'')) (makeConcat (bytesv (nm ''src'')) tailKeep);
     s5 \<leftarrow> makeAssignmentStatement (u64v (nm ''j'')) (u64c 0);
     ws \<leftarrow> writeMemWordDyn sc m (makeUInt64BinOp (u64v (nm ''dst'')) U64Add (u64v (nm ''j'')))
            (makeExtract3 (bytesv (nm ''val'')) (u64v (nm ''j'')) (u64c 32) None);
     s6 \<leftarrow> makeAssignmentStatement (u64v (nm ''j'')) (makeUInt64BinOp (u64v (nm ''j'')) U64Add (u64c 32));
     let loop = makeWhileLoop (makeNumericCompare (u64v (nm ''j'')) Lt (makeLen (bytesv (nm ''val''))))
                  (makeBlock (ws @ [s6]));
     ret [s1, s2, s3, s4, s5, loop]
   }"

fun concatWordsDyn :: "ScratchLayout \<Rightarrow> AlignContext \<Rightarrow> expr \<Rightarrow> nat list \<Rightarrow> expr option \<Rightarrow> expr option builder" where
  "concatWordsDyn sc m off [] acc = ret acc"
| "concatWordsDyn sc m off (i # is) acc = do {
     word \<leftarrow> readMemWordDyn sc m (wordOffset off i);
     concatWordsDyn sc m off is (Some (case acc of Some a \<Rightarrow> makeConcat a word | None \<Rightarrow> word))
   }"

definition concatSlotsRT :: "ScratchLayout \<Rightarrow> AlignContext \<Rightarrow> expr \<Rightarrow> nat \<Rightarrow> nat \<Rightarrow> expr option builder" where
  "concatSlotsRT sc m baseOffset startSlot count = do {
     base \<leftarrow> offsetToUint64 baseOffset;
     let offsetExpr = (if startSlot \<noteq> 0 then makeUInt64BinOp base U64Add (u64c (startSlot * 32)) else base);
     off \<leftarrow> (if count > 1 then makeEvalOnce offsetExpr else ret offsetExpr);
     concatWordsDyn sc m off [0..<count] None
   }"

section \<open>Results of precompiles\<close>

definition boolWord :: "expr \<Rightarrow> expr builder" where
  "boolWord result = padTo32Bytes (makeConditional result (makeBiguintConstant ''1'') (makeBiguintConstant ''0'') biguintType)"

definition resultWord :: "expr \<Rightarrow> expr builder" where
  "resultWord result = padTo32Bytes (if wtypeOf result = bytesType then makeAsBiguint result else result)"

definition resultChunk :: "nat \<Rightarrow> expr" where
  "resultChunk i = makeExtract3 (bytesv ''__precompile_result'') (u64c (i * 32)) (makeIntegerConstant ''32'' uint64Type) None"

fun writeChunks :: "(nat \<Rightarrow> stmt list builder) \<Rightarrow> nat list \<Rightarrow> stmt list builder" where
  "writeChunks w [] = ret []"
| "writeChunks w (i # is) = do { a \<leftarrow> w i; b \<leftarrow> writeChunks w is; ret (a @ b) }"

text \<open>Both functions also return the locals they declare.\<close>

definition storeResultToMemory ::
    "ScratchLayout \<Rightarrow> expr \<Rightarrow> nat \<Rightarrow> nat \<Rightarrow> bool \<Rightarrow> ((string \<times> wtype) list \<times> stmt list) builder" where
  "storeResultToMemory sc result outputOffset outputSlots isBoolResult =
     (if isBoolResult then do {
        word \<leftarrow> boolWord result;
        ss \<leftarrow> writeMemWordDirect sc (u64c outputOffset) word None;
        ret ([], ss)
      }
      else if outputSlots = 1 then do {
        word \<leftarrow> resultWord result;
        ss \<leftarrow> writeMemWordDirect sc (u64c outputOffset) word None;
        ret ([], ss)
      }
      else do {
        s \<leftarrow> makeAssignmentStatement (bytesv ''__precompile_result'') result;
        ss \<leftarrow> writeChunks (\<lambda>i. writeMemWordDirect sc (u64c ((outputOffset + i * 32) mod 2 ^ 64)) (resultChunk i) None)
                [0..<outputSlots];
        ret ([(''__precompile_result'', bytesType)], s # ss)
      })"

definition storeResultToMemoryRT ::
    "ScratchLayout \<Rightarrow> AlignContext \<Rightarrow> expr \<Rightarrow> expr \<Rightarrow> nat \<Rightarrow> bool \<Rightarrow> ((string \<times> wtype) list \<times> stmt list) builder" where
  "storeResultToMemoryRT sc m result outputOffset outputSlots isBoolResult = do {
     baseOff \<leftarrow> offsetToUint64 outputOffset;
     (if isBoolResult then do {
        word \<leftarrow> boolWord result;
        ss \<leftarrow> writeMemWordDyn sc m baseOff word;
        ret ([], ss)
      }
      else if outputSlots = 1 then do {
        word \<leftarrow> resultWord result;
        ss \<leftarrow> writeMemWordDyn sc m baseOff word;
        ret ([], ss)
      }
      else do {
        s1 \<leftarrow> makeAssignmentStatement (bytesv ''__precompile_result'') result;
        s2 \<leftarrow> makeAssignmentStatement (u64v ''__precompile_outoff'') baseOff;
        ss \<leftarrow> writeChunks (\<lambda>i. writeMemWordDyn sc m (wordOffset (u64v ''__precompile_outoff'') i) (resultChunk i))
                [0..<outputSlots];
        ret ([(''__precompile_result'', bytesType), (''__precompile_outoff'', uint64Type)], s1 # s2 # ss)
      })
   }"

section \<open>Allocation\<close>

text \<open>The free-memory pointer is the word at 0x40; its low eight bytes are at 88.\<close>

definition emitFreeMemoryBump :: "ScratchLayout \<Rightarrow> int \<Rightarrow> nat \<Rightarrow> stmt list builder" where
  "emitFreeMemoryBump sc nbytes uniqueId =
     (if nbytes \<le> 0 then ret []
      else do {
        let blobTmp = ''__fmp_blob_'' @ dec_of_nat uniqueId;
        s1 \<leftarrow> makeAssignmentStatement (bytesv blobTmp) (makeLoadSlot (memoryFirst sc));
        let extractFmp = makeExtractUInt64 (bytesv blobTmp) (makeIntegerConstant ''88'' uint64Type) None;
        let newFmp = makeUInt64BinOp extractFmp U64Add (u64c (nat nbytes));
        let word = makeLeftPad (makeItob newFmp) 24;
        let replaceCall = makeReplace3 (bytesv blobTmp) (makeIntegerConstant ''64'' uint64Type) word;
        ret [s1, makeExpressionStatement (makeStoreSlot (memoryFirst sc) replaceCall)]
      })"

text \<open>\<open>ceil(n/32)*32\<close>\<close>

definition roundUp32 :: "expr \<Rightarrow> expr" where
  "roundUp32 n =
     makeUInt64BinOp (makeUInt64BinOp (makeUInt64BinOp n U64Add (u64c 31)) U64FloorDiv (u64c 32)) U64Mult (u64c 32)"

definition loadFmp :: "ScratchLayout \<Rightarrow> expr" where
  "loadFmp sc = makeExtractUInt64 (makeLoadSlot (memoryFirst sc)) (u64c 88) None"

definition storeFmp :: "ScratchLayout \<Rightarrow> expr \<Rightarrow> stmt" where
  "storeFmp sc next =
     makeExpressionStatement (makeStoreSlot (memoryFirst sc)
       (makeReplace3 (makeLoadSlot (memoryFirst sc)) (u64c 64) (makeLeftPad (makeItob next) 24)))"

definition emitMemoryAlloc :: "ScratchLayout \<Rightarrow> expr \<Rightarrow> string \<Rightarrow> nat \<Rightarrow> stmt list builder" where
  "emitMemoryAlloc sc sizeU64 offVar uniqueId = do {
     let sizeName = ''__memalloc_size_'' @ dec_of_nat uniqueId;
     s1 \<leftarrow> makeAssignmentStatement (u64v sizeName) sizeU64;
     s2 \<leftarrow> makeAssignmentStatement (u64v offVar) (loadFmp sc);
     let next = makeUInt64BinOp (u64v offVar) U64Add (roundUp32 (u64v sizeName));
     ret [s1, s2, storeFmp sc next]
   }"

definition emitBytesBlobAlloc :: "ScratchLayout \<Rightarrow> expr \<Rightarrow> string \<Rightarrow> nat \<Rightarrow> stmt list builder" where
  "emitBytesBlobAlloc sc lenU64 offVar uniqueId = do {
     let lenVar = ''__bytesalloc_len_'' @ dec_of_nat uniqueId;
     s1 \<leftarrow> makeAssignmentStatement (u64v lenVar) lenU64;
     s2 \<leftarrow> makeAssignmentStatement (u64v offVar) (loadFmp sc);
     let lenWord = makeLeftPad (makeItob (u64v lenVar)) 24;
     ws \<leftarrow> writeMemWordDirect sc (u64v offVar) lenWord None;
     let newFmp = makeUInt64BinOp (makeUInt64BinOp (u64v offVar) U64Add (u64c 32)) U64Add (roundUp32 (u64v lenVar));
     ret (s1 # s2 # ws @ [storeFmp sc newFmp])
   }"

section \<open>The builtins\<close>

text \<open>
  The constants \<open>m_localConstants\<close> records for words stored at constant offsets, and the value of the
  last \<open>mstore\<close>.
\<close>

record MemTrack =
  trackedConstants :: "string \<rightharpoonup> nat"
  lastMstoreValue :: "expr option"

text \<open>\<open>std::hex\<close>, without leading zeros.\<close>

definition hexAlphabet :: string where "hexAlphabet = ''0123456789abcdef''"

fun hex_of_nat :: "nat \<Rightarrow> string" where
  "hex_of_nat n = (if n < 16 then [hexAlphabet ! n] else hex_of_nat (n div 16) @ [hexAlphabet ! (n mod 16)])"

definition memName :: "nat \<Rightarrow> string" where
  "memName off = ''mem_0x'' @ hex_of_nat off"

definition invalidateMemConstants :: "MemTrack \<Rightarrow> MemTrack" where
  "invalidateMemConstants t =
     \<lparr>trackedConstants = (\<lambda>x. if take 6 x = ''mem_0x'' then None else trackedConstants t x),
      lastMstoreValue = None\<rparr>"

text \<open>
  \<open>calldata\<close> maps the offsets of \<open>m_calldataMap\<close> to the element \<open>accessFlatElement\<close> builds for them.
\<close>

definition handleMload ::
    "ScratchLayout \<Rightarrow> AlignContext \<Rightarrow> (string \<rightharpoonup> nat) \<Rightarrow> string list \<Rightarrow> (nat \<rightharpoonup> expr) \<Rightarrow> expr list \<Rightarrow> expr option builder" where
  "handleMload sc m lc cd calldata args = withArity args 1 ''mload'' (
     case resolveConstantOffset lc cd (args ! 0) of
       Some off \<Rightarrow>
         (case calldata off of
            Some e \<Rightarrow> ret e
          | None \<Rightarrow> do { word \<leftarrow> readMemWordConst sc off; ret (makeAsBiguint word) })
     | None \<Rightarrow> do { word \<leftarrow> readMemWordDyn sc m (args ! 0); ret (makeAsBiguint word) })"

definition trackMstore :: "MemTrack \<Rightarrow> string list \<Rightarrow> expr \<Rightarrow> expr \<Rightarrow> MemTrack" where
  "trackMstore t cd off value =
     (let t1 = (case resolveConstantOffset (trackedConstants t) cd off of
                  Some k \<Rightarrow> t\<lparr>trackedConstants := (trackedConstants t)
                              (memName k := resolveConstantOffset (trackedConstants t) cd value)\<rparr>
                | None \<Rightarrow> invalidateMemConstants t)
      in t1\<lparr>lastMstoreValue := Some value\<rparr>)"

definition handleMstore ::
    "ScratchLayout \<Rightarrow> AlignContext \<Rightarrow> MemTrack \<Rightarrow> string list \<Rightarrow> expr list \<Rightarrow> (MemTrack \<times> stmt list) builder" where
  "handleMstore sc m t cd args = do {
     ok \<leftarrow> checkArity args 2 ''mstore'';
     (if \<not> ok then ret (t, [])
      else do {
        let t' = trackMstore t cd (args ! 0) (args ! 1);
        v \<leftarrow> ensureBiguint (args ! 1);
        padded \<leftarrow> padTo32Bytes v;
        ss \<leftarrow> (case resolveConstantOffset (trackedConstants t) cd (args ! 0) of
                 Some off \<Rightarrow> writeMemWordConst sc off padded
               | None \<Rightarrow> writeMemWordDyn sc m (args ! 0) padded);
        ret (t', ss)
      })
   }"

text \<open>\<open>handleMstore8\<close> computes the slot from the offset alone, without \<open>memoryFirst\<close>.\<close>

definition handleMstore8 :: "ScratchLayout \<Rightarrow> expr list \<Rightarrow> stmt list builder" where
  "handleMstore8 sc args = do {
     ok \<leftarrow> checkArity args 2 ''mstore8'';
     (if \<not> ok then ret []
      else do {
        off0 \<leftarrow> offsetToUint64 (args ! 0);
        offsetU64 \<leftarrow> makeEvalOnce off0;
        v \<leftarrow> ensureBiguint (args ! 1);
        padded \<leftarrow> padTo32Bytes v;
        let lowByte = makeExtract3 padded (makeIntegerConstant ''31'' uint64Type) (makeOne uint64Type) None;
        i \<leftarrow> nameGenNext ''MemoryOps.mstore8Slot'';
        let slotN = ''__mstore8_slot_'' @ dec_of_nat i;
        s1 \<leftarrow> makeAssignmentStatement (u64v slotN) (makeUInt64BinOp offsetU64 U64FloorDiv (u64c slotSize));
        let loadsCall = makeIntrinsicCall ''loads'' bytesType [] [u64v slotN];
        let rep = makeReplace3 loadsCall (pageOffset offsetU64) lowByte;
        ret [memBoundsAssert sc offsetU64, s1,
             makeExpressionStatement (makeIntrinsicCall ''stores'' voidType [] [u64v slotN, rep])]
      })
   }"

end
