(* ===== verification/MemoryCorrect.thy ===== *)
theory MemoryCorrect
  imports MemoryOps YulCorrect
begin

text \<open>
  The reads and writes of \<open>MemoryOps\<close> implement a flat byte memory: the value of a read is the bytes of
  \<open>evm_memory\<close> at the offset, also across pages; a write replaces them, keeps the page invariant and
  changes nothing else but its own temporaries; a runtime offset out of bounds traps.
\<close>

section \<open>Pages and offsets\<close>

lemma slot_range:
  assumes "off + n \<le> slotSize * N" "0 < n"
  shows "off div slotSize < N"
  using assms by (simp add: less_mult_imp_div_less mult.commute)

lemma slot_range_next:
  assumes "off + n \<le> slotSize * N" "slotSize < off mod slotSize + n"
  shows "off div slotSize + 1 < N"
proof -
  have "slotSize * (off div slotSize) + off mod slotSize = off" by simp
  with assms have "slotSize * (off div slotSize) + slotSize < slotSize * N" by linarith
  then have "slotSize * (off div slotSize + 1) < slotSize * N" by simp
  then show ?thesis by (simp only: mult_less_cancel1)
qed

lemma offset_split: "slotSize * (off div slotSize) + off mod slotSize = off"
  by (rule mult_div_mod_eq)

lemma slotSize_pos [simp]:
  "0 < slotSize" "slotSize \<noteq> 0" "32 \<le> slotSize" "slotSize \<le> 4096" "slotSize < 18446744073709551616"
  by (simp_all add: slotSize_def)

lemma constSlot_exact:
  assumes "off + 32 \<le> slotSize * N" "N \<le> 255"
  shows "constSlot off = int (off div slotSize)"
proof -
  have "off div slotSize < 2 ^ 31" using slot_range[OF assms(1)] assms(2) by simp
  then show ?thesis by (simp add: constSlot_def signed_of_def)
qed

text \<open>A range within a 32-byte line does not cross a page boundary.\<close>

lemma aligned_fits:
  assumes "n + r \<le> 32" "off mod 32 = r"
  shows "off mod slotSize + n \<le> slotSize"
proof -
  have "off mod slotSize mod 32 = r" using assms(2) by (simp add: slotSize_def mod_mod_cancel)
  then obtain q where q: "off mod slotSize = 32 * q + r" by (metis mult_div_mod_eq)
  have "off mod slotSize < 32 * 128" by (simp add: slotSize_def)
  with q have "q < 128" by linarith
  then have "32 * q + 32 \<le> slotSize" by (simp add: slotSize_def)
  with q assms(1) show ?thesis by linarith
qed

text \<open>A word in the page, or the tail of one page and the head of the next.\<close>

lemma read_in_page:
  assumes "pages_ok N \<sigma>" "off div slotSize < N" "off mod slotSize + n \<le> slotSize"
  shows "mem_read (evm_memory N \<sigma>) off n = take n (drop (off mod slotSize) (page \<sigma> (off div slotSize)))"
  using read_page[OF assms] by (simp add: offset_split)

lemma read_straddle:
  assumes "pages_ok N \<sigma>" "off div slotSize + 1 < N" "k = slotSize - off mod slotSize" "k \<le> n" "n - k \<le> slotSize"
  shows "mem_read (evm_memory N \<sigma>) off n =
    take k (drop (off mod slotSize) (page \<sigma> (off div slotSize))) @ take (n - k) (page \<sigma> (off div slotSize + 1))"
proof -
  have m: "off mod slotSize < slotSize" by simp
  then have o2: "off + k = slotSize * (off div slotSize + 1) + 0"
    using assms(3) offset_split[of off] unfolding distrib_left by linarith
  have "mem_read (evm_memory N \<sigma>) (off + k) (n - k) = take (n - k) (drop 0 (page \<sigma> (off div slotSize + 1)))"
    unfolding o2 by (rule read_page) (use assms in simp_all)
  moreover have "mem_read (evm_memory N \<sigma>) off k = take k (drop (off mod slotSize) (page \<sigma> (off div slotSize)))"
    by (rule read_in_page) (use assms m in simp_all)
  ultimately show ?thesis using mem_read_split[of "evm_memory N \<sigma>" off k "n - k"] assms(4) by simp
qed

lemma decimal_texts: "dec_of_nat 0 = ''0''" "dec_of_nat 1 = ''1''" "dec_of_nat 31 = ''31''" "dec_of_nat 32 = ''32''"
  by code_simp+

lemma u64_texts:
  "makeIntegerConstant ''0'' uint64Type = makeIntegerConstantU64 0 uint64Type"
  "makeIntegerConstant ''31'' uint64Type = makeIntegerConstantU64 31 uint64Type"
  "makeIntegerConstant ''32'' uint64Type = makeIntegerConstantU64 32 uint64Type"
  "makeOne uint64Type = makeIntegerConstantU64 1 uint64Type"
  unfolding makeIntegerConstantU64_def makeOne_def decimal_texts by (rule refl)+

section \<open>Reads\<close>

abbreviation pure_at :: "'z evaluator \<Rightarrow> 'z menv_scheme \<Rightarrow> expr \<Rightarrow> val \<Rightarrow> bool" where
  "pure_at ev \<sigma> e v \<equiv> sval ev {} \<sigma> e v"

text \<open>An expression of type \<open>uint64\<close> with a stable value.\<close>

definition u64Is :: "'z evaluator \<Rightarrow> (expr \<times> int) set \<Rightarrow> 'z menv_scheme \<Rightarrow> expr \<Rightarrow> nat \<Rightarrow> bool" where
  "u64Is ev K \<sigma> e n \<longleftrightarrow> wtypeOf e = uint64Type \<and> su64 ev K \<sigma> e n \<and> n < 2 ^ 64"

lemma u64Is_yval: "u64Is ev K \<sigma> e n \<Longrightarrow> yval ev K \<sigma> e n"
  by (simp add: u64Is_def yval_def)

text \<open>The memory of a layout.\<close>

definition layout_ok :: "ScratchLayout \<Rightarrow> nat \<Rightarrow> bool" where
  "layout_ok sc N \<longleftrightarrow> memorySlotCount sc = int N \<and> N \<le> 88"

lemma layout_ok_sel: "layout_ok sc N \<Longrightarrow> memoryCount sc = int N"
  "layout_ok sc N \<Longrightarrow> memoryBytes sc = slotSize * N"
  by (simp_all add: layout_ok_def memoryCount_def memoryBytes_def)

lemma memoryFirst_0 [simp]: "memoryFirst sc = 0"
  by (simp add: memoryFirst_def)

lemma u64_const_bound: "layout_ok sc N \<Longrightarrow> slotSize * N < 2 ^ 64"
  by (simp add: layout_ok_def slotSize_def)

context avm_scratch
begin

lemma sval_scratch_op:
  assumes "oper \<in> set scratch_ops" "list_all2 (sval ev K \<sigma>) args vs"
    and "\<And>c. scratch_op oper imms vs (\<sigma>\<lparr>cache := c\<rparr>) = Some (v, \<sigma>\<lparr>cache := c\<rparr>)"
  shows "sval ev K \<sigma> (IntrinsicCall t oper imms args) v"
proof (rule svalI)
  fix c assume "ok_cache ev K \<sigma> c"
  from sval_args[OF assms(2) this] assms(1,3)
  show "\<exists>c'. ev (\<sigma>\<lparr>cache := c\<rparr>) (IntrinsicCall t oper imms args) = Some (v, \<sigma>\<lparr>cache := c'\<rparr>)
      \<and> ok_cache ev K \<sigma> c'"
    by (auto simp: sem_scratch)
qed

lemma sval_load: "n < 256 \<Longrightarrow> sval ev K \<sigma> (makeLoadSlot (int n)) (scratch \<sigma> n)"
  unfolding makeLoadSlot_def makeIntrinsicCall_def
  by (rule sval_scratch_op[where vs = "[]"]) (simp_all add: scratch_ops_def scratch_op_def load_slot_def)

lemma sval_loads:
  "su64 ev K \<sigma> slot n \<Longrightarrow> n < 256 \<Longrightarrow> sval ev K \<sigma> (makeIntrinsicCall ''loads'' t [] [slot]) (scratch \<sigma> n)"
  unfolding makeIntrinsicCall_def
  by (rule sval_scratch_op[where vs = "[VU n]"]) (simp_all add: scratch_ops_def scratch_op_def load_slot_def)

lemma sbytes_page:
  assumes "pages_ok N \<sigma>" "i < N" "N \<le> 255"
  shows "sbytes ev K \<sigma> (makeLoadSlot (int i)) (page \<sigma> i)"
  using sval_load[of i K \<sigma>] page_scratch[OF assms(1,2)] assms by simp

lemma sbytes_pages:
  assumes "pages_ok N \<sigma>" "i < N" "N \<le> 255" "su64 ev K \<sigma> slot i"
  shows "sbytes ev K \<sigma> (makeIntrinsicCall ''loads'' t [] [slot]) (page \<sigma> i)"
  using sval_loads[OF assms(4), of t] page_scratch[OF assms(1,2)] assms(1-3) by simp

lemma su64_lit:
  "su64 ev K \<sigma> (makeIntegerConstant ''0'' uint64Type) 0" "su64 ev K \<sigma> (makeIntegerConstant ''31'' uint64Type) 31"
  "su64 ev K \<sigma> (makeIntegerConstant ''32'' uint64Type) 32" "su64 ev K \<sigma> (makeOne uint64Type) 1"
  unfolding u64_texts by (simp_all add: su64_const)

lemma su64_bin:
  "su64 ev K \<sigma> l m \<Longrightarrow> su64 ev K \<sigma> r n \<Longrightarrow> u64_op oper m n = Some k \<Longrightarrow> su64 ev K \<sigma> (makeUInt64BinOp l oper r) k"
  unfolding makeUInt64BinOp_def by (rule sval_u64_bin)

lemma su64_succ: "su64 ev K \<sigma> e n \<Longrightarrow> n + 1 < 2 ^ 64 \<Longrightarrow> su64 ev K \<sigma> (makeUInt64BinOp e U64Add (makeOne uint64Type)) (n + 1)"
  by (erule su64_bin[OF _ su64_lit(4)]) simp

lemma sbytes_slice:
  "sbytes ev K \<sigma> e b \<Longrightarrow> su64 ev K \<sigma> off i \<Longrightarrow> su64 ev K \<sigma> len n \<Longrightarrow> i + n \<le> length b \<Longrightarrow>
   sbytes ev K \<sigma> (makeExtract3 e off len t) (take n (drop i b))"
  unfolding makeExtract3_def makeIntrinsicCall_def by (rule sbytes_extract3)

lemma sbytes_replace:
  "sbytes ev K \<sigma> e b \<Longrightarrow> su64 ev K \<sigma> off i \<Longrightarrow> sbytes ev K \<sigma> r w \<Longrightarrow> i + length w \<le> length b \<Longrightarrow>
   sbytes ev K \<sigma> (makeReplace3 e off r) (mem_write b i w)"
  unfolding makeReplace3_def makeIntrinsicCall_def
  by (rule sval_op[where vs = "[VB b, VU i, VB w]"]) (simp_all add: pure_ops_def avm_op_def mem_write_def)

lemma sbytes_straddle:
  assumes "pages_ok N \<sigma>" "off div slotSize + 1 < N" "k = slotSize - off mod slotSize" "k \<le> n" "n \<le> slotSize"
    and "sbytes ev K \<sigma> e1 (take k (drop (off mod slotSize) (page \<sigma> (off div slotSize))))"
    and "sbytes ev K \<sigma> e2 (take (n - k) (page \<sigma> (off div slotSize + 1)))"
  shows "sbytes ev K \<sigma> (makeConcat e1 e2) (mem_read (evm_memory N \<sigma>) off n)"
proof -
  have "length (take k x) + length (take (n - k) y) \<le> k + (n - k)" for x y :: bytes
    by (intro add_mono) simp_all
  then have "length (take k x) + length (take (n - k) y) \<le> 4096" for x y :: bytes
    using assms(4,5) slotSize_pos(4) by (metis le_add_diff_inverse order_trans)
  with sbytes_concat[OF assms(6,7)] read_straddle[OF assms(1-4)] assms(5) show ?thesis
    by (simp only: diff_le_self order_trans[OF diff_le_self])
qed

lemma readMemWordConst_correct:
  assumes "pages_ok N \<sigma>" "layout_ok sc N" "off + 32 \<le> slotSize * N"
  shows "built (readMemWordConst sc off) s (\<lambda>e s'. s' = s \<and> sbytes ev K \<sigma> e (mem_read (evm_memory N \<sigma>) off 32))"
proof -
  let ?i = "off div slotSize" and ?j = "off mod slotSize"
  have N: "N \<le> 255" using assms(2) by (simp add: layout_ok_def)
  have i: "?i < N" using slot_range[OF assms(3)] by simp
  have j: "?j < slotSize" by simp
  then have js: "?j < 4096" by (simp add: slotSize_def)
  note cs = constSlot_exact[OF assms(3) N]
  have len: "length (page \<sigma> ?i) = slotSize" using length_page[OF assms(1) i] .
  have "\<not> int ?i \<ge> memoryCount sc" using i layout_ok_sel(1)[OF assms(2)] by simp
  note start = this cs
  show ?thesis
  proof (cases "?j + 32 \<le> slotSize")
    case True
    have "sbytes ev K \<sigma> (makeExtract3 (makeLoadSlot (int ?i)) (u64c ?j) (makeIntegerConstant ''32'' uint64Type) None)
        (take 32 (drop ?j (page \<sigma> ?i)))"
      by (rule sbytes_slice[OF sbytes_page[OF assms(1) i N] su64_const su64_lit(3)]) (use True js len in simp_all)
    with True start show ?thesis
      by (simp add: readMemWordConst_def Let_def read_in_page[OF assms(1) i True])
  next
    case False
    let ?k = "slotSize - ?j"
    have i2: "?i + 1 < N" using slot_range_next[OF assms(3)] False by simp
    have p1: "sbytes ev K \<sigma> (makeExtract3 (makeLoadSlot (int ?i)) (u64c ?j) (u64c ?k) None) (take ?k (drop ?j (page \<sigma> ?i)))"
      by (rule sbytes_slice[OF sbytes_page[OF assms(1) i N] su64_const su64_const]) (use js j len in \<open>simp_all add: slotSize_def\<close>)
    have p2: "sbytes ev K \<sigma> (makeExtract3 (makeLoadSlot (int (?i + 1))) (makeIntegerConstant ''0'' uint64Type) (u64c (32 - ?k)) None)
        (take (32 - ?k) (drop 0 (page \<sigma> (?i + 1))))"
      by (rule sbytes_slice[OF sbytes_page[OF assms(1) i2 N] su64_lit(1) su64_const])
         (use length_page[OF assms(1) i2] in \<open>simp_all add: slotSize_def\<close>)
    have "sbytes ev K \<sigma> (makeConcat (makeExtract3 (makeLoadSlot (int ?i)) (u64c ?j) (u64c ?k) None)
        (makeExtract3 (makeLoadSlot (int (?i + 1))) (makeIntegerConstant ''0'' uint64Type) (u64c (32 - ?k)) None))
        (mem_read (evm_memory N \<sigma>) off 32)"
      by (rule sbytes_straddle[OF assms(1) i2 refl]) (use False p1 p2 in simp_all)
    with False start show ?thesis
      by (simp add: readMemWordConst_def Let_def algebra_simps)
  qed
qed

lemma su64_page_parts:
  assumes "su64 ev K \<sigma> off a" "a < 2 ^ 64"
  shows "su64 ev K \<sigma> (makeUInt64BinOp off U64FloorDiv (u64c slotSize)) (a div slotSize)"
    and "su64 ev K \<sigma> (pageOffset off) (a mod slotSize)"
    and "su64 ev K \<sigma> (pageRest off) (slotSize - a mod slotSize)"
proof -
  have c: "su64 ev K \<sigma> (u64c slotSize) slotSize" by (rule su64_const) (simp add: slotSize_def)
  show "su64 ev K \<sigma> (makeUInt64BinOp off U64FloorDiv (u64c slotSize)) (a div slotSize)"
    by (rule su64_bin[OF assms(1) c]) simp
  show m: "su64 ev K \<sigma> (pageOffset off) (a mod slotSize)"
    unfolding pageOffset_def by (rule su64_bin[OF assms(1) c]) simp
  show "su64 ev K \<sigma> (pageRest off) (slotSize - a mod slotSize)"
    unfolding pageRest_def by (rule su64_bin[OF c m]) (simp add: less_imp_le)
qed

lemma sbytes_loadPage:
  assumes "pages_ok N \<sigma>" "N \<le> 255" "su64 ev K \<sigma> off a" "a < 2 ^ 64" "a div slotSize + d < N" "d \<le> 1"
  shows "sbytes ev K \<sigma> (loadPage sc off (int d)) (page \<sigma> (a div slotSize + d))"
proof -
  note div = su64_page_parts(1)[OF assms(3,4)]
  show ?thesis
  proof (cases "d = 0")
    case True
    with sbytes_pages[OF assms(1,5,2)] div show ?thesis by (simp add: loadPage_def)
  next
    case False
    then have "d = 1" using assms(6) by simp
    have "su64 ev K \<sigma> (makeUInt64BinOp (makeUInt64BinOp off U64FloorDiv (u64c slotSize)) U64Add (u64c 1)) (a div slotSize + 1)"
      by (rule su64_bin[OF div su64_const]) (use assms(2,5) in simp_all)
    with sbytes_pages[OF assms(1,5,2)] \<open>d = 1\<close> show ?thesis by (simp add: loadPage_def)
  qed
qed

lemma shortLiteral_value:
  assumes "u64Is ev K \<sigma> e n" "shortLiteral e = Some k"
  shows "k = n"
proof -
  from assms(2) obtain v where "intLiteral e = Some v" "k = dec_value v"
    by (auto simp: shortLiteral_def split: option.splits if_splits)
  with literal_value[OF u64Is_yval[OF assms(1)]] show ?thesis by (auto simp: nat_of_dec_def split: if_splits)
qed

text \<open>A range of at most one page at a runtime offset; \<open>offAlign\<close> is a residue the offset really has.\<close>

lemma readMemStackRange_correct:
  assumes "pages_ok N \<sigma>" "layout_ok sc N" "covers K s"
    and "u64Is ev K \<sigma> offset a" "u64Is ev K \<sigma> len n" "a + n \<le> slotSize * N" "0 < n" "n \<le> slotSize"
    and "\<And>r. offAlign = Some r \<Longrightarrow> a mod 32 = r"
  shows "built (readMemStackRange sc offset len offAlign) s (\<lambda>e s'.
    sbytes ev K \<sigma> e (mem_read (evm_memory N \<sigma>) a n) \<and> wtypeOf e = bytesType \<and> covers K s' \<and> preEffects s' = preEffects s)"
  unfolding readMemStackRange_def Let_def built_bind
proof (rule built_evalOnce[where v = "VU a", OF _ assms(3)])
  show "su64 ev K \<sigma> offset a" using assms(4) by (simp add: u64Is_def)
  let ?i = "a div slotSize" and ?j = "a mod slotSize"
  have N: "N \<le> 255" using assms(2) by (simp add: layout_ok_def)
  have i: "?i < N" by (rule slot_range[OF assms(6,7)])
  have o64: "a < 2 ^ 64" and j: "?j < slotSize" using assms(4) by (simp_all add: u64Is_def)
  fix off s1 assume off: "su64 ev K \<sigma> off a" and s1: "covers K s1" "preEffects s1 = preEffects s"
  show "built (makeEvalOnce len) s1 (\<lambda>l s2. built
      (if provablyInSlot offAlign (shortLiteral len) then ret (makeExtract3 (loadPage sc off 0) (pageOffset off) l None)
       else ret (makeConditional (makeNumericCompare l Lte (pageRest off))
         (makeExtract3 (loadPage sc off 0) (pageOffset off) l None)
         (makeConcat (makeExtract3 (loadPage sc off 0) (pageOffset off) (pageRest off) None)
           (makeExtract3 (loadPage sc off 1) (makeIntegerConstant ''0'' uint64Type)
             (makeUInt64BinOp l U64Sub (pageRest off)) None)) bytesType)) s2
      (\<lambda>e s'. sbytes ev K \<sigma> e (mem_read (evm_memory N \<sigma>) a n) \<and> wtypeOf e = bytesType \<and> covers K s' \<and> preEffects s' = preEffects s))"
  proof (rule built_evalOnce[where v = "VU n", OF _ s1(1)])
    show "su64 ev K \<sigma> len n" using assms(5) by (simp add: u64Is_def)
    fix l s2 assume l: "su64 ev K \<sigma> l n" and s2: "covers K s2" "preEffects s2 = preEffects s1"
    note parts = su64_page_parts[OF off o64]
    have p0: "sbytes ev K \<sigma> (loadPage sc off 0) (page \<sigma> ?i)"
      using sbytes_loadPage[OF assms(1) N off o64, of 0] i by simp
    have inslot: "sbytes ev K \<sigma> (makeExtract3 (loadPage sc off 0) (pageOffset off) l None) (mem_read (evm_memory N \<sigma>) a n)"
      if "?j + n \<le> slotSize"
      unfolding read_in_page[OF assms(1) i that]
      by (rule sbytes_slice[OF p0 parts(2) l]) (use that length_page[OF assms(1) i] in simp)
    show "built (if provablyInSlot offAlign (shortLiteral len) then ret (makeExtract3 (loadPage sc off 0) (pageOffset off) l None)
       else ret (makeConditional (makeNumericCompare l Lte (pageRest off))
         (makeExtract3 (loadPage sc off 0) (pageOffset off) l None)
         (makeConcat (makeExtract3 (loadPage sc off 0) (pageOffset off) (pageRest off) None)
           (makeExtract3 (loadPage sc off 1) (makeIntegerConstant ''0'' uint64Type)
             (makeUInt64BinOp l U64Sub (pageRest off)) None)) bytesType)) s2
      (\<lambda>e s'. sbytes ev K \<sigma> e (mem_read (evm_memory N \<sigma>) a n) \<and> wtypeOf e = bytesType \<and> covers K s' \<and> preEffects s' = preEffects s)"
    proof (cases "provablyInSlot offAlign (shortLiteral len)")
      case True
      then obtain r where r: "offAlign = Some r" "n + r \<le> 32"
        using shortLiteral_value[OF assms(5)] by (auto simp: provablyInSlot_def split: option.splits)
      have "?j + n \<le> slotSize" by (rule aligned_fits[OF r(2)]) (use assms(9)[OF r(1)] in simp)
      with True inslot s1 s2 show ?thesis by (simp add: makeExtract3_def makeIntrinsicCall_def)
    next
      case False
      have strad: "sbytes ev K \<sigma> (makeConcat (makeExtract3 (loadPage sc off 0) (pageOffset off) (pageRest off) None)
           (makeExtract3 (loadPage sc off 1) (makeIntegerConstant ''0'' uint64Type)
             (makeUInt64BinOp l U64Sub (pageRest off)) None)) (mem_read (evm_memory N \<sigma>) a n)"
        if out: "\<not> n \<le> slotSize - ?j"
      proof (rule sbytes_straddle[OF assms(1) _ refl _ assms(8)])
        show i2: "?i + 1 < N" by (rule slot_range_next[OF assms(6)]) (use out j in linarith)
        show "slotSize - ?j \<le> n" using out by simp
        show "sbytes ev K \<sigma> (makeExtract3 (loadPage sc off 0) (pageOffset off) (pageRest off) None)
            (take (slotSize - ?j) (drop ?j (page \<sigma> ?i)))"
          by (rule sbytes_slice[OF p0 parts(2,3)]) (use j length_page[OF assms(1) i] in simp)
        have len: "su64 ev K \<sigma> (makeUInt64BinOp l U64Sub (pageRest off)) (n - (slotSize - ?j))"
          by (rule su64_bin[OF l parts(3)]) (use out in simp)
        have p1: "sbytes ev K \<sigma> (loadPage sc off 1) (page \<sigma> (?i + 1))"
          using sbytes_loadPage[OF assms(1) N off o64, of 1] i2 by simp
        have "n - (slotSize - ?j) \<le> slotSize" using assms(8) by linarith
        with sbytes_slice[OF p1 su64_lit(1) len] length_page[OF assms(1) i2]
        show "sbytes ev K \<sigma> (makeExtract3 (loadPage sc off 1) (makeIntegerConstant ''0'' uint64Type)
             (makeUInt64BinOp l U64Sub (pageRest off)) None) (take (n - (slotSize - ?j)) (page \<sigma> (?i + 1)))"
          by simp
      qed
      have c: "sbool ev K \<sigma> (makeNumericCompare l Lte (pageRest off)) (n \<le> slotSize - ?j)"
        using sval_cmp_u64[OF l parts(3), of boolType Lte] by (simp add: makeNumericCompare_def)
      have "n \<le> slotSize - ?j \<Longrightarrow> ?j + n \<le> slotSize" using j by linarith
      with sval_cond[OF c inslot strad, of bytesType] False s1 s2 show ?thesis
        by (simp add: makeConditional_def)
    qed
  qed
qed

end

section \<open>Writes\<close>

text \<open>The effect of replacing bytes \<open>j\<close> onwards of page \<open>i\<close>.\<close>

definition store_part :: "nat \<Rightarrow> nat \<Rightarrow> bytes \<Rightarrow> 'z menv_scheme \<Rightarrow> 'z menv_scheme" where
  "store_part i j v \<sigma> = set_scratch i (VB (mem_write (page \<sigma> i) j v)) \<sigma>"

text \<open>
  \<open>\<tau>\<close> is \<open>\<sigma>\<close> with memory \<open>m\<close>: pages 0 to N-1 are well-formed and hold \<open>m\<close>, and the other slots and
  every variable outside \<open>X\<close> are unchanged.
\<close>

definition updates :: "nat \<Rightarrow> string set \<Rightarrow> 'z menv_scheme \<Rightarrow> bytes \<Rightarrow> 'z menv_scheme \<Rightarrow> bool" where
  "updates N X \<sigma> m \<tau> \<longleftrightarrow>
     pages_ok N \<tau> \<and> evm_memory N \<tau> = m \<and> (\<forall>x. x \<notin> X \<longrightarrow> vars \<tau> x = vars \<sigma> x) \<and>
     (\<forall>i \<ge> N. scratch \<tau> i = scratch \<sigma> i) \<and> menv.more \<tau> = menv.more \<sigma>"

text \<open>States that differ in the variables of \<open>X\<close> and in the cache only.\<close>

definition frame :: "string set \<Rightarrow> 'z menv_scheme \<Rightarrow> 'z menv_scheme \<Rightarrow> bool" where
  "frame X \<sigma> \<tau> \<longleftrightarrow>
     (\<forall>x. x \<notin> X \<longrightarrow> vars \<tau> x = vars \<sigma> x) \<and> scratch \<tau> = scratch \<sigma> \<and> menv.more \<tau> = menv.more \<sigma>"

lemma frame_refl [simp]: "frame X \<sigma> \<sigma>"
  by (simp add: frame_def)

lemma frame_bind [simp]: "x \<in> X \<Longrightarrow> frame X \<sigma> (bind_var x v \<tau>) = frame X \<sigma> \<tau>"
  by (auto simp: frame_def bind_var_def)

lemma frame_cache [simp]: "frame X \<sigma> (\<tau>\<lparr>cache := c\<rparr>) = frame X \<sigma> \<tau>"
  by (simp add: frame_def)

lemma frame_memory:
  "frame X \<sigma> \<tau> \<Longrightarrow> pages_ok N \<tau> = pages_ok N \<sigma>" "frame X \<sigma> \<tau> \<Longrightarrow> evm_memory N \<tau> = evm_memory N \<sigma>"
  "frame X \<sigma> \<tau> \<Longrightarrow> page \<tau> i = page \<sigma> i"
  by (simp_all add: frame_def pages_ok_def evm_memory_def page_def cong: map_cong)

lemma pages_upd [simp]:
  "pages_ok N (\<sigma>\<lparr>cache := c\<rparr>) = pages_ok N \<sigma>" "pages_ok N (bind_var x v \<sigma>) = pages_ok N \<sigma>"
  "page (\<sigma>\<lparr>cache := c\<rparr>) i = page \<sigma> i" "page (bind_var x v \<sigma>) i = page \<sigma> i"
  by (simp_all add: pages_ok_def page_def bind_var_def)

lemma memory_cache [simp]: "evm_memory N (\<sigma>\<lparr>cache := c\<rparr>) = evm_memory N \<sigma>"
  by (rule frame_memory(2)[of "{}"]) simp

lemma updates_cache [simp]: "updates N X \<sigma> m (\<tau>\<lparr>cache := c\<rparr>) = updates N X \<sigma> m \<tau>"
  by (simp add: updates_def)

text \<open>The temporaries of the memory operations.\<close>

definition blobTemp :: "string \<Rightarrow> bool" where
  "blobTemp x \<longleftrightarrow> take 8 x = ''__blobw_''"

definition memTemp :: "string \<Rightarrow> bool" where
  "memTemp x \<longleftrightarrow> take 6 x = ''__mem_'' \<or> blobTemp x"

declare memTemp_def [simp] blobTemp_def [simp]

abbreviation memTemps :: "string set" where
  "memTemps \<equiv> Collect memTemp"

abbreviation blobTemps :: "string set" where
  "blobTemps \<equiv> Collect blobTemp"

lemma blob_mem_temps: "blobTemps \<subseteq> memTemps"
  by auto

lemma frame_trans: "frame X \<sigma> \<tau> \<Longrightarrow> frame Y \<tau> \<upsilon> \<Longrightarrow> Y \<subseteq> X \<Longrightarrow> frame X \<sigma> \<upsilon>"
  by (auto simp: frame_def)

lemma updates_trans: "frame X \<sigma> \<tau> \<Longrightarrow> updates N Y \<tau> m \<upsilon> \<Longrightarrow> Y \<subseteq> X \<Longrightarrow> updates N X \<sigma> m \<upsilon>"
  by (auto simp: frame_def updates_def)

lemma updates_frame: "frame X \<sigma> \<tau> \<Longrightarrow> pages_ok N \<sigma> \<Longrightarrow> updates N X \<sigma> (evm_memory N \<sigma>) \<tau>"
  by (simp add: updates_def frame_memory) (simp add: frame_def)

lemma store_part_vars [simp]: "vars (store_part i j v \<sigma>) = vars \<sigma>"
  by (simp add: store_part_def set_scratch_def)

lemma updates_store_part:
  assumes "updates N X \<sigma> m \<tau>" "i < N" "j + length v \<le> slotSize"
  shows "updates N X \<sigma> (mem_write m (slotSize * i + j) v) (store_part i j v \<tau>)"
proof -
  have p: "pages_ok N \<tau>" "evm_memory N \<tau> = m" using assms(1) by (simp_all add: updates_def)
  have "pages_ok N (store_part i j v \<tau>)"
    unfolding store_part_def by (rule pages_ok_set[OF p(1)]) (use assms length_page[OF p(1) assms(2)] in simp)
  with write_page[OF p(1) assms(2,3)] assms(1,2) p(2) show ?thesis
    by (simp add: updates_def store_part_def) (simp add: set_scratch_def)
qed

lemma updates_store_two:
  assumes "updates N X \<sigma> m \<tau>" "off div slotSize + 1 < N" "k = slotSize - off mod slotSize" "k \<le> length v" "length v - k \<le> slotSize"
  shows "updates N X \<sigma> (mem_write m off v)
    (store_part (off div slotSize + 1) 0 (drop k v) (store_part (off div slotSize) (off mod slotSize) (take k v) \<tau>))"
    (is "updates N X \<sigma> _ ?\<tau>")
proof -
  have m: "off mod slotSize < slotSize" by simp
  have ok: "pages_ok N \<tau>" "evm_memory N \<tau> = m" using assms(1) by (simp_all add: updates_def)
  have k: "slotSize * (off div slotSize + 1) + 0 = off + k"
    using m assms(3) offset_split[of off] unfolding distrib_left by linarith
  have "updates N X \<sigma> (mem_write m (slotSize * (off div slotSize) + off mod slotSize) (take k v))
      (store_part (off div slotSize) (off mod slotSize) (take k v) \<tau>)"
    by (rule updates_store_part[OF assms(1)]) (use assms(2-4) m in simp_all)
  then have "updates N X \<sigma> (mem_write (mem_write m off (take k v)) (slotSize * (off div slotSize + 1) + 0) (drop k v)) ?\<tau>"
    by (intro updates_store_part) (use assms in \<open>simp_all add: offset_split\<close>)
  moreover have "slotSize * (off div slotSize + 1) + slotSize \<le> slotSize * N"
    using assms(2) mult_le_mono2[of "off div slotSize + 2" N slotSize] by simp
  then have "off + length v \<le> length m" using k assms(4,5) ok by auto
  then have "mem_write (mem_write m off (take k v)) (off + k) (drop k v) = mem_write m off v"
    using mem_write_split[of off "take k v" "drop k v" m] assms(4) by simp
  ultimately show ?thesis unfolding k by simp
qed

lemma assign_stmt_vars [simp]:
  "makeAssignmentStatement (u64v x) e = ret (AssignmentStatement (u64v x) e)"
  "makeAssignmentStatement (bytesv x) e = ret (AssignmentStatement (bytesv x) e)"
  by (simp_all add: u64v_def bytesv_def makeVarExpression_def)

lemma var_nodes [simp]: "wtypeOf (u64v x) = uint64Type" "duplicableLeaf (u64v x)" "duplicableLeaf (bytesv x)"
  by (simp_all add: u64v_def bytesv_def makeVarExpression_def)

context avm_scratch
begin

lemma sval_u64v: "vars \<sigma> x = Some v \<Longrightarrow> sval ev K \<sigma> (u64v x) v"
  unfolding u64v_def makeVarExpression_def by (rule sval_var)

lemma sval_bytesv: "vars \<sigma> x = Some v \<Longrightarrow> sval ev K \<sigma> (bytesv x) v"
  unfolding bytesv_def makeVarExpression_def by (rule sval_var)

lemma exec_assign:
  assumes "sval ev K \<sigma> e v" "ok_cache ev K \<sigma> (cache \<sigma>)"
  shows "\<exists>c. exec ev \<sigma> (AssignmentStatement (VarExpression t x) e) (Normal (bind_var x v (\<sigma>\<lparr>cache := c\<rparr>))) \<and> ok_cache ev K \<sigma> c"
  using svalE[OF assms] by (metis exec_execs_exec_branch_exec_items.Assign keep_cache)

lemma exec_assign_pure:
  "pure_at ev \<sigma> e v \<Longrightarrow> exec ev \<sigma> (AssignmentStatement (VarExpression t x) e) (Normal (bind_var x v \<sigma>))"
  unfolding sval_empty by (rule exec_execs_exec_branch_exec_items.Assign)

lemma exec_set_pure:
  "pure_at ev \<sigma> e v \<Longrightarrow> exec ev \<sigma> (AssignmentStatement (u64v x) e) (Normal (bind_var x v \<sigma>))"
  "pure_at ev \<sigma> e v \<Longrightarrow> exec ev \<sigma> (AssignmentStatement (bytesv x) e) (Normal (bind_var x v \<sigma>))"
  unfolding u64v_def bytesv_def makeVarExpression_def by (erule exec_assign_pure)+

lemma exec_expr: "ev \<sigma> e = Some (v, \<tau>) \<Longrightarrow> \<not> is_exit e \<Longrightarrow> exec ev \<sigma> (makeExpressionStatement e) (Normal \<tau>)"
  unfolding makeExpressionStatement_def by (rule exec_execs_exec_branch_exec_items.Expr)

lemma exec_store:
  assumes "sbytes ev K \<sigma> e b" "ok_cache ev K \<sigma> (cache \<sigma>)" "i < 256"
  shows "\<exists>c. exec ev \<sigma> (makeExpressionStatement (makeStoreSlot (int i) e)) (Normal (set_scratch i (VB b) (\<sigma>\<lparr>cache := c\<rparr>)))
    \<and> ok_cache ev K \<sigma> c"
proof -
  from sval_args[of ev K \<sigma> "[e]" "[VB b]", OF _ assms(2)] assms(1) obtain c where ok: "ok_cache ev K \<sigma> c" and
    "eval_args ev \<sigma> [e] = Some ([VB b], \<sigma>\<lparr>cache := c\<rparr>)" by (auto simp: keep_cache)
  then have "ev \<sigma> (makeStoreSlot (int i) e) = Some (VVoid, set_scratch i (VB b) (\<sigma>\<lparr>cache := c\<rparr>))"
    using assms(3) unfolding makeStoreSlot_def makeIntrinsicCall_def
    by (simp add: sem_scratch scratch_ops_def scratch_op_def store_slot_def)
  from exec_expr[OF this] ok show ?thesis
    by (intro exI[of _ c]) (simp_all add: makeStoreSlot_def makeIntrinsicCall_def)
qed

lemma exec_stores:
  assumes "su64 ev K \<sigma> slot i" "sbytes ev K \<sigma> e b" "ok_cache ev K \<sigma> (cache \<sigma>)" "i < 256"
  shows "\<exists>c. exec ev \<sigma> (makeExpressionStatement (makeIntrinsicCall ''stores'' t [] [slot, e]))
    (Normal (set_scratch i (VB b) (\<sigma>\<lparr>cache := c\<rparr>))) \<and> ok_cache ev K \<sigma> c"
proof -
  from sval_args[of ev K \<sigma> "[slot, e]" "[VU i, VB b]", OF _ assms(3)] assms(1,2) obtain c where ok: "ok_cache ev K \<sigma> c" and
    "eval_args ev \<sigma> [slot, e] = Some ([VU i, VB b], \<sigma>\<lparr>cache := c\<rparr>)" by (auto simp: keep_cache)
  then have "ev \<sigma> (makeIntrinsicCall ''stores'' t [] [slot, e]) = Some (VVoid, set_scratch i (VB b) (\<sigma>\<lparr>cache := c\<rparr>))"
    using assms(4) unfolding makeIntrinsicCall_def
    by (simp add: sem_scratch scratch_ops_def scratch_op_def store_slot_def)
  from exec_expr[OF this] ok show ?thesis
    by (intro exI[of _ c]) (simp_all add: makeIntrinsicCall_def)
qed

text \<open>Replacing part of a page, at a constant or at a computed slot.\<close>

lemma exec_store_part:
  assumes "pages_ok N \<sigma>" "i < N" "N \<le> 255" "su64 ev K \<sigma> at j" "sbytes ev K \<sigma> bs v" "ok_cache ev K \<sigma> (cache \<sigma>)"
    and "j + length v \<le> slotSize"
  shows "\<exists>c. exec ev \<sigma> (storeMemoryBlob sc (makeReplace3 (makeLoadSlot (int i)) at bs) (int i))
    (Normal (store_part i j v (\<sigma>\<lparr>cache := c\<rparr>))) \<and> ok_cache ev K \<sigma> c"
proof -
  have "sbytes ev K \<sigma> (makeReplace3 (makeLoadSlot (int i)) at bs) (mem_write (page \<sigma> i) j v)"
    by (rule sbytes_replace[OF sbytes_page[OF assms(1-3)] assms(4,5)]) (use assms(7) length_page[OF assms(1,2)] in simp)
  from exec_store[OF this assms(6), of i] assms(2,3) show ?thesis
    by (simp add: storeMemoryBlob_def store_part_def page_def)
qed

lemma exec_storeSlot_part:
  assumes "pages_ok N \<sigma>" "i < N" "N \<le> 255" "su64 ev K \<sigma> slot i" "su64 ev K \<sigma> at j" "sbytes ev K \<sigma> bs v"
    and "ok_cache ev K \<sigma> (cache \<sigma>)" "j + length v \<le> slotSize"
  shows "\<exists>c. exec ev \<sigma> (makeExpressionStatement (makeIntrinsicCall ''stores'' t []
      [slot, makeReplace3 (makeIntrinsicCall ''loads'' bytesType [] [slot]) at bs]))
    (Normal (store_part i j v (\<sigma>\<lparr>cache := c\<rparr>))) \<and> ok_cache ev K \<sigma> c"
proof -
  have "sbytes ev K \<sigma> (makeReplace3 (makeIntrinsicCall ''loads'' bytesType [] [slot]) at bs) (mem_write (page \<sigma> i) j v)"
    by (rule sbytes_replace[OF sbytes_pages[OF assms(1-4)] assms(5,6)]) (use assms(8) length_page[OF assms(1,2)] in simp)
  from exec_stores[OF assms(4) this assms(7), of t] assms(2,3) show ?thesis
    by (simp add: store_part_def page_def)
qed

lemma ok_cache_empty [simp]: "ok_cache ev {} \<sigma> c \<longleftrightarrow> c = cache \<sigma>"
  by (auto simp: ok_cache_def)

lemmas exec_store_part_pure = exec_store_part[where K = "{}", simplified]
lemmas exec_storeSlot_part_pure = exec_storeSlot_part[where K = "{}", simplified]

text \<open>A write split at a page boundary, from the statements for its two parts.\<close>

lemma execs_two_parts:
  assumes "updates N X \<sigma> m \<tau>" "off + 32 \<le> slotSize * N" "slotSize < off mod slotSize + 32"
    and "k = slotSize - off mod slotSize" "length w = 32"
    and "exec ev \<tau> s1 (Normal (store_part (off div slotSize) (off mod slotSize) (take k w) \<tau>))"
    and "\<And>\<upsilon>. \<upsilon> = store_part (off div slotSize) (off mod slotSize) (take k w) \<tau> \<Longrightarrow> pages_ok N \<upsilon> \<Longrightarrow>
      \<exists>c. exec ev \<upsilon> s2 (Normal (store_part (off div slotSize + 1) 0 (drop k w) (\<upsilon>\<lparr>cache := c\<rparr>)))"
  shows "\<exists>\<tau>'. execs ev \<tau> [s1, s2] (Normal \<tau>') \<and> updates N X \<sigma> (mem_write m off w) \<tau>'"
proof -
  let ?\<upsilon> = "store_part (off div slotSize) (off mod slotSize) (take k w) \<tau>"
  have j: "off mod slotSize < slotSize" by simp
  have i2: "off div slotSize + 1 < N" by (rule slot_range_next[OF assms(2,3)])
  have k: "k \<le> 32" "off mod slotSize + k = slotSize" "32 - k \<le> slotSize" using assms(3,4) j slotSize_pos(3) by linarith+
  have "updates N X \<sigma> (mem_write m (slotSize * (off div slotSize) + off mod slotSize) (take k w)) ?\<upsilon>"
    by (rule updates_store_part[OF assms(1)]) (use i2 k assms(5) in simp_all)
  then have "pages_ok N ?\<upsilon>" by (simp add: updates_def)
  from assms(7)[OF refl this] obtain c where
    "exec ev ?\<upsilon> s2 (Normal (store_part (off div slotSize + 1) 0 (drop k w) (?\<upsilon>\<lparr>cache := c\<rparr>)))" by blast
  moreover have "updates N X \<sigma> (mem_write m off w) (store_part (off div slotSize + 1) 0 (drop k w) ?\<upsilon>)"
    by (rule updates_store_two[OF assms(1) i2 assms(4)]) (use k assms(5) in simp_all)
  then have "updates N X \<sigma> (mem_write m off w) ((store_part (off div slotSize + 1) 0 (drop k w) ?\<upsilon>)\<lparr>cache := c\<rparr>)" by simp
  moreover have "(store_part (off div slotSize + 1) 0 (drop k w) ?\<upsilon>)\<lparr>cache := c\<rparr> = store_part (off div slotSize + 1) 0 (drop k w) (?\<upsilon>\<lparr>cache := c\<rparr>)"
    by (simp add: store_part_def set_scratch_def)
  ultimately show ?thesis using execs_then[OF assms(6)] by (metis execs_single)
qed

text \<open>The halves of a word in a variable.\<close>

lemma pure_halves:
  assumes "vars \<tau> x = Some (VB w)" "length w = 32" "k \<le> 32"
    and "pure_at ev \<tau> klen (VU k)" "pure_at ev \<tau> rlen (VU (32 - k))"
  shows "pure_at ev \<tau> (makeExtract3 (bytesv x) (makeIntegerConstant ''0'' uint64Type) klen t) (VB (take k w))"
    and "pure_at ev \<tau> (makeExtract3 (bytesv x) klen rlen t) (VB (drop k w))"
proof -
  have x: "pure_at ev \<tau> (bytesv x) (VB w)" unfolding bytesv_def makeVarExpression_def by (rule sval_var[OF assms(1)])
  show "pure_at ev \<tau> (makeExtract3 (bytesv x) (makeIntegerConstant ''0'' uint64Type) klen t) (VB (take k w))"
    using sbytes_slice[OF x su64_lit(1) assms(4)] assms(2,3) by simp
  show "pure_at ev \<tau> (makeExtract3 (bytesv x) klen rlen t) (VB (drop k w))"
    using sbytes_slice[OF x assms(4,5)] assms(2,3) by simp
qed

text \<open>
  A word at a constant offset.  The page of the first byte is checked against the layout's \<open>M\<close> pages;
  the write itself is right on any \<open>N\<close> well-formed slots.
\<close>

lemma writeMemWordConst_correct:
  assumes "pages_ok N \<sigma>" "N \<le> 255" "off + 32 \<le> slotSize * N" "layout_ok sc M" "off < slotSize * M"
    and "sbytes ev K \<sigma> value w" "length w = 32" "ok_cache ev K \<sigma> (cache \<sigma>)"
  shows "built (writeMemWordConst sc off value) s (\<lambda>ss s'. s' = s \<and>
    (\<exists>\<tau>. execs ev \<sigma> ss (Normal \<tau>) \<and> updates N memTemps \<sigma> (mem_write (evm_memory N \<sigma>) off w) \<tau>))"
proof -
  let ?i = "off div slotSize" and ?j = "off mod slotSize"
  note N = assms(2)
  have i: "?i < N" using slot_range[OF assms(3)] by simp
  have j: "?j < slotSize" by simp
  then have jc: "su64 ev K' \<tau> (u64c ?j) ?j" for K' \<tau> by (intro su64_const) (simp add: slotSize_def)
  have "\<not> int ?i \<ge> memoryCount sc" using slot_range[of off 1 M] assms(5) layout_ok_sel(1)[OF assms(4)] by simp
  note start = this constSlot_exact[OF assms(3) N]
  show ?thesis
  proof (cases "?j + 32 \<le> slotSize")
    case True
    obtain c where "exec ev \<sigma> (storeMemoryBlob sc (makeReplace3 (makeLoadSlot (int ?i)) (u64c ?j) value) (int ?i))
        (Normal (store_part ?i ?j w (\<sigma>\<lparr>cache := c\<rparr>)))"
      using exec_store_part[OF assms(1) i N jc assms(6,8)] True assms(7) by auto
    moreover have "updates N memTemps \<sigma> (evm_memory N \<sigma>) (\<sigma>\<lparr>cache := c\<rparr>)" by (rule updates_frame[OF _ assms(1)]) simp
    then have "updates N memTemps \<sigma> (mem_write (evm_memory N \<sigma>) (slotSize * ?i + ?j) w) (store_part ?i ?j w (\<sigma>\<lparr>cache := c\<rparr>))"
      by (rule updates_store_part[OF _ i]) (use True assms(7) in simp)
    then have "updates N memTemps \<sigma> (mem_write (evm_memory N \<sigma>) off w) (store_part ?i ?j w (\<sigma>\<lparr>cache := c\<rparr>))"
      unfolding offset_split .
    ultimately show ?thesis using True start by (auto simp: writeMemWordConst_def Let_def)
  next
    case False
    let ?k = "slotSize - ?j" and ?tmp = "''__mem_straddle_'' @ dec_of_nat off"
    have k: "?k \<le> 32" "32 - ?k \<le> slotSize" using False slotSize_pos(3) by linarith+
    obtain c where a1: "exec ev \<sigma> (AssignmentStatement (VarExpression bytesType ?tmp) value)
        (Normal (bind_var ?tmp (VB w) (\<sigma>\<lparr>cache := c\<rparr>)))"
      using exec_assign[OF assms(6,8)] by blast
    let ?\<tau> = "bind_var ?tmp (VB w) (\<sigma>\<lparr>cache := c\<rparr>)"
    have kc: "pure_at ev \<tau> (u64c ?k) (VU ?k)" "pure_at ev \<tau> (u64c (32 - ?k)) (VU (32 - ?k))" for \<tau>
      by (rule su64_const; simp add: slotSize_def)+
    note halves = pure_halves[OF _ assms(7) k(1) kc, where x = ?tmp and t = None]
    have "\<exists>\<tau>'. execs ev ?\<tau> [storeMemoryBlob sc (makeReplace3 (makeLoadSlot (int ?i)) (u64c ?j)
          (makeExtract3 (bytesv ?tmp) (makeIntegerConstant ''0'' uint64Type) (u64c ?k) None)) (int ?i),
        storeMemoryBlob sc (makeReplace3 (makeLoadSlot (int (?i + 1))) (makeIntegerConstant ''0'' uint64Type)
          (makeExtract3 (bytesv ?tmp) (u64c ?k) (u64c (32 - ?k)) None)) (int (?i + 1))] (Normal \<tau>')
      \<and> updates N memTemps \<sigma> (mem_write (evm_memory N \<sigma>) off w) \<tau>'"
    proof (rule execs_two_parts[OF updates_frame[OF _ assms(1)] assms(3) _ refl assms(7)])
      show "frame memTemps \<sigma> ?\<tau>" "slotSize < ?j + 32" using False by simp_all
      show "exec ev ?\<tau> (storeMemoryBlob sc (makeReplace3 (makeLoadSlot (int ?i)) (u64c ?j)
          (makeExtract3 (bytesv ?tmp) (makeIntegerConstant ''0'' uint64Type) (u64c ?k) None)) (int ?i))
        (Normal (store_part ?i ?j (take ?k w) ?\<tau>))"
        by (rule exec_store_part_pure[OF _ i N jc halves(1)]) (use assms(1,7) k j in \<open>simp_all add: bind_var_sel\<close>)
      fix \<upsilon> assume u: "\<upsilon> = store_part ?i ?j (take ?k w) ?\<tau>" "pages_ok N \<upsilon>"
      have i2: "?i + 1 < N" by (rule slot_range_next[OF assms(3)]) (use False in simp)
      have "exec ev \<upsilon> (storeMemoryBlob sc (makeReplace3 (makeLoadSlot (int (?i + 1))) (makeIntegerConstant ''0'' uint64Type)
          (makeExtract3 (bytesv ?tmp) (u64c ?k) (u64c (32 - ?k)) None)) (int (?i + 1)))
        (Normal (store_part (?i + 1) 0 (drop ?k w) \<upsilon>))"
        by (rule exec_store_part_pure[OF u(2) i2 N su64_lit(1) halves(2)]) (use assms(7) k(2) in \<open>simp_all add: u(1) bind_var_sel\<close>)
      then show "\<exists>c. exec ev \<upsilon> (storeMemoryBlob sc (makeReplace3 (makeLoadSlot (int (?i + 1))) (makeIntegerConstant ''0'' uint64Type)
          (makeExtract3 (bytesv ?tmp) (u64c ?k) (u64c (32 - ?k)) None)) (int (?i + 1)))
        (Normal (store_part (?i + 1) 0 (drop ?k w) (\<upsilon>\<lparr>cache := c\<rparr>)))"
        by (intro exI[of _ "cache \<upsilon>"]) simp
    qed
    then show ?thesis using False start a1
      by (auto simp: writeMemWordConst_def Let_def bytesv_def makeVarExpression_def execs_Cons algebra_simps)
  qed
qed

text \<open>The bounds assertion: it falls through when the word fits and traps when it does not.\<close>

lemma exec_memBounds:
  assumes "su64 ev K \<sigma> off a" "ok_cache ev K \<sigma> (cache \<sigma>)" "layout_ok sc N"
  shows "a + 32 \<le> slotSize * N \<Longrightarrow> \<exists>c. exec ev \<sigma> (memBoundsAssert sc off) (Normal (\<sigma>\<lparr>cache := c\<rparr>)) \<and> ok_cache ev K \<sigma> c"
    and "\<not> a + 32 \<le> slotSize * N \<Longrightarrow> exec ev \<sigma> (memBoundsAssert sc off) Trap"
proof -
  have cap: "slotSize * N < 2 ^ 64" by (rule u64_const_bound[OF assms(3)])
  note defs = memBoundsAssert_def Let_def makeAssert_def makeNumericCompare_def makeUInt64BinOp_def
    layout_ok_sel(2)[OF assms(3)]
  obtain c where off: "ev \<sigma> off = Some (VU a, \<sigma>\<lparr>cache := c\<rparr>)" and c: "ok_cache ev K \<sigma> c"
    using svalE[OF assms(1,2)] by (metis keep_cache)
  have k: "ev \<tau> (u64c n) = Some (VU n, \<tau>)" if "n < 2 ^ 64" for n \<tau>
    using su64_const[OF that, of "{}" \<tau>] by (simp add: sval_empty)
  have sum: "ev \<sigma> (UInt64BinaryOperation uint64Type off U64Add (u64c 32)) =
      (if a + 32 < 2 ^ 64 then Some (VU (a + 32), \<sigma>\<lparr>cache := c\<rparr>) else None)"
    by (simp add: sem_u64 bin_eval_def off k)
  have ass: "ev \<sigma> (AssertExpression voidType (NumericComparisonExpression boolType
      (UInt64BinaryOperation uint64Type off U64Add (u64c 32)) Lte (u64c (slotSize * N))) m ex) =
      (if a + 32 \<le> slotSize * N then Some (VVoid, \<sigma>\<lparr>cache := c\<rparr>) else None)" for m ex
    using cap by (simp add: sem_assert sem_cmp bin_eval_def sum k)
  show "a + 32 \<le> slotSize * N \<Longrightarrow> \<exists>c. exec ev \<sigma> (memBoundsAssert sc off) (Normal (\<sigma>\<lparr>cache := c\<rparr>)) \<and> ok_cache ev K \<sigma> c"
    unfolding defs by (intro exI[of _ c] conjI c exec_expr) (simp_all add: ass)
  show "\<not> a + 32 \<le> slotSize * N \<Longrightarrow> exec ev \<sigma> (memBoundsAssert sc off) Trap"
    unfolding defs makeExpressionStatement_def by (rule exec_execs_exec_branch_exec_items.ExprTrap) (simp_all add: ass)
qed

text \<open>A node evaluated once whose value does not depend on the cache.\<close>

lemma sval_once:
  assumes "\<And>c. pure_at ev (\<sigma>\<lparr>cache := c\<rparr>) e v"
    and "\<And>w. cache \<sigma> (e, i) = Some w \<Longrightarrow> w = v"
  shows "sval ev {(e, i)} \<sigma> (SingleEvaluation t e i) v" and "ok_cache ev {(e, i)} \<sigma> (cache \<sigma>)"
proof -
  have e: "ev (\<sigma>\<lparr>cache := c\<rparr>) e = Some (v, \<sigma>\<lparr>cache := c\<rparr>)" for c
    using assms(1) unfolding sval_empty .
  have "sval ev {(e, i)} \<sigma> e v" by (rule svalI) (auto simp: e)
  then show "sval ev {(e, i)} \<sigma> (SingleEvaluation t e i) v" by (rule sval_single) simp
  show "ok_cache ev {(e, i)} \<sigma> (cache \<sigma>)" using assms(2) by (auto simp: ok_cache_def denotes_def e)
qed

lemma exec_writeParts:
  assumes "updates N X \<sigma> m \<tau>" "N \<le> 255" "a + 32 \<le> slotSize * N" "length w = 32"
    and "vars \<tau> slotN = Some (VU (a div slotSize))" "vars \<tau> subN = Some (VU (a mod slotSize))" "vars \<tau> valN = Some (VB w)"
    and "\<And>v. cache \<tau> (makeUInt64BinOp (u64v slotN) U64Add (makeOne uint64Type), i) = Some v \<Longrightarrow> v = VU (a div slotSize + 1)"
  defines "firstLen \<equiv> makeUInt64BinOp (u64c slotSize) U64Sub (u64v subN)"
    and "hiSlot \<equiv> SingleEvaluation uint64Type (makeUInt64BinOp (u64v slotN) U64Add (makeOne uint64Type)) i"
    and "store \<equiv> \<lambda>slot at bs. makeExpressionStatement (makeIntrinsicCall ''stores'' voidType []
      [slot, makeReplace3 (makeIntrinsicCall ''loads'' bytesType [] [slot]) at bs])"
  shows "a mod slotSize + 32 \<le> slotSize \<Longrightarrow> \<exists>\<tau>'. exec ev \<tau> (store (u64v slotN) (u64v subN) (bytesv valN)) (Normal \<tau>') \<and>
      updates N X \<sigma> (mem_write m a w) \<tau>'" (is "?in \<Longrightarrow> ?one")
    and "\<not> a mod slotSize + 32 \<le> slotSize \<Longrightarrow> \<exists>\<tau>'. execs ev \<tau>
      [store (u64v slotN) (u64v subN) (makeExtract3 (bytesv valN) (makeIntegerConstant ''0'' uint64Type) firstLen None),
       store hiSlot (makeIntegerConstant ''0'' uint64Type)
         (makeExtract3 (bytesv valN) firstLen (makeUInt64BinOp (makeIntegerConstant ''32'' uint64Type) U64Sub firstLen) None)]
      (Normal \<tau>') \<and> updates N X \<sigma> (mem_write m a w) \<tau>'" (is "\<not> ?in \<Longrightarrow> ?two")
proof -
  let ?i = "a div slotSize" and ?j = "a mod slotSize"
  have i: "?i < N" using slot_range[OF assms(3)] by simp
  have ok: "pages_ok N \<tau>" using assms(1) by (simp add: updates_def)
  have j: "?j < slotSize" by simp
  show ?one if ?in
    using exec_storeSlot_part_pure[OF ok i assms(2) sval_u64v[OF assms(5)] sval_u64v[OF assms(6)] sval_bytesv[OF assms(7)]]
      updates_store_part[OF assms(1) i, of ?j w] that assms(4) unfolding store_def by (auto simp: offset_split)
  let ?k = "slotSize - ?j"
  show ?two if out: "\<not> ?in"
  proof (rule execs_two_parts[OF assms(1,3) _ refl assms(4)])
    have k: "?k \<le> 32" "32 - ?k \<le> slotSize" using out slotSize_pos(3) by linarith+
    have j2: "?j \<le> slotSize" using j by linarith
    have sub: "u64_op U64Sub slotSize ?j = Some ?k" using j2 by (simp only: u64_op.simps if_True)
    have fl: "pure_at ev \<upsilon> firstLen (VU ?k)"
      "pure_at ev \<upsilon> (makeUInt64BinOp (makeIntegerConstant ''32'' uint64Type) U64Sub firstLen) (VU (32 - ?k))"
      if "vars \<upsilon> = vars \<tau>" for \<upsilon>
    proof -
      show f: "pure_at ev \<upsilon> firstLen (VU ?k)" unfolding firstLen_def
        by (rule su64_bin[OF su64_const sval_u64v[of \<upsilon> subN] sub]) (simp_all add: that assms(6))
      show "pure_at ev \<upsilon> (makeUInt64BinOp (makeIntegerConstant ''32'' uint64Type) U64Sub firstLen) (VU (32 - ?k))"
        by (rule su64_bin[OF su64_lit(3) f]) (use k in simp)
    qed
    show "slotSize < ?j + 32" using out by simp
    show "exec ev \<tau> (store (u64v slotN) (u64v subN) (makeExtract3 (bytesv valN) (makeIntegerConstant ''0'' uint64Type) firstLen None))
      (Normal (store_part ?i ?j (take ?k w) \<tau>))"
      unfolding store_def
      by (rule exec_storeSlot_part_pure[OF ok i assms(2) sval_u64v[OF assms(5)] sval_u64v[OF assms(6)]
            pure_halves(1)[OF assms(7,4) k(1) fl[OF refl]]]) (use k assms(4) j in simp_all)
    fix \<upsilon> assume u: "\<upsilon> = store_part ?i ?j (take ?k w) \<tau>" "pages_ok N \<upsilon>"
    have i2: "?i + 1 < N" by (rule slot_range_next[OF assms(3)]) (use out in simp)
    have v: "vars \<upsilon> = vars \<tau>" "cache \<upsilon> = cache \<tau>" by (simp_all add: u(1)) (simp add: store_part_def set_scratch_def)
    let ?e = "makeUInt64BinOp (u64v slotN) U64Add (makeOne uint64Type)"
    have e: "pure_at ev \<rho> ?e (VU (?i + 1))" if "vars \<rho> = vars \<upsilon>" for \<rho>
      by (rule su64_succ[OF sval_u64v]) (use that v assms(5) i2 assms(2) in simp_all)
    have key: "x = VU (?i + 1)" if "cache \<upsilon> (?e, i) = Some x" for x using assms(8)[of x] that v(2) by simp
    have once: "sval ev {(?e, i)} \<upsilon> hiSlot (VU (?i + 1))" "ok_cache ev {(?e, i)} \<upsilon> (cache \<upsilon>)"
      unfolding hiSlot_def by (rule sval_once[OF e key]; simp)+
    have lift: "sval ev {(?e, i)} \<upsilon> x y" if "\<And>\<rho>. vars \<rho> = vars \<upsilon> \<Longrightarrow> pure_at ev \<rho> x y" for x y
      by (rule svalI) (use that in \<open>auto simp: sval_empty\<close>)
    have "sbytes ev {(?e, i)} \<upsilon> (makeExtract3 (bytesv valN) firstLen
        (makeUInt64BinOp (makeIntegerConstant ''32'' uint64Type) U64Sub firstLen) None) (drop ?k w)"
      by (rule lift, rule pure_halves(2)[OF _ assms(4) k(1)]) (use v assms(7) fl in simp_all)
    from exec_storeSlot_part[OF u(2) i2 assms(2) once(1) su64_lit(1) this once(2)] k assms(4)
    show "\<exists>c. exec ev \<upsilon> (store hiSlot (makeIntegerConstant ''0'' uint64Type)
         (makeExtract3 (bytesv valN) firstLen (makeUInt64BinOp (makeIntegerConstant ''32'' uint64Type) U64Sub firstLen) None))
       (Normal (store_part (?i + 1) 0 (drop ?k w) (\<upsilon>\<lparr>cache := c\<rparr>)))"
      unfolding store_def by auto
  qed
qed

text \<open>
  \<open>writeMemWordDirect\<close>: the offset is re-read after each temporary is assigned, the value is evaluated
  after the slot and the position in it, whatever the caches; both must not depend on the temporaries.
\<close>

lemma writeMemWordDirect_correct:
  assumes "pages_ok N \<sigma>" "layout_ok sc N" "covers K s" "\<And>k. k \<in> K \<Longrightarrow> cache \<sigma> k = None"
    and "\<And>\<tau>. frame blobTemps \<sigma> \<tau> \<Longrightarrow> pure_at ev \<tau> offset (VU a)" "a < 2 ^ 64"
    and "\<And>\<tau>. frame blobTemps \<sigma> \<tau> \<Longrightarrow> sbytes ev K \<tau> value w" "length w = 32"
    and "offAlign = Some 0 \<Longrightarrow> a mod 32 = 0"
  shows "built (writeMemWordDirect sc offset value offAlign) s (\<lambda>ss s'. preEffects s' = preEffects s \<and> covers K s' \<and>
    (a + 32 \<le> slotSize * N \<longrightarrow>
       (\<exists>\<tau>. execs ev \<sigma> ss (Normal \<tau>) \<and> updates N blobTemps \<sigma> (mem_write (evm_memory N \<sigma>) a w) \<tau>)) \<and>
    (\<not> a + 32 \<le> slotSize * N \<longrightarrow> execs ev \<sigma> ss Trap))"
proof -
  define d where "d = dec_of_nat (counters s ''MemoryOps.dynamicStore'')"
  let ?slotN = "''__blobw_slot_'' @ d" and ?subN = "''__blobw_sub_'' @ d" and ?valN = "''__blobw_val_'' @ d"
  let ?i = "a div slotSize" and ?j = "a mod slotSize"
  let ?inS = "makeExpressionStatement (makeIntrinsicCall ''stores'' voidType [] [u64v ?slotN,
      makeReplace3 (makeIntrinsicCall ''loads'' bytesType [] [u64v ?slotN]) (u64v ?subN) (bytesv ?valN)])"
  let ?fl = "makeUInt64BinOp (u64c slotSize) U64Sub (u64v ?subN)"
  let ?e = "makeUInt64BinOp (u64v ?slotN) U64Add (makeOne uint64Type)"
  let ?hiSlot = "SingleEvaluation uint64Type ?e (singleEvalId s + 1)"
  let ?lo = "makeExpressionStatement (makeIntrinsicCall ''stores'' voidType [] [u64v ?slotN,
      makeReplace3 (makeIntrinsicCall ''loads'' bytesType [] [u64v ?slotN]) (u64v ?subN)
        (makeExtract3 (bytesv ?valN) (makeIntegerConstant ''0'' uint64Type) ?fl None)])"
  let ?hi = "makeExpressionStatement (makeIntrinsicCall ''stores'' voidType [] [?hiSlot,
      makeReplace3 (makeIntrinsicCall ''loads'' bytesType [] [?hiSlot]) (makeIntegerConstant ''0'' uint64Type)
        (makeExtract3 (bytesv ?valN) ?fl (makeUInt64BinOp (makeIntegerConstant ''32'' uint64Type) U64Sub ?fl) None)])"
  let ?cond = "makeNumericCompare (u64v ?subN) Lte (u64c (slotSize - 32))"
  let ?pre = "[memBoundsAssert sc offset, AssignmentStatement (u64v ?slotN) (slotExpr sc offset),
    AssignmentStatement (u64v ?subN) (pageOffset offset), AssignmentStatement (bytesv ?valN) value]"
  let ?final = "if offAlign = Some 0 then ?inS else makeIfElse ?cond (Some (makeBlock [?inS])) (Some (makeBlock [?lo, ?hi]))"
  have N: "N \<le> 255" using assms(2) by (simp add: layout_ok_def)
  have off: "pure_at ev \<sigma> offset (VU a)" by (rule assms(5)) simp
  have bounds: "a + 32 \<le> slotSize * N \<Longrightarrow> exec ev \<sigma> (memBoundsAssert sc offset) (Normal \<sigma>)"
    "\<not> a + 32 \<le> slotSize * N \<Longrightarrow> exec ev \<sigma> (memBoundsAssert sc offset) Trap"
    using exec_memBounds[OF off _ assms(2)] by (auto simp: keep_cache)
  have run: "\<exists>\<tau>. execs ev \<sigma> (?pre @ [?final]) (Normal \<tau>) \<and> updates N blobTemps \<sigma> (mem_write (evm_memory N \<sigma>) a w) \<tau>"
    if fit: "a + 32 \<le> slotSize * N"
  proof -
    let ?\<sigma>1 = "bind_var ?slotN (VU ?i) \<sigma>"
    let ?\<sigma>2 = "bind_var ?subN (VU ?j) ?\<sigma>1"
    have f: "frame blobTemps \<sigma> ?\<sigma>1" "frame blobTemps \<sigma> ?\<sigma>2" by simp_all
    have a1: "exec ev \<sigma> (AssignmentStatement (u64v ?slotN) (slotExpr sc offset)) (Normal ?\<sigma>1)"
      by (rule exec_set_pure) (use su64_page_parts(1)[OF off assms(6)] in \<open>simp add: slotExpr_def\<close>)
    have a2: "exec ev ?\<sigma>1 (AssignmentStatement (u64v ?subN) (pageOffset offset)) (Normal ?\<sigma>2)"
      by (rule exec_set_pure[OF su64_page_parts(2)[OF assms(5)[OF f(1)] assms(6)]])
    have ok: "ok_cache ev K ?\<sigma>2 (cache ?\<sigma>2)" by (rule ok_cache_fresh) (simp add: bind_var_sel assms(4))
    obtain c where a3: "exec ev ?\<sigma>2 (AssignmentStatement (bytesv ?valN) value) (Normal (bind_var ?valN (VB w) (?\<sigma>2\<lparr>cache := c\<rparr>)))"
      and c: "ok_cache ev K ?\<sigma>2 c"
      using exec_assign[OF assms(7)[OF f(2)] ok, of bytesType ?valN] unfolding bytesv_def makeVarExpression_def by blast
    let ?\<tau> = "bind_var ?valN (VB w) (?\<sigma>2\<lparr>cache := c\<rparr>)"
    have "?i + 1 < 2 ^ 64" using slot_range[OF fit] N by simp
    then have e: "pure_at ev \<rho> ?e (VU (?i + 1))" if "vars \<rho> = vars ?\<sigma>2" for \<rho>
      by (intro su64_succ[OF sval_u64v]) (simp_all add: that bind_var_sel)
    have key: "v = VU (?i + 1)" if "cache ?\<tau> (?e, singleEvalId s + 1) = Some v" for v
    proof -
      have "(?e, singleEvalId s + 1) \<in> K" using assms(3) by (simp add: covers_def)
      with c that have "denotes ev K ?\<sigma>2 ?e v" by (auto simp: ok_cache_def bind_var_sel)
      then show ?thesis using e[of "?\<sigma>2\<lparr>cache := cache ?\<sigma>2 |` (- K)\<rparr>"] by (auto simp: denotes_def sval_empty)
    qed
    have upd: "updates N blobTemps \<sigma> (evm_memory N \<sigma>) ?\<tau>" by (rule updates_frame[OF _ assms(1)]) simp
    have vs: "vars ?\<tau> ?slotN = Some (VU ?i)" "vars ?\<tau> ?subN = Some (VU ?j)" "vars ?\<tau> ?valN = Some (VB w)"
      by (simp_all add: bind_var_sel)
    note parts = exec_writeParts[OF upd N fit assms(8) vs key]
    have cond: "ev ?\<tau> ?cond = Some (VU (of_bool (?j + 32 \<le> slotSize)), ?\<tau>)"
    proof -
      have "pure_at ev ?\<tau> ?cond (VU (of_bool (num_cmp Lte ?j (slotSize - 32))))"
        unfolding makeNumericCompare_def
        by (rule sval_cmp_u64[OF sval_u64v[OF vs(2)] su64_const]) (simp add: slotSize_def)
      moreover have "(?j \<le> slotSize - 32) = (?j + 32 \<le> slotSize)" using slotSize_pos(3) by linarith
      ultimately show ?thesis by (simp add: sval_empty)
    qed
    have "\<exists>\<tau>'. exec ev ?\<tau> ?final (Normal \<tau>') \<and> updates N blobTemps \<sigma> (mem_write (evm_memory N \<sigma>) a w) \<tau>'"
    proof (cases "?j + 32 \<le> slotSize")
      case True
      with parts(1) cond show ?thesis by (auto simp: makeIfElse_def makeBlock_def exec_If)
    next
      case False
      then have "offAlign \<noteq> Some 0" using aligned_fits[of 32 0 a] assms(9) by auto
      with False parts(2) cond show ?thesis by (auto simp: makeIfElse_def makeBlock_def exec_If)
    qed
    then show ?thesis using execs_then[OF bounds(1)[OF fit] execs_then[OF a1 execs_then[OF a2 execs_then[OF a3]]]] by force
  qed
  have stop: "execs ev \<sigma> (?pre @ [?final]) Trap" if "\<not> a + 32 \<le> slotSize * N"
    using bounds(2)[OF that] by (auto intro: exec_execs_exec_branch_exec_items.Stop)
  have "covers K (s\<lparr>counters := c\<rparr>)" "covers K (s\<lparr>counters := c, singleEvalId := singleEvalId s + 1\<rparr>)" for c
    using assms(3) by (auto simp: covers_def)
  with run stop show ?thesis
    by (auto simp: writeMemWordDirect_def Let_def storeSlotAt_def makeEvalOnce_def makeSingleEvaluation_def
        makeUInt64BinOp_def d_def[symmetric])
qed

text \<open>Only the low 64 bits of an offset count.\<close>

lemma yval_u64: "yval ev K \<sigma> e n \<Longrightarrow> wtypeOf e = uint64Type \<Longrightarrow> su64 ev K \<sigma> e n \<and> n < 2 ^ 64"
  by (auto simp: yval_def bigIs_def)

lemma offsetToUint64_correct:
  assumes "yval ev K \<sigma> off a"
  shows "built (offsetToUint64 off) s (\<lambda>e s'. s' = s \<and> u64Is ev K \<sigma> e (a mod 2 ^ 64))"
proof (cases "wtypeOf off = uint64Type")
  case True
  with yval_u64[OF assms] show ?thesis by (simp add: offsetToUint64_def u64Is_def)
next
  case False
  have "built (ensureBiguint off) s (\<lambda>b s'. s' = s \<and> u64Is ev K \<sigma> (safeBtoi b) (a mod 2 ^ 64))"
    by (rule built_ensure[OF assms])
       (use su64_biguintToUInt64 in \<open>auto simp: u64Is_def bigIs_def safeBtoi_def makeBiguintToUInt64_def Let_def
          makeExtractUInt64_def makeIntrinsicCall_def\<close>)
  with False show ?thesis by (simp add: offsetToUint64_def)
qed

lemma writeMemWordDyn_correct:
  assumes "pages_ok N \<sigma>" "layout_ok sc N" "covers K2 s" "\<And>k. k \<in> K1 \<union> K2 \<Longrightarrow> cache \<sigma> k = None" "K1 \<inter> K2 = {}"
    and "yval ev K1 \<sigma> offset a"
    and "\<And>\<tau>. frame memTemps \<sigma> \<tau> \<Longrightarrow> sbytes ev K2 \<tau> value w" "length w = 32"
    and "alignmentMod32 m offset = Some 0 \<Longrightarrow> a mod 32 = 0"
  shows "built (writeMemWordDyn sc m offset value) s (\<lambda>ss s'. preEffects s' = preEffects s \<and> covers K2 s' \<and>
    (a mod 2 ^ 64 + 32 \<le> slotSize * N \<longrightarrow>
       (\<exists>\<tau>. execs ev \<sigma> ss (Normal \<tau>) \<and> updates N memTemps \<sigma> (mem_write (evm_memory N \<sigma>) (a mod 2 ^ 64) w) \<tau>)) \<and>
    (\<not> a mod 2 ^ 64 + 32 \<le> slotSize * N \<longrightarrow> execs ev \<sigma> ss Trap))"
proof -
  define offN where "offN = ''__mem_dyn_off_'' @ dec_of_nat (counters s ''MemoryOps.dynamicOffset'')"
  let ?a = "a mod 2 ^ 64"
  have temp: "memTemp offN" "\<not> blobTemp offN" by (simp_all add: offN_def)
  have al: "alignmentMod32 m offset = Some 0 \<Longrightarrow> ?a mod 32 = 0"
    using assms(9) mod_mod_cancel[of 32 "2 ^ 64" a] by simp
  {
    fix offVal s1 assume v: "u64Is ev K1 \<sigma> offVal ?a" and s1: "s1 = s\<lparr>counters := (counters s)(''MemoryOps.dynamicOffset'' := Suc (counters s ''MemoryOps.dynamicOffset''))\<rparr>"
    have "su64 ev K1 \<sigma> offVal ?a" using v by (simp add: u64Is_def)
    moreover have "ok_cache ev K1 \<sigma> (cache \<sigma>)" by (rule ok_cache_fresh) (use assms(4) in auto)
    ultimately obtain c where a0: "exec ev \<sigma> (AssignmentStatement (u64v offN) offVal) (Normal (bind_var offN (VU ?a) (\<sigma>\<lparr>cache := c\<rparr>)))"
      and c: "ok_cache ev K1 \<sigma> c"
      using exec_assign unfolding u64v_def makeVarExpression_def by blast
    let ?\<sigma> = "bind_var offN (VU ?a) (\<sigma>\<lparr>cache := c\<rparr>)"
    have f: "frame memTemps \<sigma> ?\<sigma>" using temp by simp
    have fr: "cache ?\<sigma> k = None" if "k \<in> K2" for k
    proof -
      have "k \<notin> K1" using that assms(5) by blast
      with c have "c k = cache \<sigma> k" unfolding ok_cache_def by blast
      with assms(4) that show ?thesis by (simp add: bind_var_sel)
    qed
    have off: "pure_at ev \<tau> (u64v offN) (VU ?a)" if "frame blobTemps ?\<sigma> \<tau>" for \<tau>
      by (rule sval_u64v) (use that temp(2) in \<open>auto simp: frame_def bind_var_sel\<close>)
    have val: "sbytes ev K2 \<tau> value w" if "frame blobTemps ?\<sigma> \<tau>" for \<tau>
      by (rule assms(7)[OF frame_trans[OF f that blob_mem_temps]])
    have "built (writeMemWordDirect sc (u64v offN) value (alignmentMod32 m offset)) s1 (\<lambda>ss s'. preEffects s' = preEffects s \<and> covers K2 s' \<and>
      (?a + 32 \<le> slotSize * N \<longrightarrow>
         (\<exists>\<tau>. execs ev ?\<sigma> ss (Normal \<tau>) \<and> updates N blobTemps ?\<sigma> (mem_write (evm_memory N ?\<sigma>) ?a w) \<tau>)) \<and>
      (\<not> ?a + 32 \<le> slotSize * N \<longrightarrow> execs ev ?\<sigma> ss Trap))"
      by (rule built_mono[OF writeMemWordDirect_correct[OF _ assms(2) _ fr off _ val assms(8) al]])
         (use assms(1,3) v in \<open>simp_all add: s1 u64Is_def\<close>)
    then have "built (writeMemWordDirect sc (u64v offN) value (alignmentMod32 m offset)) s1 (\<lambda>ss s'. preEffects s' = preEffects s \<and> covers K2 s' \<and>
      (?a + 32 \<le> slotSize * N \<longrightarrow>
         (\<exists>\<tau>. execs ev \<sigma> (AssignmentStatement (u64v offN) offVal # ss) (Normal \<tau>) \<and> updates N memTemps \<sigma> (mem_write (evm_memory N \<sigma>) ?a w) \<tau>)) \<and>
      (\<not> ?a + 32 \<le> slotSize * N \<longrightarrow> execs ev \<sigma> (AssignmentStatement (u64v offN) offVal # ss) Trap))"
      by (rule built_mono) (use execs_then[OF a0] updates_trans[OF f _ blob_mem_temps] frame_memory(2)[OF f] in fastforce)
  }
  note step = this
  show ?thesis unfolding writeMemWordDyn_def Let_def built_bind built_nameGenNext
    by (rule built_mono[OF offsetToUint64_correct[OF assms(6)]])
       (use step in \<open>simp add: offN_def\<close>)
qed

end

end
