(* ===== verification/ConstantOffsets.thy ===== *)
theory ConstantOffsets
  imports MemoryCorrect
begin

text \<open>
  The constant folding of offsets and stored values (\<open>resolveConstantOffset\<close> of \<open>AssemblyBuilder.cpp\<close>):
  it works modulo \<open>2 ^ 64\<close>, so the constant it finds is the value of the expression when no sum or product
  of constants in it reaches \<open>2 ^ 64\<close>, and otherwise only its low 64 bits.
\<close>

section \<open>The value of a folded expression\<close>

fun number :: "val \<Rightarrow> nat option" where
  "number (VU n) = Some n"
| "number (VB b) = Some (be_nat b)"
| "number _ = None"

text \<open>
  What \<open>m_localConstants\<close> promises: a variable with a recorded constant holds it.  The same map also keeps the
  constants of memory words, under names that start with \<open>mem_0x\<close>.
\<close>

definition consts_ok :: "(string \<rightharpoonup> nat) \<Rightarrow> string list \<Rightarrow> 'z menv_scheme \<Rightarrow> bool" where
  "consts_ok lc cd \<sigma> \<longleftrightarrow>
     (\<forall>x c. lc x = Some c \<longrightarrow> x \<notin> set cd \<longrightarrow> take 6 x \<noteq> ''mem_0x'' \<longrightarrow>
        c < 2 ^ 64 \<and> (\<exists>v. vars \<sigma> x = Some v \<and> number v = Some c))"

text \<open>
  The expressions on which the folding is exact: literals of an integer type, variables that are not named
  like a memory word, and operations in which no sum and no product of constants reaches \<open>2 ^ 64\<close>.
\<close>

fun exact :: "(string \<rightharpoonup> nat) \<Rightarrow> string list \<Rightarrow> expr \<Rightarrow> bool" where
  "exact lc cd (IntegerConstant t v) = (t = uint64Type \<or> t = biguintType)"
| "exact lc cd (VarExpression t x) = (take 6 x \<noteq> ''mem_0x'')"
| "exact lc cd (BigUIntBinaryOperation t l oper r) =
     (exact lc cd l \<and> exact lc cd r \<and>
      (case (resolveConstantOffset lc cd l, resolveConstantOffset lc cd r) of
         (Some a, Some b) \<Rightarrow> (oper = BigAdd \<longrightarrow> a + b < 2 ^ 64) \<and> (oper = BigMult \<longrightarrow> a * b < 2 ^ 64)
       | _ \<Rightarrow> True))"
| "exact lc cd _ = True"

lemma lift_bytes_number:
  assumes "lift_bytes (big_op oper) x y = Some v" "number x = Some a" "number y = Some b"
  shows "oper = BigAdd \<Longrightarrow> number v = Some (a + b)" and "oper = BigSub \<Longrightarrow> b \<le> a \<and> number v = Some (a - b)"
    and "oper = BigMult \<Longrightarrow> number v = Some (a * b)" and "oper = BigMod \<Longrightarrow> 0 < b \<and> number v = Some (a mod b)"
    and "oper = BigFloorDiv \<Longrightarrow> 0 < b \<and> number v = Some (a div b)"
  using assms by (cases x; cases y; auto simp: byte_math_def split: if_splits)+

context avm
begin

lemma literal_number:
  assumes "ev \<sigma> (IntegerConstant t s) = Some (v, \<sigma>')" "t = uint64Type \<or> t = biguintType"
  shows "\<exists>n. nat_of_dec s = Some n \<and> number v = Some n \<and> \<sigma>' = \<sigma>"
  using assms(2)
proof
  assume "t = uint64Type"
  from sem_int64_inv[OF assms(1)[unfolded this]] show ?thesis by auto
next
  assume "t = biguintType"
  from sem_bigint_inv[OF assms(1)[unfolded this]] show ?thesis by auto
qed

text \<open>The folding finds the value of an exact expression, and evaluating it changes nothing.\<close>

lemma resolve_sound:
  "exact lc cd e \<Longrightarrow> consts_ok lc cd \<sigma> \<Longrightarrow> resolveConstantOffset lc cd e = Some c \<Longrightarrow> ev \<sigma> e = Some (v, \<sigma>') \<Longrightarrow>
   number v = Some c \<and> c < 2 ^ 64 \<and> \<sigma>' = \<sigma>"
proof (induction lc cd e arbitrary: c v \<sigma>' rule: resolveConstantOffset.induct)
  case (1 lc cd t s)
  from 1 literal_number[of \<sigma> t s v \<sigma>'] obtain n where n: "nat_of_dec s = Some n" "number v = Some n" "\<sigma>' = \<sigma>" by auto
  with 1(3) stoull_decimal[OF n(1)] show ?case by (auto split: if_splits)
next
  case (2 lc cd t x)
  then obtain u where "vars \<sigma> x = Some u" "number u = Some c" "c < 2 ^ 64"
    unfolding consts_ok_def by (auto split: if_splits)
  with sem_var[of \<sigma> x u t] 2(4) show ?case by simp
next
  case (3 lc cd t l oper r)
  from 3(6) obtain x \<sigma>1 y where l: "ev \<sigma> l = Some (x, \<sigma>1)" and r: "ev \<sigma>1 r = Some (y, \<sigma>')"
    and v: "lift_bytes (big_op oper) x y = Some v"
    by (auto simp: sem_big bin_eval_def split: option.splits)
  from 3(5) obtain a where a: "resolveConstantOffset lc cd l = Some a" by (auto split: option.splits)
  from 3(1)[OF _ 3(4) a l] 3(3) have L: "number x = Some a" "a < 2 ^ 64" "\<sigma>1 = \<sigma>" by auto
  show ?case
  proof (cases "resolveConstantOffset lc cd r")
    case (Some b)
    from 3(2)[OF _ 3(4) Some r[unfolded L(3)]] 3(3) have R: "number y = Some b" "b < 2 ^ 64" "\<sigma>' = \<sigma>" by auto
    note k = lift_bytes_number[OF v L(1) R(1)]
    show ?thesis
    proof (cases "oper = BigSub")
      case True
      with k(2) have le: "b \<le> a" and n: "number v = Some (a - b)" by auto
      have "(a + 2 ^ 64 - b) mod 2 ^ 64 = (a - b + 2 ^ 64) mod 2 ^ 64" using le by simp
      also have "\<dots> = a - b" using L(2) by simp
      finally have "c = a - b" using 3(5) a Some True by simp
      with n L(2) R(3) show ?thesis by simp
    next
      case False
      have "a mod b < 2 ^ 64" "a div b < 2 ^ 64"
        using L(2) by (auto intro: le_less_trans[OF mod_less_eq_dividend] le_less_trans[OF div_le_dividend])
      with False show ?thesis using 3(3,5) a Some k R(3) L(2) by (cases oper) auto
    qed
  next
    case None
    with 3(5) a have m: "oper = BigMod" "c = a" and "intLiteral r \<noteq> None" by (auto split: if_splits option.splits)
    then obtain t' s where rr: "r = IntegerConstant t' s" by (auto simp: intLiteral_def split: expr.splits)
    with 3(3) have "t' = uint64Type \<or> t' = biguintType" by simp
    from literal_number[OF r[unfolded rr] this] obtain n where n: "nat_of_dec s = Some n" "number y = Some n" "\<sigma>' = \<sigma>1" by blast
    with None rr have "2 ^ 64 \<le> n" by (auto simp: stoull_decimal split: if_splits)
    then have "a mod n = a" using L(2) by simp
    with lift_bytes_number(4)[OF v L(1) n(2) m(1)] m(2) n(3) L show ?thesis by simp
  qed
qed auto

end

end
