(* ===== verification/OffsetAnalysis.thy ===== *)
theory OffsetAnalysis
  imports ConstantOffsets
begin

text \<open>
  The offset analyses of the translator: the residue analysis \<open>alignmentMod32\<close> is sound, so an access
  it declares aligned never crosses a page; the constant folding of \<open>resolveConstantOffset\<close> wraps at
  64 bits, and the page number of a constant offset at 32 bits.  The constants that \<open>mstore\<close> records are
  the words of memory where the folding is exact and the constant offsets are aligned, and stale
  otherwise.
\<close>

section \<open>Decimal residues\<close>

lemma decimalMod32Loop_value:
  "decimalMod32Loop (a mod 32) v = Some r \<longleftrightarrow>
     list_all is_digit v \<and> r = foldl (\<lambda>a c. a * 10 + (of_char c - 48)) a v mod 32"
proof (induction v arbitrary: a)
  case (Cons c v)
  have "(a mod 32 * 10 + (of_char c - 48)) mod 32 = (a * 10 + (of_char c - 48)) mod (32::nat)"
    by (metis mod_add_left_eq mod_mult_left_eq)
  then show ?case using Cons.IH[of "a * 10 + (of_char c - 48)"] by auto
qed auto

lemma decimalMod32_iff: "decimalMod32 v = Some r \<longleftrightarrow> (\<exists>n. nat_of_dec v = Some n \<and> r = n mod 32)"
  using decimalMod32Loop_value[of 0 v r] by (auto simp: decimalMod32_def nat_of_dec_def dec_value_def)

section \<open>Soundness of the residues\<close>

fun has_residue :: "val \<Rightarrow> nat \<Rightarrow> bool" where
  "has_residue (VU n) r = (n mod 32 = r)"
| "has_residue (VB b) r = (be_nat b mod 32 = r)"
| "has_residue _ r = False"

text \<open>
  What the tracked variables promise: the aligned locals hold multiples of 32, the constant locals their
  constants, and a value that was evaluated once has the residue of its source.
\<close>

definition residues_ok :: "AlignContext \<Rightarrow> 'z menv_scheme \<Rightarrow> bool" where
  "residues_ok m \<sigma> \<longleftrightarrow>
     (\<forall>x \<in> set (alignedLocals m). \<exists>v. vars \<sigma> x = Some v \<and> has_residue v 0) \<and>
     (\<forall>x t n. yulConstantValues m x = Some t \<longrightarrow> nat_of_dec t = Some n \<longrightarrow>
        (\<exists>v. vars \<sigma> x = Some v \<and> has_residue v (n mod 32))) \<and>
     (\<forall>e i v r. cache \<sigma> (e, i) = Some v \<longrightarrow> alignmentMod32 m e = Some r \<longrightarrow> has_residue v r)"

text \<open>The operands below the arithmetic, casts and once-evaluated nodes that the analysis looks through.\<close>

fun leaves :: "expr \<Rightarrow> expr list" where
  "leaves (SingleEvaluation t e i) = leaves e"
| "leaves (ReinterpretCast t e) = leaves e"
| "leaves (BigUIntBinaryOperation t l oper r) = leaves l @ leaves r"
| "leaves (UInt64BinaryOperation t l oper r) = leaves l @ leaves r"
| "leaves e = [e]"

fun literal_typed :: "expr \<Rightarrow> bool" where
  "literal_typed (IntegerConstant t v) = (t = uint64Type \<or> t = biguintType)"
| "literal_typed _ = True"

text \<open>An operand evaluates without spoiling what the tracked variables promise.\<close>

definition operand_ok :: "'z evaluator \<Rightarrow> AlignContext \<Rightarrow> expr \<Rightarrow> bool" where
  "operand_ok ev m e \<longleftrightarrow> literal_typed e \<and>
     (\<forall>\<sigma> v \<sigma>'. residues_ok m \<sigma> \<longrightarrow> ev \<sigma> e = Some (v, \<sigma>') \<longrightarrow> residues_ok m \<sigma>')"

lemma sub_mod32:
  assumes "(b::nat) \<le> a"
  shows "(a - b) mod 32 = (a mod 32 + 32 - b mod 32) mod 32"
proof -
  have "b mod 32 \<le> a mod 32 + 32" using mod_less_divisor[of 32 b] by linarith
  then have "int ((a mod 32 + 32 - b mod 32) mod 32) = (int a mod 32 + 32 - int b mod 32) mod 32"
    by (simp add: of_nat_diff zmod_int)
  also have "\<dots> = (int a mod 32 - int b mod 32 + 32) mod 32" by (simp only: add_diff_eq diff_add_eq)
  also have "\<dots> = (int a - int b) mod 32" by (simp only: mod_add_self2 mod_diff_eq)
  also have "\<dots> = int ((a - b) mod 32)" using assms by (simp add: of_nat_diff zmod_int)
  finally show ?thesis by simp
qed

text \<open>The residue of a number, when the analysis knows it.\<close>

definition known :: "nat option \<Rightarrow> nat \<Rightarrow> bool" where
  "known a n \<longleftrightarrow> (\<forall>s. a = Some s \<longrightarrow> n mod 32 = s)"

lemma known_ops:
  assumes "known a m" "known b n"
  shows "known (addMod32 a b) (m + n)" and "n \<le> m \<Longrightarrow> known (subMod32 a b) (m - n)"
    and "known (multMod32 a b) (m * n)" and "known (modMod32 a b) (m mod n)"
proof -
  show "known (addMod32 a b) (m + n)" using assms by (auto simp: known_def addMod32_def mod_add_eq split: option.splits)
  show "n \<le> m \<Longrightarrow> known (subMod32 a b) (m - n)" using assms sub_mod32[of n m]
    by (auto simp: known_def subMod32_def split: option.splits)
  have "m * n mod 32 = 0" if "m mod 32 = 0 \<or> n mod 32 = 0"
    using that by (metis mod_0 mod_mult_left_eq mod_mult_right_eq mult_zero_left mult_zero_right)
  then show "known (multMod32 a b) (m * n)" using assms unfolding known_def multMod32_def
    by (cases "a = Some 0 \<or> b = Some 0") auto
  show "known (modMod32 a b) (m mod n)" using assms mod_mod_cancel[of 32 n m]
    by (auto simp: known_def modMod32_def dvd_eq_mod_eq_0 split: if_splits)
qed

lemma known_None [simp]: "known None n"
  by (simp add: known_def)

lemma residue_big:
  assumes "lift_bytes (big_op oper) x y = Some v"
    and "\<And>s. a = Some s \<Longrightarrow> has_residue x s" "\<And>s. b = Some s \<Longrightarrow> has_residue y s"
    and "(case oper of BigAdd \<Rightarrow> addMod32 a b | BigSub \<Rightarrow> subMod32 a b | BigMult \<Rightarrow> multMod32 a b
         | BigMod \<Rightarrow> modMod32 a b | _ \<Rightarrow> None) = Some r"
  shows "has_residue v r"
proof -
  from assms(1) obtain p q where xy: "x = VB p" "y = VB q" by (cases x; cases y) auto
  with assms(2,3) have "known a (be_nat p)" "known b (be_nat q)" by (auto simp: known_def)
  note k = known_ops[OF this]
  from assms(1,4) show ?thesis unfolding xy
    by (cases oper) (use k in \<open>auto simp: byte_math_def known_def split: if_splits\<close>)
qed

lemma residue_u64:
  assumes "lift_u64 (u64_op oper) x y = Some v"
    and "\<And>s. a = Some s \<Longrightarrow> has_residue x s" "\<And>s. b = Some s \<Longrightarrow> has_residue y s"
    and "(case oper of U64Add \<Rightarrow> addMod32 a b | U64Sub \<Rightarrow> subMod32 a b | U64Mult \<Rightarrow> multMod32 a b
         | U64Mod \<Rightarrow> modMod32 a b | _ \<Rightarrow> None) = Some r"
  shows "has_residue v r"
proof -
  from assms(1) obtain p q where xy: "x = VU p" "y = VU q" by (cases x; cases y) auto
  with assms(2,3) have "known a p" "known b q" by (auto simp: known_def)
  note k = known_ops[OF this]
  from assms(1,4) show ?thesis unfolding xy
    by (cases oper) (use k in \<open>auto simp: known_def split: if_splits\<close>)
qed

lemma shift_residue:
  assumes "lift_u64 (u64_op U64LShift) x (VU n) = Some v" "5 \<le> n"
  shows "has_residue v 0"
proof -
  from assms(1) obtain m where m: "x = VU m" "v = VU (m * 2 ^ n mod 2 ^ 64)" by (cases x) (auto split: if_splits)
  have "(32::nat) dvd 2 ^ n" using le_imp_power_dvd[OF assms(2), of "2::nat"] by simp
  then have "32 dvd m * 2 ^ n" by simp
  then show ?thesis unfolding m by (simp add: mod_mod_cancel mod_eq_0_iff_dvd)
qed

context avm
begin

lemma literal_residue:
  assumes "ev \<sigma> (IntegerConstant t v) = Some (x, \<sigma>')" "t = uint64Type \<or> t = biguintType" "nat_of_dec v = Some n"
  shows "has_residue x (n mod 32)" and "x = VU m \<Longrightarrow> m = n"
  using literal_number[OF assms(1,2)] assms(3) by (cases x; auto)+

lemma var_residue:
  assumes "residues_ok m \<sigma>" "ev \<sigma> (VarExpression t x) = Some (v, \<sigma>')" "alignmentMod32 m (VarExpression t x) = Some r"
  shows "has_residue v r"
proof -
  have "has_residue v s" if "vars \<sigma> x = Some u" "has_residue u s" for u s
    using that sem_var[OF that(1), of t] assms(2) by simp
  moreover have "\<exists>u. vars \<sigma> x = Some u \<and> has_residue u r"
  proof (cases "x \<in> set (alignedLocals m)")
    case True
    with assms(1,3) show ?thesis by (simp add: residues_ok_def)
  next
    case False
    with assms(3) obtain c n where "yulConstantValues m x = Some c" "nat_of_dec c = Some n" "r = n mod 32"
      by (auto simp: decimalMod32_iff split: option.splits)
    with assms(1) show ?thesis unfolding residues_ok_def by blast
  qed
  ultimately show ?thesis by blast
qed

lemma alignment_sound:
  "(\<And>l. l \<in> set (leaves e) \<Longrightarrow> operand_ok ev m l) \<Longrightarrow> residues_ok m \<sigma> \<Longrightarrow> ev \<sigma> e = Some (v, \<sigma>') \<Longrightarrow>
   residues_ok m \<sigma>' \<and> (\<forall>r. alignmentMod32 m e = Some r \<longrightarrow> has_residue v r)"
proof (induction e arbitrary: \<sigma> v \<sigma>' rule: leaves.induct)
  case (1 t e i)
  show ?case
  proof (cases "cache \<sigma> (e, i)")
    case (Some w)
    with 1(3,4) show ?thesis by (auto simp: sem_single residues_ok_def)
  next
    case None
    with 1(4) obtain \<tau> where "ev \<sigma> e = Some (v, \<tau>)" "\<sigma>' = \<tau>\<lparr>cache := (cache \<tau>)((e, i) \<mapsto> v)\<rparr>"
      by (auto simp: sem_single)
    with 1(1)[OF 1(2,3)] show ?thesis by (fastforce simp: residues_ok_def)
  qed
next
  case (2 t e)
  then show ?case by (auto simp: sem_cast)
next
  case (3 t l oper r)
  from 3(5) obtain x \<sigma>1 y where l: "ev \<sigma> l = Some (x, \<sigma>1)" and r: "ev \<sigma>1 r = Some (y, \<sigma>')"
    and v: "lift_bytes (big_op oper) x y = Some v"
    by (auto simp: sem_big bin_eval_def split: option.splits)
  from 3(1)[OF _ 3(4) l] 3(3) have L: "residues_ok m \<sigma>1" "\<And>s. alignmentMod32 m l = Some s \<Longrightarrow> has_residue x s" by auto
  from 3(2)[OF _ L(1) r] 3(3) have R: "residues_ok m \<sigma>'" "\<And>s. alignmentMod32 m r = Some s \<Longrightarrow> has_residue y s" by auto
  from residue_big[OF v L(2) R(2)] R(1) show ?case by (simp add: Let_def)
next
  case (4 t l oper r)
  from 4(5) obtain x \<sigma>1 y where l: "ev \<sigma> l = Some (x, \<sigma>1)" and r: "ev \<sigma>1 r = Some (y, \<sigma>')"
    and v: "lift_u64 (u64_op oper) x y = Some v"
    by (auto simp: sem_u64 bin_eval_def split: option.splits)
  from 4(1)[OF _ 4(4) l] 4(3) have L: "residues_ok m \<sigma>1" "\<And>s. alignmentMod32 m l = Some s \<Longrightarrow> has_residue x s" by auto
  from 4(2)[OF _ L(1) r] 4(3) have R: "residues_ok m \<sigma>'" "\<And>s. alignmentMod32 m r = Some s \<Longrightarrow> has_residue y s" by auto
  show ?case
  proof (cases "oper = U64LShift")
    case True
    have "has_residue v k" if k: "shiftMod32 r = Some k" for k
    proof -
      from k obtain lit t' n where rr: "r = IntegerConstant t' lit" "nat_of_dec lit = Some n" "5 \<le> n" "k = 0"
        by (auto simp: shiftMod32_def intLiteral_def decimalMod32_iff nat_of_dec_def split: option.splits if_splits expr.splits)
      have "operand_ok ev m r" by (rule 4(3)) (simp add: rr)
      then have t: "t' = uint64Type \<or> t' = biguintType" by (simp add: operand_ok_def rr)
      from v obtain j where y: "y = VU j" by (cases x; cases y) auto
      with literal_residue(2)[OF r[unfolded rr] t rr(2)] have "j = n" by simp
      with shift_residue[of x n v] v y True rr show ?thesis by simp
    qed
    with R(1) True show ?thesis by (simp add: Let_def)
  next
    case False
    then show ?thesis using residue_u64[OF v L(2) R(2)] R(1) by (cases oper) (simp_all add: Let_def)
  qed
next
  case "5_1"
  then show ?case by (auto simp: operand_ok_def decimalMod32_iff intro: literal_residue(1))
qed (auto simp: operand_ok_def intro: var_residue simp del: alignmentMod32.simps(4))

end

text \<open>
  What the handlers of memory accesses rely on: the recorded constants and residues are those of the state,
  and the offset is an expression on which the folding is exact and whose operands keep the residues.
\<close>

definition analyses_ok ::
    "'z evaluator \<Rightarrow> AlignContext \<Rightarrow> (string \<rightharpoonup> nat) \<Rightarrow> string list \<Rightarrow> 'z menv_scheme \<Rightarrow> expr \<Rightarrow> bool" where
  "analyses_ok ev m lc cd \<sigma> e \<longleftrightarrow> consts_ok lc cd \<sigma> \<and> exact lc cd e \<and> residues_ok m \<sigma> \<and>
     (\<forall>l \<in> set (leaves e). operand_ok ev m l)"

lemma yval_number: "yval ev K \<sigma> e a \<Longrightarrow> \<exists>v. sval ev K \<sigma> e v \<and> number v = Some a"
  unfolding yval_def bigIs_def sbig_def by fastforce

lemma residue_number: "has_residue v r \<longleftrightarrow> (\<exists>n. number v = Some n \<and> n mod 32 = r)"
  by (cases v) simp_all

context avm
begin

lemma analysed_offset:
  assumes "analyses_ok ev m lc cd \<sigma> addr" "yval ev K \<sigma> addr a" "ok_cache ev K \<sigma> (cache \<sigma>)"
  shows "resolveConstantOffset lc cd addr \<in> {None, Some a}" and "alignmentMod32 m addr = Some r \<Longrightarrow> a mod 32 = r"
proof -
  from yval_number[OF assms(2)] obtain v where v: "sval ev K \<sigma> addr v" "number v = Some a" by blast
  from svalE[OF v(1) assms(3)] obtain c where ev: "ev \<sigma> addr = Some (v, \<sigma>\<lparr>cache := c\<rparr>)" by auto
  note ok = assms(1)[unfolded analyses_ok_def]
  show "resolveConstantOffset lc cd addr \<in> {None, Some a}"
    using resolve_sound[OF _ _ _ ev, of lc cd] ok v(2) by (cases "resolveConstantOffset lc cd addr") auto
  show "alignmentMod32 m addr = Some r \<Longrightarrow> a mod 32 = r"
    using alignment_sound[OF _ _ ev, of m] ok v(2) by (auto simp: residue_number)
qed

end

text \<open>
  (C31) The residue analysis is sound: an offset with residue \<open>r\<close> evaluates to a number with that residue,
  whether it is a 64-bit integer or a big one as Yul arithmetic builds it, so an access of \<open>k\<close> bytes with
  \<open>k + r \<le> 32\<close> stays in one page and the code may drop the arm for words that cross pages.
\<close>

theorem alignmentMod32_sound:
  assumes "avm ev" "\<And>l. l \<in> set (leaves e) \<Longrightarrow> operand_ok ev m l" "residues_ok m \<sigma>"
    and "ev \<sigma> e = Some (v, \<sigma>')" "alignmentMod32 m e = Some r"
  shows "\<exists>n. number v = Some n \<and> n mod 32 = r \<and> (k + r \<le> 32 \<longrightarrow> n mod slotSize + k \<le> slotSize)"
proof -
  from avm.alignment_sound[OF assms(1-4)] assms(5) obtain n where n: "number v = Some n" "n mod 32 = r"
    by (auto simp: residue_number)
  with aligned_fits[OF _ n(2)] show ?thesis by blast
qed

theorem alignmentMod32_sound_witness:
  "(let e = makeBigUIntBinOp (makeVarExpression ''p'' biguintType) BigAdd (makeIntegerConstant ''40'' biguintType);
        m = \<lparr>alignedLocals = [''p''], yulConstantValues = Map.empty\<rparr>
    in alignmentMod32 m e = Some 8 \<and> (\<exists>v \<sigma>' n. aeval (env_of [(''p'', VB [96])]) e = Some (v, \<sigma>') \<and>
         number v = Some n \<and> n mod 32 = 8 \<and> n mod slotSize + 24 \<le> slotSize))"
proof -
  let ?e = "makeBigUIntBinOp (makeVarExpression ''p'' biguintType) BigAdd (makeIntegerConstant ''40'' biguintType)"
    and ?m = "\<lparr>alignedLocals = [''p''], yulConstantValues = Map.empty\<rparr>" and ?\<sigma> = "env_of [(''p'', VB [96])]"
  have d: "nat_of_dec ''40'' = Some 40" by code_simp
  have d32: "decimalMod32 ''40'' = Some 8" by (simp add: decimalMod32_iff d)
  have ev: "aeval ?\<sigma> ?e = Some (VB (be_min 136), ?\<sigma>)"
    by (simp add: makeBigUIntBinOp_def makeVarExpression_def makeIntegerConstant_def bin_eval_def int_const_def d
        byte_math_def be_nat_Cons length_be_min64 del: be_min.simps)
  have al: "alignmentMod32 ?m ?e = Some 8"
    by (simp add: makeBigUIntBinOp_def makeVarExpression_def makeIntegerConstant_def addMod32_def d32)
  have op: "operand_ok aeval ?m x" if "x \<in> set (leaves ?e)" for x
    using that by (auto simp: makeBigUIntBinOp_def makeVarExpression_def makeIntegerConstant_def operand_ok_def)
  have "residues_ok ?m ?\<sigma>" by (simp add: residues_ok_def be_nat_Cons)
  from alignmentMod32_sound[OF ref.avm_axioms op this ev al, of 24] ev al show ?thesis by auto
qed

section \<open>Constant offsets beyond the modelled memory\<close>

text \<open>
  The folding of constant offsets wraps at 64 bits, not at 256: the sum of two constants that
  exceeds 64 bits is taken for its low 64 bits.  \<open>mstore(add(0xffffffffffffffe0, 0x60), v)\<close>, which runs
  out of gas in the EVM, overwrites the free-memory pointer at 0x40.
\<close>

theorem resolveConstantOffset_wraps:
  assumes "a < 2 ^ 64" "b < 2 ^ 64" "2 ^ 64 \<le> a + b"
    and "run_state (handleAdd [makeIntegerConstant (dec_of_nat a) biguintType, makeIntegerConstant (dec_of_nat b) biguintType]) s = (r, s')"
  shows "\<exists>e. r = Some e \<and> resolveConstantOffset lc cd e = Some (a + b - 2 ^ 64)"
proof -
  have r: "r = Some (wrapMod256 (makeBigUIntBinOp (makeIntegerConstant (dec_of_nat a) biguintType) BigAdd
      (makeIntegerConstant (dec_of_nat b) biguintType)))"
    using assms(4) built_run[OF _ assms(4), of "\<lambda>r s'. r = Some (wrapMod256 (makeBigUIntBinOp (makeIntegerConstant (dec_of_nat a) biguintType) BigAdd
      (makeIntegerConstant (dec_of_nat b) biguintType)))"] by (simp add: handleAdd_def)
  have sum: "(a + b) mod 2 ^ 64 = a + b - 2 ^ 64" using assms(1-3) by (simp add: mod_if)
  have len: "18 < length kPow2_256" by (simp add: kPow2_256_def)
  have k: "resolveConstantOffset lc cd (makeIntegerConstant (dec_of_nat n) biguintType) = Some n" if "n < 2 ^ 64" for n
    using that by (simp add: makeIntegerConstant_def)
  have "resolveConstantOffset lc cd (wrapMod256 (makeBigUIntBinOp (makeIntegerConstant (dec_of_nat a) biguintType) BigAdd
      (makeIntegerConstant (dec_of_nat b) biguintType))) = Some ((a + b) mod 2 ^ 64)"
    unfolding wrapMod256_def makeBigUIntBinOp_def makePow256_def using k[OF assms(1)] k[OF assms(2)]
    by (simp add: stoull_decimal[OF bigconst_simps(1)] makeIntegerConstant_def intLiteral_def len)
  with r sum show ?thesis by simp
qed

theorem resolveConstantOffset_wraps_witness:
  "\<exists>e s'. run_state (handleAdd [makeIntegerConstant (dec_of_nat (2 ^ 64 - 32)) biguintType,
      makeIntegerConstant (dec_of_nat 96) biguintType]) initialBst = (Some e, s') \<and>
    resolveConstantOffset Map.empty [] e = Some 64"
proof -
  let ?args = "[makeIntegerConstant (dec_of_nat (2 ^ 64 - 32)) biguintType, makeIntegerConstant (dec_of_nat 96) biguintType]"
  obtain r s' where run: "run_state (handleAdd ?args) initialBst = (r, s')" by (cases "run_state (handleAdd ?args) initialBst")
  from resolveConstantOffset_wraps[OF _ _ _ this, of Map.empty "[]"]
  obtain e where "r = Some e" "resolveConstantOffset Map.empty [] e = Some 64" by auto
  with run show ?thesis by blast
qed

text \<open>
  The page of a constant offset is kept in an \<open>int\<close>: offsets that differ by \<open>2^44\<close> read the same word,
  and no error is reported for the one beyond the modelled memory.
\<close>

theorem readMemWordConst_wraps: "readMemWordConst sc (off + 2 ^ 44) = readMemWordConst sc off"
proof -
  have "(off + 2 ^ 44) div slotSize mod 2 ^ 32 = off div slotSize mod 2 ^ 32"
    using div_mult_self1[of slotSize off "2 ^ 32"] by (simp add: slotSize_def)
  moreover have "(off + 2 ^ 44) mod slotSize = off mod slotSize"
    using mod_mult_self1[of off "2 ^ 32" slotSize] by (simp add: slotSize_def)
  ultimately show ?thesis unfolding readMemWordConst_def constSlot_def by (simp only:)
qed


section \<open>Tracked memory constants\<close>

text \<open>The keys of the tracker are distinct: the hexadecimal digits determine the number.\<close>

definition hex_digit_value :: "char \<Rightarrow> nat" where
  "hex_digit_value c = (case map_of (zip hexAlphabet [0..<16]) c of Some n \<Rightarrow> n | None \<Rightarrow> 0)"

definition hex_value :: "string \<Rightarrow> nat" where
  "hex_value s = foldl (\<lambda>a c. 16 * a + hex_digit_value c) 0 s"

lemma hex_digit_value: "n < 16 \<Longrightarrow> hex_digit_value (hexAlphabet ! n) = n"
proof -
  have "\<forall>n \<in> set [0..<16]. hex_digit_value (hexAlphabet ! n) = n" by code_simp
  then show "n < 16 \<Longrightarrow> hex_digit_value (hexAlphabet ! n) = n" by simp
qed

lemma hex_value_of_nat: "hex_value (hex_of_nat n) = n"
proof (induction n rule: hex_of_nat.induct)
  case (1 n)
  show ?case
  proof (cases "n < 16")
    case False
    with 1 show ?thesis
      by (subst hex_of_nat.simps) (simp add: hex_value_def hex_digit_value del: hex_of_nat.simps)
  qed (simp add: hex_value_def hex_digit_value)
qed

lemma memName_inj: "memName a = memName b \<longleftrightarrow> a = b"
  by (metis hex_value_of_nat memName_def same_append_eq)

lemma take_memName [simp]: "take 6 (memName k) = ''mem_0x''"
  by (simp add: memName_def)

text \<open>Every tracked constant is the word that memory holds at its (aligned) offset.\<close>

definition tracked_ok :: "MemTrack \<Rightarrow> bytes \<Rightarrow> bool" where
  "tracked_ok t mem \<longleftrightarrow>
     (\<forall>k c. trackedConstants t (memName k) = Some c \<longrightarrow>
        k mod 32 = 0 \<and> k + 32 \<le> length mem \<and> be_nat (mem_read mem k 32) = c)"

lemma aligned_disjoint: "(a::nat) mod 32 = 0 \<Longrightarrow> b mod 32 = 0 \<Longrightarrow> a \<noteq> b \<Longrightarrow> a + 32 \<le> b \<or> b + 32 \<le> a"
  by presburger

lemma trackMstore_unfold:
  "trackedConstants (trackMstore t cd off value) =
     (case resolveConstantOffset (trackedConstants t) cd off of
        Some k \<Rightarrow> (trackedConstants t)(memName k := resolveConstantOffset (trackedConstants t) cd value)
      | None \<Rightarrow> (\<lambda>x. if take 6 x = ''mem_0x'' then None else trackedConstants t x))"
  by (simp add: trackMstore_def invalidateMemConstants_def Let_def split: option.splits)

text \<open>
  (C32) The constants that \<open>mstore\<close> records are the words that memory holds: when offset and value are
  expressions on which the folding is exact, and the offset, if it is constant, is a multiple of 32, a
  store replaces or kills the entry of its word, and a store at an unknown offset kills every entry, so a
  later compile-time hash of a tracked word hashes what memory holds.
\<close>

theorem trackMstore_sound:
  assumes "avm ev" "tracked_ok t mem" "consts_ok (trackedConstants t) cd \<sigma>"
    and "exact (trackedConstants t) cd off" "exact (trackedConstants t) cd value"
    and "ev \<sigma> off = Some (vo, \<sigma>1)" "number vo = Some a" "ev \<sigma> value = Some (vv, \<sigma>2)" "number vv = Some n"
    and "resolveConstantOffset (trackedConstants t) cd off \<noteq> None \<longrightarrow> a mod 32 = 0" "a + 32 \<le> length mem"
  shows "tracked_ok (trackMstore t cd off value) (mem_write mem a (be_fixed 32 n))"
proof (cases "resolveConstantOffset (trackedConstants t) cd off")
  case None
  then show ?thesis by (simp add: tracked_ok_def trackMstore_unfold)
next
  case (Some k)
  with avm.resolve_sound[OF assms(1,4,3) Some assms(6)] assms(7,10) have k: "k = a" "a mod 32 = 0" by auto
  let ?w = "be_fixed 32 n" and ?mem = "mem_write mem a (be_fixed 32 n)"
  have w: "length ?w = 32" by simp
  have "j mod 32 = 0 \<and> j + 32 \<le> length ?mem \<and> be_nat (mem_read ?mem j 32) = c"
    if tr: "trackedConstants (trackMstore t cd off value) (memName j) = Some c" for j c
  proof (cases "j = a")
    case True
    with tr Some k have "resolveConstantOffset (trackedConstants t) cd value = Some c" by (simp add: trackMstore_unfold)
    from avm.resolve_sound[OF assms(1,5,3) this assms(8)] assms(9) have "c = n" "n < 2 ^ 64" by auto
    then have "be_nat ?w = c" by (simp add: be_nat_be_fixed del: be_fixed.simps)
    with True k assms(11) w mem_read_write_same[of a ?w mem] show ?thesis by (simp del: be_fixed.simps)
  next
    case False
    with tr Some k assms(2) have j: "j mod 32 = 0" "j + 32 \<le> length mem" "be_nat (mem_read mem j 32) = c"
      by (auto simp: trackMstore_unfold memName_inj tracked_ok_def)
    with mem_read_write_other[of a ?w mem j 32] aligned_disjoint[OF j(1) k(2) False] assms(11) w
    show ?thesis by (auto simp del: be_fixed.simps)
  qed
  then show ?thesis by (simp add: tracked_ok_def)
qed

theorem trackMstore_sound_witness:
  "tracked_ok (trackMstore \<lparr>trackedConstants = Map.empty, lastMstoreValue = None\<rparr> [] (IntegerConstant biguintType ''32'')
       (BigUIntBinaryOperation biguintType (IntegerConstant biguintType ''5'') BigMult (IntegerConstant biguintType ''3'')))
     (mem_write (replicate 128 0) 32 (be_fixed 32 15))"
proof -
  have d: "nat_of_dec ''32'' = Some 32" "nat_of_dec ''5'' = Some 5" "nat_of_dec ''3'' = Some 3" by code_simp+
  show ?thesis
    by (rule trackMstore_sound[OF ref.avm_axioms, where \<sigma> = "env_of []" and ?\<sigma>1.0 = "env_of []" and ?\<sigma>2.0 = "env_of []" and mem = "replicate 128 0" and vo = "VB (be_min 32)" and vv = "VB (be_min 15)"])
      (simp_all add: tracked_ok_def consts_ok_def stoull_decimal d int_const_def bin_eval_def byte_math_def length_be_min64 del: be_fixed.simps be_min.simps)
qed

text \<open>
  (C33) A store at a constant offset that overlaps a tracked word without being at its offset leaves the
  entry in place although it overwrites a part of the word: the tracker keeps the old constant, while the
  word in memory becomes the old bytes before or behind the overlap next to the new ones.  After
  \<open>mstore(0, 5)  mstore(16, 7)\<close> the word at 0 is 0, but \<open>keccak256(0, 0x20)\<close> is folded to the hash of 5.
\<close>

theorem trackMstore_stale:
  assumes "trackedConstants t (memName a) = Some c" "resolveConstantOffset (trackedConstants t) cd off = Some b"
    and "a \<noteq> b" "a < b + 32" "b < a + 32" "a + 32 \<le> length mem" "b + 32 \<le> length mem" "length w = 32"
  shows "trackedConstants (trackMstore t cd off value) (memName a) = Some c \<and>
    mem_read (mem_write mem b w) a 32 =
      (if a < b then take (b - a) (mem_read mem a 32) @ take (32 - (b - a)) w
       else drop (a - b) w @ drop (32 - (a - b)) (mem_read mem a 32))"
proof
  show "trackedConstants (trackMstore t cd off value) (memName a) = Some c"
    using assms(1-3) by (simp add: trackMstore_unfold memName_inj)
  show "mem_read (mem_write mem b w) a 32 =
      (if a < b then take (b - a) (mem_read mem a 32) @ take (32 - (b - a)) w
       else drop (a - b) w @ drop (32 - (a - b)) (mem_read mem a 32))"
  proof (cases "a < b")
    case True
    then have "drop a (take b mem @ w @ drop (b + 32) mem) = take (b - a) (drop a mem) @ w @ drop (b + 32) mem"
      using assms(7) by (simp add: drop_take)
    with True show ?thesis using assms(5,6,7,8) by (simp add: mem_read_def mem_write_def)
  next
    case False
    then have "drop a (take b mem @ w @ drop (b + 32) mem) = drop (a - b) w @ drop (b + 32) mem"
      using assms(3,4,7,8) by simp
    moreover have "drop (32 - (a - b)) (take 32 (drop a mem)) = take (a - b) (drop (b + 32) mem)"
      using False assms(3,4) by (simp add: drop_take add.commute)
    ultimately show ?thesis using False assms(3,4,8) by (simp add: mem_read_def mem_write_def)
  qed
qed

theorem trackMstore_stale_witness:
  "let t = trackMstore \<lparr>trackedConstants = Map.empty, lastMstoreValue = None\<rparr> []
             (IntegerConstant biguintType ''0'') (IntegerConstant biguintType ''5'');
       mem = mem_write (replicate 128 0) 0 (be_fixed 32 5)
   in trackedConstants (trackMstore t [] (IntegerConstant biguintType ''16'') (IntegerConstant biguintType ''7'')) (memName 0) = Some 5 \<and>
      be_nat (mem_read (mem_write mem 16 (be_fixed 32 7)) 0 32) = 0"
proof -
  let ?t = "trackMstore \<lparr>trackedConstants = Map.empty, lastMstoreValue = None\<rparr> []
             (IntegerConstant biguintType ''0'') (IntegerConstant biguintType ''5'')"
    and ?mem = "mem_write (replicate 128 0) 0 (be_fixed 32 5)"
  have d: "nat_of_dec ''0'' = Some 0" "nat_of_dec ''5'' = Some 5" "nat_of_dec ''16'' = Some 16" by code_simp+
  have t: "trackedConstants ?t (memName 0) = Some 5" by (simp add: trackMstore_unfold stoull_decimal d)
  have "trackedConstants (trackMstore ?t [] (IntegerConstant biguintType ''16'') (IntegerConstant biguintType ''7'')) (memName 0) = Some 5 \<and>
    mem_read (mem_write ?mem 16 (be_fixed 32 7)) 0 32 = (if (0::nat) < 16 then take (16 - 0) (mem_read ?mem 0 32) @ take (32 - (16 - 0)) (be_fixed 32 7)
       else drop (0 - 16) (be_fixed 32 7) @ drop (32 - (0 - 16)) (mem_read ?mem 0 32))"
    by (rule trackMstore_stale[where b = 16]) (use t in \<open>simp_all add: stoull_decimal d mem_write_def del: be_fixed.simps\<close>)
  moreover have "be_nat (take 16 (mem_read ?mem 0 32) @ take 16 (be_fixed 32 7)) = 0" by code_simp
  ultimately show ?thesis by (simp add: Let_def del: be_fixed.simps)
qed

end
