(* ===== verification/MemoryBuiltins.thy ===== *)
theory MemoryBuiltins
  imports OffsetAnalysis
begin

text \<open>
  The EVM memory builtins end to end: \<open>mload\<close>, \<open>mstore\<close> and \<open>mstore8\<close> on constant and runtime offsets
  against the flat memory, the offset analyses they rely on, and the inputs where they do not do what
  the EVM does.
\<close>

lemma built_all: "(\<And>x. built m s (Q x)) \<Longrightarrow> built m s (\<lambda>a s'. \<forall>x. Q x a s')"
  by (auto simp: built_def split: prod.splits)

lemma built_imp: "(P \<Longrightarrow> built m s Q) \<Longrightarrow> built m s (\<lambda>a s'. P \<longrightarrow> Q a s')"
  by (auto simp: built_def split: prod.splits)

definition byteTemps :: "string set" where
  "byteTemps = {x. take 10 x = ''__mstore8_''}"

lemma last_byte: "drop 31 (be_fixed 32 v) = [word_of_nat (v mod 256)]"
proof -
  have "length (drop 31 (be_fixed 32 v)) = 1" by simp
  then obtain x where x: "drop 31 (be_fixed 32 v) = [x]" by (metis One_nat_def length_0_conv length_Suc_conv)
  have "be_nat (drop 31 (be_fixed 32 v)) = v mod 256 ^ 32 mod 256 ^ 1"
    by (subst be_nat_drop) (simp_all add: be_nat_be_fixed)
  then have "unat x = v mod 256" by (simp add: x be_nat_Cons mod_mod_cancel)
  then have "x = word_of_nat (v mod 256)" by (simp add: word_unat_eq_iff unat_word_of_nat8)
  with x show ?thesis by simp
qed

context avm_scratch
begin

lemma word_bytes:
  assumes "yword ev K \<sigma> e v" "covers K s"
  shows "built (ensureBiguint e) s (\<lambda>b s1. built (padTo32Bytes b) s1 (\<lambda>e' s'.
    sbytes ev K \<sigma> e' (be_fixed 32 v) \<and> covers K s' \<and> preEffects s' = preEffects s))"
proof (rule built_ensure)
  show "yval ev K \<sigma> e v" using assms(1) by (simp add: yword_def)
  fix b assume "bigIs ev K \<sigma> b v"
  then obtain x where "sbytes ev K \<sigma> b x" "be_nat x = v" "length x \<le> 64" by (auto simp: bigIs_def sbig_def)
  with padTo32_correct[OF _ _ assms(2)] show "built (padTo32Bytes b) s (\<lambda>e' s'.
    sbytes ev K \<sigma> e' (be_fixed 32 v) \<and> covers K s' \<and> preEffects s' = preEffects s)" by blast
qed

lemma mstore_correct:
  assumes "pages_ok N \<sigma>" "layout_ok sc N" "covers K2 s" "\<And>k. k \<in> K1 \<union> K2 \<Longrightarrow> cache \<sigma> k = None" "K1 \<inter> K2 = {}"
    and "yval ev K1 \<sigma> addr a" "\<And>\<tau>. frame memTemps \<sigma> \<tau> \<Longrightarrow> yword ev K2 \<tau> value v"
    and "resolveConstantOffset (trackedConstants t) cd addr \<in> {None, Some a}"
    and "alignmentMod32 m addr = Some 0 \<Longrightarrow> a mod 32 = 0" "a + 32 \<le> slotSize * N"
  shows "built (handleMstore sc m t cd [addr, value]) s (\<lambda>(t', ss) s'. t' = trackMstore t cd addr value \<and> preEffects s' = preEffects s \<and>
    (\<exists>\<tau>. execs ev \<sigma> ss (Normal \<tau>) \<and> updates N memTemps \<sigma> (mem_write (evm_memory N \<sigma>) a (be_fixed 32 v)) \<tau>))"
proof -
  let ?w = "be_fixed 32 v"
  have a: "a mod 2 ^ 64 = a" using assms(10) u64_const_bound[OF assms(2)] by (intro mod_less) linarith
  have word: "built (ensureBiguint value) s (\<lambda>b s1. built (padTo32Bytes b) s1 (\<lambda>e s'.
      (\<forall>\<tau>. frame memTemps \<sigma> \<tau> \<longrightarrow> sbytes ev K2 \<tau> e ?w) \<and> covers K2 s' \<and> preEffects s' = preEffects s))"
  proof -
    have "built (do { b \<leftarrow> ensureBiguint value; padTo32Bytes b }) s (\<lambda>e s'. \<forall>\<tau>. frame memTemps \<sigma> \<tau> \<longrightarrow>
        sbytes ev K2 \<tau> e ?w \<and> covers K2 s' \<and> preEffects s' = preEffects s)"
      by (intro built_all built_imp) (simp add: word_bytes[OF assms(7,3)])
    then show ?thesis unfolding built_bind by (elim built_mono) (use frame_refl in blast)
  qed
  have wr: "built (case resolveConstantOffset (trackedConstants t) cd addr of
        Some off \<Rightarrow> writeMemWordConst sc off e | None \<Rightarrow> writeMemWordDyn sc m addr e) s1
      (\<lambda>ss s'. preEffects s' = preEffects s1 \<and>
        (\<exists>\<tau>. execs ev \<sigma> ss (Normal \<tau>) \<and> updates N memTemps \<sigma> (mem_write (evm_memory N \<sigma>) a ?w) \<tau>))"
    if e: "\<And>\<tau>. frame memTemps \<sigma> \<tau> \<Longrightarrow> sbytes ev K2 \<tau> e ?w" and s1: "covers K2 s1" for e s1
  proof (cases "resolveConstantOffset (trackedConstants t) cd addr")
    case None
    have "built (writeMemWordDyn sc m addr e) s1 (\<lambda>ss s'. preEffects s' = preEffects s1 \<and>
        (\<exists>\<tau>. execs ev \<sigma> ss (Normal \<tau>) \<and> updates N memTemps \<sigma> (mem_write (evm_memory N \<sigma>) a ?w) \<tau>))"
      by (rule built_mono[OF writeMemWordDyn_correct[OF assms(1,2) s1 assms(4-6) e _ assms(9)]])
         (use a assms(10) in simp_all)
    with None show ?thesis by simp
  next
    case (Some off)
    with assms(8) have off: "off = a" by simp
    have ok: "ok_cache ev K2 \<sigma> (cache \<sigma>)" by (rule ok_cache_fresh) (use assms(4) in auto)
    have "built (writeMemWordConst sc a e) s1 (\<lambda>ss s'. preEffects s' = preEffects s1 \<and>
        (\<exists>\<tau>. execs ev \<sigma> ss (Normal \<tau>) \<and> updates N memTemps \<sigma> (mem_write (evm_memory N \<sigma>) a ?w) \<tau>))"
      by (rule built_mono[OF writeMemWordConst_correct[OF assms(1) _ assms(10,2) _ e[OF frame_refl] _ ok]])
         (use assms(2,10) in \<open>simp_all add: layout_ok_def\<close>)
    with Some off show ?thesis by simp
  qed
  show ?thesis unfolding handleMstore_def checkArity_def
    by (simp cong: option.case_cong, rule built_mono[OF word], rule built_mono, assumption)
       (auto intro!: built_mono[OF wr])
qed

lemma readMemWordDynSink_correct:
  assumes "pages_ok N \<sigma>" "layout_ok sc N" "covers K s" "ok_cache ev K \<sigma> (cache \<sigma>)" "yval ev K \<sigma> addr a"
    and "\<And>r. alignmentMod32 m addr = Some r \<Longrightarrow> a mod 32 = r" "a + 32 \<le> slotSize * N"
  shows "built (readMemWordDynSink sc m addr) s (\<lambda>(st, e) s'. preEffects s' = preEffects s \<and> covers K s' \<and>
    sbytes ev K \<sigma> e (mem_read (evm_memory N \<sigma>) a 32) \<and>
    (\<exists>c. exec ev \<sigma> st (Normal (\<sigma>\<lparr>cache := c\<rparr>)) \<and> ok_cache ev K \<sigma> c))"
proof -
  have a: "a mod 2 ^ 64 = a" using assms(7) u64_const_bound[OF assms(2)] by (intro mod_less) linarith
  then have a64: "a < 2 ^ 64" by (metis mod_less_divisor zero_less_numeral zero_less_power)
  have l32: "u64Is ev K \<sigma> (makeIntegerConstant ''32'' uint64Type) 32" by (simp add: u64Is_def su64_lit)
  show ?thesis
    unfolding readMemWordDynSink_def Let_def built_bind
  proof (rule built_mono[OF offsetToUint64_correct[OF assms(5)]], elim conjE, simp only: a, rule built_evalOnce[OF _ assms(3)])
    fix off0 s0 assume "u64Is ev K \<sigma> off0 a"
    then show "su64 ev K \<sigma> off0 a" by (simp add: u64Is_def)
    fix off s1 assume off: "su64 ev K \<sigma> off a" "wtypeOf off = wtypeOf off0" and s1: "covers K s1" "preEffects s1 = preEffects s"
    with \<open>u64Is ev K \<sigma> off0 a\<close> have u: "u64Is ev K \<sigma> off a" by (simp add: u64Is_def)
    show "built (readMemWordDirect sc off (alignmentMod32 m addr)) s1 (\<lambda>word s2. built (ret (memBoundsAssert sc off, word)) s2
      (\<lambda>(st, e) s'. preEffects s' = preEffects s \<and> covers K s' \<and> sbytes ev K \<sigma> e (mem_read (evm_memory N \<sigma>) a 32) \<and>
        (\<exists>c. exec ev \<sigma> st (Normal (\<sigma>\<lparr>cache := c\<rparr>)) \<and> ok_cache ev K \<sigma> c)))"
      unfolding readMemWordDirect_def
      by (rule built_mono[OF readMemStackRange_correct[OF assms(1,2) s1(1) u l32 assms(7) _ _ assms(6)]])
         (use s1 exec_memBounds(1)[OF off(1) assms(4,2,7)] in auto)
  qed
qed

lemma mload_correct:
  assumes "pages_ok N \<sigma>" "layout_ok sc N" "covers K s" "ok_cache ev K \<sigma> (cache \<sigma>)" "yval ev K \<sigma> addr a"
    and "resolveConstantOffset lc cd addr \<in> {None, Some a}" "calldata a = None"
    and "\<And>r. alignmentMod32 m addr = Some r \<Longrightarrow> a mod 32 = r" "a + 32 \<le> slotSize * N"
  shows "built (handleMload sc m lc cd calldata [addr]) s (\<lambda>r s'. \<exists>e ss c. r = Some e \<and> wtypeOf e = biguintType \<and>
    preEffects s' = preEffects s @ ss \<and> execs ev \<sigma> ss (Normal (\<sigma>\<lparr>cache := c\<rparr>)) \<and> ok_cache ev K \<sigma> c \<and>
    sbytes ev K \<sigma> e (mem_read (evm_memory N \<sigma>) a 32))"
proof (cases "resolveConstantOffset lc cd addr")
  case (Some off)
  with assms(6) have "off = a" by simp
  moreover have "execs ev \<sigma> [] (Normal (\<sigma>\<lparr>cache := cache \<sigma>\<rparr>))" by simp
  ultimately show ?thesis using Some assms(4,7)
    by (simp add: handleMload_def)
       (rule built_mono[OF readMemWordConst_correct[OF assms(1,2,9), where K = K]],
        auto simp: makeAsBiguint_def makeReinterpretCast_def intro!: sval_cast exI[of _ "cache \<sigma>"])
next
  case None
  have "built (readMemWordDyn sc m addr) s (\<lambda>e s'. \<exists>ss c. preEffects s' = preEffects s @ ss \<and>
      execs ev \<sigma> ss (Normal (\<sigma>\<lparr>cache := c\<rparr>)) \<and> ok_cache ev K \<sigma> c \<and> sbytes ev K \<sigma> e (mem_read (evm_memory N \<sigma>) a 32))"
    unfolding readMemWordDyn_def built_bind
    by (rule built_mono[OF readMemWordDynSink_correct[OF assms(1-5,8,9)]]) auto
  then show ?thesis using None
    by (simp add: handleMload_def)
       (erule built_mono, auto simp: makeAsBiguint_def makeReinterpretCast_def intro!: sval_cast)
qed

lemma sval_pure_any: "(\<And>c. pure_at ev (\<sigma>\<lparr>cache := c\<rparr>) e v) \<Longrightarrow> sval ev K \<sigma> e v"
  by (rule svalI) (auto simp: sval_empty)

text \<open>An access at an offset that the analyses do not know, outside the modelled memory, traps.\<close>

lemma mstore_traps:
  assumes "pages_ok N \<sigma>" "layout_ok sc N" "covers K2 s" "\<And>k. k \<in> K1 \<union> K2 \<Longrightarrow> cache \<sigma> k = None" "K1 \<inter> K2 = {}"
    and "yval ev K1 \<sigma> addr a" "\<And>\<tau>. frame memTemps \<sigma> \<tau> \<Longrightarrow> yword ev K2 \<tau> value v"
    and "resolveConstantOffset (trackedConstants t) cd addr = None"
    and "alignmentMod32 m addr = Some 0 \<Longrightarrow> a mod 32 = 0" "a < 2 ^ 64" "\<not> a + 32 \<le> slotSize * N"
  shows "built (handleMstore sc m t cd [addr, value]) s (\<lambda>(t', ss) s'. execs ev \<sigma> ss Trap)"
proof -
  let ?w = "be_fixed 32 v"
  have word: "built (ensureBiguint value) s (\<lambda>b s1. built (padTo32Bytes b) s1 (\<lambda>e s'.
      (\<forall>\<tau>. frame memTemps \<sigma> \<tau> \<longrightarrow> sbytes ev K2 \<tau> e ?w) \<and> covers K2 s'))"
  proof -
    have "built (do { b \<leftarrow> ensureBiguint value; padTo32Bytes b }) s (\<lambda>e s'. \<forall>\<tau>. frame memTemps \<sigma> \<tau> \<longrightarrow>
        sbytes ev K2 \<tau> e ?w \<and> covers K2 s' \<and> preEffects s' = preEffects s)"
      by (intro built_all built_imp) (simp add: word_bytes[OF assms(7,3)])
    then show ?thesis unfolding built_bind by (elim built_mono) (use frame_refl in blast)
  qed
  have wr: "built (writeMemWordDyn sc m addr e) s1 (\<lambda>ss s'. execs ev \<sigma> ss Trap)"
    if e: "\<And>\<tau>. frame memTemps \<sigma> \<tau> \<Longrightarrow> sbytes ev K2 \<tau> e ?w" and s1: "covers K2 s1" for e s1
    by (rule built_mono[OF writeMemWordDyn_correct[OF assms(1,2) s1 assms(4-6) e _ assms(9)]])
       (use assms(10,11) in simp_all)
  show ?thesis unfolding handleMstore_def checkArity_def
    by (simp add: assms(8), rule built_mono[OF word], rule built_mono, assumption) (auto intro!: built_mono[OF wr])
qed

lemma built_evalOnce_keeps: "(\<And>e' s'. preEffects s' = preEffects s \<Longrightarrow> Q e' s') \<Longrightarrow> built (makeEvalOnce e) s Q"
  by (simp add: makeEvalOnce_def)

lemma mload_traps:
  assumes "layout_ok sc N" "covers K s" "ok_cache ev K \<sigma> (cache \<sigma>)" "yval ev K \<sigma> addr a"
    and "resolveConstantOffset lc cd addr = None" "a < 2 ^ 64" "\<not> a + 32 \<le> slotSize * N"
  shows "built (handleMload sc m lc cd calldata [addr]) s (\<lambda>r s'. \<exists>ss. preEffects s' = preEffects s @ ss \<and> execs ev \<sigma> ss Trap)"
proof -
  have rd: "built (readMemWordDirect sc off al) s1 (\<lambda>_ s'. preEffects s' = preEffects s1)" for off al s1
    unfolding readMemWordDirect_def readMemStackRange_def Let_def built_bind
    by (rule built_evalOnce_keeps, rule built_evalOnce_keeps) simp
  have a: "a mod 2 ^ 64 = a" using assms(6) by simp
  have "built (readMemWordDyn sc m addr) s (\<lambda>_ s'. \<exists>ss. preEffects s' = preEffects s @ ss \<and> execs ev \<sigma> ss Trap)"
    unfolding readMemWordDyn_def readMemWordDynSink_def Let_def built_bind
  proof (rule built_mono[OF offsetToUint64_correct[OF assms(4)]], elim conjE, simp only: a, rule built_evalOnce[OF _ assms(2)])
    fix off0 s0 assume "u64Is ev K \<sigma> off0 a"
    then show "su64 ev K \<sigma> off0 a" by (simp add: u64Is_def)
  next
    fix off0 off and s1 :: bst assume off: "su64 ev K \<sigma> off a" and s1: "preEffects s1 = preEffects s"
    have "exec ev \<sigma> (memBoundsAssert sc off) Trap" by (rule exec_memBounds(2)[OF off assms(3,1,7)])
    then have "execs ev \<sigma> [memBoundsAssert sc off] Trap" by simp
    with s1 show "built (readMemWordDirect sc off (alignmentMod32 m addr)) s1 (\<lambda>w s2. built (ret (memBoundsAssert sc off, w)) s2
        (\<lambda>p s3. built (pushPreEffect (fst p)) s3 (\<lambda>_ s4. built (ret (snd p)) s4
          (\<lambda>_ s'. \<exists>ss. preEffects s' = preEffects s @ ss \<and> execs ev \<sigma> ss Trap))))"
      by (intro built_mono[OF rd]) (auto intro!: exI[of _ "[memBoundsAssert sc off]"])
  qed
  then show ?thesis by (simp add: handleMload_def assms(5))
qed

text \<open>
  The offset of \<open>mstore8\<close> is evaluated once and read in three statements; its value is the same in
  every state that differs in the temporaries only.
\<close>

lemma exec_mstore8:
  assumes "pages_ok N \<sigma>" "layout_ok sc N" "\<And>k. k \<in> K \<Longrightarrow> cache \<sigma> k = None"
    and "\<And>\<tau>. frame byteTemps \<sigma> \<tau> \<Longrightarrow> pure_at ev \<tau> off0 (VU a)" "a < 2 ^ 64"
    and "offE = off0 \<or> offE = SingleEvaluation t off0 i" "(off0, i) \<in> K"
    and "\<And>\<tau>. frame byteTemps \<sigma> \<tau> \<Longrightarrow> sbytes ev K \<tau> bs [b]" "x \<in> byteTemps"
  defines "ss \<equiv> [memBoundsAssert sc offE, AssignmentStatement (u64v x) (makeUInt64BinOp offE U64FloorDiv (u64c slotSize)),
        makeExpressionStatement (makeIntrinsicCall ''stores'' voidType [] [u64v x,
          makeReplace3 (makeIntrinsicCall ''loads'' bytesType [] [u64v x]) (pageOffset offE) bs])]"
  shows "a + 32 \<le> slotSize * N \<Longrightarrow> \<exists>\<tau>. execs ev \<sigma> ss (Normal \<tau>) \<and> updates N byteTemps \<sigma> (mem_write (evm_memory N \<sigma>) a [b]) \<tau>"
    and "\<not> a + 32 \<le> slotSize * N \<Longrightarrow> execs ev \<sigma> ss Trap"
proof -
  let ?k = "{(off0, i)}" and ?i = "a div slotSize" and ?j = "a mod slotSize"
  have N: "N \<le> 255" using assms(2) by (simp add: layout_ok_def)
  have once: "sval ev ?k \<tau> offE (VU a)" "ok_cache ev ?k \<tau> (cache \<tau>)"
    if "frame byteTemps \<sigma> \<tau>" "\<And>w. cache \<tau> (off0, i) = Some w \<Longrightarrow> w = VU a" for \<tau>
  proof -
    have p: "pure_at ev (\<tau>\<lparr>cache := c\<rparr>) off0 (VU a)" for c using that(1) by (intro assms(4)) simp
    show "sval ev ?k \<tau> offE (VU a)" using assms(6) sval_once(1)[OF p that(2)] sval_pure_any[OF p] by auto
    show "ok_cache ev ?k \<tau> (cache \<tau>)" by (rule sval_once(2)[OF p that(2)])
  qed
  have entry: "w = VU a" if "ok_cache ev ?k \<tau> c" "frame byteTemps \<sigma> \<tau>" "c (off0, i) = Some w" for c \<tau> w
  proof -
    have "denotes ev ?k \<tau> off0 w" using that(1,3) by (auto simp: ok_cache_def)
    moreover have "sval ev ?k \<tau> off0 (VU a)" by (rule sval_pure_any, rule assms(4)) (simp add: that(2))
    ultimately show ?thesis using denotes_sval by blast
  qed
  have start: "w = VU a" if "cache \<sigma> (off0, i) = Some w" for w using that assms(3,7) by simp
  have o0: "sval ev ?k \<sigma> offE (VU a)" "ok_cache ev ?k \<sigma> (cache \<sigma>)" using once[OF frame_refl] start by blast+
  note bounds = exec_memBounds[OF o0 assms(2)]
  show "execs ev \<sigma> ss Trap" if "\<not> a + 32 \<le> slotSize * N"
    unfolding ss_def using bounds(2)[OF that] by (auto intro: exec_execs_exec_branch_exec_items.Stop)
  show "\<exists>\<tau>. execs ev \<sigma> ss (Normal \<tau>) \<and> updates N byteTemps \<sigma> (mem_write (evm_memory N \<sigma>) a [b]) \<tau>"
    if fit: "a + 32 \<le> slotSize * N"
  proof -
    from bounds(1)[OF fit] obtain c1 where a1: "exec ev \<sigma> (memBoundsAssert sc offE) (Normal (\<sigma>\<lparr>cache := c1\<rparr>))"
      and c1: "ok_cache ev ?k \<sigma> c1" by blast
    have f1: "frame byteTemps \<sigma> (\<sigma>\<lparr>cache := c1\<rparr>)" by simp
    have e1: "w = VU a" if "cache (\<sigma>\<lparr>cache := c1\<rparr>) (off0, i) = Some w" for w
      using entry[OF c1 frame_refl] that by simp
    have o1: "sval ev ?k (\<sigma>\<lparr>cache := c1\<rparr>) offE (VU a)" "ok_cache ev ?k (\<sigma>\<lparr>cache := c1\<rparr>) (cache (\<sigma>\<lparr>cache := c1\<rparr>))"
      using once[OF f1] e1 by blast+
    obtain c2 where a2: "exec ev (\<sigma>\<lparr>cache := c1\<rparr>) (AssignmentStatement (u64v x) (makeUInt64BinOp offE U64FloorDiv (u64c slotSize)))
        (Normal (bind_var x (VU ?i) (\<sigma>\<lparr>cache := c2\<rparr>)))" and c2: "ok_cache ev ?k (\<sigma>\<lparr>cache := c1\<rparr>) c2"
      using exec_assign[OF su64_page_parts(1)[OF o1(1) assms(5)] o1(2), of uint64Type x]
      unfolding u64v_def makeVarExpression_def by auto
    let ?\<tau> = "bind_var x (VU ?i) (\<sigma>\<lparr>cache := c2\<rparr>)"
    have f2: "frame byteTemps \<sigma> ?\<tau>" using assms(9) by simp
    have c2e: "c2 k = None \<or> k = (off0, i) \<and> c2 k = Some (VU a)" if "k \<in> K" for k
    proof (cases "k = (off0, i)")
      case True
      with entry[OF c2 f1] show ?thesis by (cases "c2 k") auto
    next
      case False
      then have "k \<notin> ?k" by simp
      then have "c2 k = cache (\<sigma>\<lparr>cache := c1\<rparr>) k" "c1 k = cache \<sigma> k" using c1 c2 unfolding ok_cache_def by blast+
      with assms(3)[OF that] show ?thesis by simp
    qed
    have pK: "sval ev K ?\<tau> off0 (VU a)" by (rule sval_pure_any, rule assms(4)) (simp add: f2[simplified] assms(9))
    have okK: "ok_cache ev K ?\<tau> (cache ?\<tau>)"
      unfolding ok_cache_def using c2e sval_denotes[OF pK] by (fastforce simp: bind_var_sel)
    have offK: "sval ev K ?\<tau> offE (VU a)" using assms(6,7) pK sval_single[OF pK assms(7)] by auto
    have i: "?i < N" using slot_range[OF fit] by simp
    have xv: "su64 ev K ?\<tau> (u64v x) ?i" by (rule sval_u64v) (simp add: bind_var_sel)
    have j: "?j + length [b] \<le> slotSize" using mod_less_divisor[OF slotSize_pos(1), of a] by (simp add: Suc_le_eq)
    obtain c3 where a3: "exec ev ?\<tau> (makeExpressionStatement (makeIntrinsicCall ''stores'' voidType [] [u64v x,
          makeReplace3 (makeIntrinsicCall ''loads'' bytesType [] [u64v x]) (pageOffset offE) bs]))
        (Normal (store_part ?i ?j [b] (?\<tau>\<lparr>cache := c3\<rparr>)))"
      using exec_storeSlot_part[OF _ i N xv su64_page_parts(2)[OF offK assms(5)] assms(8)[OF f2] okK j] assms(1) by auto
    have "updates N byteTemps \<sigma> (mem_write (evm_memory N \<sigma>) (slotSize * ?i + ?j) [b]) (store_part ?i ?j [b] (?\<tau>\<lparr>cache := c3\<rparr>))"
      by (rule updates_store_part[OF updates_frame[OF _ assms(1)] i j]) (simp add: assms(9))
    with execs_then[OF a1 execs_then[OF a2 execs_single[THEN iffD2, OF a3]]] show ?thesis
      unfolding ss_def offset_split by blast
  qed
qed

lemma mstore8_correct:
  assumes "pages_ok N \<sigma>" "layout_ok sc N" "covers K s" "\<And>k. k \<in> K \<Longrightarrow> cache \<sigma> k = None"
    and "\<And>\<tau>. frame byteTemps \<sigma> \<tau> \<Longrightarrow> yval ev {} \<tau> addr a" "a < 2 ^ 64"
    and "\<And>\<tau>. frame byteTemps \<sigma> \<tau> \<Longrightarrow> yword ev K \<tau> value v"
  shows "built (handleMstore8 sc [addr, value]) s (\<lambda>ss s'.
    (a + 32 \<le> slotSize * N \<longrightarrow> (\<exists>\<tau>. execs ev \<sigma> ss (Normal \<tau>) \<and>
       updates N byteTemps \<sigma> (mem_write (evm_memory N \<sigma>) a [word_of_nat (v mod 256)]) \<tau>)) \<and>
    (\<not> a + 32 \<le> slotSize * N \<longrightarrow> execs ev \<sigma> ss Trap))"
proof -
  have amod: "a mod 2 ^ 64 = a" using assms(6) by simp
  have off: "built (offsetToUint64 addr) s (\<lambda>e s'. (\<forall>\<tau>. frame byteTemps \<sigma> \<tau> \<longrightarrow> u64Is ev {} \<tau> e a) \<and> s' = s)"
  proof -
    have "built (offsetToUint64 addr) s (\<lambda>e s'. \<forall>\<tau>. frame byteTemps \<sigma> \<tau> \<longrightarrow> s' = s \<and> u64Is ev {} \<tau> e a)"
      by (intro built_all built_imp) (rule offsetToUint64_correct[OF assms(5), unfolded amod])
    then show ?thesis by (rule built_mono) (use frame_refl in blast)
  qed
  have word: "built (ensureBiguint value) s0 (\<lambda>b s1. built (padTo32Bytes b) s1 (\<lambda>e s'.
      \<forall>\<tau>. frame byteTemps \<sigma> \<tau> \<longrightarrow> sbytes ev K \<tau> e (be_fixed 32 v)))"
    if "covers K s0" for s0
  proof -
    have "built (do { b \<leftarrow> ensureBiguint value; padTo32Bytes b }) s0 (\<lambda>e s'. \<forall>\<tau>. frame byteTemps \<sigma> \<tau> \<longrightarrow>
        sbytes ev K \<tau> e (be_fixed 32 v) \<and> covers K s' \<and> preEffects s' = preEffects s0)"
      by (intro built_all built_imp) (simp add: word_bytes[OF assms(7) that])
    then show ?thesis unfolding built_bind by (elim built_mono) blast
  qed
  have low: "sbytes ev K \<tau> (makeExtract3 e (makeIntegerConstant ''31'' uint64Type) (makeOne uint64Type) None) [word_of_nat (v mod 256)]"
    if "sbytes ev K \<tau> e (be_fixed 32 v)" for e \<tau>
    using sbytes_slice[OF that su64_lit(2,4), of None] by (simp add: last_byte del: be_fixed.simps)
  have key: "(e, singleEvalId s + 1) \<in> K" for e using assms(3) by (simp add: covers_def)
  have once: "built (makeEvalOnce e) s (\<lambda>e' s'. (e' = e \<or> e' = SingleEvaluation (wtypeOf e) e (singleEvalId s + 1)) \<and> covers K s')" for e
    using assms(3) by (simp add: makeEvalOnce_def makeSingleEvaluation_def)
  have run: "(a + 32 \<le> slotSize * N \<longrightarrow> (\<exists>\<tau>. execs ev \<sigma> ss (Normal \<tau>) \<and>
       updates N byteTemps \<sigma> (mem_write (evm_memory N \<sigma>) a [word_of_nat (v mod 256)]) \<tau>)) \<and>
    (\<not> a + 32 \<le> slotSize * N \<longrightarrow> execs ev \<sigma> ss Trap)"
    if "\<forall>\<tau>. frame byteTemps \<sigma> \<tau> \<longrightarrow> u64Is ev {} \<tau> off0 a"
      and "offE = off0 \<or> offE = SingleEvaluation (wtypeOf off0) off0 (singleEvalId s + 1)"
      and "\<forall>\<tau>. frame byteTemps \<sigma> \<tau> \<longrightarrow> sbytes ev K \<tau> padded (be_fixed 32 v)"
      and "ss = [memBoundsAssert sc offE, AssignmentStatement (u64v x) (makeUInt64BinOp offE U64FloorDiv (u64c slotSize)),
        makeExpressionStatement (makeIntrinsicCall ''stores'' voidType [] [u64v x,
          makeReplace3 (makeIntrinsicCall ''loads'' bytesType [] [u64v x]) (pageOffset offE)
            (makeExtract3 padded (makeIntegerConstant ''31'' uint64Type) (makeOne uint64Type) None)])]" and "x \<in> byteTemps"
    for off0 offE padded x ss
    unfolding that(4)
    using exec_mstore8[OF assms(1,2,4) _ assms(6) that(2) key low that(5)] that(1,3) by (auto simp: u64Is_def)
  show ?thesis unfolding handleMstore8_def checkArity_def
    by (simp add: Let_def, rule built_mono[OF off], elim conjE, hypsubst, rule built_mono[OF once], elim conjE,
        rule built_mono[OF word], assumption, erule built_mono, erule (2) run, rule refl) (simp add: byteTemps_def)
qed

end

section \<open>The builtins\<close>

text \<open>A machine state with \<open>n\<close> zeroed memory pages.\<close>

definition memEnv :: "nat \<Rightarrow> (string \<times> val) list \<Rightarrow> menv" where
  "memEnv n xs = (env_of xs)\<lparr>scratch := (\<lambda>i. if i < n then VB (replicate slotSize 0) else VU 0)\<rparr>"

lemma memEnv_sel [simp]: "vars (memEnv n xs) = map_of xs" "cache (memEnv n xs) = Map.empty" "pages_ok n (memEnv n xs)"
  by (simp_all add: memEnv_def pages_ok_def)

definition noAlign :: AlignContext where
  "noAlign = \<lparr>alignedLocals = [], yulConstantValues = Map.empty\<rparr>"

definition noTrack :: MemTrack where
  "noTrack = \<lparr>trackedConstants = Map.empty, lastMstoreValue = None\<rparr>"

lemma pointer_var:
  assumes "vars \<sigma> x = Some (VU n)" "n < 2 ^ 64"
  shows "yval aeval K \<sigma> (makeVarExpression x uint64Type) n"
  using assms ref.sval_var[of \<sigma> x "VU n" K uint64Type] by (simp add: yval_def makeVarExpression_def)

lemma word_var:
  assumes "vars \<sigma> x = Some (VB b)" "length b \<le> 32"
  shows "yword aeval K \<sigma> (makeVarExpression x biguintType) (be_nat b)"
proof -
  have "bigIs aeval K \<sigma> (VarExpression biguintType x) (be_nat b)"
    using assms(2) sbigI[OF ref.sval_var[OF assms(1)]] by (simp add: bigIs_def)
  moreover have "be_nat b < 256 ^ 32"
    using be_nat_bound[of b] power_increasing[OF assms(2), of "256::nat"] by linarith
  ultimately show ?thesis by (simp add: yword_def makeVarExpression_def ref.yval_big W256_def)
qed

text \<open>
  (C27) \<open>mstore(addr, value)\<close> at an address below \<open>2 ^ 64\<close> that the analyses read right (\<open>analyses_ok\<close>: no sum
  or product of constants in it reaches \<open>2 ^ 64\<close>).  Inside the modelled memory the emitted statements run to
  their end and replace exactly the 32 bytes at the address by the big-endian word, also when it crosses
  from one scratch page to the next, for constant and runtime addresses; every other slot and variable
  keeps its value.  Outside it, a runtime address traps; for constant ones see C30.
\<close>

theorem handleMstore_correct:
  assumes "avm_scratch ev" "pages_ok N \<sigma>" "layout_ok sc N" "ids_free s \<sigma>"
    and "yval ev {} \<sigma> addr a" "a < 2 ^ 64" "\<And>\<tau>. frame memTemps \<sigma> \<tau> \<Longrightarrow> yword ev (fresh_ids s) \<tau> value v"
    and "analyses_ok ev m (trackedConstants t) cd \<sigma> addr"
    and "run_state (handleMstore sc m t cd [addr, value]) s = ((t', ss), s')"
  shows "if a + 32 \<le> slotSize * N
    then \<exists>\<tau>. execs ev \<sigma> ss (Normal \<tau>) \<and> updates N memTemps \<sigma> (mem_write (evm_memory N \<sigma>) a (be_fixed 32 v)) \<tau>
    else resolveConstantOffset (trackedConstants t) cd addr = None \<longrightarrow> execs ev \<sigma> ss Trap"
proof -
  have free: "cache \<sigma> k = None" if "k \<in> {} \<union> fresh_ids s" for k
    using assms(4) that by (cases k) (auto simp: ids_free_def fresh_ids_def)
  have "avm ev" using assms(1) by (simp add: avm_scratch_def)
  have ok: "ok_cache ev {} \<sigma> (cache \<sigma>)" by (rule ok_cache_fresh) simp
  note an = avm.analysed_offset[OF \<open>avm ev\<close> assms(8,5) ok]
  show ?thesis
  proof (cases "a + 32 \<le> slotSize * N")
    case True
    from avm_scratch.mstore_correct[OF assms(1-3) covers_fresh_ids free _ assms(5,7) an(1) an(2) True]
    have "built (handleMstore sc m t cd [addr, value]) s (\<lambda>(t', ss) s'. \<exists>\<tau>. execs ev \<sigma> ss (Normal \<tau>) \<and>
      updates N memTemps \<sigma> (mem_write (evm_memory N \<sigma>) a (be_fixed 32 v)) \<tau>)"
      by (rule built_mono) auto
    from built_run[OF this assms(9)] True show ?thesis by simp
  next
    case False
    with built_run[OF avm_scratch.mstore_traps[OF assms(1-3) covers_fresh_ids free _ assms(5,7) _ an(2) assms(6) False] assms(9)]
    show ?thesis by simp
  qed
qed

theorem handleMstore_correct_witness:
  "\<exists>\<tau>. execs aeval (memEnv 2 [(''p'', VU 4090), (''v'', VB [7])])
     (snd (fst (run_state (handleMstore \<lparr>memorySlotCount = 2\<rparr> noAlign noTrack []
       [makeVarExpression ''p'' uint64Type, makeVarExpression ''v'' biguintType]) initialBst))) (Normal \<tau>) \<and>
     mem_read (evm_memory 2 \<tau>) 4090 32 = be_fixed 32 7"
proof -
  let ?\<sigma> = "memEnv 2 [(''p'', VU 4090), (''v'', VB [7])]" and ?p = "makeVarExpression ''p'' uint64Type"
    and ?v = "makeVarExpression ''v'' biguintType" and ?sc = "\<lparr>memorySlotCount = 2\<rparr>"
  obtain t' ss s' where r: "run_state (handleMstore ?sc noAlign noTrack [] [?p, ?v]) initialBst = ((t', ss), s')"
    by (metis prod.exhaust)
  have p: "yval aeval {} ?\<sigma> ?p 4090" by (rule pointer_var) simp_all
  have v: "yword aeval (fresh_ids initialBst) \<tau> ?v 7" if "frame memTemps ?\<sigma> \<tau>" for \<tau>
    using word_var[of \<tau> "''v''" "[7]"] that by (simp add: frame_def be_nat_Cons)
  have "\<exists>\<tau>. execs aeval ?\<sigma> ss (Normal \<tau>) \<and>
    updates 2 memTemps ?\<sigma> (mem_write (evm_memory 2 ?\<sigma>) 4090 (be_fixed 32 7)) \<tau>"
    using handleMstore_correct[OF ref.avm_scratch_axioms _ _ _ p _ v _ r, of 2]
    by (simp add: layout_ok_def ids_free_def noAlign_def noTrack_def makeVarExpression_def slotSize_def
        analyses_ok_def consts_ok_def residues_ok_def operand_ok_def)
  then obtain \<tau> where "execs aeval ?\<sigma> ss (Normal \<tau>)" and m: "evm_memory 2 \<tau> = mem_write (evm_memory 2 ?\<sigma>) 4090 (be_fixed 32 7)"
    by (auto simp: updates_def simp del: be_fixed.simps)
  moreover have "mem_read (evm_memory 2 \<tau>) 4090 32 = be_fixed 32 7"
    using mem_read_write_same[of 4090 "be_fixed 32 7" "evm_memory 2 ?\<sigma>"] unfolding m
    by (simp add: slotSize_def del: be_fixed.simps)
  ultimately show ?thesis using r by auto
qed

text \<open>
  (C28) \<open>mload(addr)\<close> at an address below \<open>2 ^ 64\<close> that the analyses read right (\<open>analyses_ok\<close>) and that is no
  offset of the calldata map, whose entries are returned as they are.  Inside the modelled memory, after
  pending statements that change nothing but the cache of once-evaluated nodes, the built expression
  evaluates to the 32 bytes at the address, also across pages; outside it, for a runtime address, the
  pending statements trap.
\<close>

theorem handleMload_correct:
  assumes "avm_scratch ev" "pages_ok N \<sigma>" "layout_ok sc N" "ids_free s \<sigma>"
    and "yval ev (fresh_ids s) \<sigma> addr a" "a < 2 ^ 64" "calldata a = None" "analyses_ok ev m lc cd \<sigma> addr"
    and "run_state (handleMload sc m lc cd calldata [addr]) s = (r, s')"
  shows "if a + 32 \<le> slotSize * N
    then \<exists>e ss c c'. r = Some e \<and> wtypeOf e = biguintType \<and> preEffects s' = preEffects s @ ss \<and>
      execs ev \<sigma> ss (Normal (\<sigma>\<lparr>cache := c\<rparr>)) \<and>
      ev (\<sigma>\<lparr>cache := c\<rparr>) e = Some (VB (mem_read (evm_memory N \<sigma>) a 32), \<sigma>\<lparr>cache := c'\<rparr>)
    else resolveConstantOffset lc cd addr = None \<longrightarrow>
      (\<exists>ss. preEffects s' = preEffects s @ ss \<and> execs ev \<sigma> ss Trap)"
proof -
  note ok = ok_cache_fresh_ids[OF assms(4), of ev]
  have "avm ev" using assms(1) by (simp add: avm_scratch_def)
  note an = avm.analysed_offset[OF this assms(8,5) ok]
  show ?thesis
  proof (cases "a + 32 \<le> slotSize * N")
    case True
    from built_run[OF avm_scratch.mload_correct[where K = "fresh_ids s" and calldata = calldata and m = m,
        OF assms(1-3) covers_fresh_ids ok assms(5) an(1) assms(7) an(2) True] assms(9)]
    obtain e ss c where e: "r = Some e" "wtypeOf e = biguintType" "preEffects s' = preEffects s @ ss"
      "execs ev \<sigma> ss (Normal (\<sigma>\<lparr>cache := c\<rparr>))" "ok_cache ev (fresh_ids s) \<sigma> c"
      "sbytes ev (fresh_ids s) \<sigma> e (mem_read (evm_memory N \<sigma>) a 32)" by blast
    from svalE[OF e(6,5)] obtain c' where
      "ev (\<sigma>\<lparr>cache := c\<rparr>) e = Some (VB (mem_read (evm_memory N \<sigma>) a 32), \<sigma>\<lparr>cache := c'\<rparr>)" by blast
    with e(1-4) True show ?thesis by auto
  next
    case False
    with built_run[OF avm_scratch.mload_traps[OF assms(1,3) covers_fresh_ids ok assms(5) _ assms(6) False] assms(9)]
    show ?thesis by simp
  qed
qed

theorem handleMload_correct_witness:
  "\<exists>e ss c c'. fst (run_state (handleMload \<lparr>memorySlotCount = 2\<rparr> noAlign Map.empty [] Map.empty
      [makeVarExpression ''p'' uint64Type]) initialBst) = Some e \<and>
     execs aeval (memEnv 2 [(''p'', VU 4090)]) ss (Normal ((memEnv 2 [(''p'', VU 4090)])\<lparr>cache := c\<rparr>)) \<and>
     aeval ((memEnv 2 [(''p'', VU 4090)])\<lparr>cache := c\<rparr>) e =
       Some (VB (mem_read (evm_memory 2 (memEnv 2 [(''p'', VU 4090)])) 4090 32), (memEnv 2 [(''p'', VU 4090)])\<lparr>cache := c'\<rparr>)"
proof -
  let ?\<sigma> = "memEnv 2 [(''p'', VU 4090)]" and ?p = "makeVarExpression ''p'' uint64Type"
  obtain r s' where r: "run_state (handleMload \<lparr>memorySlotCount = 2\<rparr> noAlign Map.empty [] Map.empty [?p]) initialBst = (r, s')"
    by (metis prod.exhaust)
  have p: "yval aeval (fresh_ids initialBst) ?\<sigma> ?p 4090" by (rule pointer_var) simp_all
  have "\<exists>e ss c c'. r = Some e \<and> wtypeOf e = biguintType \<and> preEffects s' = preEffects initialBst @ ss \<and>
    execs aeval ?\<sigma> ss (Normal (?\<sigma>\<lparr>cache := c\<rparr>)) \<and>
    aeval (?\<sigma>\<lparr>cache := c\<rparr>) e = Some (VB (mem_read (evm_memory 2 ?\<sigma>) 4090 32), ?\<sigma>\<lparr>cache := c'\<rparr>)"
    using handleMload_correct[OF ref.avm_scratch_axioms _ _ _ p _ _ _ r, of 2]
    by (simp add: layout_ok_def ids_free_def noAlign_def makeVarExpression_def slotSize_def
        analyses_ok_def consts_ok_def residues_ok_def operand_ok_def)
  with r show ?thesis by auto
qed

text \<open>
  (C29) \<open>mstore8(addr, value)\<close> at an address below \<open>2 ^ 64\<close> writes the low byte of the value there when the 32
  bytes from the address on are inside the modelled memory, and traps otherwise: also for the last 31
  addresses of the memory, where the byte itself would fit.
\<close>

theorem handleMstore8_correct:
  assumes "avm_scratch ev" "pages_ok N \<sigma>" "layout_ok sc N" "ids_free s \<sigma>"
    and "\<And>\<tau>. frame byteTemps \<sigma> \<tau> \<Longrightarrow> yval ev {} \<tau> addr a" "a < 2 ^ 64"
    and "\<And>\<tau>. frame byteTemps \<sigma> \<tau> \<Longrightarrow> yword ev (fresh_ids s) \<tau> value v"
    and "run_state (handleMstore8 sc [addr, value]) s = (ss, s')"
  shows "if a + 32 \<le> slotSize * N
    then \<exists>\<tau>. execs ev \<sigma> ss (Normal \<tau>) \<and> updates N byteTemps \<sigma> (mem_write (evm_memory N \<sigma>) a [word_of_nat (v mod 256)]) \<tau>
    else execs ev \<sigma> ss Trap"
proof -
  have free: "cache \<sigma> k = None" if "k \<in> fresh_ids s" for k
    using assms(4) that by (cases k) (auto simp: ids_free_def fresh_ids_def)
  from built_run[OF avm_scratch.mstore8_correct[OF assms(1-3) covers_fresh_ids free assms(5-7)] assms(8)]
  show ?thesis by simp
qed

definition mstore8_run :: "stmt list" where
  "mstore8_run = fst (run_state (handleMstore8 \<lparr>memorySlotCount = 1\<rparr>
     [makeVarExpression ''p'' uint64Type, makeVarExpression ''v'' biguintType]) initialBst)"

theorem handleMstore8_correct_witness:
  "execs aeval (memEnv 1 [(''p'', VU 4070), (''v'', VB [7])]) mstore8_run Trap \<and>
   (\<exists>\<tau>. execs aeval (memEnv 1 [(''p'', VU 4064), (''v'', VB [7])]) mstore8_run (Normal \<tau>) \<and>
     evm_memory 1 \<tau> = mem_write (evm_memory 1 (memEnv 1 [(''p'', VU 4064), (''v'', VB [7])])) 4064 [7])"
proof -
  let ?\<sigma> = "\<lambda>a. memEnv 1 [(''p'', VU a), (''v'', VB [7])]" and ?p = "makeVarExpression ''p'' uint64Type"
    and ?v = "makeVarExpression ''v'' biguintType" and ?sc = "\<lparr>memorySlotCount = 1\<rparr>"
  obtain ss s' where r: "run_state (handleMstore8 ?sc [?p, ?v]) initialBst = (ss, s')" by (metis prod.exhaust)
  have run: "if a + 32 \<le> slotSize * 1
    then \<exists>\<tau>. execs aeval (?\<sigma> a) ss (Normal \<tau>) \<and> updates 1 byteTemps (?\<sigma> a) (mem_write (evm_memory 1 (?\<sigma> a)) a [word_of_nat (7 mod 256)]) \<tau>
    else execs aeval (?\<sigma> a) ss Trap" if "a < 2 ^ 64" for a
  proof (rule handleMstore8_correct[OF ref.avm_scratch_axioms _ _ _ _ that _ r])
    show "yval aeval {} \<tau> ?p a" if "frame byteTemps (?\<sigma> a) \<tau>" for \<tau>
      using pointer_var[of \<tau> "''p''" a] that \<open>a < 2 ^ 64\<close> by (simp add: frame_def byteTemps_def)
    show "yword aeval (fresh_ids initialBst) \<tau> ?v 7" if "frame byteTemps (?\<sigma> a) \<tau>" for \<tau>
      using word_var[of \<tau> "''v''" "[7]"] that by (simp add: frame_def byteTemps_def be_nat_Cons)
  qed (simp_all add: layout_ok_def ids_free_def)
  show ?thesis using run[of 4070] run[of 4064] r by (auto simp: slotSize_def mstore8_run_def updates_def)
qed

section \<open>A constant offset in the last 31 bytes\<close>

text \<open>
  (C30) A constant offset in the last 31 bytes of memory passes the check of \<open>writeMemWordConst\<close>, which
  looks at the page of the first byte only: no error is reported, and the tail of the word overwrites the
  start of the slot after the last page, the blob of transient storage.
\<close>

theorem writeMemWordConst_overwrites_transient:
  assumes "avm_scratch ev" "layout_ok sc N" "pages_ok (N + 1) \<sigma>" "ids_free s \<sigma>"
    and "slotSize * N < off + 32" "off < slotSize * N"
    and "sbytes ev (fresh_ids s) \<sigma> value w" "length w = 32"
    and "run_state (writeMemWordConst sc off value) s = (ss, s')"
  shows "errors s' = errors s \<and> (\<exists>\<tau>. execs ev \<sigma> ss (Normal \<tau>) \<and>
    page \<tau> (nat (transientSlot sc)) = mem_write (page \<sigma> (nat (transientSlot sc))) 0 (drop (slotSize * N - off) w))"
proof -
  let ?k = "slotSize * N - off"
  have t: "nat (transientSlot sc) = N" using assms(2) by (simp add: layout_ok_def transientSlot_def)
  have fit: "off + 32 \<le> slotSize * (N + 1)" using assms(6) slotSize_pos(3) unfolding distrib_left mult_1_right by linarith
  from avm_scratch.writeMemWordConst_correct[OF assms(1,3) _ fit assms(2,6,7,8) ok_cache_fresh_ids[OF assms(4)]] assms(2)
  have "built (writeMemWordConst sc off value) s (\<lambda>ss s'. s' = s \<and> (\<exists>\<tau>. execs ev \<sigma> ss (Normal \<tau>) \<and>
      updates (N + 1) memTemps \<sigma> (mem_write (evm_memory (N + 1) \<sigma>) off w) \<tau>))" by (simp add: layout_ok_def)
  from built_run[OF this assms(9)] obtain \<tau> where s: "s' = s" and run: "execs ev \<sigma> ss (Normal \<tau>)"
    and ok: "pages_ok (N + 1) \<tau>" and m: "evm_memory (N + 1) \<tau> = mem_write (evm_memory (N + 1) \<sigma>) off w"
    by (auto simp: updates_def)
  have "page \<tau> N = mem_write (page \<sigma> N) 0 (drop ?k w)"
  proof (rule nth_equalityI)
    have k: "?k \<le> 32" "0 < ?k" using assms(5,6) by linarith+
    have l: "length (page \<tau> N) = slotSize" "length (page \<sigma> N) = slotSize"
      using length_page[OF ok] length_page[OF assms(3)] by simp_all
    have "32 - ?k \<le> slotSize" using slotSize_pos(3) by linarith
    then have d: "0 + length (drop ?k w) \<le> length (page \<sigma> N)" using l(2) assms(8) by simp
    then show "length (page \<tau> N) = length (mem_write (page \<sigma> N) 0 (drop ?k w))" using l by simp
    fix j assume j: "j < length (page \<tau> N)"
    have "page \<tau> N ! j = evm_memory (N + 1) \<tau> ! (slotSize * N + j)"
      using evm_memory_nth[OF ok, of N j] j l by simp
    also have "\<dots> = (if off \<le> slotSize * N + j \<and> slotSize * N + j < off + length w
        then w ! (slotSize * N + j - off) else evm_memory (N + 1) \<sigma> ! (slotSize * N + j))"
      unfolding m by (rule mem_write_nth) (use fit assms(3,8) j l in simp_all)
    also have "evm_memory (N + 1) \<sigma> ! (slotSize * N + j) = page \<sigma> N ! j"
      using evm_memory_nth[OF assms(3), of N j] j l by simp
    also have "slotSize * N + j - off = ?k + j" using assms(6) by simp
    finally show "page \<tau> N ! j = mem_write (page \<sigma> N) 0 (drop ?k w) ! j"
      using mem_write_nth[OF d, of j] j l assms(6,8) k by (auto simp: add.commute)
  qed
  with s run t show ?thesis by auto
qed

theorem writeMemWordConst_overwrites_transient_witness:
  "\<exists>\<tau>. execs aeval (memEnv 2 [(''v'', VB (replicate 32 7))])
     (fst (run_state (writeMemWordConst \<lparr>memorySlotCount = 1\<rparr> 4080 (makeVarExpression ''v'' bytesType)) initialBst)) (Normal \<tau>) \<and>
     page \<tau> 1 \<noteq> page (memEnv 2 [(''v'', VB (replicate 32 7))]) 1"
proof -
  let ?\<sigma> = "memEnv 2 [(''v'', VB (replicate 32 7))]" and ?v = "makeVarExpression ''v'' bytesType" and ?sc = "\<lparr>memorySlotCount = 1\<rparr>"
  obtain ss s' where r: "run_state (writeMemWordConst ?sc 4080 ?v) initialBst = (ss, s')" by (metis prod.exhaust)
  have v: "sbytes aeval (fresh_ids initialBst) ?\<sigma> ?v (replicate 32 7)"
    unfolding makeVarExpression_def by (rule ref.sval_var) simp
  have ok: "pages_ok (1 + 1) ?\<sigma>" using memEnv_sel(3)[of 2] by (simp add: numeral_2_eq_2 One_nat_def)
  have "errors s' = errors initialBst \<and> (\<exists>\<tau>. execs aeval ?\<sigma> ss (Normal \<tau>) \<and>
    page \<tau> (nat (transientSlot ?sc)) = mem_write (page ?\<sigma> (nat (transientSlot ?sc))) 0 (drop (slotSize * 1 - 4080) (replicate 32 7)))"
    by (rule writeMemWordConst_overwrites_transient[OF ref.avm_scratch_axioms _ ok _ _ _ v _ r])
       (simp_all add: layout_ok_def ids_free_def slotSize_def)
  then obtain \<tau> where run: "execs aeval ?\<sigma> ss (Normal \<tau>)"
    and p: "page \<tau> 1 = mem_write (page ?\<sigma> 1) 0 (replicate 16 7)" by (auto simp: transientSlot_def slotSize_def)
  have "mem_write (page ?\<sigma> 1) 0 (replicate 16 7) ! 0 = 7" by (simp add: mem_write_def nth_append)
  moreover have "page ?\<sigma> 1 ! 0 = 0" by (simp add: page_def memEnv_def)
  ultimately have "page \<tau> 1 \<noteq> page ?\<sigma> 1" using p by auto
  with run r show ?thesis by auto
qed

end
