(* ===== verification/RootNodes.thy ===== *)
theory RootNodes
  imports Nodes
begin

text \<open>
  The contract-level nodes of \<open>src/src/awst/Node.h\<close>: methods, subroutines and the three kinds of root
  node, with their documentation and ARC-4 method configuration.  A null body is \<open>None\<close>.  As in the
  expressions and statements, the source locations are left out.
\<close>

record MethodDocumentation =
  md_description :: "string option"
  md_args :: "(string \<times> string) list"
  md_returns :: "string option"

definition noDocumentation :: MethodDocumentation where
  "noDocumentation = \<lparr>md_description = None, md_args = [], md_returns = None\<rparr>"

text \<open>
  The fields of a bare configuration are the completion types and the creation option; those of an
  ABI method are, further, its name, the read-only flag, the default arguments and the chunk.
\<close>

datatype ARC4MethodConfig =
    ARC4BareMethodConfig "int list" int
  | ARC4ABIMethodConfig "int list" int string bool "(string \<times> string) list" string

record ContractMethod =
  cm_args :: "(string \<times> wtype) list"
  cm_returnType :: wtype
  cm_body :: "stmt option"
  cm_documentation :: MethodDocumentation
  cm_inlineOpt :: "bool option"
  cm_pure :: bool
  cm_cref :: string
  cm_memberName :: string
  cm_arc4MethodConfig :: "ARC4MethodConfig option"

record AppStorageDefinition =
  as_memberName :: string
  as_storageKind :: AppStorageKind
  as_storageWType :: wtype
  as_key :: "expr option"
  as_isMap :: bool
  as_description :: "string option"

record StateTotals =
  globalUints :: "int option"
  localUints :: "int option"
  globalBytes :: "int option"
  localBytes :: "int option"

record Contract =
  ct_id :: string
  ct_name :: string
  ct_description :: "string option"
  methodResolutionOrder :: "string list"
  approvalProgram :: ContractMethod
  clearProgram :: ContractMethod
  ct_methods :: "ContractMethod list"
  appState :: "AppStorageDefinition list"
  stateTotals :: "StateTotals option"
  ct_reservedScratchSpace :: "int list"
  ct_avmVersion :: "int option"
  splitter :: string

record Subroutine =
  sub_id :: string
  sub_name :: string
  sub_args :: "(string \<times> wtype) list"
  returnType :: wtype
  sub_body :: "stmt option"
  sub_documentation :: MethodDocumentation
  inlineOpt :: "bool option"
  sub_pure :: bool

definition makeSubroutine ::
    "string \<Rightarrow> string \<Rightarrow> (string \<times> wtype) list \<Rightarrow> wtype \<Rightarrow> stmt option \<Rightarrow> bool \<Rightarrow> Subroutine" where
  "makeSubroutine i n args rt body p =
     \<lparr>sub_id = i, sub_name = n, sub_args = args, returnType = rt, sub_body = body,
      sub_documentation = noDocumentation, inlineOpt = None, sub_pure = p\<rparr>"

record LogicSignature =
  ls_id :: string
  ls_shortName :: string
  ls_program :: "Subroutine option"
  ls_docstring :: "string option"
  ls_reservedScratchSpace :: "int list"
  ls_avmVersion :: "int option"
  ls_validateEncoding :: "bool option"

datatype RootNode =
    SubroutineRoot Subroutine
  | ContractRoot Contract
  | LogicSignatureRoot LogicSignature

end
