(* ===== verification/Ripemd160.thy ===== *)
theory Ripemd160
  imports AwstExec Coercion RootNodes
begin

text \<open>
  The subroutine \<open>__builtin_ripemd160\<close> (\<open>builder/builtin/Ripemd160Builder.cpp\<close>): an AWST program that
  hashes a byte string, with 32-bit words held in \<open>uint64\<close> variables.  One definition per function of
  the file; the lambdas of a function are definitions next to it.
\<close>

unbundle bit_operations_syntax

section \<open>Helpers\<close>

definition u64Const :: "nat \<Rightarrow> expr" where
  "u64Const v = makeIntegerConstantU64 v uint64Type"

definition u64Local :: "string \<Rightarrow> expr" where
  "u64Local name = makeVarExpression name uint64Type"

definition bytesLocal :: "string \<Rightarrow> expr" where
  "bytesLocal name = makeVarExpression name bytesType"

text \<open>The overload with a constant right operand is \<open>u64BinOpC\<close>.\<close>

definition u64BinOp :: "expr \<Rightarrow> UInt64BinaryOperator \<Rightarrow> expr \<Rightarrow> expr" where
  "u64BinOp l oper r = makeUInt64BinOp l oper r"

definition u64BinOpC :: "expr \<Rightarrow> UInt64BinaryOperator \<Rightarrow> nat \<Rightarrow> expr" where
  "u64BinOpC l oper r = makeUInt64BinOp l oper (u64Const r)"

definition mask32 :: "expr \<Rightarrow> expr" where
  "mask32 e = u64BinOpC e U64BitAnd 0xFFFFFFFF"

definition add32 :: "expr \<Rightarrow> expr \<Rightarrow> expr" where
  "add32 a b = mask32 (u64BinOp a U64Add b)"

definition rol32Var :: "string \<Rightarrow> string \<Rightarrow> expr" where
  "rol32Var xName nName =
     (let lo = u64BinOp (u64Local xName) U64LShift (u64Local nName);
          comp = u64BinOp (u64Const 32) U64Sub (u64Local nName);
          hi = u64BinOp (u64Local xName) U64RShift comp
      in mask32 (u64BinOp lo U64BitOr hi))"

definition rol32Const :: "string \<Rightarrow> nat \<Rightarrow> expr" where
  "rol32Const xName n =
     (let lo = u64BinOp (u64Local xName) U64LShift (u64Const n);
          hi = u64BinOp (u64Local xName) U64RShift (u64Const (32 - n))
      in mask32 (u64BinOp lo U64BitOr hi))"

definition not32 :: "expr \<Rightarrow> expr" where
  "not32 x = u64BinOpC x U64BitXor 0xFFFFFFFF"

definition assignStmt :: "expr \<Rightarrow> expr \<Rightarrow> stmt builder" where
  "assignStmt target value = makeAssignmentStatement target value"

definition bytesLen :: "expr \<Rightarrow> expr" where
  "bytesLen b = makeIntrinsicCall ''len'' uint64Type [] [b]"

definition concatBytes :: "expr \<Rightarrow> expr \<Rightarrow> expr" where
  "concatBytes a b = makeConcat a b"

definition getByte :: "expr \<Rightarrow> expr \<Rightarrow> expr" where
  "getByte b off = makeIntrinsicCall ''getbyte'' uint64Type [] [b, off]"

definition setByte :: "expr \<Rightarrow> expr \<Rightarrow> expr \<Rightarrow> expr" where
  "setByte b off v = makeIntrinsicCall ''setbyte'' bytesType [] [b, off, v]"

definition oneByte :: "byte \<Rightarrow> expr" where
  "oneByte v = makeBytesConstant [v] EncBase16 bytesType"

definition leByteAt :: "string \<Rightarrow> string \<Rightarrow> nat \<Rightarrow> expr" where
  "leByteAt bName offName i = getByte (bytesLocal bName) (u64BinOp (u64Local offName) U64Add (u64Const i))"

definition readLeWord :: "string \<Rightarrow> string \<Rightarrow> expr" where
  "readLeWord bName offName =
     (let b0 = leByteAt bName offName 0;
          b1 = u64BinOpC (leByteAt bName offName 1) U64LShift 8;
          b2 = u64BinOpC (leByteAt bName offName 2) U64LShift 16;
          b3 = u64BinOpC (leByteAt bName offName 3) U64LShift 24;
          or01 = u64BinOp b0 U64BitOr b1;
          or012 = u64BinOp or01 U64BitOr b2
      in u64BinOp or012 U64BitOr b3)"

text \<open>The byte of a word at a shift, as the lambdas \<open>byte\<close> and \<open>bitsByte\<close>.\<close>

definition wordByte :: "string \<Rightarrow> nat \<Rightarrow> expr" where
  "wordByte wName shift = u64BinOpC (u64BinOpC (u64Local wName) U64RShift shift) U64BitAnd 0xFF"

definition wordLeBytes :: "string \<Rightarrow> expr" where
  "wordLeBytes wName =
     (let buf0 = makeBzeroExpr (u64Const 4);
          buf1 = setByte buf0 (u64Const 0) (wordByte wName 0);
          buf2 = setByte buf1 (u64Const 1) (wordByte wName 8);
          buf3 = setByte buf2 (u64Const 2) (wordByte wName 16)
      in setByte buf3 (u64Const 3) (wordByte wName 24))"

section \<open>Tables\<close>

definition shiftsTable :: bytes where
  "shiftsTable =
     [11, 14, 15, 12, 5, 8, 7, 9, 11, 13, 14, 15, 6, 7, 9, 8,
      12, 13, 11, 15, 6, 9, 9, 7, 12, 15, 11, 13, 7, 8, 7, 7,
      13, 15, 14, 11, 7, 7, 6, 8, 13, 14, 13, 12, 5, 5, 6, 9,
      14, 11, 12, 14, 8, 6, 5, 5, 15, 12, 15, 14, 9, 9, 8, 6,
      15, 12, 13, 13, 9, 5, 8, 6, 14, 11, 12, 11, 8, 6, 5, 5]"

definition rhoTable :: bytes where
  "rhoTable = [7, 4, 13, 1, 10, 6, 15, 3, 12, 0, 9, 5, 2, 14, 11, 8]"

fun indexLineLoop :: "nat \<Rightarrow> byte \<Rightarrow> byte \<Rightarrow> bytes" where
  "indexLineLoop 0 prev step = []"
| "indexLineLoop (Suc n) prev step = (let v = (prev + step) AND 0x0F in v # indexLineLoop n v step)"

definition indexLine :: "byte \<Rightarrow> byte \<Rightarrow> bytes" where
  "indexLine start step = (start AND 0x0F) # indexLineLoop 15 (start AND 0x0F) step"

fun indexRounds :: "nat \<Rightarrow> bytes \<Rightarrow> bytes" where
  "indexRounds 0 cur = []"
| "indexRounds (Suc n) cur = cur @ indexRounds n (map (\<lambda>v. rhoTable ! unat v) cur)"

definition fullIndexTable :: "bytes \<Rightarrow> bytes" where
  "fullIndexTable initial = indexRounds 5 initial"

section \<open>The round functions\<close>

definition ternary :: "expr \<Rightarrow> expr \<Rightarrow> expr \<Rightarrow> expr" where
  "ternary c t e = ConditionalExpression uint64Type c t e"

definition varEq :: "string \<Rightarrow> nat \<Rightarrow> expr" where
  "varEq x v = makeNumericCompare (u64Local x) Eq (u64Const v)"

definition buildFnDispatch :: "string \<Rightarrow> string \<Rightarrow> string \<Rightarrow> string \<Rightarrow> expr" where
  "buildFnDispatch fnName bName cName dName =
     (let b = u64Local bName; c = u64Local cName; d = u64Local dName;
          f1 = u64BinOp (u64BinOp b U64BitXor c) U64BitXor d;
          f2 = mask32 (u64BinOp (u64BinOp b U64BitAnd c) U64BitOr (u64BinOp (not32 b) U64BitAnd d));
          f3 = u64BinOp (u64BinOp b U64BitOr (not32 c)) U64BitXor d;
          f4 = mask32 (u64BinOp (u64BinOp b U64BitAnd d) U64BitOr (u64BinOp c U64BitAnd (not32 d)));
          f5 = u64BinOp b U64BitXor (u64BinOp c U64BitOr (not32 d));
          inner4 = ternary (varEq fnName 4) f4 f5;
          inner3 = ternary (varEq fnName 3) f3 inner4;
          inner2 = ternary (varEq fnName 2) f2 inner3
      in ternary (varEq fnName 1) f1 inner2)"

section \<open>One line of rounds\<close>

text \<open>A list of assignments, built in order.\<close>

fun assignments :: "(expr \<times> expr) list \<Rightarrow> stmt list builder" where
  "assignments [] = ret []"
| "assignments ((t, v) # as) = do { s \<leftarrow> assignStmt t v; ss \<leftarrow> assignments as; ret (s # ss) }"

definition roundConstant :: "nat list \<Rightarrow> expr" where
  "roundConstant ks =
     ternary (varEq ''round'' 0) (u64Const (ks ! 0))
       (ternary (varEq ''round'' 1) (u64Const (ks ! 1))
         (ternary (varEq ''round'' 2) (u64Const (ks ! 2))
           (ternary (varEq ''round'' 3) (u64Const (ks ! 3)) (u64Const (ks ! 4)))))"

definition lineInit :: "bytes \<Rightarrow> bytes \<Rightarrow> string \<Rightarrow> (expr \<times> expr) list" where
  "lineInit indexTbl fnTbl wPfx =
     map (\<lambda>i. (u64Local (wPfx @ dec_of_nat i), u64Local (''h'' @ dec_of_nat i))) [0..<5] @
     [(bytesLocal (wPfx @ ''_idx''), makeBytesConstant indexTbl EncBase16 bytesType),
      (bytesLocal (wPfx @ ''_fn''), makeBytesConstant fnTbl EncBase16 bytesType),
      (bytesLocal (wPfx @ ''_sh''), makeBytesConstant shiftsTable EncBase16 bytesType),
      (u64Local ''round'', u64Const 0)]"

definition roundInit :: "nat list \<Rightarrow> string \<Rightarrow> (expr \<times> expr) list" where
  "roundInit ksTbl wPfx =
     [(u64Local ''fn'', getByte (bytesLocal (wPfx @ ''_fn'')) (u64Local ''round'')),
      (u64Local ''k'', roundConstant ksTbl),
      (u64Local ''roundBase'', u64BinOpC (u64Local ''round'') U64Mult 16),
      (u64Local ''i'', u64Const 0)]"

definition stepAssigns :: "string \<Rightarrow> (expr \<times> expr) list" where
  "stepAssigns w =
     [(u64Local ''idx'', getByte (bytesLocal (w @ ''_idx'')) (u64BinOp (u64Local ''roundBase'') U64Add (u64Local ''i''))),
      (u64Local ''shift'', getByte (bytesLocal (w @ ''_sh'')) (u64BinOp (u64Local ''roundBase'') U64Add (u64Local ''idx''))),
      (u64Local ''xOff'', u64BinOp (u64Local ''pos'') U64Add (u64BinOpC (u64Local ''idx'') U64Mult 4)),
      (u64Local ''xi'', readLeWord ''padded'' ''xOff''),
      (u64Local ''fnVal'', buildFnDispatch ''fn'' (w @ ''1'') (w @ ''2'') (w @ ''3'')),
      (u64Local ''sum'', add32 (add32 (add32 (u64Local (w @ ''0'')) (u64Local ''fnVal'')) (u64Local ''xi'')) (u64Local ''k'')),
      (u64Local ''sum'', add32 (rol32Var ''sum'' ''shift'') (u64Local (w @ ''4''))),
      (u64Local ''tmp'', u64Local ''sum''),
      (u64Local (w @ ''0''), u64Local (w @ ''4'')),
      (u64Local (w @ ''4''), u64Local (w @ ''3'')),
      (u64Local (w @ ''3''), rol32Const (w @ ''2'') 10),
      (u64Local (w @ ''2''), u64Local (w @ ''1'')),
      (u64Local (w @ ''1''), u64Local ''tmp''),
      (u64Local ''i'', u64BinOpC (u64Local ''i'') U64Add 1)]"

definition emitLine :: "bytes \<Rightarrow> bytes \<Rightarrow> nat list \<Rightarrow> string \<Rightarrow> stmt list builder" where
  "emitLine indexTbl fnTbl ksTbl wPfx = do {
     ini \<leftarrow> assignments (lineInit indexTbl fnTbl wPfx);
     roundBody \<leftarrow> assignments (roundInit ksTbl wPfx);
     innerBody \<leftarrow> assignments (stepAssigns wPfx);
     let innerLoop = WhileLoop (makeNumericCompare (u64Local ''i'') Lt (u64Const 16)) (Some (makeBlock innerBody));
     next \<leftarrow> assignments [(u64Local ''round'', u64BinOpC (u64Local ''round'') U64Add 1)];
     let roundLoop = WhileLoop (makeNumericCompare (u64Local ''round'') Lt (u64Const 5))
                       (Some (makeBlock (roundBody @ innerLoop # next)));
     ret (ini @ [roundLoop])
   }"

definition fnLeftTbl :: bytes where "fnLeftTbl = [1, 2, 3, 4, 5]"
definition fnRightTbl :: bytes where "fnRightTbl = [5, 4, 3, 2, 1]"

definition ksLeftTbl :: "nat list" where
  "ksLeftTbl = [0x00000000, 0x5a827999, 0x6ed9eba1, 0x8f1bbcdc, 0xa953fd4e]"

definition ksRightTbl :: "nat list" where
  "ksRightTbl = [0x50a28be6, 0x5c4dd124, 0x6d703ef3, 0x7a6d76e9, 0x00000000]"

definition combine :: "string \<Rightarrow> string \<Rightarrow> nat \<Rightarrow> nat \<Rightarrow> expr \<times> expr" where
  "combine dst hSrc li ri =
     (u64Local dst, add32 (add32 (u64Local hSrc) (u64Local (''L'' @ dec_of_nat li))) (u64Local (''R'' @ dec_of_nat ri)))"

definition emitProcessChunk :: "stmt list builder" where
  "emitProcessChunk = do {
     left \<leftarrow> emitLine (fullIndexTable (indexLine 0 1)) fnLeftTbl ksLeftTbl ''L'';
     right \<leftarrow> emitLine (fullIndexTable (indexLine 5 9)) fnRightTbl ksRightTbl ''R'';
     mix \<leftarrow> assignments
       [(u64Local ''htmp'', add32 (add32 (u64Local ''h0'') (u64Local ''L1'')) (u64Local ''R2'')),
        combine ''h0'' ''h1'' 2 3,
        combine ''h1'' ''h2'' 3 4,
        combine ''h2'' ''h3'' 4 0,
        combine ''h3'' ''h4'' 0 1,
        (u64Local ''h4'', u64Local ''htmp'')];
     ret (left @ right @ mix)
   }"

section \<open>The subroutine\<close>

definition ripemd160SubroutineId :: string where
  "ripemd160SubroutineId = ''__builtin_ripemd160''"

fun lengthBytes :: "nat \<Rightarrow> nat \<Rightarrow> expr \<Rightarrow> expr" where
  "lengthBytes 0 i buf = buf"
| "lengthBytes (Suc n) i buf = lengthBytes n (i + 1) (setByte buf (u64Const i) (wordByte ''bits'' (i * 8)))"

definition padInit :: "(expr \<times> expr) list" where
  "padInit =
     [(u64Local ''h0'', u64Const 0x67452301),
      (u64Local ''h1'', u64Const 0xefcdab89),
      (u64Local ''h2'', u64Const 0x98badcfe),
      (u64Local ''h3'', u64Const 0x10325476),
      (u64Local ''h4'', u64Const 0xc3d2e1f0),
      (u64Local ''dataLen'', bytesLen (bytesLocal ''data'')),
      (u64Local ''bits'', u64BinOpC (u64Local ''dataLen'') U64Mult 8),
      (u64Local ''padLen'',
        u64BinOpC (u64BinOpC (u64BinOpC (u64Local ''dataLen'') U64Add 72) U64RShift 6) U64LShift 6),
      (bytesLocal ''padded'',
        concatBytes (concatBytes (bytesLocal ''data'') (oneByte 0x80))
          (makeBzeroExpr (u64BinOp (u64BinOp (u64Local ''padLen'') U64Sub (u64Local ''dataLen'')) U64Sub (u64Const 9)))),
      (bytesLocal ''padded'', concatBytes (bytesLocal ''padded'') (lengthBytes 8 0 (makeBzeroExpr (u64Const 8)))),
      (u64Local ''pos'', u64Const 0)]"

definition digestExpr :: expr where
  "digestExpr =
     concatBytes (concatBytes (concatBytes (concatBytes (wordLeBytes ''h0'') (wordLeBytes ''h1''))
       (wordLeBytes ''h2'')) (wordLeBytes ''h3'')) (wordLeBytes ''h4'')"

definition buildRipemd160Body :: "stmt list builder" where
  "buildRipemd160Body = do {
     ini \<leftarrow> assignments padInit;
     chunk \<leftarrow> emitProcessChunk;
     next \<leftarrow> assignments [(u64Local ''pos'', u64BinOpC (u64Local ''pos'') U64Add 64)];
     let chunkLoop = WhileLoop (makeNumericCompare (u64Local ''pos'') Lt (u64Local ''padLen''))
                       (Some (makeBlock (chunk @ next)));
     ret (ini @ [chunkLoop, makeReturnStatement (Some digestExpr)])
   }"

definition buildRipemd160Subroutine :: "Subroutine builder" where
  "buildRipemd160Subroutine = do {
     body \<leftarrow> buildRipemd160Body;
     ret \<lparr>sub_id = ripemd160SubroutineId, sub_name = ripemd160SubroutineId,
          sub_args = [(''data'', bytesType)], returnType = bytesType, sub_body = Some (makeBlock body),
          sub_documentation = noDocumentation, inlineOpt = Some False, sub_pure = True\<rparr>
   }"

end
