(* ===== verification/Ripemd160Reference.thy ===== *)
theory Ripemd160Reference
  imports Prelude
begin

text \<open>
  RIPEMD-160 as its authors specify it: two lines of five rounds of sixteen steps on 32-bit words,
  message words selected through powers of the permutation \<open>rho\<close> (after \<open>pi\<close> in the right line),
  rotations given per round and message word, and the padding and byte order of MD4.
\<close>

unbundle bit_operations_syntax

type_synonym chain = "32 word \<times> 32 word \<times> 32 word \<times> 32 word \<times> 32 word"

definition rol32 :: "nat \<Rightarrow> 32 word \<Rightarrow> 32 word" where
  "rol32 n w = push_bit n w OR drop_bit (32 - n) w"

text \<open>The five bitwise functions.\<close>

definition roundFn :: "nat \<Rightarrow> 32 word \<Rightarrow> 32 word \<Rightarrow> 32 word \<Rightarrow> 32 word" where
  "roundFn n x y z =
     (if n = 1 then (x XOR y) XOR z
      else if n = 2 then (x AND y) OR (NOT x AND z)
      else if n = 3 then (x OR NOT y) XOR z
      else if n = 4 then (x AND z) OR (y AND NOT z)
      else x XOR (y OR NOT z))"

definition rho :: "nat \<Rightarrow> nat" where
  "rho i = [7, 4, 13, 1, 10, 6, 15, 3, 12, 0, 9, 5, 2, 14, 11, 8] ! i"

definition wordLeft :: "nat \<Rightarrow> nat \<Rightarrow> nat" where
  "wordLeft r i = (rho ^^ r) i"

definition wordRight :: "nat \<Rightarrow> nat \<Rightarrow> nat" where
  "wordRight r i = (rho ^^ r) ((9 * i + 5) mod 16)"

text \<open>The rotation of message word \<open>w\<close> in round \<open>r\<close>, the same in both lines.\<close>

definition rotation :: "nat \<Rightarrow> nat \<Rightarrow> nat" where
  "rotation r w =
     [[11, 14, 15, 12, 5, 8, 7, 9, 11, 13, 14, 15, 6, 7, 9, 8],
      [12, 13, 11, 15, 6, 9, 9, 7, 12, 15, 11, 13, 7, 8, 7, 7],
      [13, 15, 14, 11, 7, 7, 6, 8, 13, 14, 13, 12, 5, 5, 6, 9],
      [14, 11, 12, 14, 8, 6, 5, 5, 15, 12, 15, 14, 9, 9, 8, 6],
      [15, 12, 13, 13, 9, 5, 8, 6, 14, 11, 12, 11, 8, 6, 5, 5]] ! r ! w"

text \<open>The integer parts of \<open>2^30\<close> times square roots (left) and cube roots (right) of 2, 3, 5, 7.\<close>

definition constLeft :: "nat \<Rightarrow> 32 word" where
  "constLeft r = [0, 0x5a827999, 0x6ed9eba1, 0x8f1bbcdc, 0xa953fd4e] ! r"

definition constRight :: "nat \<Rightarrow> 32 word" where
  "constRight r = [0x50a28be6, 0x5c4dd124, 0x6d703ef3, 0x7a6d76e9, 0] ! r"

fun chainStep :: "nat \<Rightarrow> nat \<Rightarrow> 32 word \<Rightarrow> 32 word \<Rightarrow> chain \<Rightarrow> chain" where
  "chainStep s n x k (a, b, c, d, e) =
     (e, rol32 s (a + roundFn n b c d + x + k) + e, b, rol32 10 c, d)"

text \<open>A line: \<open>fn\<close> and \<open>ks\<close> per round, \<open>sel\<close> the message word of a step.\<close>

definition lineStep ::
    "(nat \<Rightarrow> nat) \<Rightarrow> (nat \<Rightarrow> 32 word) \<Rightarrow> (nat \<Rightarrow> nat \<Rightarrow> nat) \<Rightarrow> (nat \<Rightarrow> 32 word) \<Rightarrow> nat \<Rightarrow> nat \<Rightarrow> chain \<Rightarrow> chain" where
  "lineStep fn ks sel X r i = chainStep (rotation r (sel r i)) (fn r) (X (sel r i)) (ks r)"

definition lineRound where
  "lineRound fn ks sel X r h = fold (lineStep fn ks sel X r) [0..<16] h"

definition line where
  "line fn ks sel X h = fold (lineRound fn ks sel X) [0..<5] h"

definition leftLine :: "(nat \<Rightarrow> 32 word) \<Rightarrow> chain \<Rightarrow> chain" where
  "leftLine = line (\<lambda>r. r + 1) constLeft wordLeft"

definition rightLine :: "(nat \<Rightarrow> 32 word) \<Rightarrow> chain \<Rightarrow> chain" where
  "rightLine = line (\<lambda>r. 5 - r) constRight wordRight"

definition compress :: "(nat \<Rightarrow> 32 word) \<Rightarrow> chain \<Rightarrow> chain" where
  "compress X h =
     (case (h, leftLine X h, rightLine X h) of
        ((h0, h1, h2, h3, h4), (a, b, c, d, e), (a', b', c', d', e')) \<Rightarrow>
          (h1 + c + d', h2 + d + e', h3 + e + a', h4 + a + b', h0 + b + c'))"

text \<open>Little-endian words of a byte string, the padding, and the digest.\<close>

definition leWord :: "bytes \<Rightarrow> nat \<Rightarrow> 32 word" where
  "leWord m i = ucast (m ! i) OR push_bit 8 (ucast (m ! (i + 1))) OR push_bit 16 (ucast (m ! (i + 2)))
                OR push_bit 24 (ucast (m ! (i + 3)))"

definition leBytes :: "nat \<Rightarrow> 'a::len word \<Rightarrow> bytes" where
  "leBytes n v = map (\<lambda>i. ucast (drop_bit (8 * i) v)) [0..<n]"

definition padMessage :: "bytes \<Rightarrow> bytes" where
  "padMessage m =
     (let zeros = 64 * ((length m + 72) div 64) - length m - 9
      in m @ [0x80] @ replicate zeros 0 @ leBytes 8 (word_of_nat (8 * length m) :: 64 word))"

definition initialChain :: chain where
  "initialChain = (0x67452301, 0xefcdab89, 0x98badcfe, 0x10325476, 0xc3d2e1f0)"

definition hashBlocks :: "bytes \<Rightarrow> nat \<Rightarrow> chain" where
  "hashBlocks p n = fold (\<lambda>j. compress (\<lambda>w. leWord p (64 * j + 4 * w))) [0..<n] initialChain"

fun chainBytes :: "chain \<Rightarrow> bytes" where
  "chainBytes (a, b, c, d, e) = concat (map (leBytes 4) [a, b, c, d, e])"

definition ripemd160 :: "bytes \<Rightarrow> bytes" where
  "ripemd160 m = (let p = padMessage m in chainBytes (hashBlocks p (length p div 64)))"

end
