(* ===== verification/Ripemd160Correct.thy ===== *)
theory Ripemd160Correct
  imports Ripemd160 Ripemd160Reference
begin

text \<open>
  The subroutine \<open>__builtin_ripemd160\<close> returns the RIPEMD-160 digest of its argument.  The words of the
  digest state are kept as numbers below \<open>2^32\<close> in \<open>uint64\<close> variables; the lemmas follow the nesting of
  the loops: a step, a round, a line, a chunk, the message.
\<close>

section \<open>Word arithmetic in 64 bits\<close>

lemma and_mask32: "(n::nat) AND 0xFFFFFFFF = n mod 2 ^ 32"
  using take_bit_eq_mask[of 32 n] by (simp add: mask_eq_exp_minus_1 take_bit_eq_mod)

lemma and_mask8: "(n::nat) AND 0xFF = n mod 2 ^ 8"
  using take_bit_eq_mask[of 8 n] by (simp add: mask_eq_exp_minus_1 take_bit_eq_mod)

lemma unat_add32: "(unat (a::32 word) + unat b) mod 2 ^ 32 = unat (a + b)"
  by (simp add: unat_word_ariths)

lemma unat_not32: "unat (a::32 word) XOR 0xFFFFFFFF = unat (NOT a)"
proof -
  have "unat (NOT a) = unat (a XOR (- 1))" by (simp add: bit.xor_one_right)
  also have "\<dots> = unat a XOR unat (- 1 :: 32 word)" by (rule unsigned_xor_eq)
  also have "unat (- 1 :: 32 word) = 0xFFFFFFFF" by (simp add: unsigned_minus_1_eq_mask mask_eq_exp_minus_1)
  finally show ?thesis by simp
qed

lemma unat_push32: "unat (push_bit n (a::32 word)) = unat a * 2 ^ n mod 2 ^ 32"
  unfolding unsigned_push_bit_eq by (simp add: take_bit_eq_mod push_bit_eq_mult)

lemma unat_drop: "unat (drop_bit n (a::'a::len word)) = unat a div 2 ^ n"
  unfolding unsigned_drop_bit_eq
  using unsigned_less[of a] by (simp add: drop_bit_eq_div take_bit_eq_mod le_less_trans[OF div_le_dividend])

lemma unat_word_bound: "unat (w::32 word) < 2 ^ 32" "unat (v::8 word) < 2 ^ 8"
  using unsigned_less[of w] unsigned_less[of v] by simp_all

lemma mod_or: "((a::nat) OR b) mod 2 ^ n = (a mod 2 ^ n) OR (b mod 2 ^ n)"
  by (simp flip: take_bit_eq_mod)

lemma rol32_nat:
  "((unat w * 2 ^ n mod 2 ^ 64) OR (unat w div 2 ^ (32 - n))) mod 2 ^ 32 = unat (rol32 n w)"
proof -
  have "unat w * 2 ^ n mod 2 ^ 64 mod 2 ^ 32 = unat (push_bit n w)"
    by (simp add: unat_push32 mod_mod_cancel)
  moreover have "unat w div 2 ^ (32 - n) mod 2 ^ 32 = unat (drop_bit (32 - n) w)"
    unfolding unat_drop using unat_word_bound(1)[of w] by (intro mod_less le_less_trans[OF div_le_dividend])
  ultimately show ?thesis by (simp only: mod_or rol32_def unsigned_or_eq)
qed

lemma leWord_nat:
  "((unat (b0::8 word) OR (unat (b1::8 word) * 2 ^ 8 mod 2 ^ 64)) OR (unat (b2::8 word) * 2 ^ 16 mod 2 ^ 64))
     OR (unat (b3::8 word) * 2 ^ 24 mod 2 ^ 64)
   = unat (ucast b0 OR push_bit 8 (ucast b1) OR push_bit 16 (ucast b2) OR push_bit 24 (ucast b3) :: 32 word)"
proof -
  have u: "unat (ucast b :: 32 word) = unat b" for b :: "8 word" by (simp add: unsigned_ucast_eq take_bit_nat_eq_self less_trans[OF unat_word_bound(2)])
  have p: "unat (push_bit n (ucast b :: 32 word)) = unat b * 2 ^ n mod 2 ^ 64" if "n \<le> 24" for n and b :: "8 word"
  proof -
    have "unat b * 2 ^ n < 2 ^ 8 * 2 ^ n" using unat_word_bound(2)[of b] by simp
    also have "\<dots> = 2 ^ (8 + n)" by (simp add: power_add)
    also have "\<dots> \<le> 2 ^ 32" using that by (intro power_increasing) simp_all
    finally have "unat b * 2 ^ n < 2 ^ 32" .
    then show ?thesis by (simp add: unat_push32 u)
  qed
  show ?thesis by (simp add: unsigned_or_eq u p or.assoc)
qed

lemma byte_of_shift: "word_of_nat (unat (w::'a::len word) div 2 ^ s mod 2 ^ 8) = (ucast (drop_bit s w) :: 8 word)"
proof (rule word_unat_eq_iff[THEN iffD2])
  have "unat (word_of_nat (unat w div 2 ^ s mod 2 ^ 8) :: 8 word) = unat w div 2 ^ s mod 2 ^ 8"
    by (simp add: unat_of_nat take_bit_eq_mod)
  then show "unat (word_of_nat (unat w div 2 ^ s mod 2 ^ 8) :: 8 word) = unat (ucast (drop_bit s w) :: 8 word)"
    by (simp add: unsigned_ucast_eq take_bit_eq_mod unat_drop)
qed

section \<open>The expressions\<close>

lemma unat_or32: "unat (a OR b :: 32 word) = unat a OR unat b"
  and unat_and32: "unat (a AND b :: 32 word) = unat a AND unat b"
  and unat_xor32: "unat (a XOR b :: 32 word) = unat a XOR unat b"
  by (rule unsigned_or_eq unsigned_and_eq unsigned_xor_eq)+

context avm
begin

text \<open>An expression without side effects that evaluates to a 32-bit word.\<close>

definition word32 where "word32 \<sigma> e w \<longleftrightarrow> su64 ev {} \<sigma> e (unat (w :: 32 word))"

lemma local_u64: "vars \<sigma> x = Some (VU n) \<Longrightarrow> su64 ev {} \<sigma> (u64Local x) n"
  unfolding u64Local_def makeVarExpression_def by (rule sval_var)

lemma local_bytes: "vars \<sigma> x = Some (VB b) \<Longrightarrow> sbytes ev {} \<sigma> (bytesLocal x) b"
  unfolding bytesLocal_def makeVarExpression_def by (rule sval_var)

lemma local_word: "vars \<sigma> x = Some (VU (unat w)) \<Longrightarrow> word32 \<sigma> (u64Local x) w"
  unfolding word32_def by (rule local_u64)

lemma const_u64: "n < 2 ^ 64 \<Longrightarrow> su64 ev {} \<sigma> (u64Const n) n"
  unfolding u64Const_def by (rule su64_const)

lemma bin_u64: "su64 ev {} \<sigma> l a \<Longrightarrow> su64 ev {} \<sigma> r b \<Longrightarrow> u64_op oper a b = Some c \<Longrightarrow> su64 ev {} \<sigma> (u64BinOp l oper r) c"
  unfolding u64BinOp_def makeUInt64BinOp_def by (rule sval_u64_bin)

lemma binC_u64: "su64 ev {} \<sigma> l a \<Longrightarrow> n < 2 ^ 64 \<Longrightarrow> u64_op oper a n = Some c \<Longrightarrow> su64 ev {} \<sigma> (u64BinOpC l oper n) c"
  unfolding u64BinOpC_def makeUInt64BinOp_def by (rule sval_u64_bin[OF _ const_u64])

lemma mask_u64: "su64 ev {} \<sigma> e n \<Longrightarrow> su64 ev {} \<sigma> (mask32 e) (n mod 2 ^ 32)"
  unfolding mask32_def by (erule binC_u64) (simp_all only: u64_op.simps and_mask32, simp)

lemma mask_word: "word32 \<sigma> e w \<Longrightarrow> word32 \<sigma> (mask32 e) w"
  using mask_u64[of \<sigma> e "unat w"] unat_word_bound(1)[of w] by (simp add: word32_def)

lemma add_word:
  assumes "word32 \<sigma> a x" "word32 \<sigma> b y"
  shows "word32 \<sigma> (add32 a b) (x + y)"
proof -
  have "u64_op U64Add (unat x) (unat y) = Some (unat x + unat y)"
    using unat_word_bound(1)[of x] unat_word_bound(1)[of y] by simp
  from mask_u64[OF bin_u64[OF assms[unfolded word32_def] this]] show ?thesis
    by (simp only: add32_def word32_def unat_add32)
qed

lemma bit_words:
  assumes "word32 \<sigma> a x" "word32 \<sigma> b y"
  shows "word32 \<sigma> (u64BinOp a U64BitXor b) (x XOR y)" "word32 \<sigma> (u64BinOp a U64BitAnd b) (x AND y)"
    and "word32 \<sigma> (u64BinOp a U64BitOr b) (x OR y)"
  using assms unfolding word32_def by (auto intro!: bin_u64 simp: unat_or32 unat_and32 unat_xor32)

lemma not_word: "word32 \<sigma> a x \<Longrightarrow> word32 \<sigma> (not32 a) (NOT x)"
  unfolding word32_def not32_def by (erule binC_u64) (simp_all add: unat_not32)

lemma rol_word:
  assumes "vars \<sigma> x = Some (VU (unat w))" "su64 ev {} \<sigma> n k" "su64 ev {} \<sigma> c (32 - k)" "k \<le> 32"
  shows "word32 \<sigma> (mask32 (u64BinOp (u64BinOp (u64Local x) U64LShift n) U64BitOr (u64BinOp (u64Local x) U64RShift c))) (rol32 k w)"
proof -
  have "u64_op U64LShift (unat w) k = Some (unat w * 2 ^ k mod 2 ^ 64)"
    "u64_op U64RShift (unat w) (32 - k) = Some (unat w div 2 ^ (32 - k))" using assms(4) by simp_all
  from mask_u64[OF bin_u64[OF bin_u64[OF local_u64[OF assms(1)] assms(2) this(1)] bin_u64[OF local_u64[OF assms(1)] assms(3) this(2)] u64_op.simps(9)]]
  show ?thesis by (simp only: word32_def rol32_nat)
qed

lemma rolVar_word:
  assumes "vars \<sigma> x = Some (VU (unat w))" "vars \<sigma> n = Some (VU k)" "k \<le> 32"
  shows "word32 \<sigma> (rol32Var x n) (rol32 k w)"
  unfolding rol32Var_def Let_def
  by (rule rol_word[OF assms(1) local_u64[OF assms(2)] bin_u64[OF const_u64 local_u64[OF assms(2)]] assms(3)])
    (use assms(3) in simp_all)

lemma rolConst_word:
  assumes "vars \<sigma> x = Some (VU (unat w))" "k \<le> 32"
  shows "word32 \<sigma> (rol32Const x k) (rol32 k w)"
  unfolding rol32Const_def Let_def
  by (rule rol_word[OF assms(1) const_u64 const_u64 assms(2)]) (use assms(2) in simp_all)

lemma getByte_u64:
  assumes "sbytes ev {} \<sigma> b bs" "su64 ev {} \<sigma> off i" "i < length bs"
  shows "su64 ev {} \<sigma> (getByte b off) (unat (bs ! i))"
  unfolding getByte_def makeIntrinsicCall_def
  by (rule sval_op[where vs = "[VB bs, VU i]"]) (use assms in \<open>simp_all add: pure_ops_def avm_op_def\<close>)

lemma setByte_bytes:
  assumes "sbytes ev {} \<sigma> b bs" "su64 ev {} \<sigma> off i" "su64 ev {} \<sigma> v n" "i < length bs" "n < 256"
  shows "sbytes ev {} \<sigma> (setByte b off v) (bs[i := word_of_nat n])"
  unfolding setByte_def makeIntrinsicCall_def
  by (rule sval_op[where vs = "[VB bs, VU i, VU n]"]) (use assms in \<open>simp_all add: pure_ops_def avm_op_def\<close>)

lemma concat_bytes:
  assumes "sbytes ev {} \<sigma> a x" "sbytes ev {} \<sigma> b y" "length x + length y \<le> 4096"
  shows "sbytes ev {} \<sigma> (concatBytes a b) (x @ y)"
  unfolding concatBytes_def makeConcat_def makeIntrinsicCall_def
  by (rule sval_op[where vs = "[VB x, VB y]"]) (use assms in \<open>simp_all add: pure_ops_def avm_op_def stack_bytes_def\<close>)

lemma bzero_bytes: "su64 ev {} \<sigma> e n \<Longrightarrow> n \<le> 4096 \<Longrightarrow> sbytes ev {} \<sigma> (makeBzeroExpr e) (replicate n 0)"
  unfolding makeBzeroExpr_def makeIntrinsicCall_def
  by (rule sval_op[where vs = "[VU n]"]) (simp_all add: pure_ops_def avm_op_def stack_bytes_def)

lemma len_u64: "sbytes ev {} \<sigma> b bs \<Longrightarrow> su64 ev {} \<sigma> (bytesLen b) (length bs)"
  unfolding bytesLen_def makeIntrinsicCall_def
  by (rule sval_op[where vs = "[VB bs]"]) (simp_all add: pure_ops_def avm_op_def)

lemma varEq_bool: "vars \<sigma> x = Some (VU n) \<Longrightarrow> k < 2 ^ 64 \<Longrightarrow> sbool ev {} \<sigma> (varEq x k) (n = k)"
  unfolding varEq_def makeNumericCompare_def using sval_cmp_u64[OF local_u64 const_u64, where nc = Eq] by simp

lemma ternary_val:
  "sbool ev {} \<sigma> c p \<Longrightarrow> (p \<Longrightarrow> sval ev {} \<sigma> t v) \<Longrightarrow> (\<not> p \<Longrightarrow> sval ev {} \<sigma> e v) \<Longrightarrow> sval ev {} \<sigma> (ternary c t e) v"
  unfolding ternary_def by (rule sval_cond)

lemma fnDispatch_word:
  assumes "vars \<sigma> f = Some (VU n)" "vars \<sigma> b = Some (VU (unat x))" "vars \<sigma> c = Some (VU (unat y))" "vars \<sigma> d = Some (VU (unat z))"
  shows "word32 \<sigma> (buildFnDispatch f b c d) (roundFn n x y z)"
proof -
  note w = local_word[OF assms(2)] local_word[OF assms(3)] local_word[OF assms(4)]
  note e = varEq_bool[OF assms(1)]
  let ?b = "u64Local b" and ?c = "u64Local c" and ?d = "u64Local d"
  have f: "word32 \<sigma> (u64BinOp (u64BinOp ?b U64BitXor ?c) U64BitXor ?d) ((x XOR y) XOR z)"
    "word32 \<sigma> (mask32 (u64BinOp (u64BinOp ?b U64BitAnd ?c) U64BitOr (u64BinOp (not32 ?b) U64BitAnd ?d))) ((x AND y) OR (NOT x AND z))"
    "word32 \<sigma> (u64BinOp (u64BinOp ?b U64BitOr (not32 ?c)) U64BitXor ?d) ((x OR NOT y) XOR z)"
    "word32 \<sigma> (mask32 (u64BinOp (u64BinOp ?b U64BitAnd ?d) U64BitOr (u64BinOp ?c U64BitAnd (not32 ?d)))) ((x AND z) OR (y AND NOT z))"
    "word32 \<sigma> (u64BinOp ?b U64BitXor (u64BinOp ?c U64BitOr (not32 ?d))) (x XOR (y OR NOT z))"
    by (intro bit_words not_word mask_word w)+
  show ?thesis unfolding word32_def buildFnDispatch_def Let_def
    by (intro ternary_val[OF e]) (simp_all only: roundFn_def if_True if_False refl f[unfolded word32_def], simp_all)
qed

lemma readLeWord_word:
  assumes "vars \<sigma> b = Some (VB bs)" "vars \<sigma> off = Some (VU i)" "i + 4 \<le> length bs" "length bs \<le> 4096"
  shows "word32 \<sigma> (readLeWord b off) (leWord bs i)"
proof -
  have byte: "su64 ev {} \<sigma> (leByteAt b off j) (unat (bs ! (i + j)))" if "j < 4" for j
    unfolding leByteAt_def
    by (rule getByte_u64[OF local_bytes[OF assms(1)] bin_u64[OF local_u64[OF assms(2)] const_u64]])
      (use assms(3,4) that in simp_all)
  have shift: "su64 ev {} \<sigma> (u64BinOpC (leByteAt b off j) U64LShift n) (unat (bs ! (i + j)) * 2 ^ n mod 2 ^ 64)"
    if "j < 4" "n < 64" for j n
    by (rule binC_u64[OF byte[OF that(1)]]) (use that(2) in simp_all)
  have "su64 ev {} \<sigma> (readLeWord b off)
      (((unat (bs ! (i + 0)) OR (unat (bs ! (i + 1)) * 2 ^ 8 mod 2 ^ 64)) OR (unat (bs ! (i + 2)) * 2 ^ 16 mod 2 ^ 64))
        OR (unat (bs ! (i + 3)) * 2 ^ 24 mod 2 ^ 64))"
    unfolding readLeWord_def Let_def
    by (intro bin_u64[OF _ _ u64_op.simps(9)] byte shift) simp_all
  then show ?thesis unfolding leWord_nat word32_def leWord_def by simp
qed

lemma wordByte_u64:
  assumes "vars \<sigma> x = Some (VU n)" "s < 64"
  shows "su64 ev {} \<sigma> (wordByte x s) (n div 2 ^ s mod 2 ^ 8)"
proof -
  have "u64_op U64RShift n s = Some (n div 2 ^ s)" using assms(2) by simp
  moreover have "u64_op U64BitAnd (n div 2 ^ s) 0xFF = Some (n div 2 ^ s mod 2 ^ 8)" by (simp only: u64_op.simps and_mask8)
  ultimately show ?thesis unfolding wordByte_def
    by (intro binC_u64[OF binC_u64[OF local_u64[OF assms(1)]]]) (use assms(2) in simp_all)
qed

text \<open>Bytes set one after the other from the start of a zeroed buffer.\<close>

lemma set_next_byte:
  assumes "sbytes ev {} \<sigma> buf (map f [0..<i] @ replicate (n - i) 0)" "vars \<sigma> x = Some (VU v)" "i < n" "n \<le> 8"
    and "f i = word_of_nat (v div 2 ^ (8 * i) mod 2 ^ 8)"
  shows "sbytes ev {} \<sigma> (setByte buf (u64Const i) (wordByte x (8 * i))) (map f [0..<Suc i] @ replicate (n - Suc i) 0)"
proof -
  have "(map f [0..<i] @ replicate (n - i) 0)[i := f i] = map f [0..<Suc i] @ replicate (n - Suc i) 0"
    using assms(3) by (cases "n - i") (auto simp: list_update_append Suc_diff_Suc)
  with setByte_bytes[OF assms(1) const_u64 wordByte_u64[OF assms(2)], of i "8 * i"] assms(3-5) show ?thesis by simp
qed

lemma wordLeBytes_bytes:
  assumes "vars \<sigma> x = Some (VU (unat (w :: 32 word)))"
  shows "sbytes ev {} \<sigma> (wordLeBytes x) (leBytes 4 w)"
proof -
  let ?f = "\<lambda>i. ucast (drop_bit (8 * i) w) :: 8 word"
  note step = set_next_byte[where f = ?f and n = 4, OF _ assms _ _ byte_of_shift[symmetric]]
  have "sbytes ev {} \<sigma> (makeBzeroExpr (u64Const 4)) (map ?f [0..<0] @ replicate (4 - 0) 0)"
    using bzero_bytes[OF const_u64, of 4] by simp
  from step[OF step[OF step[OF step[OF this]]]] show ?thesis
    by (simp add: wordLeBytes_def leBytes_def numeral_eq_Suc)
qed

lemma lengthBytes_bytes:
  assumes "vars \<sigma> ''bits'' = Some (VU (unat (w :: 64 word)))"
  shows "sbytes ev {} \<sigma> (lengthBytes 8 0 (makeBzeroExpr (u64Const 8))) (leBytes 8 w)"
proof -
  let ?f = "\<lambda>i. ucast (drop_bit (8 * i) w) :: 8 word"
  have "sbytes ev {} \<sigma> (lengthBytes k i buf) (map ?f [0..<8])"
    if "sbytes ev {} \<sigma> buf (map ?f [0..<i] @ replicate (8 - i) 0)" "i + k = 8" for k i buf
    using that
  proof (induction k arbitrary: i buf)
    case (Suc k)
    have "sbytes ev {} \<sigma> (setByte buf (u64Const i) (wordByte ''bits'' (8 * i))) (map ?f [0..<Suc i] @ replicate (8 - Suc i) 0)"
      by (rule set_next_byte[where f = ?f, OF Suc.prems(1) assms _ _ byte_of_shift[symmetric]]) (use Suc.prems(2) in simp_all)
    from Suc.IH[OF this] Suc.prems(2) show ?case by (simp add: mult.commute)
  qed simp
  moreover have "sbytes ev {} \<sigma> (makeBzeroExpr (u64Const 8)) (map ?f [0..<0] @ replicate (8 - 0) 0)"
    using bzero_bytes[OF const_u64, of 8] by simp
  ultimately show ?thesis unfolding leBytes_def by fastforce
qed

end

section \<open>The tables\<close>

text \<open>Row \<open>r\<close> of an index table is the initial row under the \<open>r\<close>-th power of the permutation.\<close>

definition rhoByte :: "8 word \<Rightarrow> 8 word" where
  "rhoByte v = rhoTable ! unat v"

lemma indexRounds_Suc: "indexRounds (Suc n) cur = cur @ indexRounds n (map rhoByte cur)"
  by (simp add: rhoByte_def[abs_def])

lemma nth_indexRounds:
  "length cur = 16 \<Longrightarrow> r < n \<Longrightarrow> i < 16 \<Longrightarrow> indexRounds n cur ! (16 * r + i) = (rhoByte ^^ r) (cur ! i)"
proof (induction n arbitrary: cur r)
  case (Suc n)
  then show ?case
    by (cases r) (simp_all add: indexRounds_Suc nth_append algebra_simps funpow_swap1 del: indexRounds.simps)
qed simp

lemma length_indexRounds: "length cur = 16 \<Longrightarrow> length (indexRounds n cur) = 16 * n"
  by (induction n arbitrary: cur) simp_all

lemma rho_table: "unat v < 16 \<Longrightarrow> unat (rhoByte v) = rho (unat v) \<and> rho (unat v) < 16"
proof -
  have "\<forall>i \<in> set [0..<16]. unat (rhoTable ! i) = rho i \<and> rho i < 16" by code_simp
  then show "unat v < 16 \<Longrightarrow> unat (rhoByte v) = rho (unat v) \<and> rho (unat v) < 16" by (simp add: rhoByte_def)
qed

lemma rho_power:
  assumes "unat v < 16"
  shows "unat ((rhoByte ^^ r) v) = (rho ^^ r) (unat v) \<and> (rho ^^ r) (unat v) < 16"
proof (induction r)
  case (Suc r)
  then show ?case using rho_table[of "(rhoByte ^^ r) v"] by simp
qed (use assms in simp)

lemma initial_rows:
  assumes "i < 16"
  shows "unat (indexLine 0 1 ! i) = i" "unat (indexLine 5 9 ! i) = (9 * i + 5) mod 16"
proof -
  have "map unat (indexLine 0 1) = [0..<16]" "map unat (indexLine 5 9) = map (\<lambda>i. (9 * i + 5) mod 16) [0..<16]"
    by code_simp+
  note r = this[THEN arg_cong, of "\<lambda>xs. xs ! i"]
  have "length (indexLine 0 1) = 16" "length (indexLine 5 9) = 16" by code_simp+
  with r assms show "unat (indexLine 0 1 ! i) = i" "unat (indexLine 5 9 ! i) = (9 * i + 5) mod 16" by simp_all
qed

lemma length_initial: "length (indexLine 0 1) = 16" "length (indexLine 5 9) = 16"
  by code_simp+

lemma table_lengths:
  "length (fullIndexTable (indexLine 0 1)) = 80" "length (fullIndexTable (indexLine 5 9)) = 80" "length shiftsTable = 80"
  by (simp_all add: fullIndexTable_def length_indexRounds length_initial) (simp add: shiftsTable_def)

lemma index_tables:
  assumes "r < 5" "i < 16"
  shows "unat (fullIndexTable (indexLine 0 1) ! (16 * r + i)) = wordLeft r i"
    and "unat (fullIndexTable (indexLine 5 9) ! (16 * r + i)) = wordRight r i"
    and "wordLeft r i < 16" "wordRight r i < 16"
proof -
  have l: "unat (indexLine 0 1 ! i) < 16" "unat (indexLine 5 9 ! i) < 16"
    using assms(2) by (simp_all add: initial_rows)
  show "unat (fullIndexTable (indexLine 0 1) ! (16 * r + i)) = wordLeft r i" "wordLeft r i < 16"
    using rho_power[OF l(1), of r] assms
    by (simp_all add: fullIndexTable_def nth_indexRounds length_initial initial_rows wordLeft_def)
  show "unat (fullIndexTable (indexLine 5 9) ! (16 * r + i)) = wordRight r i" "wordRight r i < 16"
    using rho_power[OF l(2), of r] assms
    by (simp_all add: fullIndexTable_def nth_indexRounds length_initial initial_rows wordRight_def)
qed

lemma length_rows: "length (concat (map (\<lambda>r. map (f r) [0..<16]) [0..<n])) = 16 * n"
  by (induction n) simp_all

lemma nth_rows:
  assumes "r < n" "i < 16"
  shows "concat (map (\<lambda>r. map (f r) [0..<16]) [0..<n]) ! (16 * r + i) = f r i"
  using assms
proof (induction n)
  case (Suc n)
  then show ?case
    by (cases "r < n") (auto simp: nth_append length_rows less_Suc_eq)
qed simp

lemma shift_table:
  assumes "r < 5" "w < 16"
  shows "unat (shiftsTable ! (16 * r + w)) = rotation r w" "rotation r w \<le> 32"
proof -
  have rows: "map unat shiftsTable = concat (map (\<lambda>r. map (rotation r) [0..<16]) [0..<5])" by code_simp
  have "map unat shiftsTable ! (16 * r + w) = rotation r w" unfolding rows by (rule nth_rows[OF assms])
  with assms show e: "unat (shiftsTable ! (16 * r + w)) = rotation r w" by (simp add: table_lengths)
  have "\<forall>b \<in> set shiftsTable. unat b \<le> 32" by code_simp
  then have "unat (shiftsTable ! (16 * r + w)) \<le> 32" using assms by (simp add: table_lengths)
  with e show "rotation r w \<le> 32" by simp
qed

lemma round_tables:
  assumes "r < 5"
  shows "unat (fnLeftTbl ! r) = r + 1 \<and> unat (fnRightTbl ! r) = 5 - r \<and>
    ksLeftTbl ! r = unat (constLeft r) \<and> ksRightTbl ! r = unat (constRight r)"
proof -
  from assms consider "r = 0" | "r = 1" | "r = 2" | "r = 3" | "r = 4" by linarith
  then show ?thesis
    by cases (simp_all add: fnLeftTbl_def fnRightTbl_def ksLeftTbl_def ksRightTbl_def constLeft_def constRight_def)
qed

section \<open>Assignments and loops\<close>

definition assigned :: "(expr \<times> expr) list \<Rightarrow> stmt list" where
  "assigned as = map (\<lambda>(t, v). AssignmentStatement t v) as"

lemma assignments_vars:
  "list_all (\<lambda>(t, v). \<not> isConstantExpression t) as \<Longrightarrow> assignments as = ret (assigned as)"
  by (induction as rule: assignments.induct)
    (simp_all add: assigned_def assignStmt_def makeAssignmentStatement_def checkAssignableTarget_def)

text \<open>Assignments without side effects, run on the local variables \<open>m\<close> of the state \<open>\<sigma>\<close>.\<close>

fun runs :: "'z evaluator \<Rightarrow> 'z menv_scheme \<Rightarrow> (string \<rightharpoonup> val) \<Rightarrow> (expr \<times> expr) list \<Rightarrow> (string \<rightharpoonup> val) \<Rightarrow> bool" where
  "runs ev \<sigma> m [] m' = (m' = m)"
| "runs ev \<sigma> m ((t, e) # as) m' =
     (\<exists>ty x v. t = VarExpression ty x \<and> sval ev {} (\<sigma>\<lparr>vars := m\<rparr>) e v \<and> runs ev \<sigma> (m(x \<mapsto> v)) as m')"

context avm
begin

abbreviation at :: "'a menv_scheme \<Rightarrow> (string \<rightharpoonup> val) \<Rightarrow> 'a menv_scheme" where
  "at \<sigma> m \<equiv> \<sigma>\<lparr>vars := m\<rparr>"

lemma runs_exec:
  "runs ev \<sigma> m as m' \<Longrightarrow> execs ev (at \<sigma> m') ss out \<Longrightarrow> execs ev (at \<sigma> m) (assigned as @ ss) out"
proof (induction as arbitrary: m)
  case (Cons a as)
  obtain t e where a: "a = (t, e)" by force
  with Cons.prems(1) obtain ty x v where t: "t = VarExpression ty x" and e: "ev (at \<sigma> m) e = Some (v, at \<sigma> m)"
    and r: "runs ev \<sigma> (m(x \<mapsto> v)) as m'"
    by (auto simp: sval_empty)
  have "exec ev (at \<sigma> m) (AssignmentStatement t e) (Normal (at \<sigma> (m(x \<mapsto> v))))"
    using exec_execs_exec_branch_exec_items.Assign[where ev = ev and \<sigma> = "at \<sigma> m" and e = e and \<sigma>' = "at \<sigma> m" and t = ty and x = x and v = v] e
    unfolding t by (simp add: bind_var_def)
  from exec_execs_exec_branch_exec_items.Cons[OF this Cons.IH[OF r Cons.prems(2)]] show ?case by (simp add: a assigned_def)
qed (simp add: assigned_def)

lemma run_u64: "sval ev {} (at \<sigma> m) e v \<Longrightarrow> runs ev \<sigma> (m(x \<mapsto> v)) as m' \<Longrightarrow> runs ev \<sigma> m ((u64Local x, e) # as) m'"
  by (auto simp: u64Local_def makeVarExpression_def)

lemma run_bytes: "sval ev {} (at \<sigma> m) e v \<Longrightarrow> runs ev \<sigma> (m(x \<mapsto> v)) as m' \<Longrightarrow> runs ev \<sigma> m ((bytesLocal x, e) # as) m'"
  by (auto simp: bytesLocal_def makeVarExpression_def)

lemma run_word: "word32 (at \<sigma> m) e w \<Longrightarrow> runs ev \<sigma> (m(x \<mapsto> VU (unat w))) as m' \<Longrightarrow> runs ev \<sigma> m ((u64Local x, e) # as) m'"
  unfolding word32_def by (rule run_u64)

text \<open>A counting loop establishes its invariant for the bound.\<close>

lemma count_loop:
  assumes cond: "\<And>i m. P i m \<Longrightarrow> i \<le> n \<Longrightarrow> sbool ev {} (at \<sigma> m) c (i < n)"
    and body: "\<And>i m. P i m \<Longrightarrow> i < n \<Longrightarrow> \<exists>m'. exec ev (at \<sigma> m) b (Normal (at \<sigma> m')) \<and> P (Suc i) m'"
    and "P i m" "i \<le> n"
  shows "\<exists>m'. exec ev (at \<sigma> m) (WhileLoop c (Some b)) (Normal (at \<sigma> m')) \<and> P n m'"
  using assms(3,4)
proof (induction "n - i" arbitrary: i m)
  case 0
  with cond[of i m] have "ev (at \<sigma> m) c = Some (VU 0, at \<sigma> m)" by (simp add: sval_empty)
  then have "exec ev (at \<sigma> m) (WhileLoop c (Some b)) (Normal (at \<sigma> m))"
    by (rule exec_execs_exec_branch_exec_items.WhileDone) simp
  with 0 show ?case by auto
next
  case (Suc k)
  then have i: "i < n" by simp
  with cond[OF Suc.prems] have c: "ev (at \<sigma> m) c = Some (VU 1, at \<sigma> m)" by (simp add: sval_empty)
  from body[OF Suc.prems(1) i] obtain m1 where b: "exec ev (at \<sigma> m) b (Normal (at \<sigma> m1))" and p: "P (Suc i) m1" by blast
  have "k = n - Suc i" using Suc.hyps(2) by simp
  from Suc.hyps(1)[OF this p] i obtain m' where
    l: "exec ev (at \<sigma> m1) (WhileLoop c (Some b)) (Normal (at \<sigma> m'))" and e: "P n m'" by (auto simp: Suc_le_eq)
  have "exec ev (at \<sigma> m) (WhileLoop c (Some b)) (Normal (at \<sigma> m'))"
    by (rule exec_execs_exec_branch_exec_items.WhileStep[where v = "VU 1" and ?\<sigma>1.0 = "at \<sigma> m" and ?\<sigma>2.0 = "at \<sigma> m1"
          and r = "Normal (at \<sigma> m1)"]) (use b c l in simp_all)
  with e show ?case by blast
qed

end

end
