(* ===== verification/Ripemd160Hash.thy ===== *)
theory Ripemd160Hash
  imports Ripemd160Correct
begin

text \<open>
  The loops of \<open>__builtin_ripemd160\<close> against the reference: a step, a round, a line, a chunk, the message.
\<close>

section \<open>A step\<close>

fun lineVars :: "string \<Rightarrow> (string \<rightharpoonup> val) \<Rightarrow> chain \<Rightarrow> bool" where
  "lineVars p m (a, b, c, d, e) \<longleftrightarrow>
     m (p @ ''0'') = Some (VU (unat a)) \<and> m (p @ ''1'') = Some (VU (unat b)) \<and> m (p @ ''2'') = Some (VU (unat c)) \<and>
     m (p @ ''3'') = Some (VU (unat d)) \<and> m (p @ ''4'') = Some (VU (unat e))"

definition stepVars :: "string \<Rightarrow> string set" where
  "stepVars p = {''idx'', ''shift'', ''xOff'', ''xi'', ''fnVal'', ''sum'', ''tmp'', ''i'',
     p @ ''0'', p @ ''1'', p @ ''2'', p @ ''3'', p @ ''4''}"

text \<open>What a step reads and does not change: the tables, the round's parameters and the chunk.\<close>

definition roundVars :: "string \<Rightarrow> (string \<rightharpoonup> val) \<Rightarrow> bytes \<Rightarrow> nat \<Rightarrow> nat \<Rightarrow> 32 word \<Rightarrow> nat \<Rightarrow> bytes \<Rightarrow> bool" where
  "roundVars p m idxT r f k pos pd \<longleftrightarrow>
     m (p @ ''_idx'') = Some (VB idxT) \<and> m (p @ ''_sh'') = Some (VB shiftsTable) \<and>
     m ''roundBase'' = Some (VU (16 * r)) \<and> m ''fn'' = Some (VU f) \<and> m ''k'' = Some (VU (unat k)) \<and>
     m ''pos'' = Some (VU pos) \<and> m ''padded'' = Some (VB pd)"

context avm
begin

lemma step_runs:
  assumes p: "p = ''L'' \<or> p = ''R''" and l: "lineVars p m (a, b, c, d, e)" and rv: "roundVars p m idxT r f k pos pd"
    and i: "m ''i'' = Some (VU i)" and b: "r < 5" "i < 16" "length idxT = 80" "pos + 64 \<le> length pd" "length pd \<le> 4096"
    and w: "unat (idxT ! (16 * r + i)) = w" "w < 16"
  shows "\<exists>m'. runs ev \<sigma> m (stepAssigns p) m' \<and>
    lineVars p m' (chainStep (rotation r w) f (leWord pd (pos + 4 * w)) k (a, b, c, d, e)) \<and>
    m' ''i'' = Some (VU (Suc i)) \<and> (\<forall>x. x \<notin> stepVars p \<longrightarrow> m' x = m x)"
proof -
  let ?t = "a + roundFn f b c d + leWord pd (pos + 4 * w) + k"
  let ?s = "rol32 (rotation r w) ?t + e"
  let ?m1 = "m(''idx'' \<mapsto> VU w)"
  let ?m2 = "?m1(''shift'' \<mapsto> VU (rotation r w))"
  let ?m3 = "?m2(''xOff'' \<mapsto> VU (pos + w * 4))"
  let ?m4 = "?m3(''xi'' \<mapsto> VU (unat (leWord pd (pos + w * 4))))"
  let ?m5 = "?m4(''fnVal'' \<mapsto> VU (unat (roundFn f b c d)))"
  let ?m6 = "?m5(''sum'' \<mapsto> VU (unat ?t))"
  let ?m7 = "?m6(''sum'' \<mapsto> VU (unat ?s))"
  let ?m8 = "?m7(''tmp'' \<mapsto> VU (unat ?s))"
  let ?m9 = "?m8(p @ ''0'' \<mapsto> VU (unat e))"
  let ?m10 = "?m9(p @ ''4'' \<mapsto> VU (unat d))"
  let ?m11 = "?m10(p @ ''3'' \<mapsto> VU (unat (rol32 10 c)))"
  let ?m12 = "?m11(p @ ''2'' \<mapsto> VU (unat b))"
  let ?m13 = "?m12(p @ ''1'' \<mapsto> VU (unat ?s))"
  let ?m14 = "?m13(''i'' \<mapsto> VU (Suc i))"
  note v = l[unfolded lineVars.simps] rv[unfolded roundVars_def] i
  have j: "16 * r + i < 80" "16 * r + w < 80" "16 * r + i < 18446744073709551616" "16 * r + w < 18446744073709551616"
    using b w(2) by simp_all
  have o1: "su64 ev {} (at \<sigma> m) (u64BinOp (u64Local ''roundBase'') U64Add (u64Local ''i'')) (16 * r + i)"
    by (rule bin_u64[OF local_u64[where n = "16 * r"] local_u64[where n = i]]) (use v j in simp_all)
  have e1: "sval ev {} (at \<sigma> m) (getByte (bytesLocal (p @ ''_idx'')) (u64BinOp (u64Local ''roundBase'') U64Add (u64Local ''i''))) (VU w)"
    using getByte_u64[OF local_bytes o1, of "p @ ''_idx''" idxT] v b j w(1) by simp
  have o2: "su64 ev {} (at \<sigma> ?m1) (u64BinOp (u64Local ''roundBase'') U64Add (u64Local ''idx'')) (16 * r + w)"
    by (rule bin_u64[OF local_u64[where n = "16 * r"] local_u64[where n = w]]) (use v j in simp_all)
  have sh: "?m1 (p @ ''_sh'') = Some (VB shiftsTable)" using p v by auto
  have e2: "sval ev {} (at \<sigma> ?m1) (getByte (bytesLocal (p @ ''_sh'')) (u64BinOp (u64Local ''roundBase'') U64Add (u64Local ''idx'')))
      (VU (rotation r w))"
    using getByte_u64[OF local_bytes o2, of "p @ ''_sh''" shiftsTable] sh shift_table[OF b(1) w(2)] j by (simp add: table_lengths)
  have e3: "sval ev {} (at \<sigma> ?m2) (u64BinOp (u64Local ''pos'') U64Add (u64BinOpC (u64Local ''idx'') U64Mult 4)) (VU (pos + w * 4))"
    by (rule bin_u64[OF local_u64[where n = pos] binC_u64[OF local_u64[where n = w], where c = "w * 4"]]) (use v b w(2) in simp_all)
  have e4: "word32 (at \<sigma> ?m3) (readLeWord ''padded'' ''xOff'') (leWord pd (pos + w * 4))"
    by (rule readLeWord_word) (use v b w(2) in simp_all)
  have e5: "word32 (at \<sigma> ?m4) (buildFnDispatch ''fn'' (p @ ''1'') (p @ ''2'') (p @ ''3'')) (roundFn f b c d)"
    by (rule fnDispatch_word) (use p v in auto)
  have e6: "word32 (at \<sigma> ?m5) (add32 (add32 (add32 (u64Local (p @ ''0'')) (u64Local ''fnVal'')) (u64Local ''xi'')) (u64Local ''k'')) ?t"
    by (intro add_word local_word) (use p v in \<open>auto simp: mult.commute\<close>)
  have e7: "word32 (at \<sigma> ?m6) (add32 (rol32Var ''sum'' ''shift'') (u64Local (p @ ''4''))) ?s"
    by (intro add_word local_word rolVar_word) (use p v shift_table[OF b(1) w(2)] in auto)
  have e8: "word32 (at \<sigma> ?m7) (u64Local ''sum'') ?s" "word32 (at \<sigma> ?m8) (u64Local (p @ ''4'')) e"
    "word32 (at \<sigma> ?m9) (u64Local (p @ ''3'')) d" "word32 (at \<sigma> ?m10) (rol32Const (p @ ''2'') 10) (rol32 10 c)"
    "word32 (at \<sigma> ?m11) (u64Local (p @ ''1'')) b" "word32 (at \<sigma> ?m12) (u64Local ''tmp'') ?s"
    by (intro local_word rolConst_word; use p v in auto)+
  have e14: "sval ev {} (at \<sigma> ?m13) (u64BinOpC (u64Local ''i'') U64Add 1) (VU (Suc i))"
    by (rule binC_u64[OF local_u64[where n = i]]) (use p v b in auto)
  have "runs ev \<sigma> m (stepAssigns p) ?m14"
    unfolding stepAssigns_def
    by (rule run_u64[OF e1] run_u64[OF e2] run_u64[OF e3] run_word[OF e4] run_word[OF e5] run_word[OF e6] run_word[OF e7]
        run_word[OF e8(1)] run_word[OF e8(2)] run_word[OF e8(3)] run_word[OF e8(4)] run_word[OF e8(5)] run_word[OF e8(6)]
        run_u64[OF e14] runs.simps(1)[THEN iffD2] refl)+
  moreover have "lineVars p ?m14 (chainStep (rotation r w) f (leWord pd (pos + 4 * w)) k (a, b, c, d, e))"
    using p by (auto simp: mult.commute)
  moreover have "?m14 x = m x" if "x \<notin> stepVars p" for x using that by (simp add: stepVars_def)
  ultimately show ?thesis by (intro exI[of _ ?m14]) simp
qed

end

section \<open>A line\<close>

text \<open>The tables of a line hold its functions, constants and message words.\<close>

definition lineTables ::
    "bytes \<Rightarrow> bytes \<Rightarrow> nat list \<Rightarrow> (nat \<Rightarrow> nat) \<Rightarrow> (nat \<Rightarrow> 32 word) \<Rightarrow> (nat \<Rightarrow> nat \<Rightarrow> nat) \<Rightarrow> bool" where
  "lineTables idxT fnT ksT fn ks sel \<longleftrightarrow>
     length idxT = 80 \<and> length fnT = 5 \<and>
     (\<forall>r < 5. unat (fnT ! r) = fn r \<and> ksT ! r = unat (ks r) \<and>
        (\<forall>i < 16. unat (idxT ! (16 * r + i)) = sel r i \<and> sel r i < 16))"

lemma left_tables: "lineTables (fullIndexTable (indexLine 0 1)) fnLeftTbl ksLeftTbl (\<lambda>r. r + 1) constLeft wordLeft"
  and right_tables: "lineTables (fullIndexTable (indexLine 5 9)) fnRightTbl ksRightTbl (\<lambda>r. 5 - r) constRight wordRight"
  using round_tables by (auto simp: lineTables_def table_lengths index_tables) (simp_all add: fnLeftTbl_def fnRightTbl_def)

definition lineFrame :: "string \<Rightarrow> string set" where
  "lineFrame p = stepVars p \<union> {''fn'', ''k'', ''roundBase'', ''round''}"

text \<open>What a line reads and does not change.\<close>

definition chunkVars :: "string \<Rightarrow> (string \<rightharpoonup> val) \<Rightarrow> bytes \<Rightarrow> bytes \<Rightarrow> nat \<Rightarrow> bytes \<Rightarrow> bool" where
  "chunkVars p m idxT fnT pos pd \<longleftrightarrow>
     m (p @ ''_idx'') = Some (VB idxT) \<and> m (p @ ''_fn'') = Some (VB fnT) \<and> m (p @ ''_sh'') = Some (VB shiftsTable) \<and>
     m ''pos'' = Some (VU pos) \<and> m ''padded'' = Some (VB pd)"

definition innerLoop :: "string \<Rightarrow> stmt" where
  "innerLoop p = WhileLoop (makeNumericCompare (u64Local ''i'') Lt (u64Const 16)) (Some (makeBlock (assigned (stepAssigns p))))"

definition roundBody :: "nat list \<Rightarrow> string \<Rightarrow> stmt list" where
  "roundBody ksT p =
     assigned (roundInit ksT p) @ innerLoop p # assigned [(u64Local ''round'', u64BinOpC (u64Local ''round'') U64Add 1)]"

definition lineStmts :: "bytes \<Rightarrow> bytes \<Rightarrow> nat list \<Rightarrow> string \<Rightarrow> stmt list" where
  "lineStmts idxT fnT ksT p =
     assigned (lineInit idxT fnT p) @
     [WhileLoop (makeNumericCompare (u64Local ''round'') Lt (u64Const 5)) (Some (makeBlock (roundBody ksT p)))]"

lemma not_constant [simp]: "\<not> isConstantExpression (u64Local x)" "\<not> isConstantExpression (bytesLocal x)"
  by (simp_all add: u64Local_def bytesLocal_def makeVarExpression_def)

lemma emitLine_stmts: "emitLine idxT fnT ksT p = ret (lineStmts idxT fnT ksT p)"
proof -
  have a: "assignments (lineInit idxT fnT p) = ret (assigned (lineInit idxT fnT p))"
    "assignments (roundInit ksT p) = ret (assigned (roundInit ksT p))"
    "assignments (stepAssigns p) = ret (assigned (stepAssigns p))"
    "assignments [(u64Local ''round'', u64BinOpC (u64Local ''round'') U64Add 1)] =
      ret (assigned [(u64Local ''round'', u64BinOpC (u64Local ''round'') U64Add 1)])"
    by (rule assignments_vars; simp add: lineInit_def roundInit_def stepAssigns_def list_all_iff)+
  show ?thesis by (simp add: emitLine_def a lineStmts_def roundBody_def innerLoop_def Let_def del: assignments.simps One_nat_def)
qed

context avm
begin

lemma less_const: "vars \<sigma> x = Some (VU n) \<Longrightarrow> k < 2 ^ 64 \<Longrightarrow> sbool ev {} \<sigma> (makeNumericCompare (u64Local x) Lt (u64Const k)) (n < k)"
  unfolding makeNumericCompare_def using sval_cmp_u64[OF local_u64 const_u64, where nc = Lt] by simp

lemma inner_loop:
  assumes p: "p = ''L'' \<or> p = ''R''" and l: "lineVars p m h" and rv: "roundVars p m idxT r (fn r) (ks r) pos pd"
    and i: "m ''i'' = Some (VU 0)" and b: "r < 5" "pos + 64 \<le> length pd" "length pd \<le> 4096"
    and t: "lineTables idxT fnT ksT fn ks sel"
  shows "\<exists>m'. exec ev (at \<sigma> m) (innerLoop p) (Normal (at \<sigma> m')) \<and>
    lineVars p m' (lineRound fn ks sel (\<lambda>w. leWord pd (pos + 4 * w)) r h) \<and> (\<forall>x. x \<notin> stepVars p \<longrightarrow> m' x = m x)"
proof -
  define step where "step = lineStep fn ks sel (\<lambda>w. leWord pd (pos + 4 * w)) r"
  define P where "P i m' \<longleftrightarrow> lineVars p m' (fold step [0..<i] h) \<and> m' ''i'' = Some (VU i) \<and>
    (\<forall>x. x \<notin> stepVars p \<longrightarrow> m' x = m x)" for i m'
  have "\<exists>m'. exec ev (at \<sigma> m) (innerLoop p) (Normal (at \<sigma> m')) \<and> P 16 m'"
    unfolding innerLoop_def
  proof (rule count_loop[where P = P and i = 0])
    fix i m1 assume P: "P i m1" and "i < 16"
    from rv P p have rv1: "roundVars p m1 idxT r (fn r) (ks r) pos pd" by (auto simp: P_def roundVars_def stepVars_def)
    obtain a b' c d e where h: "fold step [0..<i] h = (a, b', c, d, e)" by (metis prod_cases5)
    from P have "lineVars p m1 (a, b', c, d, e)" "m1 ''i'' = Some (VU i)" by (simp_all add: P_def h)
    from step_runs[OF p this(1) rv1 this(2) b(1) \<open>i < 16\<close> _ b(2,3) refl] t b(1) \<open>i < 16\<close>
    obtain m2 where r: "runs ev \<sigma> m1 (stepAssigns p) m2"
      and m2: "lineVars p m2 (step i (a, b', c, d, e))" "m2 ''i'' = Some (VU (Suc i))" "\<forall>x. x \<notin> stepVars p \<longrightarrow> m2 x = m1 x"
      by (fastforce simp: lineTables_def step_def lineStep_def)
    from runs_exec[OF r exec_execs_exec_branch_exec_items.Nil] have "exec ev (at \<sigma> m1) (makeBlock (assigned (stepAssigns p))) (Normal (at \<sigma> m2))"
      by (simp add: makeBlock_def)
    moreover from m2 P have "P (Suc i) m2" by (simp add: P_def h)
    ultimately show "\<exists>m'. exec ev (at \<sigma> m1) (makeBlock (assigned (stepAssigns p))) (Normal (at \<sigma> m')) \<and> P (Suc i) m'" by blast
  next
    show "P 0 m" using l i by (simp add: P_def)
  next
    show "sbool ev {} (at \<sigma> m') (makeNumericCompare (u64Local ''i'') Lt (u64Const 16)) (i < 16)" if "P i m'" for i m'
      by (rule less_const) (use that in \<open>simp_all add: P_def\<close>)
  qed simp
  then show ?thesis unfolding P_def lineRound_def step_def by blast
qed

lemma roundConstant_u64:
  assumes "vars \<sigma> ''round'' = Some (VU r)" "r < 5" "\<forall>i < 5. ks ! i < 2 ^ 64"
  shows "su64 ev {} \<sigma> (roundConstant ks) (ks ! r)"
proof -
  have c: "su64 ev {} \<sigma> (u64Const (ks ! i)) (ks ! i)" if "i < 5" for i
    using const_u64[of "ks ! i"] assms(3) that by simp
  from assms(2) have r: "r = 0 \<or> r = 1 \<or> r = 2 \<or> r = 3 \<or> r = 4" by linarith
  show ?thesis unfolding roundConstant_def
    by (intro ternary_val[OF varEq_bool[OF assms(1)]]) (use r c in auto)
qed

lemma round_runs:
  assumes p: "p = ''L'' \<or> p = ''R''" and l: "lineVars p m h" and cv: "chunkVars p m idxT fnT pos pd"
    and r: "m ''round'' = Some (VU r)" and b: "r < 5" "pos + 64 \<le> length pd" "length pd \<le> 4096"
    and t: "lineTables idxT fnT ksT fn ks sel"
  shows "\<exists>m'. execs ev (at \<sigma> m) (roundBody ksT p) (Normal (at \<sigma> m')) \<and>
    lineVars p m' (lineRound fn ks sel (\<lambda>w. leWord pd (pos + 4 * w)) r h) \<and> m' ''round'' = Some (VU (Suc r)) \<and>
    (\<forall>x. x \<notin> lineFrame p \<longrightarrow> m' x = m x)"
proof -
  let ?m1 = "m(''fn'' \<mapsto> VU (fn r))"
  let ?m2 = "?m1(''k'' \<mapsto> VU (unat (ks r)))"
  let ?m3 = "?m2(''roundBase'' \<mapsto> VU (16 * r))"
  let ?m4 = "?m3(''i'' \<mapsto> VU 0)"
  note v = cv[unfolded chunkVars_def] r
  have tr: "length fnT = 5" "unat (fnT ! r) = fn r" "ksT ! r = unat (ks r)" using t b(1) by (simp_all add: lineTables_def)
  have ksb: "\<forall>i < 5. ksT ! i < 2 ^ 64"
  proof -
    have "unat (ks i) < 2 ^ 64" for i using unat_word_bound(1)[of "ks i"] by simp
    with t show ?thesis by (auto simp: lineTables_def)
  qed
  have e1: "sval ev {} (at \<sigma> m) (getByte (bytesLocal (p @ ''_fn'')) (u64Local ''round'')) (VU (fn r))"
    using getByte_u64[OF local_bytes local_u64, of "at \<sigma> m" "p @ ''_fn''" fnT "''round''" r] v tr b(1) by simp
  have e2: "sval ev {} (at \<sigma> ?m1) (roundConstant ksT) (VU (unat (ks r)))"
    using roundConstant_u64[of "at \<sigma> ?m1" r ksT] v ksb b(1) tr(3) by simp
  have e3: "sval ev {} (at \<sigma> ?m2) (u64BinOpC (u64Local ''round'') U64Mult 16) (VU (16 * r))"
    by (rule binC_u64[OF local_u64[where n = r]]) (use v b(1) in simp_all)
  have e4: "sval ev {} (at \<sigma> ?m3) (u64Const 0) (VU 0)" by (rule const_u64) simp
  have ini: "runs ev \<sigma> m (roundInit ksT p) ?m4" unfolding roundInit_def
    by (rule run_u64[OF e1] run_u64[OF e2] run_u64[OF e3] run_u64[OF e4] runs.simps(1)[THEN iffD2] refl)+
  obtain a b' c d e where h: "h = (a, b', c, d, e)" by (metis prod_cases5)
  have l4: "lineVars p ?m4 h" using p l by (auto simp: h)
  have rv4: "roundVars p ?m4 idxT r (fn r) (ks r) pos pd" using p v by (auto simp: roundVars_def)
  from inner_loop[OF p l4 rv4 _ b t, of \<sigma>] obtain m5 where
    inner: "exec ev (at \<sigma> ?m4) (innerLoop p) (Normal (at \<sigma> m5))"
    and m5: "lineVars p m5 (lineRound fn ks sel (\<lambda>w. leWord pd (pos + 4 * w)) r h)" "\<forall>x. x \<notin> stepVars p \<longrightarrow> m5 x = ?m4 x"
    by auto
  have r5: "m5 ''round'' = Some (VU r)" using m5(2) p v by (auto simp: stepVars_def)
  let ?m6 = "m5(''round'' \<mapsto> VU (Suc r))"
  have e6: "sval ev {} (at \<sigma> m5) (u64BinOpC (u64Local ''round'') U64Add 1) (VU (Suc r))"
    by (rule binC_u64[OF local_u64[where n = r]]) (use r5 b(1) in simp_all)
  have "runs ev \<sigma> m5 [(u64Local ''round'', u64BinOpC (u64Local ''round'') U64Add 1)] ?m6"
    by (rule run_u64[OF e6]) simp
  from runs_exec[OF this exec_execs_exec_branch_exec_items.Nil]
  have "execs ev (at \<sigma> m5) (assigned [(u64Local ''round'', u64BinOpC (u64Local ''round'') U64Add 1)]) (Normal (at \<sigma> ?m6))"
    by simp
  from exec_execs_exec_branch_exec_items.Cons[OF inner this]
  have "execs ev (at \<sigma> m) (roundBody ksT p) (Normal (at \<sigma> ?m6))"
    unfolding roundBody_def by (rule runs_exec[OF ini])
  moreover obtain a2 b2 c2 d2 e2 where h2: "lineRound fn ks sel (\<lambda>w. leWord pd (pos + 4 * w)) r h = (a2, b2, c2, d2, e2)"
    by (metis prod_cases5)
  have "lineVars p ?m6 (lineRound fn ks sel (\<lambda>w. leWord pd (pos + 4 * w)) r h)" using p m5(1) by (auto simp: h2)
  moreover have "?m6 x = m x" if "x \<notin> lineFrame p" for x using that m5(2) by (simp add: lineFrame_def stepVars_def)
  ultimately show ?thesis by (intro exI[of _ ?m6]) simp
qed

end

definition lineAll :: "string \<Rightarrow> string set" where
  "lineAll p = lineFrame p \<union> {p @ ''_idx'', p @ ''_fn'', p @ ''_sh''}"

fun digestVars :: "(string \<rightharpoonup> val) \<Rightarrow> chain \<Rightarrow> bool" where
  "digestVars m (a, b, c, d, e) \<longleftrightarrow>
     m ''h0'' = Some (VU (unat a)) \<and> m ''h1'' = Some (VU (unat b)) \<and> m ''h2'' = Some (VU (unat c)) \<and>
     m ''h3'' = Some (VU (unat d)) \<and> m ''h4'' = Some (VU (unat e))"

lemma digit_names: "dec_of_nat 0 = ''0''" "dec_of_nat 1 = ''1''" "dec_of_nat 2 = ''2''" "dec_of_nat 3 = ''3''" "dec_of_nat 4 = ''4''"
  by code_simp+

lemma lineInit_list:
  "lineInit idxT fnT p =
     [(u64Local (p @ ''0''), u64Local ''h0''), (u64Local (p @ ''1''), u64Local ''h1''),
      (u64Local (p @ ''2''), u64Local ''h2''), (u64Local (p @ ''3''), u64Local ''h3''),
      (u64Local (p @ ''4''), u64Local ''h4''),
      (bytesLocal (p @ ''_idx''), makeBytesConstant idxT EncBase16 bytesType),
      (bytesLocal (p @ ''_fn''), makeBytesConstant fnT EncBase16 bytesType),
      (bytesLocal (p @ ''_sh''), makeBytesConstant shiftsTable EncBase16 bytesType),
      (u64Local ''round'', u64Const 0)]"
proof -
  have "[0..<5] = [0, 1, 2, 3, 4::nat]" by code_simp
  then show ?thesis by (simp add: lineInit_def digit_names del: One_nat_def)
qed

context avm
begin

lemma table_bytes: "length b \<le> 4096 \<Longrightarrow> sval ev {} \<sigma> (makeBytesConstant b enc t) (VB b)"
  unfolding makeBytesConstant_def by (rule sval_bytes)

lemma line_runs:
  assumes p: "p = ''L'' \<or> p = ''R''" and h: "digestVars m H" and v: "m ''pos'' = Some (VU pos)" "m ''padded'' = Some (VB pd)"
    and b: "pos + 64 \<le> length pd" "length pd \<le> 4096" and t: "lineTables idxT fnT ksT fn ks sel"
  shows "\<exists>m'. execs ev (at \<sigma> m) (lineStmts idxT fnT ksT p) (Normal (at \<sigma> m')) \<and>
    lineVars p m' (line fn ks sel (\<lambda>w. leWord pd (pos + 4 * w)) H) \<and> (\<forall>x. x \<notin> lineAll p \<longrightarrow> m' x = m x)"
proof -
  obtain a b' c d e where H: "H = (a, b', c, d, e)" by (metis prod_cases5)
  note hv = h[unfolded H digestVars.simps]
  let ?m1 = "m(p @ ''0'' \<mapsto> VU (unat a))"
  let ?m2 = "?m1(p @ ''1'' \<mapsto> VU (unat b'))"
  let ?m3 = "?m2(p @ ''2'' \<mapsto> VU (unat c))"
  let ?m4 = "?m3(p @ ''3'' \<mapsto> VU (unat d))"
  let ?m5 = "?m4(p @ ''4'' \<mapsto> VU (unat e))"
  let ?m6 = "?m5(p @ ''_idx'' \<mapsto> VB idxT)"
  let ?m7 = "?m6(p @ ''_fn'' \<mapsto> VB fnT)"
  let ?m8 = "?m7(p @ ''_sh'' \<mapsto> VB shiftsTable)"
  let ?m9 = "?m8(''round'' \<mapsto> VU 0)"
  have w: "word32 (at \<sigma> m) (u64Local ''h0'') a" "word32 (at \<sigma> ?m1) (u64Local ''h1'') b'"
    "word32 (at \<sigma> ?m2) (u64Local ''h2'') c" "word32 (at \<sigma> ?m3) (u64Local ''h3'') d" "word32 (at \<sigma> ?m4) (u64Local ''h4'') e"
    by (rule local_word; use p hv in auto)+
  have len: "length idxT \<le> 4096" "length fnT \<le> 4096" "length shiftsTable \<le> 4096"
    using t by (simp_all add: lineTables_def table_lengths)
  have z: "sval ev {} (at \<sigma> ?m8) (u64Const 0) (VU 0)" by (rule const_u64) simp
  have ini: "runs ev \<sigma> m (lineInit idxT fnT p) ?m9" unfolding lineInit_list
    by (rule run_word[OF w(1)] run_word[OF w(2)] run_word[OF w(3)] run_word[OF w(4)] run_word[OF w(5)]
        run_bytes[OF table_bytes[OF len(1)]] run_bytes[OF table_bytes[OF len(2)]] run_bytes[OF table_bytes[OF len(3)]]
        run_u64[OF z] runs.simps(1)[THEN iffD2] refl)+
  define step where "step = lineRound fn ks sel (\<lambda>w. leWord pd (pos + 4 * w))"
  define P where "P r m' \<longleftrightarrow> lineVars p m' (fold step [0..<r] H) \<and> m' ''round'' = Some (VU r) \<and>
    (\<forall>x. x \<notin> lineFrame p \<longrightarrow> m' x = ?m9 x)" for r m'
  let ?loop = "WhileLoop (makeNumericCompare (u64Local ''round'') Lt (u64Const 5)) (Some (makeBlock (roundBody ksT p)))"
  have "\<exists>m'. exec ev (at \<sigma> ?m9) ?loop (Normal (at \<sigma> m')) \<and> P 5 m'"
  proof (rule count_loop[where P = P and i = 0])
    fix r m1 assume P: "P r m1" and r: "r < 5"
    have "chunkVars p m1 idxT fnT pos pd"
      using P p v by (auto simp: P_def chunkVars_def lineFrame_def stepVars_def)
    from round_runs[OF p _ this _ r b t, of "fold step [0..<r] H" \<sigma>] P obtain m2 where
      e: "execs ev (at \<sigma> m1) (roundBody ksT p) (Normal (at \<sigma> m2))"
      and m2: "lineVars p m2 (step r (fold step [0..<r] H))" "m2 ''round'' = Some (VU (Suc r))" "\<forall>x. x \<notin> lineFrame p \<longrightarrow> m2 x = m1 x"
      by (auto simp: P_def step_def)
    from m2 P have "P (Suc r) m2" by (simp add: P_def)
    with e show "\<exists>m'. exec ev (at \<sigma> m1) (makeBlock (roundBody ksT p)) (Normal (at \<sigma> m')) \<and> P (Suc r) m'"
      by (auto simp: makeBlock_def)
  next
    show "P 0 ?m9" using p by (auto simp: P_def H)
  next
    show "sbool ev {} (at \<sigma> m') (makeNumericCompare (u64Local ''round'') Lt (u64Const 5)) (r < 5)" if "P r m'" for r m'
      by (rule less_const) (use that in \<open>simp_all add: P_def\<close>)
  qed simp
  then obtain m' where loop: "exec ev (at \<sigma> ?m9) ?loop (Normal (at \<sigma> m'))" and P: "P 5 m'" by blast
  have "execs ev (at \<sigma> m) (lineStmts idxT fnT ksT p) (Normal (at \<sigma> m'))"
    unfolding lineStmts_def by (rule runs_exec[OF ini exec_execs_exec_branch_exec_items.Cons[OF loop exec_execs_exec_branch_exec_items.Nil]])
  moreover have "m' x = m x" if "x \<notin> lineAll p" for x
  proof -
    from that P have "m' x = ?m9 x" by (simp add: P_def lineAll_def)
    with that show ?thesis by (simp add: lineAll_def lineFrame_def stepVars_def)
  qed
  ultimately show ?thesis using P unfolding P_def line_def step_def by blast
qed

end

section \<open>A chunk\<close>

definition mixAssigns :: "(expr \<times> expr) list" where
  "mixAssigns =
     [(u64Local ''htmp'', add32 (add32 (u64Local ''h0'') (u64Local ''L1'')) (u64Local ''R2'')),
      combine ''h0'' ''h1'' 2 3, combine ''h1'' ''h2'' 3 4, combine ''h2'' ''h3'' 4 0, combine ''h3'' ''h4'' 0 1,
      (u64Local ''h4'', u64Local ''htmp'')]"

definition chunkStmts :: "stmt list" where
  "chunkStmts =
     lineStmts (fullIndexTable (indexLine 0 1)) fnLeftTbl ksLeftTbl ''L'' @
     lineStmts (fullIndexTable (indexLine 5 9)) fnRightTbl ksRightTbl ''R'' @ assigned mixAssigns"

lemma emitProcessChunk_stmts: "emitProcessChunk = ret chunkStmts"
proof -
  have "assignments mixAssigns = ret (assigned mixAssigns)"
    by (rule assignments_vars) (simp add: mixAssigns_def combine_def)
  then show ?thesis
    unfolding emitProcessChunk_def emitLine_stmts chunkStmts_def mixAssigns_def[symmetric] by (simp del: assignments.simps)
qed

definition digestNames :: "string set" where
  "digestNames = {''htmp'', ''h0'', ''h1'', ''h2'', ''h3'', ''h4''}"

context avm
begin

lemma mix_runs:
  assumes "digestVars m (h0, h1, h2, h3, h4)" "lineVars ''L'' m (a, b, c, d, e)" "lineVars ''R'' m (a', b', c', d', e')"
  shows "\<exists>m'. runs ev \<sigma> m mixAssigns m' \<and>
    digestVars m' (h1 + c + d', h2 + d + e', h3 + e + a', h4 + a + b', h0 + b + c') \<and> (\<forall>x. x \<notin> digestNames \<longrightarrow> m' x = m x)"
proof -
  let ?m1 = "m(''htmp'' \<mapsto> VU (unat (h0 + b + c')))"
  let ?m2 = "?m1(''h0'' \<mapsto> VU (unat (h1 + c + d')))"
  let ?m3 = "?m2(''h1'' \<mapsto> VU (unat (h2 + d + e')))"
  let ?m4 = "?m3(''h2'' \<mapsto> VU (unat (h3 + e + a')))"
  let ?m5 = "?m4(''h3'' \<mapsto> VU (unat (h4 + a + b')))"
  let ?m6 = "?m5(''h4'' \<mapsto> VU (unat (h0 + b + c')))"
  note v = assms[unfolded digestVars.simps lineVars.simps]
  have e: "word32 (at \<sigma> m) (add32 (add32 (u64Local ''h0'') (u64Local ''L1'')) (u64Local ''R2'')) (h0 + b + c')"
    "word32 (at \<sigma> ?m1) (add32 (add32 (u64Local ''h1'') (u64Local ''L2'')) (u64Local ''R3'')) (h1 + c + d')"
    "word32 (at \<sigma> ?m2) (add32 (add32 (u64Local ''h2'') (u64Local ''L3'')) (u64Local ''R4'')) (h2 + d + e')"
    "word32 (at \<sigma> ?m3) (add32 (add32 (u64Local ''h3'') (u64Local ''L4'')) (u64Local ''R0'')) (h3 + e + a')"
    "word32 (at \<sigma> ?m4) (add32 (add32 (u64Local ''h4'') (u64Local ''L0'')) (u64Local ''R1'')) (h4 + a + b')"
    "word32 (at \<sigma> ?m5) (u64Local ''htmp'') (h0 + b + c')"
    by (intro add_word local_word; use v in simp)+
  have mix: "mixAssigns =
     [(u64Local ''htmp'', add32 (add32 (u64Local ''h0'') (u64Local ''L1'')) (u64Local ''R2'')),
      (u64Local ''h0'', add32 (add32 (u64Local ''h1'') (u64Local ''L2'')) (u64Local ''R3'')),
      (u64Local ''h1'', add32 (add32 (u64Local ''h2'') (u64Local ''L3'')) (u64Local ''R4'')),
      (u64Local ''h2'', add32 (add32 (u64Local ''h3'') (u64Local ''L4'')) (u64Local ''R0'')),
      (u64Local ''h3'', add32 (add32 (u64Local ''h4'') (u64Local ''L0'')) (u64Local ''R1'')),
      (u64Local ''h4'', u64Local ''htmp'')]"
    by (simp add: mixAssigns_def combine_def digit_names del: One_nat_def)
  have "runs ev \<sigma> m mixAssigns ?m6" unfolding mix
    by (rule run_word[OF e(1)] run_word[OF e(2)] run_word[OF e(3)] run_word[OF e(4)] run_word[OF e(5)] run_word[OF e(6)]
        runs.simps(1)[THEN iffD2] refl)+
  moreover have "?m6 x = m x" if "x \<notin> digestNames" for x using that by (simp add: digestNames_def)
  ultimately show ?thesis by (intro exI[of _ ?m6]) simp
qed

lemma chunk_runs:
  assumes h: "digestVars m H" and v: "m ''pos'' = Some (VU pos)" "m ''padded'' = Some (VB pd)"
    and b: "pos + 64 \<le> length pd" "length pd \<le> 4096"
  shows "\<exists>m'. execs ev (at \<sigma> m) chunkStmts (Normal (at \<sigma> m')) \<and>
    digestVars m' (compress (\<lambda>w. leWord pd (pos + 4 * w)) H) \<and>
    (\<forall>x. x \<notin> lineAll ''L'' \<union> lineAll ''R'' \<union> digestNames \<longrightarrow> m' x = m x)"
proof -
  let ?X = "\<lambda>w. leWord pd (pos + 4 * w)"
  from line_runs[OF _ h v b left_tables, of "''L''" \<sigma>] obtain m1 where
    e1: "execs ev (at \<sigma> m) (lineStmts (fullIndexTable (indexLine 0 1)) fnLeftTbl ksLeftTbl ''L'') (Normal (at \<sigma> m1))"
    and l1: "lineVars ''L'' m1 (leftLine ?X H)" and f1: "\<forall>x. x \<notin> lineAll ''L'' \<longrightarrow> m1 x = m x"
    by (auto simp: leftLine_def)
  obtain h0 h1 h2 h3 h4 where H: "H = (h0, h1, h2, h3, h4)" by (metis prod_cases5)
  note names = lineAll_def lineFrame_def stepVars_def
  have h1: "digestVars m1 H" using h f1 by (simp add: H names)
  have v1: "m1 ''pos'' = Some (VU pos)" "m1 ''padded'' = Some (VB pd)" using v f1 by (simp_all add: names)
  from line_runs[OF _ h1 v1 b right_tables, of "''R''" \<sigma>] obtain m2 where
    e2: "execs ev (at \<sigma> m1) (lineStmts (fullIndexTable (indexLine 5 9)) fnRightTbl ksRightTbl ''R'') (Normal (at \<sigma> m2))"
    and l2: "lineVars ''R'' m2 (rightLine ?X H)" and f2: "\<forall>x. x \<notin> lineAll ''R'' \<longrightarrow> m2 x = m1 x"
    by (auto simp: rightLine_def)
  obtain a b c d e where L: "leftLine ?X H = (a, b, c, d, e)" by (metis prod_cases5)
  obtain a' b' c' d' e' where R: "rightLine ?X H = (a', b', c', d', e')" by (metis prod_cases5)
  have h2: "digestVars m2 H" using h1 f2 by (simp add: H names)
  have l1': "lineVars ''L'' m2 (leftLine ?X H)" using l1 f2 by (simp add: L names)
  have "compress ?X H = (h1 + c + d', h2 + d + e', h3 + e + a', h4 + a + b', h0 + b + c')"
    by (simp add: compress_def L R) (simp add: H)
  with mix_runs[OF h2[unfolded H] l1'[unfolded L] l2[unfolded R], of \<sigma>] obtain m3 where
    r3: "runs ev \<sigma> m2 mixAssigns m3" and d3: "digestVars m3 (compress ?X H)" and f3: "\<forall>x. x \<notin> digestNames \<longrightarrow> m3 x = m2 x"
    by (auto simp del: digestVars.simps)
  from runs_exec[OF r3 exec_execs_exec_branch_exec_items.Nil]
  have "execs ev (at \<sigma> m) chunkStmts (Normal (at \<sigma> m3))"
    unfolding chunkStmts_def by (intro execs_append_Normal[OF e1] execs_append_Normal[OF e2]) simp
  with d3 f1 f2 f3 show ?thesis by auto
qed

end

section \<open>The message\<close>

definition bodyStmts :: "stmt list" where
  "bodyStmts =
     assigned padInit @
     [WhileLoop (makeNumericCompare (u64Local ''pos'') Lt (u64Local ''padLen''))
        (Some (makeBlock (chunkStmts @ assigned [(u64Local ''pos'', u64BinOpC (u64Local ''pos'') U64Add 64)]))),
      makeReturnStatement (Some digestExpr)]"

lemma buildBody_stmts: "buildRipemd160Body = ret bodyStmts"
proof -
  have "assignments padInit = ret (assigned padInit)"
    "assignments [(u64Local ''pos'', u64BinOpC (u64Local ''pos'') U64Add 64)] =
      ret (assigned [(u64Local ''pos'', u64BinOpC (u64Local ''pos'') U64Add 64)])"
    by (rule assignments_vars; simp add: padInit_def)+
  then show ?thesis unfolding buildRipemd160Body_def emitProcessChunk_stmts bodyStmts_def Let_def
    by (simp del: assignments.simps)
qed

text \<open>The length of the padded message.\<close>

definition paddedLength :: "nat \<Rightarrow> nat" where
  "paddedLength n = 64 * ((n + 72) div 64)"

lemma paddedLength_bounds: "n + 9 \<le> paddedLength n" "paddedLength n \<le> n + 72"
  using div_mult_mod_eq[of "n + 72" 64] mod_less_divisor[of 64 "n + 72"] unfolding paddedLength_def by linarith+

lemma paddedLength_fits:
  assumes "n \<le> 4087" shows "paddedLength n \<le> 4096"
proof -
  have "(n + 72) div 64 < 65" using assms by (intro less_mult_imp_div_less) simp
  then show ?thesis by (simp add: paddedLength_def)
qed

lemma paddedLength_exceeds:
  assumes "4088 \<le> n" shows "4160 \<le> paddedLength n"
proof -
  have "4160 div 64 \<le> (n + 72) div 64" using assms by (intro div_le_mono) simp
  then show ?thesis by (simp add: paddedLength_def)
qed

lemma length_padMessage: "length (padMessage m) = paddedLength (length m)"
  using paddedLength_bounds(1)[of "length m"] by (simp add: padMessage_def paddedLength_def[symmetric] leBytes_def)

definition padPrefix :: "(expr \<times> expr) list" where
  "padPrefix =
     [(u64Local ''h0'', u64Const 0x67452301), (u64Local ''h1'', u64Const 0xefcdab89), (u64Local ''h2'', u64Const 0x98badcfe),
      (u64Local ''h3'', u64Const 0x10325476), (u64Local ''h4'', u64Const 0xc3d2e1f0),
      (u64Local ''dataLen'', bytesLen (bytesLocal ''data'')),
      (u64Local ''bits'', u64BinOpC (u64Local ''dataLen'') U64Mult 8),
      (u64Local ''padLen'', u64BinOpC (u64BinOpC (u64BinOpC (u64Local ''dataLen'') U64Add 72) U64RShift 6) U64LShift 6)]"

definition padExpr :: expr where
  "padExpr = concatBytes (concatBytes (bytesLocal ''data'') (oneByte 0x80))
     (makeBzeroExpr (u64BinOp (u64BinOp (u64Local ''padLen'') U64Sub (u64Local ''dataLen'')) U64Sub (u64Const 9)))"

definition padRest :: "(expr \<times> expr) list" where
  "padRest =
     [(bytesLocal ''padded'', concatBytes (bytesLocal ''padded'') (lengthBytes 8 0 (makeBzeroExpr (u64Const 8)))),
      (u64Local ''pos'', u64Const 0)]"

lemma padInit_split: "padInit = padPrefix @ (bytesLocal ''padded'', padExpr) # padRest"
  by (simp add: padInit_def padPrefix_def padExpr_def padRest_def)

definition prefixVars :: "(string \<rightharpoonup> val) \<Rightarrow> bytes \<Rightarrow> (string \<rightharpoonup> val)" where
  "prefixVars m data = m
     (''h0'' \<mapsto> VU 0x67452301, ''h1'' \<mapsto> VU 0xefcdab89, ''h2'' \<mapsto> VU 0x98badcfe, ''h3'' \<mapsto> VU 0x10325476,
      ''h4'' \<mapsto> VU 0xc3d2e1f0, ''dataLen'' \<mapsto> VU (length data), ''bits'' \<mapsto> VU (length data * 8),
      ''padLen'' \<mapsto> VU (paddedLength (length data)))"

context avm
begin

lemma prefix_runs:
  assumes d: "m ''data'' = Some (VB data)" and len: "length data \<le> 4096"
  shows "runs ev \<sigma> m padPrefix (prefixVars m data)"
proof -
  let ?m1 = "m(''h0'' \<mapsto> VU 0x67452301)"
  let ?m2 = "?m1(''h1'' \<mapsto> VU 0xefcdab89)"
  let ?m3 = "?m2(''h2'' \<mapsto> VU 0x98badcfe)"
  let ?m4 = "?m3(''h3'' \<mapsto> VU 0x10325476)"
  let ?m5 = "?m4(''h4'' \<mapsto> VU 0xc3d2e1f0)"
  let ?m6 = "?m5(''dataLen'' \<mapsto> VU (length data))"
  let ?m7 = "?m6(''bits'' \<mapsto> VU (length data * 8))"
  have c: "sval ev {} \<tau> (u64Const 0x67452301) (VU 0x67452301)" "sval ev {} \<tau> (u64Const 0xefcdab89) (VU 0xefcdab89)"
    "sval ev {} \<tau> (u64Const 0x98badcfe) (VU 0x98badcfe)" "sval ev {} \<tau> (u64Const 0x10325476) (VU 0x10325476)"
    "sval ev {} \<tau> (u64Const 0xc3d2e1f0) (VU 0xc3d2e1f0)" for \<tau>
    by (rule const_u64; simp)+
  have e6: "sval ev {} (at \<sigma> ?m5) (bytesLen (bytesLocal ''data'')) (VU (length data))"
    by (rule len_u64[OF local_bytes]) (use d in simp)
  have e7: "sval ev {} (at \<sigma> ?m6) (u64BinOpC (u64Local ''dataLen'') U64Mult 8) (VU (length data * 8))"
    by (rule binC_u64[OF local_u64[where n = "length data"]]) (use len in simp_all)
  have "u64_op U64Add (length data) 72 = Some (length data + 72)" "u64_op U64RShift (length data + 72) 6 = Some ((length data + 72) div 2 ^ 6)"
    "u64_op U64LShift ((length data + 72) div 2 ^ 6) 6 = Some (paddedLength (length data))"
    using len paddedLength_bounds(2)[of "length data"] by (simp_all add: paddedLength_def mult.commute)
  then have e8: "sval ev {} (at \<sigma> ?m7)
      (u64BinOpC (u64BinOpC (u64BinOpC (u64Local ''dataLen'') U64Add 72) U64RShift 6) U64LShift 6) (VU (paddedLength (length data)))"
    by (intro binC_u64[OF binC_u64[OF binC_u64[OF local_u64[where n = "length data"]]]]) simp_all
  show ?thesis unfolding padPrefix_def prefixVars_def
    by (rule run_u64[OF c(1)] run_u64[OF c(2)] run_u64[OF c(3)] run_u64[OF c(4)] run_u64[OF c(5)] run_u64[OF e6] run_u64[OF e7]
        run_u64[OF e8] runs.simps(1)[THEN iffD2] refl)+
qed

end

end
