(* ===== verification/Ripemd160Message.thy ===== *)
theory Ripemd160Message
  imports Ripemd160Hash
begin

text \<open>
  The whole subroutine: the padded message is built, every chunk is compressed, and the digest returned.
  A message whose padded form exceeds the 4096 bytes of an AVM value traps.
\<close>

lemma runs_append:
  "runs ev \<sigma> m as m1 \<Longrightarrow> runs ev \<sigma> m1 bs m2 \<Longrightarrow> runs ev \<sigma> m (as @ bs) m2"
proof (induction as arbitrary: m)
  case (Cons a as)
  obtain t e where a: "a = (t, e)" by force
  with Cons show ?case by auto
qed simp

context avm
begin

lemma pad_value:
  assumes "m ''data'' = Some (VB data)" "length data \<le> 4087"
  shows "sval ev {} (at \<sigma> (prefixVars m data)) padExpr
    (VB (data @ [0x80] @ replicate (paddedLength (length data) - length data - 9) 0))"
proof -
  let ?n = "length data" and ?m = "prefixVars m data"
  note b = paddedLength_bounds[of ?n] paddedLength_fits[OF assms(2)]
  have v: "?m ''data'' = Some (VB data)" "?m ''padLen'' = Some (VU (paddedLength ?n))" "?m ''dataLen'' = Some (VU ?n)"
    using assms(1) by (simp_all add: prefixVars_def)
  have z: "su64 ev {} (at \<sigma> ?m) (u64BinOp (u64BinOp (u64Local ''padLen'') U64Sub (u64Local ''dataLen'')) U64Sub (u64Const 9))
      (paddedLength ?n - ?n - 9)"
    by (rule bin_u64[OF bin_u64[OF local_u64[where n = "paddedLength ?n"] local_u64[where n = ?n], where c = "paddedLength ?n - ?n"] const_u64])
      (use v b in simp_all)
  have o: "sbytes ev {} (at \<sigma> ?m) (oneByte 0x80) [0x80]" unfolding oneByte_def by (rule table_bytes) simp
  have "sbytes ev {} (at \<sigma> ?m) padExpr ((data @ [0x80]) @ replicate (paddedLength ?n - ?n - 9) 0)" unfolding padExpr_def
    by (intro concat_bytes o bzero_bytes z local_bytes) (use v b assms(2) in simp_all)
  then show ?thesis by simp
qed

lemma pad_traps:
  assumes "m ''data'' = Some (VB data)" "4088 \<le> length data" "length data \<le> 4096"
  shows "ev (at \<sigma> (prefixVars m data)) padExpr = None"
proof -
  let ?n = "length data" and ?\<sigma> = "at \<sigma> (prefixVars m data)"
  note b = paddedLength_bounds[of ?n] paddedLength_exceeds[OF assms(2)]
  have v: "ev ?\<sigma> (bytesLocal ''data'') = Some (VB data, ?\<sigma>)" "ev ?\<sigma> (oneByte 0x80) = Some (VB [0x80], ?\<sigma>)"
    using local_bytes[of ?\<sigma> "''data''" data] assms(1) table_bytes[of "[0x80]" ?\<sigma> EncBase16 bytesType]
    by (simp_all add: prefixVars_def sval_empty oneByte_def)
  have z: "su64 ev {} ?\<sigma> (u64BinOp (u64BinOp (u64Local ''padLen'') U64Sub (u64Local ''dataLen'')) U64Sub (u64Const 9))
      (paddedLength ?n - ?n - 9)"
    by (rule bin_u64[OF bin_u64[OF local_u64[where n = "paddedLength ?n"] local_u64[where n = ?n], where c = "paddedLength ?n - ?n"] const_u64])
      (use b in \<open>simp_all add: prefixVars_def\<close>)
  have "sbytes ev {} ?\<sigma> (makeBzeroExpr (u64BinOp (u64BinOp (u64Local ''padLen'') U64Sub (u64Local ''dataLen'')) U64Sub (u64Const 9)))
      (replicate (paddedLength ?n - ?n - 9) 0)"
    by (rule bzero_bytes[OF z]) (use b assms(3) in simp)
  then have w: "ev ?\<sigma> (makeBzeroExpr (u64BinOp (u64BinOp (u64Local ''padLen'') U64Sub (u64Local ''dataLen'')) U64Sub (u64Const 9))) =
      Some (VB (replicate (paddedLength ?n - ?n - 9) 0), ?\<sigma>)" by (simp add: sval_empty)
  have op: "ev \<tau> (concatBytes x y) = (case eval_args ev \<tau> [x, y] of None \<Rightarrow> None
      | Some (vs, \<sigma>') \<Rightarrow> map_option (\<lambda>v. (v, \<sigma>')) (avm_op ''concat'' [] vs))" for \<tau> x y
    unfolding concatBytes_def makeConcat_def makeIntrinsicCall_def by (rule sem_op) (simp add: pure_ops_def)
  have conc: "avm_op ''concat'' [] [VB x, VB y] = stack_bytes (x @ y)" for x y by (simp add: avm_op_def)
  have inner: "ev ?\<sigma> (concatBytes (bytesLocal ''data'') (oneByte 0x80)) =
      map_option (\<lambda>v. (v, ?\<sigma>)) (stack_bytes (data @ [0x80]))" by (simp add: op v conc)
  show ?thesis
  proof (cases "?n < 4096")
    case True
    then have "ev ?\<sigma> (concatBytes (bytesLocal ''data'') (oneByte 0x80)) = Some (VB (data @ [0x80]), ?\<sigma>)"
      by (simp add: inner stack_bytes_def)
    then show ?thesis unfolding padExpr_def by (subst op) (use b w in \<open>simp add: conc stack_bytes_def\<close>)
  next
    case False
    then show ?thesis unfolding padExpr_def by (subst op) (simp add: inner stack_bytes_def)
  qed
qed

lemma init_runs:
  assumes d: "m ''data'' = Some (VB data)" and len: "length data \<le> 4087"
  shows "\<exists>m'. runs ev \<sigma> m padInit m' \<and> digestVars m' initialChain \<and> m' ''pos'' = Some (VU 0) \<and>
    m' ''padLen'' = Some (VU (paddedLength (length data))) \<and> m' ''padded'' = Some (VB (padMessage data))"
proof -
  let ?n = "length data" and ?w = "word_of_nat (8 * length data) :: 64 word"
  let ?p1 = "data @ [0x80] @ replicate (paddedLength ?n - ?n - 9) 0"
  let ?m1 = "(prefixVars m data)(''padded'' \<mapsto> VB ?p1)"
  let ?m2 = "?m1(''padded'' \<mapsto> VB (padMessage data))"
  have u: "unat ?w = ?n * 8" using len take_bit_nat_eq_self[of "8 * length data" 64] by (subst unsigned_of_nat) simp
  have l8: "length (leBytes 8 ?w) = 8" by (simp add: leBytes_def)
  have pm: "padMessage data = ?p1 @ leBytes 8 ?w" by (simp add: padMessage_def paddedLength_def)
  have pl: "length ?p1 + 8 = paddedLength ?n" using paddedLength_bounds(1)[of ?n] by simp
  have e2: "sval ev {} (at \<sigma> ?m1) (concatBytes (bytesLocal ''padded'') (lengthBytes 8 0 (makeBzeroExpr (u64Const 8))))
      (VB (padMessage data))"
    unfolding pm using pl l8 paddedLength_fits[OF len]
    by (intro concat_bytes local_bytes lengthBytes_bytes) (use u in \<open>simp_all add: prefixVars_def\<close>)
  have e3: "sval ev {} (at \<sigma> ?m2) (u64Const 0) (VU 0)" by (rule const_u64) simp
  have rest: "runs ev \<sigma> (prefixVars m data) ((bytesLocal ''padded'', padExpr) # padRest) (?m2(''pos'' \<mapsto> VU 0))"
    unfolding padRest_def
    by (rule run_bytes[OF pad_value[where m = m, OF assms]] run_bytes[OF e2] run_u64[OF e3] runs.simps(1)[THEN iffD2] refl)+
  have "runs ev \<sigma> m padInit (?m2(''pos'' \<mapsto> VU 0))"
    unfolding padInit_split by (rule runs_append[OF prefix_runs[where m = m and \<sigma> = \<sigma>, OF d] rest]) (use len in simp)
  then show ?thesis by (intro exI[of _ "?m2(''pos'' \<mapsto> VU 0)"]) (simp add: prefixVars_def initialChain_def)
qed

lemma chunk_loop:
  assumes h: "digestVars m initialChain" and v: "m ''pos'' = Some (VU 0)" "m ''padLen'' = Some (VU (64 * n))"
    "m ''padded'' = Some (VB pd)" and len: "length pd = 64 * n" "length pd \<le> 4096"
  shows "\<exists>m'. exec ev (at \<sigma> m) (WhileLoop (makeNumericCompare (u64Local ''pos'') Lt (u64Local ''padLen''))
        (Some (makeBlock (chunkStmts @ assigned [(u64Local ''pos'', u64BinOpC (u64Local ''pos'') U64Add 64)]))))
      (Normal (at \<sigma> m')) \<and> digestVars m' (hashBlocks pd n)"
proof -
  define P where "P j m' \<longleftrightarrow> digestVars m' (hashBlocks pd j) \<and> m' ''pos'' = Some (VU (64 * j)) \<and>
    m' ''padLen'' = Some (VU (64 * n)) \<and> m' ''padded'' = Some (VB pd)" for j m'
  let ?body = "makeBlock (chunkStmts @ assigned [(u64Local ''pos'', u64BinOpC (u64Local ''pos'') U64Add 64)])"
  have "\<exists>m'. exec ev (at \<sigma> m) (WhileLoop (makeNumericCompare (u64Local ''pos'') Lt (u64Local ''padLen'')) (Some ?body))
      (Normal (at \<sigma> m')) \<and> P n m'"
  proof (rule count_loop[where P = P and i = 0])
    fix j m1 assume P: "P j m1" and j: "j < n"
    have b: "64 * j + 64 \<le> length pd" using j len(1) by simp
    from P have "digestVars m1 (hashBlocks pd j)" "m1 ''pos'' = Some (VU (64 * j))" "m1 ''padded'' = Some (VB pd)" by (simp_all add: P_def)
    from chunk_runs[OF this b len(2), of \<sigma>] obtain m2 where
      e: "execs ev (at \<sigma> m1) chunkStmts (Normal (at \<sigma> m2))" and d2: "digestVars m2 (hashBlocks pd (Suc j))"
      and f2: "\<forall>x. x \<notin> lineAll ''L'' \<union> lineAll ''R'' \<union> digestNames \<longrightarrow> m2 x = m1 x"
      by (auto simp: hashBlocks_def)
    have v2: "m2 ''pos'' = Some (VU (64 * j))" "m2 ''padLen'' = Some (VU (64 * n))" "m2 ''padded'' = Some (VB pd)"
      using f2 P by (simp_all add: P_def lineAll_def lineFrame_def stepVars_def digestNames_def)
    let ?m3 = "m2(''pos'' \<mapsto> VU (64 * Suc j))"
    have "sval ev {} (at \<sigma> m2) (u64BinOpC (u64Local ''pos'') U64Add 64) (VU (64 * Suc j))"
      by (rule binC_u64[OF local_u64[where n = "64 * j"]]) (use v2 b len(2) in simp_all)
    then have "runs ev \<sigma> m2 [(u64Local ''pos'', u64BinOpC (u64Local ''pos'') U64Add 64)] ?m3" by (rule run_u64) simp
    from runs_exec[OF this exec_execs_exec_branch_exec_items.Nil]
    have "exec ev (at \<sigma> m1) ?body (Normal (at \<sigma> ?m3))"
      using execs_append_Normal[OF e] by (simp add: makeBlock_def)
    moreover obtain a b c d e where "hashBlocks pd (Suc j) = (a, b, c, d, e)" by (metis prod_cases5)
    with d2 v2 have "P (Suc j) ?m3" by (simp add: P_def)
    ultimately show "\<exists>m'. exec ev (at \<sigma> m1) ?body (Normal (at \<sigma> m')) \<and> P (Suc j) m'" by blast
  next
    show "P 0 m" using h v by (simp add: P_def hashBlocks_def)
  next
    show "sbool ev {} (at \<sigma> m') (makeNumericCompare (u64Local ''pos'') Lt (u64Local ''padLen'')) (j < n)" if "P j m'" for j m'
      unfolding makeNumericCompare_def
      using sval_cmp_u64[OF local_u64[of "at \<sigma> m'" "''pos''" "64 * j"] local_u64[of "at \<sigma> m'" "''padLen''" "64 * n"], where nc = Lt] that
      by (simp add: P_def)
  qed simp
  then show ?thesis by (auto simp: P_def)
qed

lemma digest_value:
  assumes "digestVars (vars \<sigma>) H"
  shows "sbytes ev {} \<sigma> digestExpr (chainBytes H)"
proof -
  obtain a b c d e where H: "H = (a, b, c, d, e)" by (metis prod_cases5)
  have l: "length (leBytes 4 w) = 4" for w :: "32 word" by (simp add: leBytes_def)
  have "sbytes ev {} \<sigma> digestExpr ((((leBytes 4 a @ leBytes 4 b) @ leBytes 4 c) @ leBytes 4 d) @ leBytes 4 e)"
    unfolding digestExpr_def by (intro concat_bytes wordLeBytes_bytes) (use assms in \<open>simp_all add: H l\<close>)
  then show ?thesis by (simp add: H)
qed

lemma body_exec:
  assumes "vars \<sigma> ''data'' = Some (VB data)" "length data \<le> 4096"
  shows "if length data \<le> 4087
    then \<exists>\<sigma>'. execs ev \<sigma> bodyStmts (Returned (Some (VB (ripemd160 data))) \<sigma>') else execs ev \<sigma> bodyStmts Trap"
proof -
  have \<sigma>: "at \<sigma> (vars \<sigma>) = \<sigma>" by simp
  show ?thesis
  proof (cases "length data \<le> 4087")
    case True
    from init_runs[where m = "vars \<sigma>" and \<sigma> = \<sigma>, OF assms(1) True] obtain m1 where r: "runs ev \<sigma> (vars \<sigma>) padInit m1" and
      m1: "digestVars m1 initialChain" "m1 ''pos'' = Some (VU 0)" "m1 ''padLen'' = Some (VU (paddedLength (length data)))"
      "m1 ''padded'' = Some (VB (padMessage data))" by blast
    define n where "n = (length data + 72) div 64"
    have n: "paddedLength (length data) = 64 * n" by (simp add: n_def paddedLength_def)
    have pl: "length (padMessage data) = 64 * n" by (simp add: length_padMessage n)
    have p4: "length (padMessage data) \<le> 4096" using paddedLength_fits[OF True] by (simp add: length_padMessage)
    from chunk_loop[OF m1(1,2) m1(3)[unfolded n] m1(4) pl p4, of \<sigma>] obtain m2 where
      l: "exec ev (at \<sigma> m1) (WhileLoop (makeNumericCompare (u64Local ''pos'') Lt (u64Local ''padLen''))
        (Some (makeBlock (chunkStmts @ assigned [(u64Local ''pos'', u64BinOpC (u64Local ''pos'') U64Add 64)]))))
        (Normal (at \<sigma> m2))" and d: "digestVars m2 (hashBlocks (padMessage data) n)" by blast
    have "sbytes ev {} (at \<sigma> m2) digestExpr (ripemd160 data)"
      using digest_value[of "at \<sigma> m2"] d by (simp add: ripemd160_def pl)
    then have "exec ev (at \<sigma> m2) (makeReturnStatement (Some digestExpr)) (Returned (Some (VB (ripemd160 data))) (at \<sigma> m2))"
      unfolding makeReturnStatement_def sval_empty by (rule exec_execs_exec_branch_exec_items.Return)
    then have "execs ev (at \<sigma> m2) [makeReturnStatement (Some digestExpr)] (Returned (Some (VB (ripemd160 data))) (at \<sigma> m2))"
      by (rule exec_execs_exec_branch_exec_items.Stop) simp
    from runs_exec[OF r exec_execs_exec_branch_exec_items.Cons[OF l this]] True show ?thesis unfolding bodyStmts_def \<sigma> by auto
  next
    case False
    have t: "exec ev (at \<sigma> (prefixVars (vars \<sigma>) data)) (AssignmentStatement (bytesLocal ''padded'') padExpr) Trap"
      unfolding bytesLocal_def makeVarExpression_def
      by (rule exec_execs_exec_branch_exec_items.AssignTrap) (rule pad_traps[where m = "vars \<sigma>", OF assms(1)], use False assms(2) in simp_all)
    have "execs ev (at \<sigma> (prefixVars (vars \<sigma>) data)) (assigned ((bytesLocal ''padded'', padExpr) # padRest) @ ss) Trap" for ss
      using exec_execs_exec_branch_exec_items.Stop[OF t] by (simp add: assigned_def)
    from runs_exec[OF prefix_runs[where m = "vars \<sigma>" and \<sigma> = \<sigma>, OF assms] this] False show ?thesis
      unfolding bodyStmts_def padInit_split by (simp add: assigned_def)
  qed
qed

end

text \<open>
  (C34) The subroutine that the compiler emits for \<open>ripemd160\<close> terminates on every argument: it returns the
  RIPEMD-160 digest when the padded message fits into an AVM value (up to 4087 bytes of data), and traps
  on the longer ones.  Building it needs no compiler state and reports no error.
\<close>

theorem buildRipemd160Subroutine_correct:
  assumes "avm ev" "vars \<sigma> ''data'' = Some (VB data)" "length data \<le> 4096"
    and "run_state buildRipemd160Subroutine s = (sub, s')"
  shows "s' = s \<and> (\<exists>body. sub_body sub = Some body \<and> (if length data \<le> 4087
    then \<exists>\<sigma>'. exec ev \<sigma> body (Returned (Some (VB (ripemd160 data))) \<sigma>')
    else exec ev \<sigma> body Trap))"
proof -
  have "sub_body sub = Some (makeBlock bodyStmts)" "s' = s"
    using assms(4) by (auto simp: buildRipemd160Subroutine_def buildBody_stmts)
  with avm.body_exec[OF assms(1-3)] show ?thesis by (simp add: makeBlock_def)
qed

text \<open>The published test vector of the message \<open>abc\<close>.\<close>

theorem buildRipemd160Subroutine_correct_witness:
  "\<exists>\<sigma>'. exec aeval (env_of [(''data'', VB [0x61, 0x62, 0x63])])
     (the (sub_body (fst (run_state buildRipemd160Subroutine initialBst))))
     (Returned (Some (VB [0x8e, 0xb2, 0x08, 0xf7, 0xe0, 0x5d, 0x98, 0x7a, 0x9b, 0x04, 0x4a, 0x8e, 0x98, 0xc6, 0xb0, 0x87,
       0xf1, 0x5a, 0x0b, 0xfc])) \<sigma>')"
proof -
  have v: "ripemd160 [0x61, 0x62, 0x63] = [0x8e, 0xb2, 0x08, 0xf7, 0xe0, 0x5d, 0x98, 0x7a, 0x9b, 0x04, 0x4a, 0x8e, 0x98, 0xc6,
      0xb0, 0x87, 0xf1, 0x5a, 0x0b, 0xfc]"
    by code_simp
  let ?\<sigma> = "env_of [(''data'', VB [0x61, 0x62, 0x63])]"
  obtain sub s' where r: "run_state buildRipemd160Subroutine initialBst = (sub, s')" by force
  from buildRipemd160Subroutine_correct[OF ref.avm_axioms, where \<sigma> = ?\<sigma> and data = "[0x61, 0x62, 0x63]", OF _ _ r]
  show ?thesis by (auto simp: v r)
qed

end
