(* ===== verification/Arc4Encoding.thy ===== *)
theory Arc4Encoding
  imports Arc4Defaults
begin

text \<open>
  The ARC-4 encoding of typed values, written from the ABI standard, as the reference for
  \<open>Arc4Defaults\<close>: values, their types, fixed sizes, heads and tails, and the packing of
  consecutive Booleans.  Against it, the default encoding of a type is the encoding of its zero
  value, and the fixed size is the length of every encoded value of the type.
\<close>

section \<open>Values and their types\<close>

datatype arc4_value =
    ArcNum nat
  | ArcBool bool
  | ArcBytes bytes
  | ArcSeq "arc4_value list"

text \<open>
  The types that have an ARC-4 encoding.  Solidity has no empty arrays or structs of fixed size;
  the native \<open>bool\<close>, whose default encoding and size disagree, is left out.
\<close>

fun arc4_type :: "wtype \<Rightarrow> bool" where
  "arc4_type (ARC4UIntN n _) = (8 \<le> n \<and> n mod 8 = 0)"
| "arc4_type (ARC4UFixedNxM n _) = (8 \<le> n \<and> n mod 8 = 0)"
| "arc4_type (ARC4Tuple ts) = (ts \<noteq> [] \<and> list_all arc4_type ts)"
| "arc4_type (ARC4DynamicArray e _ _) = arc4_type e"
| "arc4_type (ARC4StaticArray e n _ _) = (arc4_type e \<and> 1 \<le> n)"
| "arc4_type (ARC4Struct _ fs _ _) = (fs \<noteq> [] \<and> list_all (\<lambda>f. arc4_type (snd f)) fs)"
| "arc4_type (BytesWType None) = True"
| "arc4_type (BytesWType (Some n)) = (1 \<le> n)"
| "arc4_type t = (t \<in> {arc4BoolType, uint64Type, biguintType, accountType})"

fun arc4_val :: "wtype \<Rightarrow> arc4_value \<Rightarrow> bool" where
  "arc4_val (ARC4UIntN n _) (ArcNum k) = (k < 2 ^ nat n)"
| "arc4_val (ARC4UFixedNxM n _) (ArcNum k) = (k < 2 ^ nat n)"
| "arc4_val (ARC4Tuple ts) (ArcSeq vs) = list_all2 (\<lambda>t v. arc4_val t v) ts vs"
| "arc4_val (ARC4DynamicArray e _ _) (ArcSeq vs) = (length vs < 2 ^ 16 \<and> list_all (arc4_val e) vs)"
| "arc4_val (ARC4StaticArray e n _ _) (ArcSeq vs) = (length vs = nat n \<and> list_all (arc4_val e) vs)"
| "arc4_val (ARC4Struct _ fs _ _) (ArcSeq vs) = list_all2 (\<lambda>f v. arc4_val (snd f) v) fs vs"
| "arc4_val (BytesWType None) (ArcBytes bs) = (length bs < 2 ^ 16)"
| "arc4_val (BytesWType (Some n)) (ArcBytes bs) = (length bs = nat n)"
| "arc4_val t (ArcBool b) = (t = arc4BoolType)"
| "arc4_val t (ArcNum k) = (t = uint64Type \<and> k < 2 ^ 64 \<or> t = biguintType \<and> k < 2 ^ 256)"
| "arc4_val t (ArcBytes bs) = (t = accountType \<and> length bs = 32)"
| "arc4_val t v = False"

fun zero_value :: "wtype \<Rightarrow> arc4_value" where
  "zero_value (ARC4Tuple ts) = ArcSeq (map zero_value ts)"
| "zero_value (ARC4DynamicArray e _ _) = ArcSeq []"
| "zero_value (ARC4StaticArray e n _ _) = ArcSeq (replicate (nat n) (zero_value e))"
| "zero_value (ARC4Struct _ fs _ _) = ArcSeq (map (\<lambda>f. zero_value (snd f)) fs)"
| "zero_value (BytesWType None) = ArcBytes []"
| "zero_value (BytesWType (Some n)) = ArcBytes (replicate (nat n) 0)"
| "zero_value t =
     (if t = arc4BoolType then ArcBool False
      else if t = accountType then ArcBytes (replicate 32 0)
      else ArcNum 0)"

section \<open>Sizes\<close>

text \<open>
  The size of a sequence of components, each a Boolean or a type of the given fixed size;
  \<open>before\<close> counts the Booleans that come directly before.  Every eighth Boolean opens a byte.
\<close>

fun seq_size :: "nat \<Rightarrow> (bool \<times> nat option) list \<Rightarrow> nat option" where
  "seq_size before [] = Some 0"
| "seq_size before ((True, _) # cs) =
     map_option ((+) (if before mod 8 = 0 then 1 else 0)) (seq_size (Suc before) cs)"
| "seq_size before ((False, None) # cs) = None"
| "seq_size before ((False, Some k) # cs) = map_option ((+) k) (seq_size 0 cs)"

text \<open>\<open>None\<close>: the type is dynamic.\<close>

fun fixed_size :: "wtype \<Rightarrow> nat option" where
  "fixed_size (ARC4UIntN n _) = Some (nat n div 8)"
| "fixed_size (ARC4UFixedNxM n _) = Some (nat n div 8)"
| "fixed_size (ARC4Tuple ts) = seq_size 0 (map (\<lambda>t. (t = arc4BoolType, fixed_size t)) ts)"
| "fixed_size (ARC4DynamicArray e _ _) = None"
| "fixed_size (ARC4StaticArray e n _ _) =
     seq_size 0 (replicate (nat n) (e = arc4BoolType, fixed_size e))"
| "fixed_size (ARC4Struct _ fs _ _) =
     seq_size 0 (map (\<lambda>f. (snd f = arc4BoolType, fixed_size (snd f))) fs)"
| "fixed_size (BytesWType n) = map_option nat n"
| "fixed_size t =
     (if t = arc4BoolType then Some 1 else if t = uint64Type then Some 8 else Some 32)"

section \<open>The encoding\<close>

datatype part = PBit bool | PStatic bytes | PDynamic bytes

fun leading_bits :: "part list \<Rightarrow> bool list" where
  "leading_bits (PBit b # ps) = b # leading_bits ps"
| "leading_bits _ = []"

text \<open>The first eight Booleans of a run, the first one in the highest bit.\<close>

definition pack_bits :: "bool list \<Rightarrow> byte" where
  "pack_bits bs = foldl (\<lambda>a b. 2 * a + of_bool b) 0 (take 8 (bs @ replicate 8 False))"

fun head_length :: "nat \<Rightarrow> part list \<Rightarrow> nat" where
  "head_length before [] = 0"
| "head_length before (PBit b # ps) =
     (if before mod 8 = 0 then 1 else 0) + head_length (Suc before) ps"
| "head_length before (PStatic bs # ps) = length bs + head_length 0 ps"
| "head_length before (PDynamic bs # ps) = 2 + head_length 0 ps"

text \<open>\<open>off\<close> is the position of the next tail.\<close>

fun heads :: "nat \<Rightarrow> nat \<Rightarrow> part list \<Rightarrow> bytes" where
  "heads before off [] = []"
| "heads before off (PBit b # ps) =
     (if before mod 8 = 0 then [pack_bits (leading_bits (PBit b # ps))] else [])
     @ heads (Suc before) off ps"
| "heads before off (PStatic bs # ps) = bs @ heads 0 off ps"
| "heads before off (PDynamic bs # ps) = be_fixed 2 off @ heads 0 (off + length bs) ps"

fun tails :: "part list \<Rightarrow> bytes" where
  "tails [] = []"
| "tails (PDynamic bs # ps) = bs @ tails ps"
| "tails (p # ps) = tails ps"

definition sequence :: "part list \<Rightarrow> bytes" where
  "sequence ps = heads 0 (head_length 0 ps) ps @ tails ps"

definition part_of :: "wtype \<Rightarrow> arc4_value \<Rightarrow> bytes \<Rightarrow> part" where
  "part_of t v bs =
     (if t = arc4BoolType then PBit (v = ArcBool True)
      else if fixed_size t = None then PDynamic bs else PStatic bs)"

lemma member_smaller: "(t :: wtype) \<in> set ts \<Longrightarrow> size t < Suc (size_list size ts)"
  using component_smaller[of "[]" t "ARC4Tuple ts"] by simp

lemma field_smaller: "(f :: string, t :: wtype) \<in> set fs \<Longrightarrow> size t < Suc (size_list (size_prod (\<lambda>_. 0) size) fs)"
  using component_smaller[of f t "ARC4Struct [] fs False False"] by simp

function (sequential) arc4_encode :: "wtype \<Rightarrow> arc4_value \<Rightarrow> bytes" where
  "arc4_encode (ARC4UIntN n _) (ArcNum k) = be_fixed (nat n div 8) k"
| "arc4_encode (ARC4UFixedNxM n _) (ArcNum k) = be_fixed (nat n div 8) k"
| "arc4_encode (ARC4Tuple ts) (ArcSeq vs) =
     sequence (map (\<lambda>(t, v). part_of t v (arc4_encode t v)) (zip ts vs))"
| "arc4_encode (ARC4DynamicArray e _ _) (ArcSeq vs) =
     be_fixed 2 (length vs) @ sequence (map (\<lambda>v. part_of e v (arc4_encode e v)) vs)"
| "arc4_encode (ARC4StaticArray e n _ _) (ArcSeq vs) =
     sequence (map (\<lambda>v. part_of e v (arc4_encode e v)) vs)"
| "arc4_encode (ARC4Struct _ fs _ _) (ArcSeq vs) =
     sequence (map (\<lambda>(f, v). part_of (snd f) v (arc4_encode (snd f) v)) (zip fs vs))"
| "arc4_encode (BytesWType None) (ArcBytes bs) = be_fixed 2 (length bs) @ bs"
| "arc4_encode t (ArcBytes bs) = bs"
| "arc4_encode t (ArcBool b) = [if b then 0x80 else 0]"
| "arc4_encode t (ArcNum k) = be_fixed (if t = uint64Type then 8 else 32) k"
| "arc4_encode t (ArcSeq vs) = []"
  by pat_completeness auto

termination
  by (relation "measure (\<lambda>(t, v). size t)") (auto dest!: set_zip_leftD intro: member_smaller field_smaller)

end
