(* ===== verification/Arc4Correct.thy ===== *)
theory Arc4Correct
  imports Arc4Encoding
begin

text \<open>
  The default encodings and the fixed sizes of \<open>Arc4Defaults\<close> against the ARC-4 reference of
  \<open>Arc4Encoding\<close>.
\<close>

section \<open>Bytes, runs and parts\<close>

lemma cdiv8 [simp]: "cdiv (int n) 8 = int (n div 8)" "cdiv (int n + 7) 8 = int ((n + 7) div 8)"
  by (simp_all add: cdiv_def zdiv_int)

lemma offsetBytes_be: "offsetBytes (int n) = be_fixed 2 n"
proof -
  have e: "(of_nat x AND (0xFF::int)) = of_nat (x mod 256)" for x
    using take_bit_eq_mask[of 8 "int x"] by (simp add: mask_numeral take_bit_eq_mod zmod_int)
  have d: "drop_bit 8 (int n) = int (n div 256)" by (simp add: drop_bit_eq_div zdiv_int)
  have w: "(word_of_nat (x mod 256) :: byte) = word_of_nat x" for x
    by (rule word_unat_eq_iff[THEN iffD2]) (simp add: unat_of_nat)
  show ?thesis by (simp add: offsetBytes_def d e w numeral_2_eq_2)
qed

lemma pack_bits_zero: "(\<forall>b \<in> set bs. \<not> b) \<Longrightarrow> pack_bits bs = 0"
proof -
  assume z: "\<forall>b \<in> set bs. \<not> b"
  have "foldl (\<lambda>a b. 2 * a + of_bool b) (0 :: byte) xs = 0" if "\<forall>b \<in> set xs. \<not> b" for xs
    using that by (induction xs) auto
  moreover have "\<forall>b \<in> set (take 8 (bs @ replicate 8 False)). \<not> b" using z by (auto dest: in_set_takeD)
  ultimately show ?thesis unfolding pack_bits_def by blast
qed

definition zero_bits :: "part list \<Rightarrow> bool" where
  "zero_bits ps \<longleftrightarrow> PBit True \<notin> set ps"

lemma zero_bits_Cons [simp]: "zero_bits (p # ps) \<longleftrightarrow> p \<noteq> PBit True \<and> zero_bits ps"
  by (auto simp: zero_bits_def)

lemma leading_zero: "zero_bits ps \<Longrightarrow> \<forall>b \<in> set (leading_bits ps). \<not> b"
  by (induction ps rule: leading_bits.induct) auto

lemma heads_PBit: "zero_bits ps \<Longrightarrow>
    heads before off (PBit False # ps) = replicate (if before mod 8 = 0 then 1 else 0) 0 @ heads (Suc before) off ps"
  using leading_zero[of ps] by (simp add: pack_bits_zero)

lemma run_bytes_Suc:
  "(n + 8) div 8 = (if n mod 8 = 0 then Suc ((n + 7) div 8) else (n + 7) div 8)"
  "(8 + n) div 8 = (if n mod 8 = 0 then Suc ((n + 7) div 8) else (n + 7) div 8)"
  by presburger+

lemma head_length_heads: "length (heads before off ps) = head_length before ps"
  by (induction before off ps rule: heads.induct) auto

lemma flush_nat: "flushBoolRun (int h) (int b) = int (h + (b + 7) div 8)"
  by (simp add: flushBoolRun_def)

lemma emit_nat: "emitBoolRun h (int b) = h @ replicate ((b + 7) div 8) 0"
  by (auto simp: emitBoolRun_def)

section \<open>The loop that writes heads and tails\<close>

fun encoding_of :: "part \<Rightarrow> FieldEncoding" where
  "encoding_of (PBit b) = \<lparr>fe_kind = Bool, fe_bytes = []\<rparr>"
| "encoding_of (PStatic bs) = \<lparr>fe_kind = Static, fe_bytes = bs\<rparr>"
| "encoding_of (PDynamic bs) = \<lparr>fe_kind = Dynamic, fe_bytes = bs\<rparr>"

text \<open>Every tail starts at an offset that two bytes can hold.\<close>

fun offsets_fit :: "nat \<Rightarrow> part list \<Rightarrow> bool" where
  "offsets_fit off [] = True"
| "offsets_fit off (PDynamic bs # ps) = (off \<le> 65535 \<and> offsets_fit (off + length bs) ps)"
| "offsets_fit off (p # ps) = offsets_fit off ps"

lemma emitFields_correct:
  assumes "zero_bits ps"
  shows "emitFields (map encoding_of ps) h t (int off) (int b) =
    (if offsets_fit off ps then Some (h @ replicate ((b + 7) div 8) 0 @ heads b off ps @ t @ tails ps) else None)"
  using assms
proof (induction ps arbitrary: h t off b)
  case Nil
  show ?case by (simp add: emit_nat)
next
  case (Cons p ps)
  from Cons.prems have z: "zero_bits ps" by simp
  note IH = Cons.IH[OF z]
  show ?case
  proof (cases p)
    case (PBit v)
    with Cons.prems have v: "v = False" by auto
    from IH[of h t off "Suc b"]
    show ?thesis unfolding PBit v
      by (simp add: heads_PBit[OF z] run_bytes_Suc add.commute del: heads.simps(2) flip: replicate_append_same)
  next
    case (PStatic bs)
    from IH[of "h @ replicate ((b + 7) div 8) 0 @ bs" t off 0]
    show ?thesis unfolding PStatic by (simp add: emit_nat)
  next
    case (PDynamic bs)
    from IH[of "h @ replicate ((b + 7) div 8) 0 @ be_fixed 2 off" "t @ bs" "off + length bs" 0]
    show ?thesis unfolding PDynamic by (simp add: emit_nat offsetBytes_be del: be_fixed.simps)
  qed
qed

lemma offsets_fit_bound: "off + length (tails ps) \<le> 65535 \<Longrightarrow> offsets_fit off ps"
  by (induction off ps rule: offsets_fit.induct) auto

lemma head_length_PBit: "head_length b (PBit v # ps) + (b + 7) div 8 = head_length (Suc b) ps + (Suc b + 7) div 8"
  by (simp add: run_bytes_Suc)

section \<open>Dynamic types\<close>

lemma seq_size_None: "seq_size b cs = None \<longleftrightarrow> (\<exists>k \<in> set cs. fst k = False \<and> snd k = None)"
  by (induction b cs rule: seq_size.induct) auto

lemma bool_static: "arc4IsDynamic arc4BoolType = False" "fixed_size arc4BoolType = Some 1"
  by (simp_all add: basic_type_defs)

lemma arc4IsDynamic_iff: "arc4_type t \<Longrightarrow> arc4IsDynamic t \<longleftrightarrow> fixed_size t = None"
proof (induction t rule: arc4_type.induct)
  case (3 ts)
  then have "arc4IsDynamic t \<longleftrightarrow> t \<noteq> arc4BoolType \<and> fixed_size t = None" if "t \<in> set ts" for t
    using that bool_static by (auto simp: list_all_iff)
  then show ?case by (auto simp: seq_size_None list_ex_iff)
next
  case (5 e n al im)
  then show ?case using bool_static by (auto simp: seq_size_None)
next
  case (6 n fs fr im)
  then have "arc4IsDynamic (snd f) \<longleftrightarrow> snd f \<noteq> arc4BoolType \<and> fixed_size (snd f) = None" if "f \<in> set fs" for f
    using that bool_static by (auto simp: list_all_iff)
  then show ?case by (auto simp: seq_size_None list_ex_iff)
qed auto

section \<open>The default encoding is the encoding of zero\<close>

definition zero_part :: "wtype \<Rightarrow> part" where
  "zero_part t = part_of t (zero_value t) (arc4_encode t (zero_value t))"

abbreviation zero_bytes :: "wtype \<Rightarrow> bytes" where
  "zero_bytes t \<equiv> arc4_encode t (zero_value t)"

definition gives_zero :: "wtype \<Rightarrow> bool" where
  "gives_zero t \<longleftrightarrow> (\<exists>ok. arc4DefaultEncoding t = Inr (if ok then Some (zero_bytes t) else None) \<and>
     (length (zero_bytes t) \<le> 65535 \<longrightarrow> ok))"

lemma zero_part_bool: "zero_part arc4BoolType = PBit False"
  by (simp add: zero_part_def part_of_def basic_type_defs)

lemma zero_part_other: "arc4_type t \<Longrightarrow> t \<noteq> arc4BoolType \<Longrightarrow>
    zero_part t = (if arc4IsDynamic t then PDynamic (zero_bytes t) else PStatic (zero_bytes t))"
  by (simp add: zero_part_def part_of_def arc4IsDynamic_iff)

lemma zero_part_bits: "zero_bits (map zero_part ts)"
  by (auto simp: zero_bits_def zero_part_def part_of_def basic_type_defs split: if_splits)

lemma fieldEncodings_correct:
  assumes "\<forall>t \<in> set ts. arc4_type t \<and> gives_zero t"
  shows "\<exists>ok. fieldEncodings ts encs (int h) (int b) =
      Inr (if ok then Some (encs @ map (encoding_of \<circ> zero_part) ts,
             int (h + (b + 7) div 8 + head_length b (map zero_part ts))) else None) \<and>
    ((\<forall>t \<in> set ts. length (zero_bytes t) \<le> 65535) \<longrightarrow> ok)"
  using assms
proof (induction ts arbitrary: encs h b)
  case Nil
  show ?case by (intro exI[of _ True]) (simp add: flush_nat)
next
  case (Cons t ts)
  then have IH: "\<exists>ok. fieldEncodings ts encs (int h) (int b) =
      Inr (if ok then Some (encs @ map (encoding_of \<circ> zero_part) ts,
             int (h + (b + 7) div 8 + head_length b (map zero_part ts))) else None) \<and>
    ((\<forall>t \<in> set ts. length (zero_bytes t) \<le> 65535) \<longrightarrow> ok)" for encs h b by simp
  show ?case
  proof (cases "t = arc4BoolType")
    case True
    obtain ok where "fieldEncodings ts (encs @ [\<lparr>fe_kind = Bool, fe_bytes = []\<rparr>]) (int h) (int (Suc b)) =
        Inr (if ok then Some ((encs @ [\<lparr>fe_kind = Bool, fe_bytes = []\<rparr>]) @ map (encoding_of \<circ> zero_part) ts,
             int (h + (Suc b + 7) div 8 + head_length (Suc b) (map zero_part ts))) else None)"
      "(\<forall>t \<in> set ts. length (zero_bytes t) \<le> 65535) \<longrightarrow> ok" using IH by metis
    then show ?thesis using True
      by (intro exI[of _ ok]) (simp add: zero_part_bool run_bytes_Suc add.commute)
  next
    case False
    from Cons.prems obtain o1 where t: "arc4_type t"
      and d: "arc4DefaultEncoding t = Inr (if o1 then Some (zero_bytes t) else None)"
      and o1: "length (zero_bytes t) \<le> 65535 \<longrightarrow> o1" by (auto simp: gives_zero_def)
    let ?p = "zero_part t"
    let ?h = "h + (b + 7) div 8 + head_length 0 [?p]"
    obtain ok where ok: "fieldEncodings ts (encs @ [encoding_of ?p]) (int ?h) (int 0) =
        Inr (if ok then Some ((encs @ [encoding_of ?p]) @ map (encoding_of \<circ> zero_part) ts,
             int (?h + (0 + 7) div 8 + head_length 0 (map zero_part ts))) else None)"
      "(\<forall>t \<in> set ts. length (zero_bytes t) \<le> 65535) \<longrightarrow> ok" using IH by metis
    show ?thesis
    proof (cases o1)
      case True
      with False t d have "fieldEncodings (t # ts) encs (int h) (int b) =
          fieldEncodings ts (encs @ [encoding_of ?p]) (int ?h) (int 0)"
        by (simp add: zero_part_other flush_nat add_ac)
      moreover have "?h + (0 + 7) div 8 + head_length 0 (map zero_part ts) =
          h + (b + 7) div 8 + head_length b (map zero_part (t # ts))"
        using False t by (simp add: zero_part_other)
      ultimately show ?thesis using ok by (intro exI[of _ ok]) simp
    next
      case no: False
      with o1 False d show ?thesis by (intro exI[of _ False]) simp
    qed
  qed
qed

lemma part_lengths:
  "PStatic bs \<in> set ps \<Longrightarrow> length bs \<le> head_length b ps"
  "PDynamic bs \<in> set ps \<Longrightarrow> length bs \<le> length (tails ps)"
  by (induction b ps rule: head_length.induct) auto

lemma length_sequence: "length (sequence ps) = head_length 0 ps + length (tails ps)"
  by (simp add: sequence_def head_length_heads)

lemma zero_bytes_member:
  assumes "t \<in> set ts" "arc4_type t" "length (sequence (map zero_part ts)) \<le> 65535"
  shows "length (zero_bytes t) \<le> 65535"
proof (cases "t = arc4BoolType")
  case True
  then show ?thesis by (simp add: basic_type_defs)
next
  case False
  from assms(1) have "zero_part t \<in> set (map zero_part ts)" by simp
  with zero_part_other[OF assms(2) False]
  have "length (zero_bytes t) \<le> length (sequence (map zero_part ts))"
    using part_lengths(1)[of "zero_bytes t" "map zero_part ts" 0] part_lengths(2)[of "zero_bytes t" "map zero_part ts"]
    by (auto simp: length_sequence split: if_splits)
  with assms(3) show ?thesis by simp
qed

lemma aggregate_correct:
  assumes "\<forall>t \<in> set ts. arc4_type t \<and> gives_zero t"
  shows "\<exists>ok. (case fieldEncodings ts [] 0 0 of
        Inl x \<Rightarrow> Inl x
      | Inr None \<Rightarrow> Inr None
      | Inr (Some (encodings, headSize)) \<Rightarrow>
          Inr (if headSize > 0xFFFF then None else emitFields encodings [] [] headSize 0))
    = Inr (if ok then Some (sequence (map zero_part ts)) else None) \<and>
    (length (sequence (map zero_part ts)) \<le> 65535 \<longrightarrow> ok)"
proof -
  let ?ps = "map zero_part ts"
  obtain o1 where o1: "fieldEncodings ts [] 0 0 =
      Inr (if o1 then Some (map encoding_of ?ps, int (head_length 0 ?ps)) else None)"
    "(\<forall>t \<in> set ts. length (zero_bytes t) \<le> 65535) \<longrightarrow> o1"
  proof -
    obtain ok where ok: "fieldEncodings ts [] (int 0) (int 0) =
        Inr (if ok then Some ([] @ map (encoding_of \<circ> zero_part) ts,
             int (0 + (0 + 7) div 8 + head_length 0 ?ps)) else None)"
      "(\<forall>t \<in> set ts. length (zero_bytes t) \<le> 65535) \<longrightarrow> ok"
      using fieldEncodings_correct[OF assms, of "[]" 0 0] by metis
    show ?thesis by (rule that[of ok]) (use ok in simp_all)
  qed
  let ?ok = "o1 \<and> head_length 0 ?ps \<le> 65535 \<and> offsets_fit (head_length 0 ?ps) ?ps"
  have "length (sequence ?ps) \<le> 65535 \<longrightarrow> ?ok"
    using o1(2) zero_bytes_member assms offsets_fit_bound[of "head_length 0 ?ps" ?ps]
    by (fastforce simp: length_sequence)
  moreover have "emitFields (map encoding_of ?ps) [] [] (int (head_length 0 ?ps)) 0 =
      (if offsets_fit (head_length 0 ?ps) ?ps then Some (sequence ?ps) else None)"
    using emitFields_correct[OF zero_part_bits, of ts "[]" "[]" "head_length 0 ?ps" 0] by (simp add: sequence_def)
  ultimately show ?thesis using o1(1) by (intro exI[of _ ?ok]) auto
qed

section \<open>Arrays of equal elements\<close>

lemma be_fixed_zero [simp]: "be_fixed n 0 = replicate n 0"
  by (induction n) (simp_all add: replicate_append_same)

lemma heads_bits:
  "replicate ((b + 7) div 8) 0 @ heads b off (replicate n (PBit False)) = replicate ((b + n + 7) div 8) 0"
proof (induction n arbitrary: b)
  case (Suc n)
  have z: "zero_bits (replicate n (PBit False))" by (simp add: zero_bits_def)
  have "replicate ((b + 7) div 8) 0 @ heads b off (replicate (Suc n) (PBit False)) =
      (replicate ((b + 7) div 8) 0 @ replicate (if b mod 8 = 0 then 1 else 0) 0)
        @ heads (Suc b) off (replicate n (PBit False))"
    by (simp only: replicate_Suc heads_PBit[OF z] append_assoc)
  also have "\<dots> = replicate ((Suc b + 7) div 8) 0 @ heads (Suc b) off (replicate n (PBit False))"
    by (simp add: run_bytes_Suc replicate_append_same)
  also have "\<dots> = replicate ((b + Suc n + 7) div 8) 0" by (simp only: Suc) simp
  finally show ?case .
qed simp

lemma sequence_bits: "sequence (replicate n (PBit False)) = replicate ((n + 7) div 8) 0"
proof -
  have "tails (replicate n (PBit False)) = []" by (induction n) auto
  with heads_bits[of 0 _ n] show ?thesis by (simp add: sequence_def)
qed

lemma sequence_static: "sequence (replicate n (PStatic d)) = concat (replicate n d)"
proof -
  have "tails (replicate n (PStatic d)) = []" by (induction n) auto
  moreover have "heads b off (replicate n (PStatic d)) = concat (replicate n d)" for b off
    by (induction n arbitrary: b) auto
  ultimately show ?thesis by (simp add: sequence_def)
qed

lemma sequence_dynamic:
  "sequence (replicate n (PDynamic d)) =
     concat (map (\<lambda>i. be_fixed 2 (n * 2 + i * length d)) [0..<n]) @ concat (replicate n d)"
proof -
  have "tails (replicate n (PDynamic d)) = concat (replicate n d)" by (induction n) auto
  moreover have "heads b off (replicate n (PDynamic d)) =
      concat (map (\<lambda>i. be_fixed 2 (off + i * length d)) [0..<n])" for b off
  proof (induction n arbitrary: b off)
    case (Suc n)
    have "[0..<Suc n] = 0 # map Suc [0..<n]" by (simp add: map_Suc_upt upt_conv_Cons)
    then show ?case using Suc by (simp add: comp_def add_ac del: be_fixed.simps upt_Suc)
  qed simp
  moreover have "head_length b (replicate n (PDynamic d)) = n * 2" for b by (induction n arbitrary: b) auto
  ultimately show ?thesis by (simp add: sequence_def del: be_fixed.simps)
qed

lemma arrayOfDefault_correct:
  assumes "0 < n"
  shows "\<exists>ok. arrayOfDefault (int n) dyn d =
      (if ok then Some (sequence (replicate n (if dyn then PDynamic d else PStatic d))) else None) \<and>
    (length (sequence (replicate n (if dyn then PDynamic d else PStatic d))) \<le> 65535 \<longrightarrow> ok)"
proof (cases dyn)
  case True
  let ?bad = "int n * 2 > 0xFFFF \<or>
    (int (length d) > 0 \<and> int n > 0 \<and> int n - 1 > cdiv (0xFFFF - int n * 2) (int (length d)))"
  let ?s = "sequence (replicate n (PDynamic d))"
  have off: "offsetBytes (int n * 2 + int i * int (length d)) = be_fixed 2 (n * 2 + i * length d)" for i
    using offsetBytes_be[of "n * 2 + i * length d"] by (simp del: be_fixed.simps)
  have "length ?s = n * 2 + n * length d"
    by (simp add: sequence_dynamic length_concat comp_def sum_list_replicate map_replicate_const sum_list_triv
        del: be_fixed.simps)
  moreover have "\<not> ?bad" if fit: "n * 2 + n * length d \<le> 65535"
  proof -
    have "(int n - 1) * int (length d) \<le> 0xFFFF - int n * 2"
    proof -
      have "int n * 2 + int n * int (length d) \<le> 65535" using fit by (simp flip: of_nat_mult of_nat_add)
      then show ?thesis by (simp add: algebra_simps)
    qed
    then have "int n - 1 \<le> (0xFFFF - int n * 2) div int (length d)" if "length d > 0"
      using that zdiv_mono1[of "(int n - 1) * int (length d)" _ "int (length d)"] by simp
    then show ?thesis using fit by (auto simp: cdiv_def)
  qed
  moreover have "arrayOfDefault (int n) True d = (if ?bad then None else Some ?s)"
    by (simp add: arrayOfDefault_def Let_def sequence_dynamic off del: be_fixed.simps)
  ultimately show ?thesis using True by (intro exI[of _ "\<not> ?bad"]) (auto simp del: be_fixed.simps)
next
  case False
  then show ?thesis by (intro exI[of _ True]) (simp add: arrayOfDefault_def sequence_static)
qed

section \<open>Every supported type\<close>

lemma zip_map_same: "zip xs (map f xs) = map (\<lambda>x. (x, f x)) xs"
  by (induction xs) auto

lemma zero_bytes_tuple: "zero_bytes (ARC4Tuple ts) = sequence (map zero_part ts)"
  by (simp add: zip_map_same comp_def zero_part_def[abs_def])

lemma zero_bytes_struct: "zero_bytes (ARC4Struct n fs fr im) = sequence (map zero_part (map snd fs))"
  by (simp add: zip_map_same comp_def zero_part_def)

lemma zero_bytes_array: "zero_bytes (ARC4StaticArray e n al im) = sequence (replicate (nat n) (zero_part e))"
  by (simp add: map_replicate zero_part_def)

lemma gives_zeroI: "arc4DefaultEncoding t = Inr (Some (zero_bytes t)) \<Longrightarrow> gives_zero t"
  by (auto simp: gives_zero_def intro: exI[of _ True])

lemma zeroVector_width: "0 \<le> n \<Longrightarrow> zeroVector n = Inr (Some (replicate (nat n) 0))"
  by (simp add: zeroVector_def)

lemma default_array:
  assumes "arc4_type e" "gives_zero e" "1 \<le> n"
  shows "gives_zero (ARC4StaticArray e n al im)"
proof (cases "e = arc4BoolType")
  case True
  have "cdiv (n + 7) 8 = int ((nat n + 7) div 8)" using assms(3) cdiv8(2)[of "nat n"] by simp
  with True assms(3) show ?thesis unfolding True
    by (intro gives_zeroI)
       (simp only: zero_bytes_array zero_part_bool sequence_bits arc4DefaultEncoding.simps zeroVector_def, simp)
next
  case False
  from assms(2) obtain o1 where o1: "arc4DefaultEncoding e = Inr (if o1 then Some (zero_bytes e) else None)"
    "length (zero_bytes e) \<le> 65535 \<longrightarrow> o1" by (auto simp: gives_zero_def)
  let ?s = "sequence (replicate (nat n) (zero_part e))"
  have n: "0 < nat n" "int (nat n) = n" using assms(3) by auto
  obtain o2 where o2: "arrayOfDefault n (arc4IsDynamic e) (zero_bytes e) = (if o2 then Some ?s else None)"
    "length ?s \<le> 65535 \<longrightarrow> o2"
    using arrayOfDefault_correct[OF n(1), of "arc4IsDynamic e" "zero_bytes e"]
    unfolding n(2) zero_part_other[OF assms(1) False, symmetric] by metis
  have "length (zero_bytes e) \<le> 65535" if "length ?s \<le> 65535"
    using zero_bytes_member[of e "replicate (nat n) e"] that assms(1) n(1) by (simp add: map_replicate)
  with o1 o2 show ?thesis using False assms(3)
    unfolding gives_zero_def zero_bytes_array by (intro exI[of _ "o1 \<and> o2"]) auto
qed

lemma default_aggregate:
  assumes "\<forall>t \<in> set ts. arc4_type t \<and> gives_zero t"
  shows "gives_zero (ARC4Tuple ts)"
    and "map snd fs = ts \<Longrightarrow> gives_zero (ARC4Struct n fs fr im)"
  using aggregate_correct[OF assms]
  unfolding gives_zero_def zero_bytes_tuple zero_bytes_struct arc4DefaultEncoding.simps
  by (assumption, simp only:)

lemma default_correct: "arc4_type t \<Longrightarrow> gives_zero t"
proof (induction t rule: arc4_type.induct)
  case (1 n al)
  then show ?case using cdiv8(1)[of "nat n"]
    by (intro gives_zeroI) (simp add: zeroVector_def basic_type_defs nat_div_distrib)
next
  case (2 n m)
  then show ?case using cdiv8(1)[of "nat n"]
    by (intro gives_zeroI) (simp add: zeroVector_def basic_type_defs nat_div_distrib)
next
  case (3 ts)
  then show ?case by (intro default_aggregate(1)) (auto simp: list_all_iff)
next
  case (4 e al im)
  show ?case by (intro gives_zeroI) (simp add: sequence_def numeral_2_eq_2)
next
  case (5 e n al im)
  then show ?case by (intro default_array) auto
next
  case (6 n fs fr im)
  then show ?case by (intro default_aggregate(2)) (auto simp: list_all_iff)
next
  case 7
  show ?case by (intro gives_zeroI) (simp add: numeral_2_eq_2)
next
  case (8 n)
  then show ?case by (intro gives_zeroI) (simp add: zeroVector_def)
qed (auto intro!: gives_zeroI simp: basic_type_defs zeroVector_def)

text \<open>
  The unsized byte string: the declaration (Arc4Defaults.h:44) says that it has no default encoding, the
  code gives that of the empty one, alone and as a component.
\<close>

lemma unsized_bytes_default: "arc4DefaultEncoding (BytesWType None) = Inr (Some [0, 0])"
  by simp

text \<open>
  (C35) The default encoding of a type with an ARC-4 encoding, in the sense of \<open>arc4_type\<close> and other than
  the unsized byte string itself, is the encoding of its zero value: zero integers and bytes, runs of
  Booleans packed eight to a byte, offsets of the dynamic components in the head, empty dynamic arrays and
  byte strings.  For these types the computation declines, without throwing, only when the zero value
  takes more than 65535 bytes.
\<close>

theorem arc4DefaultEncoding_correct:
  assumes "arc4_type t" "t \<noteq> BytesWType None"
  shows "(arc4DefaultEncoding t = Inr (Some (arc4_encode t (zero_value t))) \<or> arc4DefaultEncoding t = Inr None)
    \<and> (length (arc4_encode t (zero_value t)) \<le> 65535 \<longrightarrow>
        arc4DefaultEncoding t = Inr (Some (arc4_encode t (zero_value t))))"
proof -
  from default_correct[OF assms(1)] obtain ok where
    "arc4DefaultEncoding t = Inr (if ok then Some (zero_bytes t) else None)"
    "length (zero_bytes t) \<le> 65535 \<longrightarrow> ok" by (auto simp: gives_zero_def)
  then show ?thesis by (cases ok) simp_all
qed

definition sampleType :: wtype where
  "sampleType = ARC4Tuple [arc4BoolType, arc4BoolType, BytesWType None, ARC4UIntN 16 [],
     ARC4StaticArray (ARC4DynamicArray (ARC4UIntN 8 []) [] False) 2 [] False, arc4BoolType]"

theorem arc4DefaultEncoding_correct_witness:
  "arc4DefaultEncoding sampleType =
     Inr (Some [0, 0, 8, 0, 0, 0, 10, 0, 0, 0, 0, 4, 0, 6, 0, 0, 0, 0])"
proof -
  have e: "arc4_encode sampleType (zero_value sampleType) = [0, 0, 8, 0, 0, 0, 10, 0, 0, 0, 0, 4, 0, 6, 0, 0, 0, 0]"
    by (simp add: sampleType_def part_of_def sequence_def pack_bits_zero basic_type_defs numeral_2_eq_2)
  have "arc4_type sampleType" "sampleType \<noteq> BytesWType None" by (simp_all add: sampleType_def basic_type_defs)
  from arc4DefaultEncoding_correct[OF this] show ?thesis by (simp add: e)
qed

section \<open>Fixed sizes\<close>

fun matches :: "bool \<times> nat option \<Rightarrow> part \<Rightarrow> bool" where
  "matches c (PBit _) = fst c"
| "matches c (PStatic bs) = (\<not> fst c \<and> snd c = Some (length bs))"
| "matches c (PDynamic _) = (\<not> fst c \<and> snd c = None)"

lemma sequence_size:
  "list_all2 matches cs ps \<Longrightarrow> seq_size b cs = Some k \<Longrightarrow> head_length b ps = k \<and> tails ps = []"
proof (induction cs ps arbitrary: b k rule: list_all2_induct)
  case (Cons c cs p ps)
  then show ?case by (cases c; cases p) (auto split: if_splits)
qed simp

definition sized :: "wtype \<Rightarrow> arc4_value \<Rightarrow> bool" where
  "sized t v \<longleftrightarrow> (\<forall>k. fixed_size t = Some k \<longrightarrow> length (arc4_encode t v) = k)"

lemma part_matches: "sized t v \<Longrightarrow> matches (t = arc4BoolType, fixed_size t) (part_of t v (arc4_encode t v))"
  by (cases "fixed_size t") (auto simp: sized_def part_of_def)

lemma sized_sequence:
  assumes "list_all2 matches cs ps" "seq_size 0 cs = Some k"
  shows "length (sequence ps) = k"
  using sequence_size[OF assms] by (simp add: length_sequence)

lemma list_all2_zipI:
  "list_all2 P xs ys \<Longrightarrow> (\<And>x y. x \<in> set xs \<Longrightarrow> P x y \<Longrightarrow> Q (f x) (g (x, y))) \<Longrightarrow>
   list_all2 Q (map f xs) (map g (zip xs ys))"
  by (induction rule: list_all2_induct) auto

lemma basic_sized:
  "t \<in> {arc4BoolType, uint64Type, biguintType, accountType} \<Longrightarrow> arc4_val t v \<Longrightarrow> sized t v"
  by (cases v) (auto simp: sized_def basic_type_defs)

lemma encode_sized: "arc4_type t \<Longrightarrow> arc4_val t v \<Longrightarrow> sized t v"
proof (induction t arbitrary: v rule: arc4_type.induct)
  case (1 n al)
  then show ?case by (cases v) (auto simp: sized_def basic_type_defs)
next
  case (2 n m)
  then show ?case by (cases v) (auto simp: sized_def basic_type_defs)
next
  case (3 ts)
  then obtain vs where v: "v = ArcSeq vs" "list_all2 arc4_val ts vs" by (cases v) (auto simp: basic_type_defs)
  have "list_all2 matches (map (\<lambda>t. (t = arc4BoolType, fixed_size t)) ts)
      (map (\<lambda>(t, v). part_of t v (arc4_encode t v)) (zip ts vs))"
    by (rule list_all2_zipI[OF v(2)]) (use 3 part_matches in \<open>auto simp: list_all_iff\<close>)
  with v sized_sequence show ?case by (auto simp: sized_def)
next
  case (5 e n al im)
  then obtain vs where v: "v = ArcSeq vs" "length vs = nat n" "list_all (arc4_val e) vs" by (cases v) (auto simp: basic_type_defs)
  have "list_all2 matches (replicate (nat n) (e = arc4BoolType, fixed_size e))
      (map (\<lambda>v. part_of e v (arc4_encode e v)) vs)"
    using v 5 part_matches by (auto simp: list_all2_conv_all_nth list_all_length)
  with v sized_sequence show ?case by (auto simp: sized_def)
next
  case (6 n fs fr im)
  then obtain vs where v: "v = ArcSeq vs" "list_all2 (\<lambda>f. arc4_val (snd f)) fs vs" by (cases v) (auto simp: basic_type_defs)
  have "list_all2 matches (map (\<lambda>f. (snd f = arc4BoolType, fixed_size (snd f))) fs)
      (map (\<lambda>(f, v). part_of (snd f) v (arc4_encode (snd f) v)) (zip fs vs))"
    by (rule list_all2_zipI[OF v(2)]) (use 6 part_matches in \<open>auto simp: list_all_iff\<close>)
  with v sized_sequence show ?case by (auto simp: sized_def)
next
  case (8 n)
  then show ?case by (cases v) (auto simp: sized_def basic_type_defs)
next
  case (4 e al im)
  show ?case by (simp add: sized_def)
next
  case 7
  show ?case by (simp add: sized_def)
qed (rule basic_sized; simp; fail)+

section \<open>The computed size\<close>

lemma seq_size_pos: "seq_size b cs = Some 0 \<Longrightarrow> (b mod 8 = 0 \<or> \<not> fst (hd cs)) \<Longrightarrow> cs \<noteq> [] \<Longrightarrow> (False, Some 0) \<in> set cs"
  by (cases "(b, cs)" rule: seq_size.cases) auto

lemma fixed_size_pos: "arc4_type t \<Longrightarrow> fixed_size t \<noteq> Some 0"
proof (induction t rule: arc4_type.induct)
  case (3 ts)
  then show ?case using seq_size_pos[of 0 "map (\<lambda>t. (t = arc4BoolType, fixed_size t)) ts"]
    by (fastforce simp: list_all_iff)
next
  case (5 e n al im)
  then show ?case using seq_size_pos[of 0 "replicate (nat n) (e = arc4BoolType, fixed_size e)"] by auto
next
  case (6 n fs fr im)
  then show ?case using seq_size_pos[of 0 "map (\<lambda>f. (snd f = arc4BoolType, fixed_size (snd f))) fs"]
    by (fastforce simp: list_all_iff)
qed auto

lemma to_int32_small: "0 \<le> x \<Longrightarrow> x < 2 ^ 31 \<Longrightarrow> to_int32 x = x"
  by (simp add: to_int32_def signed_of_int signed_take_bit_int_eq_self)

definition size_ok :: "wtype \<Rightarrow> bool" where
  "size_ok t \<longleftrightarrow> t \<noteq> arc4BoolType \<longrightarrow>
     (fixed_size t = None \<longrightarrow> computeEncodedElementSize t = 0) \<and>
     (\<forall>k. fixed_size t = Some k \<longrightarrow> k < 2 ^ 31 \<longrightarrow> computeEncodedElementSize t = int k)"

abbreviation component :: "wtype \<Rightarrow> bool \<times> nat option" where
  "component t \<equiv> (t = arc4BoolType, fixed_size t)"

lemma aggregateSize_dynamic:
  assumes "\<forall>t \<in> set ts. size_ok t" "\<exists>t \<in> set ts. t \<noteq> arc4BoolType \<and> fixed_size t = None"
  shows "aggregateSize ts acc b = 0"
  using assms by (induction ts arbitrary: acc b) (auto simp: size_ok_def Let_def)

lemma aggregateSize_fixed:
  assumes "\<forall>t \<in> set ts. size_ok t \<and> arc4_type t" "seq_size b (map component ts) = Some k"
    and "a + (b + 7) div 8 + k < 2 ^ 31"
  shows "aggregateSize ts (int a) (int b) = int (a + (b + 7) div 8 + k)"
  using assms
proof (induction ts arbitrary: a b k)
  case Nil
  then show ?case by (simp add: flush_nat to_int32_small)
next
  case (Cons t ts)
  show ?case
  proof (cases "t = arc4BoolType")
    case True
    with Cons.prems obtain j where j: "seq_size (Suc b) (map component ts) = Some j"
      "k = (if b mod 8 = 0 then 1 else 0) + j" by auto
    with Cons.IH[of "Suc b" j a] Cons.prems True show ?thesis
      by (simp add: run_bytes_Suc add.commute split: if_splits)
  next
    case False
    with Cons.prems obtain i j where j: "fixed_size t = Some i" "seq_size 0 (map component ts) = Some j" "k = i + j"
      by (cases "fixed_size t") auto
    with False Cons.prems fixed_size_pos[of t] have c: "computeEncodedElementSize t = int i" "i \<noteq> 0"
      by (auto simp: size_ok_def)
    have "to_int32 (int (a + (b + 7) div 8) + int i) = int (a + (b + 7) div 8 + i)"
      using Cons.prems(3) j(3) by (simp add: to_int32_small)
    with Cons.IH[of 0 j "a + (b + 7) div 8 + i"] Cons.prems j c False show ?thesis
      by (simp add: flush_nat)
  qed
qed

lemma seq_size_bits: "seq_size b (replicate n (True, x)) = Some ((b + n + 7) div 8 - (b + 7) div 8)"
  by (induction n arbitrary: b) (auto simp: run_bytes_Suc Suc_diff_le div_le_mono)

lemma seq_size_equal: "seq_size b (replicate n (False, Some k)) = Some (n * k)"
  by (induction n arbitrary: b) auto

lemma size_aggregate:
  assumes "\<forall>t \<in> set ts. size_ok t \<and> arc4_type t"
    and "computeEncodedElementSize t = aggregateSize ts 0 0" "fixed_size t = seq_size 0 (map component ts)"
  shows "size_ok t"
  using aggregateSize_dynamic[of ts 0 0] aggregateSize_fixed[OF assms(1), of 0 _ 0] assms
  by (auto simp: size_ok_def seq_size_None)

lemma compute_size: "arc4_type t \<Longrightarrow> size_ok t"
proof (induction t rule: arc4_type.induct)
  case (1 n al)
  then show ?case using cdiv8(1)[of "nat n"] by (simp add: size_ok_def)
next
  case (2 n m)
  then show ?case using cdiv8(1)[of "nat n"] by (simp add: size_ok_def)
next
  case (3 ts)
  then show ?case by (intro size_aggregate[of ts]) (auto simp: list_all_iff)
next
  case (5 e n al im)
  then have e: "size_ok e" "arc4_type e" "1 \<le> n" by auto
  have n: "cdiv (n + 7) 8 = int ((nat n + 7) div 8)" using e(3) cdiv8(2)[of "nat n"] by simp
  show ?case
  proof (cases "e = arc4BoolType")
    case True
    then show ?thesis by (auto simp: size_ok_def seq_size_bits n to_int32_small)
  next
    case False
    show ?thesis
    proof (cases "fixed_size e")
      case None
      have "seq_size 0 (replicate (nat n) (False, None)) = None" using e(3) by (simp add: seq_size_None)
      with None e False show ?thesis by (simp add: size_ok_def)
    next
      case (Some k)
      have small: "computeEncodedElementSize e = int k" "k \<noteq> 0" if "nat n * k < 2147483648"
      proof -
        have "k \<le> nat n * k" using e(3) by (cases "nat n") auto
        then have "k < 2147483648" using that by (rule le_less_trans)
        then show "computeEncodedElementSize e = int k" using e(1) Some False by (auto simp: size_ok_def)
        show "k \<noteq> 0" using fixed_size_pos[OF e(2)] Some by auto
      qed
      have "to_int32 (n * int k) = int (nat n * k)" if "nat n * k < 2147483648"
      proof -
        have "n * int k = int (nat n * k)" using e(3) by simp
        with that show ?thesis by (simp add: to_int32_small del: of_nat_mult)
      qed
      with Some False small show ?thesis by (auto simp: size_ok_def seq_size_equal Let_def)
    qed
  qed
next
  case (6 n fs fr im)
  then show ?case by (intro size_aggregate[of "map snd fs"]) (auto simp: list_all_iff comp_def)
qed (auto simp: size_ok_def basic_type_defs)

text \<open>
  (C36) The static size of a type of \<open>arc4_type\<close> describes all its values: for a type whose encoding has a
  fixed length, every value of the type is encoded in exactly that many bytes, Booleans packed eight to
  a byte, and for a dynamic type the size is 0.  Left out are the lone \<open>arc4.bool\<close>, for which the code
  says 0, the native \<open>bool\<close>, for which it says 8 while the default encoding has 1 byte, and values whose
  encoding reaches \<open>2 ^ 31\<close> bytes, where the size wraps (\<open>size_wraps\<close>).
\<close>

theorem computeEncodedElementSize_typed:
  assumes "arc4_type t" "t \<noteq> arc4BoolType" "arc4_val t v" and "length (arc4_encode t v) < 2 ^ 31"
  shows "computeEncodedElementSize t = (if arc4IsDynamic t then 0 else int (length (arc4_encode t v)))"
proof (cases "fixed_size t")
  case None
  with compute_size[OF assms(1)] assms show ?thesis by (simp add: size_ok_def arc4IsDynamic_iff)
next
  case (Some k)
  with encode_sized[OF assms(1,3)] compute_size[OF assms(1)] assms show ?thesis
    by (simp add: size_ok_def sized_def arc4IsDynamic_iff)
qed

theorem computeEncodedElementSize_typed_witness:
  "computeEncodedElementSize (ARC4Tuple [arc4BoolType, ARC4UIntN 16 [], ARC4StaticArray arc4BoolType 9 [] False]) = 5"
proof -
  let ?t = "ARC4Tuple [arc4BoolType, ARC4UIntN 16 [], ARC4StaticArray arc4BoolType 9 [] False]"
  let ?v = "ArcSeq [ArcBool True, ArcNum 258, ArcSeq [ArcBool True, ArcBool True, ArcBool True, ArcBool True,
    ArcBool True, ArcBool True, ArcBool True, ArcBool True, ArcBool True]]"
  have "arc4_type ?t" "arc4_val ?t ?v" by (simp_all add: basic_type_defs)
  moreover have "length (arc4_encode ?t ?v) = 5" "\<not> arc4IsDynamic ?t"
    by (simp_all add: part_of_def length_sequence seq_size_bits basic_type_defs)
  ultimately show ?thesis using computeEncodedElementSize_typed[of ?t ?v] by (simp add: basic_type_defs)
qed

text \<open>The threshold of the scratch-page model, in terms of the encoded values.\<close>

corollary memoryUsesBlob_iff:
  assumes "arc4_type t" "t \<noteq> arc4BoolType" "arc4_val t v" and "length (arc4_encode t v) < 2 ^ 31"
  shows "memoryUsesBlob t \<longleftrightarrow> \<not> arc4IsDynamic t \<and> 4096 < length (arc4_encode t v)"
proof -
  have "sized t v" "size_ok t" using assms encode_sized compute_size by auto
  then show ?thesis using assms
    by (cases "fixed_size t") (auto simp: memoryUsesBlob_def size_ok_def sized_def arc4IsDynamic_iff)
qed

text \<open>
  Beyond that bound the 32-bit size wraps: a fixed array of 4 GiB has size 0 and counts as dynamic.
\<close>

lemma size_wraps:
  "computeEncodedElementSize (ARC4StaticArray (ARC4UIntN 256 []) 134217728 [] False) = 0"
  "computeEncodedElementSize (ARC4StaticArray (ARC4UIntN 256 []) 67108864 [] False) = - 2147483648"
  by (simp_all add: cdiv_def to_int32_def arc4BoolType_def Let_def)

end
