(* ===== verification/Registry.thy ===== *)
theory Registry
  imports RootNodes "HOL-Library.List_Lexorder" "HOL-Library.Char_ord"
begin

text \<open>
  The read-only traversal of AWST trees (\<open>src/src/awst/Visit.cpp\<close>) and the integrity check of a
  compilation unit that is built on it (\<open>src/src/builder/SubroutineRegistry.hpp\<close>): root
  identifiers are unique and not empty, and every call of a root subroutine finds its definition.
\<close>

section \<open>The visitor\<close>

text \<open>
  The children of an expression, in the order of \<open>visitExpr\<close>.  Every node class has its arm, so the
  \<open>logic_error\<close> for an unknown class is never thrown.
\<close>

fun exprChildren :: "expr \<Rightarrow> expr list" where
  "exprChildren (UInt64BinaryOperation _ left _ right) = [left, right]"
| "exprChildren (BigUIntBinaryOperation _ left _ right) = [left, right]"
| "exprChildren (BytesBinaryOperation _ left _ right) = [left, right]"
| "exprChildren (BooleanBinaryOperation _ left _ right) = [left, right]"
| "exprChildren (NumericComparisonExpression _ lhs _ rhs) = [lhs, rhs]"
| "exprChildren (BytesComparisonExpression _ lhs _ rhs) = [lhs, rhs]"
| "exprChildren (BytesUnaryOperation _ e _) = [e]"
| "exprChildren (NotExpr _ e) = [e]"
| "exprChildren (ReinterpretCast _ e) = [e]"
| "exprChildren (ConvertArray _ e) = [e]"
| "exprChildren (CheckedMaybe _ e _) = [e]"
| "exprChildren (CopyExpr _ val) = [val]"
| "exprChildren (SingleEvaluation _ src _) = [src]"
| "exprChildren (ARC4Encode _ val) = [val]"
| "exprChildren (ARC4Decode _ val) = [val]"
| "exprChildren (ARC4FromBytes _ val _) = [val]"
| "exprChildren (EmitExpr _ _ val) = [val]"
| "exprChildren (ArrayLength _ array) = [array]"
| "exprChildren (ArrayPop _ base) = [base]"
| "exprChildren (TupleItemExpression _ base _) = [base]"
| "exprChildren (FieldExpression _ base _) = [base]"
| "exprChildren (AssertExpression _ condition _ _) = [condition]"
| "exprChildren (IndexExpression _ base index) = [base, index]"
| "exprChildren (ArrayConcat _ left right) = [left, right]"
| "exprChildren (ArrayExtend _ base other) = [base, other]"
| "exprChildren (AssignmentExpression _ target val) = [target, val]"
| "exprChildren (ConditionalExpression _ condition trueExpr falseExpr) = [condition, trueExpr, falseExpr]"
| "exprChildren (TupleExpression _ items) = items"
| "exprChildren (NewArray _ vals) = vals"
| "exprChildren (IntrinsicCall _ _ _ stackArgs) = stackArgs"
| "exprChildren (CommaExpression _ expressions) = expressions"
| "exprChildren (SubmitInnerTransaction _ itxns) = itxns"
| "exprChildren (SubroutineCallExpression _ _ args) = map snd args"
| "exprChildren (PuyaLibCall _ _ args) = map snd args"
| "exprChildren (NewStruct _ vals) = map snd vals"
| "exprChildren (NamedTupleExpression _ vals) = map snd vals"
| "exprChildren (CreateInnerTransaction _ flds) = map snd flds"
| "exprChildren (AppStateExpression _ key _) = [key]"
| "exprChildren (AppAccountStateExpression _ key account _) = [key, account]"
| "exprChildren (BoxValueExpression _ key _) = [key]"
| "exprChildren (BoxPrefixedKeyExpression _ prefix key) = [prefix, key]"
| "exprChildren (StateGet _ field defaultValue) = [field, defaultValue]"
| "exprChildren (StateGetEx _ field) = [field]"
| "exprChildren (StateExists _ field) = [field]"
| "exprChildren (StateDelete _ field) = [field]"
| "exprChildren (InnerTransactionField _ itxn _ arrayIndex) =
     itxn # (case arrayIndex of None \<Rightarrow> [] | Some i \<Rightarrow> [i])"
| "exprChildren _ = []"

lemma snd_smaller: "(a, e) \<in> set xs \<Longrightarrow> size e < Suc (size_list (size_prod f size) xs)"
  by (induction xs) auto

lemma elem_smaller: "(e :: 'a :: size) \<in> set xs \<Longrightarrow> size e < Suc (size_list size xs)"
  by (induction xs) auto

lemma exprChildren_smaller: "c \<in> set (exprChildren e) \<Longrightarrow> size c < size e"
  by (cases e) (auto dest: snd_smaller elem_smaller split: option.splits)

text \<open>The visitor is a function on the state it changes.\<close>

function visitExpr :: "(expr \<Rightarrow> 's \<Rightarrow> 's) \<Rightarrow> expr \<Rightarrow> 's \<Rightarrow> 's" where
  "visitExpr visitor e s = fold (visitExpr visitor) (exprChildren e) (visitor e s)"
  by pat_completeness auto
termination
  by (relation "measure (\<lambda>(_, e, _). size e)") (auto simp: exprChildren_smaller)

declare visitExpr.simps [simp del]

fun visitStmt :: "(expr \<Rightarrow> 's \<Rightarrow> 's) \<Rightarrow> stmt \<Rightarrow> 's \<Rightarrow> 's"
  and visitBlock :: "(expr \<Rightarrow> 's \<Rightarrow> 's) \<Rightarrow> stmt option \<Rightarrow> 's \<Rightarrow> 's" where
  "visitStmt visitor (Block body label comment) s = fold (visitStmt visitor) body s"
| "visitStmt visitor (ExpressionStatement e) s = visitExpr visitor e s"
| "visitStmt visitor (ReturnStatement None) s = s"
| "visitStmt visitor (ReturnStatement (Some e)) s = visitExpr visitor e s"
| "visitStmt visitor (AssignmentStatement target val) s = visitExpr visitor val (visitExpr visitor target s)"
| "visitStmt visitor (IfElse condition ifBranch elseBranch) s =
     visitBlock visitor elseBranch (visitBlock visitor ifBranch (visitExpr visitor condition s))"
| "visitStmt visitor (WhileLoop condition loopBody) s =
     visitBlock visitor loopBody (visitExpr visitor condition s)"
| "visitStmt visitor (ForInLoop seqnc items loopBody) s =
     visitBlock visitor loopBody (visitExpr visitor items (visitExpr visitor seqnc s))"
| "visitStmt visitor (SwitchStmt val cs defaultCase) s =
     visitBlock visitor defaultCase
       (fold (\<lambda>c s. visitBlock visitor (snd c) (visitExpr visitor (fst c) s)) cs (visitExpr visitor val s))"
| "visitStmt visitor (UInt64AugmentedAssignment target aop val) s =
     visitExpr visitor val (visitExpr visitor target s)"
| "visitStmt visitor (BigUIntAugmentedAssignment target aop val) s =
     visitExpr visitor val (visitExpr visitor target s)"
| "visitStmt visitor (GotoStmt target) s = s"
| "visitStmt visitor LoopExit s = s"
| "visitStmt visitor LoopContinue s = s"
| "visitBlock visitor None s = s"
| "visitBlock visitor (Some b) s = visitStmt visitor b s"

definition visitExpressions :: "(expr \<Rightarrow> 's \<Rightarrow> 's) \<Rightarrow> stmt \<Rightarrow> 's \<Rightarrow> 's" where
  "visitExpressions visitor statement s = visitStmt visitor statement s"

definition visitMethod :: "(expr \<Rightarrow> 's \<Rightarrow> 's) \<Rightarrow> ContractMethod \<Rightarrow> 's \<Rightarrow> 's" where
  "visitMethod visitor method s = visitBlock visitor (cm_body method) s"

section \<open>The check of the roots\<close>

text \<open>
  The references are the keys of a \<open>std::map\<close>: distinct and in order.  The log is the list of
  error messages.
\<close>

definition noteReference :: "expr \<Rightarrow> string list \<Rightarrow> string list" where
  "noteReference e refs =
     (case e of SubroutineCallExpression _ (SubroutineID target) _ \<Rightarrow> insort_insert target refs | _ \<Rightarrow> refs)"

definition collectReferences :: "stmt option \<Rightarrow> string list \<Rightarrow> string list" where
  "collectReferences body refs =
     (case body of None \<Rightarrow> refs | Some b \<Rightarrow> visitExpressions noteReference b refs)"

record rootCheck =
  definitions :: "string list"
  references :: "string list"
  rootIds :: "string list"
  valid :: bool
  errorLog :: "string list"

definition defineRoot :: "string \<Rightarrow> rootCheck \<Rightarrow> rootCheck" where
  "defineRoot i s =
     (if i = [] \<or> i \<in> set (rootIds s)
      then s\<lparr>errorLog := errorLog s @ [''empty or duplicate AWST root id '' @ [CHR 39] @ i @ [CHR 39]],
             valid := False\<rparr>
      else s\<lparr>rootIds := rootIds s @ [i]\<rparr>)"

abbreviation addReferences :: "stmt option \<Rightarrow> rootCheck \<Rightarrow> rootCheck" where
  "addReferences body s \<equiv> s\<lparr>references := collectReferences body (references s)\<rparr>"

fun checkRoot :: "RootNode \<Rightarrow> rootCheck \<Rightarrow> rootCheck" where
  "checkRoot (SubroutineRoot subroutine) s =
     (let s = defineRoot (sub_id subroutine) s;
          s = s\<lparr>definitions := List.insert (sub_id subroutine) (definitions s)\<rparr>
      in addReferences (sub_body subroutine) s)"
| "checkRoot (ContractRoot contract) s =
     (let s = defineRoot (ct_id contract) s;
          s = addReferences (cm_body (approvalProgram contract)) s;
          s = addReferences (cm_body (clearProgram contract)) s
      in fold (\<lambda>method. addReferences (cm_body method)) (ct_methods contract) s)"
| "checkRoot (LogicSignatureRoot logicSig) s =
     (let s = defineRoot (ls_id logicSig) s
      in (case ls_program logicSig of None \<Rightarrow> s | Some p \<Rightarrow> addReferences (sub_body p) s))"

definition checkReference :: "string \<Rightarrow> rootCheck \<Rightarrow> rootCheck" where
  "checkReference i s =
     (if i \<notin> set (definitions s)
      then s\<lparr>errorLog := errorLog s @ [''unresolved root subroutine id '' @ [CHR 39] @ i @ [CHR 39]],
             valid := False\<rparr>
      else s)"

definition validateAwstRoots :: "RootNode list \<Rightarrow> bool \<times> string list" where
  "validateAwstRoots roots =
     (let s = fold checkRoot roots
            \<lparr>definitions = [], references = [], rootIds = [], valid = True, errorLog = []\<rparr>;
          s = fold checkReference (references s) s
      in (valid s, errorLog s))"

section \<open>What is called\<close>

text \<open>
  The root subroutines that an expression calls at any depth, by recursion over every operand of every
  constructor of the syntax, and not by the visitor's enumeration of children.
\<close>

fun target_callee :: "SubroutineTarget \<Rightarrow> string set" where
  "target_callee (SubroutineID i) = {i}"
| "target_callee _ = {}"

primrec callees :: "expr \<Rightarrow> string set" where
  "callees (IntegerConstant x0 x1) = {}"
| "callees (BoolConstant x0 x1) = {}"
| "callees (BytesConstant x0 x1 x2) = {}"
| "callees (StringConstant x0 x1) = {}"
| "callees (VoidConstant x0) = {}"
| "callees (VarExpression x0 x1) = {}"
| "callees (UInt64BinaryOperation x0 x1 x2 x3) = callees x1 \<union> callees x3"
| "callees (BigUIntBinaryOperation x0 x1 x2 x3) = callees x1 \<union> callees x3"
| "callees (BytesBinaryOperation x0 x1 x2 x3) = callees x1 \<union> callees x3"
| "callees (BytesUnaryOperation x0 x1 x2) = callees x1"
| "callees (NumericComparisonExpression x0 x1 x2 x3) = callees x1 \<union> callees x3"
| "callees (BytesComparisonExpression x0 x1 x2 x3) = callees x1 \<union> callees x3"
| "callees (BooleanBinaryOperation x0 x1 x2 x3) = callees x1 \<union> callees x3"
| "callees (NotExpr x0 x1) = callees x1"
| "callees (AssertExpression x0 x1 x2 x3) = callees x1"
| "callees (AssignmentExpression x0 x1 x2) = callees x1 \<union> callees x2"
| "callees (ConditionalExpression x0 x1 x2 x3) = callees x1 \<union> callees x2 \<union> callees x3"
| "callees (SubroutineCallExpression x0 x1 x2) = target_callee x1 \<union> \<Union> (snd ` set (map (map_prod id callees) x2))"
| "callees (IntrinsicCall x0 x1 x2 x3) = \<Union> (set (map callees x3))"
| "callees (FieldExpression x0 x1 x2) = callees x1"
| "callees (IndexExpression x0 x1 x2) = callees x1 \<union> callees x2"
| "callees (TupleExpression x0 x1) = \<Union> (set (map callees x1))"
| "callees (TupleItemExpression x0 x1 x2) = callees x1"
| "callees (ARC4Encode x0 x1) = callees x1"
| "callees (ARC4Decode x0 x1) = callees x1"
| "callees (ARC4FromBytes x0 x1 x2) = callees x1"
| "callees (ARC4Router x0) = {}"
| "callees (ReinterpretCast x0 x1) = callees x1"
| "callees (TemplateVar x0 x1) = {}"
| "callees (CopyExpr x0 x1) = callees x1"
| "callees (SingleEvaluation x0 x1 x2) = callees x1"
| "callees (CheckedMaybe x0 x1 x2) = callees x1"
| "callees (EmitExpr x0 x1 x2) = callees x2"
| "callees (NewArray x0 x1) = \<Union> (set (map callees x1))"
| "callees (ArrayLength x0 x1) = callees x1"
| "callees (ArrayPop x0 x1) = callees x1"
| "callees (ArrayConcat x0 x1 x2) = callees x1 \<union> callees x2"
| "callees (ArrayExtend x0 x1 x2) = callees x1 \<union> callees x2"
| "callees (ConvertArray x0 x1) = callees x1"
| "callees (NewStruct x0 x1) = \<Union> (snd ` set (map (map_prod id callees) x1))"
| "callees (NamedTupleExpression x0 x1) = \<Union> (snd ` set (map (map_prod id callees) x1))"
| "callees (StateGet x0 x1 x2) = callees x1 \<union> callees x2"
| "callees (StateExists x0 x1) = callees x1"
| "callees (StateDelete x0 x1) = callees x1"
| "callees (StateGetEx x0 x1) = callees x1"
| "callees (AppStateExpression x0 x1 x2) = callees x1"
| "callees (AppAccountStateExpression x0 x1 x2 x3) = callees x1 \<union> callees x2"
| "callees (BoxPrefixedKeyExpression x0 x1 x2) = callees x1 \<union> callees x2"
| "callees (BoxValueExpression x0 x1 x2) = callees x1"
| "callees (CreateInnerTransaction x0 x1) = \<Union> (snd ` set (map (map_prod id callees) x1))"
| "callees (SubmitInnerTransaction x0 x1) = \<Union> (set (map callees x1))"
| "callees (InnerTransactionField x0 x1 x2 x3) = callees x1 \<union> \<Union> (set_option (map_option callees x3))"
| "callees (CommaExpression x0 x1) = \<Union> (set (map callees x1))"
| "callees (MethodConstant x0 x1) = {}"
| "callees (AddressConstant x0 x1) = {}"
| "callees (PuyaLibCall x0 x1 x2) = \<Union> (snd ` set (map (map_prod id callees) x2))"

text \<open>The root subroutines that a statement calls.\<close>

fun stmt_callees :: "stmt \<Rightarrow> string set" and block_callees :: "stmt option \<Rightarrow> string set" where
  "stmt_callees (Block body _ _) = (\<Union>s \<in> set body. stmt_callees s)"
| "stmt_callees (ExpressionStatement e) = callees e"
| "stmt_callees (ReturnStatement v) = (case v of None \<Rightarrow> {} | Some e \<Rightarrow> callees e)"
| "stmt_callees (AssignmentStatement t v) = callees t \<union> callees v"
| "stmt_callees (IfElse c i e) = callees c \<union> block_callees i \<union> block_callees e"
| "stmt_callees (WhileLoop c b) = callees c \<union> block_callees b"
| "stmt_callees (ForInLoop e i b) = callees e \<union> callees i \<union> block_callees b"
| "stmt_callees (SwitchStmt v cs d) =
     callees v \<union> (\<Union>c \<in> set cs. callees (fst c) \<union> block_callees (snd c)) \<union> block_callees d"
| "stmt_callees (UInt64AugmentedAssignment t _ v) = callees t \<union> callees v"
| "stmt_callees (BigUIntAugmentedAssignment t _ v) = callees t \<union> callees v"
| "stmt_callees s = {}"
| "block_callees None = {}"
| "block_callees (Some b) = stmt_callees b"

text \<open>
  A visitor that only accumulates is judged by what it adds: \<open>adds f g\<close> says that \<open>f\<close> adds the
  names \<open>g\<close> to a sorted list of names.
\<close>

definition name_list :: "string list \<Rightarrow> bool" where
  "name_list xs \<longleftrightarrow> sorted xs \<and> distinct xs"

definition adds :: "(string list \<Rightarrow> string list) \<Rightarrow> string set \<Rightarrow> bool" where
  "adds f A \<longleftrightarrow> (\<forall>xs. name_list xs \<longrightarrow> name_list (f xs) \<and> set (f xs) = set xs \<union> A)"

lemma adds_id: "adds (\<lambda>xs. xs) {}"
  by (simp add: adds_def)

lemma adds_eq: "adds f A \<Longrightarrow> (\<And>xs. g xs = f xs) \<Longrightarrow> B = A \<Longrightarrow> adds g B"
  by (simp add: adds_def)

lemma adds_comp: "adds f A \<Longrightarrow> adds g B \<Longrightarrow> adds (\<lambda>xs. g (f xs)) (A \<union> B)"
  by (simp add: adds_def Un_assoc)

lemma adds_fold: "(\<And>x. x \<in> set xs \<Longrightarrow> adds (f x) (A x)) \<Longrightarrow> adds (fold f xs) (\<Union>x \<in> set xs. A x)"
proof (induction xs)
  case (Cons x xs)
  then have "adds (f x) (A x)" "adds (fold f xs) (\<Union>x \<in> set xs. A x)" by auto
  from adds_comp[OF this] show ?case by (simp add: comp_def)
qed (simp add: adds_def)

definition node_callee :: "expr \<Rightarrow> string set" where
  "node_callee e = (case e of SubroutineCallExpression _ target _ \<Rightarrow> target_callee target | _ \<Rightarrow> {})"

lemma adds_noteReference: "adds (noteReference e) (node_callee e)"
  by (auto simp: adds_def noteReference_def node_callee_def name_list_def distinct_insort_insert
      sorted_insort_insert set_insort_insert split: expr.splits SubroutineTarget.splits)

text \<open>The visitor's enumeration of children misses no operand.\<close>

lemma callees_children: "callees e = node_callee e \<union> (\<Union>c \<in> set (exprChildren e). callees c)"
  by (cases e) (auto simp: node_callee_def image_iff split: option.splits)

lemma adds_visitExpr: "adds (visitExpr noteReference e) (callees e)"
proof (induction e rule: measure_induct_rule[where f = size])
  case (less e)
  have "adds (\<lambda>s. fold (visitExpr noteReference) (exprChildren e) (noteReference e s))
      (node_callee e \<union> (\<Union>c \<in> set (exprChildren e). callees c))"
    by (intro adds_comp adds_noteReference adds_fold less exprChildren_smaller)
  then show ?case by (rule adds_eq) (simp_all only: visitExpr.simps[of _ e] callees_children[of e])
qed

lemma adds_visitStmt:
  "adds (visitStmt noteReference st) (stmt_callees st)"
  "adds (visitBlock noteReference b) (block_callees b)"
proof (induction st and b rule: stmt_callees_block_callees.induct)
  case (1 body l c)
  then have "adds (fold (visitStmt noteReference) body) (\<Union>s \<in> set body. stmt_callees s)"
    by (rule adds_fold)
  then show ?case by (rule adds_eq) simp_all
next
  case (2 e)
  show ?case by (rule adds_eq[OF adds_visitExpr]) simp_all
next
  case (3 v)
  show ?case
    by (cases v) (auto intro: adds_eq[OF adds_id] adds_eq[OF adds_visitExpr])
next
  case (4 t v)
  show ?case by (rule adds_eq[OF adds_comp[OF adds_visitExpr[of t] adds_visitExpr[of v]]]) simp_all
next
  case (5 c i e)
  show ?case by (rule adds_eq[OF adds_comp[OF adds_comp[OF adds_visitExpr[of c] 5(1)] 5(2)]]) simp_all
next
  case (6 c b)
  show ?case by (rule adds_eq[OF adds_comp[OF adds_visitExpr[of c] 6]]) simp_all
next
  case (7 e i b)
  show ?case
    by (rule adds_eq[OF adds_comp[OF adds_comp[OF adds_visitExpr[of e] adds_visitExpr[of i]] 7]]) simp_all
next
  case (8 v cs d)
  have "adds (\<lambda>s. visitBlock noteReference (snd c) (visitExpr noteReference (fst c) s))
      (callees (fst c) \<union> block_callees (snd c))" if "c \<in> set cs" for c
    using that 8(1) by (intro adds_comp adds_visitExpr) auto
  from adds_comp[OF adds_comp[OF adds_visitExpr[of v] adds_fold[OF this]] 8(2)]
  show ?case by (rule adds_eq) (simp_all only: visitStmt.simps stmt_callees.simps)
next
  case (9 t aop v)
  show ?case by (rule adds_eq[OF adds_comp[OF adds_visitExpr[of t] adds_visitExpr[of v]]]) simp_all
next
  case (10 t aop v)
  show ?case by (rule adds_eq[OF adds_comp[OF adds_visitExpr[of t] adds_visitExpr[of v]]]) simp_all
qed (auto intro: adds_eq[OF adds_id] adds_eq)

section \<open>The check decides the integrity of the unit\<close>

fun rootId :: "RootNode \<Rightarrow> string" where
  "rootId (SubroutineRoot s) = sub_id s"
| "rootId (ContractRoot c) = ct_id c"
| "rootId (LogicSignatureRoot l) = ls_id l"

fun root_bodies :: "RootNode \<Rightarrow> stmt option list" where
  "root_bodies (SubroutineRoot s) = [sub_body s]"
| "root_bodies (ContractRoot c) =
     [cm_body (approvalProgram c), cm_body (clearProgram c)] @ map cm_body (ct_methods c)"
| "root_bodies (LogicSignatureRoot l) = (case ls_program l of None \<Rightarrow> [] | Some p \<Rightarrow> [sub_body p])"

definition called :: "RootNode list \<Rightarrow> string set" where
  "called roots = (\<Union>r \<in> set roots. \<Union>b \<in> set (root_bodies r). block_callees b)"

definition defined :: "RootNode list \<Rightarrow> string set" where
  "defined roots = {sub_id s |s. SubroutineRoot s \<in> set roots}"

lemma addsD: "adds f A \<Longrightarrow> name_list xs \<Longrightarrow> name_list (f xs) \<and> set (f xs) = set xs \<union> A"
  by (simp add: adds_def)

lemma adds_collectReferences: "adds (collectReferences b) (block_callees b)"
proof (cases b)
  case None
  show ?thesis by (rule adds_eq[OF adds_id]) (simp_all add: None collectReferences_def)
next
  case (Some st)
  show ?thesis by (rule adds_eq[OF adds_visitStmt(1)[of st]])
      (simp_all add: Some collectReferences_def visitExpressions_def)
qed

lemma addReferences_fold:
  "fold (\<lambda>m. addReferences (h m)) ms s = s\<lparr>references := fold (\<lambda>m. collectReferences (h m)) ms (references s)\<rparr>"
  by (induction ms arbitrary: s) simp_all

lemma checkRoot_eq:
  "checkRoot r s =
    (let s' = defineRoot (rootId r) s
     in s'\<lparr>definitions := (case r of SubroutineRoot u \<Rightarrow> List.insert (sub_id u) (definitions s) | _ \<Rightarrow> definitions s),
           references := fold collectReferences (root_bodies r) (references s)\<rparr>)"
  by (cases r) (auto simp: Let_def defineRoot_def addReferences_fold fold_map comp_def
      split: option.splits)

definition bad_ids :: "string list \<Rightarrow> string list \<Rightarrow> bool" where
  "bad_ids seen ids \<longleftrightarrow> [] \<in> set ids \<or> \<not> distinct ids \<or> set seen \<inter> set ids \<noteq> {}"

lemma checkRoots_run:
  assumes "name_list (references s)" "distinct (rootIds s)" "[] \<notin> set (rootIds s)"
  shows "\<exists>dups. fold checkRoot roots s =
      s\<lparr>definitions := definitions (fold checkRoot roots s), references := references (fold checkRoot roots s),
        rootIds := rootIds (fold checkRoot roots s), valid := valid s \<and> dups = [], errorLog := errorLog s @ dups\<rparr>
    \<and> (dups = [] \<longleftrightarrow> \<not> bad_ids (rootIds s) (map rootId roots))
    \<and> set (definitions (fold checkRoot roots s)) = set (definitions s) \<union> defined roots
    \<and> name_list (references (fold checkRoot roots s))
    \<and> set (references (fold checkRoot roots s)) = set (references s) \<union> called roots"
  using assms
proof (induction roots arbitrary: s)
  case Nil
  then show ?case by (intro exI[of _ "[]"]) (auto simp: bad_ids_def defined_def called_def)
next
  case (Cons r roots)
  let ?s = "checkRoot r s"
  have "adds (fold collectReferences (root_bodies r)) (\<Union>b \<in> set (root_bodies r). block_callees b)"
    by (intro adds_fold adds_collectReferences)
  from addsD[OF this Cons.prems(1)] have refs: "name_list (references ?s)"
    "set (references ?s) = set (references s) \<union> (\<Union>b \<in> set (root_bodies r). block_callees b)"
    by (auto simp: checkRoot_eq Let_def)
  have defs: "set (definitions ?s) = set (definitions s) \<union> defined [r]"
    by (auto simp: checkRoot_eq Let_def defined_def split: RootNode.splits)
  obtain d where d: "valid ?s = (valid s \<and> d = [])" "errorLog ?s = errorLog s @ d"
    "d = [] \<longleftrightarrow> rootId r \<noteq> [] \<and> rootId r \<notin> set (rootIds s)"
    "rootIds ?s = (if d = [] then rootIds s @ [rootId r] else rootIds s)"
  proof
    let ?d = "if rootId r = [] \<or> rootId r \<in> set (rootIds s)
      then [''empty or duplicate AWST root id '' @ [CHR 39] @ rootId r @ [CHR 39]] else []"
    show "valid ?s = (valid s \<and> ?d = [])" "errorLog ?s = errorLog s @ ?d"
      "?d = [] \<longleftrightarrow> rootId r \<noteq> [] \<and> rootId r \<notin> set (rootIds s)"
      "rootIds ?s = (if ?d = [] then rootIds s @ [rootId r] else rootIds s)"
      by (simp_all add: checkRoot_eq defineRoot_def Let_def)
  qed
  have "distinct (rootIds ?s)" "[] \<notin> set (rootIds ?s)" using d Cons.prems by auto
  from Cons.IH[OF refs(1) this] obtain dups where IH:
    "fold checkRoot roots ?s =
      ?s\<lparr>definitions := definitions (fold checkRoot roots ?s), references := references (fold checkRoot roots ?s),
        rootIds := rootIds (fold checkRoot roots ?s), valid := valid ?s \<and> dups = [], errorLog := errorLog ?s @ dups\<rparr>"
    "dups = [] \<longleftrightarrow> \<not> bad_ids (rootIds ?s) (map rootId roots)"
    "set (definitions (fold checkRoot roots ?s)) = set (definitions ?s) \<union> defined roots"
    "name_list (references (fold checkRoot roots ?s))"
    "set (references (fold checkRoot roots ?s)) = set (references ?s) \<union> called roots" by metis
  have "valid (fold checkRoot roots ?s) = (valid s \<and> d @ dups = [])"
    "errorLog (fold checkRoot roots ?s) = errorLog s @ d @ dups"
    by (subst IH(1), simp add: d conj_ac)+
  moreover have "d @ dups = [] \<longleftrightarrow> \<not> bad_ids (rootIds s) (map rootId (r # roots))"
    using d(3,4) IH(2) by (auto simp: bad_ids_def)
  moreover have "defined (r # roots) = defined [r] \<union> defined roots"
    "called (r # roots) = (\<Union>b \<in> set (root_bodies r). block_callees b) \<union> called roots"
    by (auto simp: defined_def called_def)
  ultimately show ?case using IH(3-5) defs refs(2)
    by (intro exI[of _ "d @ dups"]) (auto intro!: rootCheck.equality)
qed

definition unresolved_message :: "string \<Rightarrow> string" where
  "unresolved_message i = ''unresolved root subroutine id '' @ [CHR 39] @ i @ [CHR 39]"

lemma checkReferences_run:
  "fold checkReference is s =
    (let missing = filter (\<lambda>i. i \<notin> set (definitions s)) is
     in s\<lparr>valid := valid s \<and> missing = [], errorLog := errorLog s @ map unresolved_message missing\<rparr>)"
proof (induction "is" arbitrary: s)
  case (Cons i "is")
  then show ?case
    by (auto simp: checkReference_def Let_def unresolved_message_def intro!: rootCheck.equality)
qed simp

text \<open>
  (C37) A compilation unit is accepted exactly when its root identifiers are distinct and not empty
  and every root subroutine called anywhere in it, at any depth of any body of any root, is
  defined by a subroutine of the unit.  Each missing subroutine is reported once, in the order of
  the identifiers, and a unit is accepted exactly when nothing is reported.
\<close>

theorem validateAwstRoots_correct:
  "\<exists>dups. validateAwstRoots roots =
      (([] \<notin> set (map rootId roots) \<and> distinct (map rootId roots)) \<and> called roots \<subseteq> defined roots,
       dups @ map unresolved_message (sorted_list_of_set (called roots - defined roots)))
    \<and> (dups = [] \<longleftrightarrow> [] \<notin> set (map rootId roots) \<and> distinct (map rootId roots))"
proof -
  let ?i = "\<lparr>definitions = [], references = [], rootIds = [], valid = True, errorLog = []\<rparr>"
  let ?s = "fold checkRoot roots ?i"
  obtain dups where run: "?s = ?i\<lparr>definitions := definitions ?s, references := references ?s,
        rootIds := rootIds ?s, valid := dups = [], errorLog := dups\<rparr>"
      "dups = [] \<longleftrightarrow> \<not> bad_ids [] (map rootId roots)"
      "set (definitions ?s) = defined roots" "name_list (references ?s)" "set (references ?s) = called roots"
    using checkRoots_run[of ?i roots] by (auto simp: name_list_def)
  let ?m = "filter (\<lambda>i. i \<notin> set (definitions ?s)) (references ?s)"
  have set: "set ?m = called roots - defined roots" using run by auto
  have "sorted ?m" "distinct ?m" using run(4) by (simp_all add: name_list_def sorted_filter[where f = id, simplified])
  then have m: "?m = sorted_list_of_set (called roots - defined roots)"
    using set sorted_list_of_set.idem_if_sorted_distinct by metis
  have empty: "?m = [] \<longleftrightarrow> called roots \<subseteq> defined roots" using set by (metis Diff_eq_empty_iff set_empty)
  have v: "valid ?s = (dups = [])" "errorLog ?s = dups" by (subst run(1), simp)+
  have "validateAwstRoots roots =
      ((dups = []) \<and> called roots \<subseteq> defined roots,
       dups @ map unresolved_message (sorted_list_of_set (called roots - defined roots)))"
    unfolding validateAwstRoots_def Let_def checkReferences_run using v m empty by simp
  with run(2) show ?thesis by (auto simp: bad_ids_def)
qed

end
