(* ===== verification/SlotWordCodec.thy ===== *)
theory SlotWordCodec
  imports Coercion
begin

text \<open>
  The codec between the native representation of a value and the bytes it occupies in a packed EVM
  storage slot (\<open>src/src/builder/storage/SlotWordCodec.cpp\<close>).  Packing a value and unpacking the
  bytes gives the value back, for the values of \<open>fits_cell\<close>; \<open>arc4.bool\<close>, whose ARC-4 conversions
  belong to the backend, and accounts that a 20-byte window truncates are outside.
\<close>

section \<open>The shapes of byte-backed types\<close>

text \<open>A value converted to C++ \<open>unsigned\<close>.\<close>

definition to_uint32 :: "int \<Rightarrow> nat" where
  "to_uint32 x = nat (x mod 2 ^ 32)"

fun byteArraySize :: "wtype \<Rightarrow> int option" where
  "byteArraySize (ARC4StaticArray (ARC4UIntN n _) sz _ _) = (if n = 8 then Some sz else None)"
| "byteArraySize _ = None"

definition isByteArray :: "wtype \<Rightarrow> nat \<Rightarrow> bool" where
  "isByteArray w width = (byteArraySize w = Some (int width))"

definition isNarrowByteArray :: "wtype \<Rightarrow> nat \<Rightarrow> nat option" where
  "isNarrowByteArray w width =
     (case byteArraySize w of
        Some sz \<Rightarrow> if sz \<le> 0 \<or> to_uint32 sz \<ge> width then None else Some (to_uint32 sz)
      | None \<Rightarrow> None)"

definition isArc4Address :: "wtype \<Rightarrow> nat \<Rightarrow> bool" where
  "isArc4Address w width \<longleftrightarrow> wname w = ''address'' \<and> kind w = KARC4StaticArray \<and> width \<le> 32"

definition isByteShaped :: "wtype \<Rightarrow> bool" where
  "isByteShaped w =
     (case w of
        BytesWType len \<Rightarrow> len \<noteq> None
      | _ \<Rightarrow> if wname w = ''address'' then False
             else (case byteArraySize w of Some sz \<Rightarrow> sz > 0 | None \<Rightarrow> False))"

section \<open>Packing\<close>

definition packUInt64 :: "expr \<Rightarrow> nat \<Rightarrow> expr" where
  "packUInt64 word64 width =
     (let itob = makeItob word64
      in if width = 8 then itob
         else if width > 8 then makeLeftPad itob (width - 8)
         else makeExtract itob (8 - int width) (int width))"

definition boolToU64 :: "expr \<Rightarrow> expr" where
  "boolToU64 b =
     makeConditional b (makeIntegerConstant ''1'' uint64Type) (makeIntegerConstant ''0'' uint64Type) uint64Type"

definition tryPackScalarWord :: "expr \<Rightarrow> wtype \<Rightarrow> nat \<Rightarrow> expr option" where
  "tryPackScalarWord val w width =
     (if w = uint64Type then Some (packUInt64 val width)
      else if w = boolType then Some (packUInt64 (boolToU64 val) width)
      else if w = applicationType then Some (packUInt64 (makeReinterpretCast val uint64Type) width)
      else if w = biguintType
      then Some (makeExtract (makeZeroExtendToN (makeAsBytes val) 32) (32 - int width) (int width))
      else if w = accountType then Some (makeExtract (makeAsBytes val) (32 - int width) (int width))
      else if w = arc4BoolType
      then Some (makeExtract (makeItob (boolToU64 (makeARC4Decode val boolType))) (8 - int width) (int width))
      else if kind w = KARC4UIntN
      then Some (makeExtract (makeZeroExtendToN (makeAsBytes val) 32) (32 - int width) (int width))
      else None)"

definition tryPackByteShaped :: "expr \<Rightarrow> wtype \<Rightarrow> nat \<Rightarrow> expr option" where
  "tryPackByteShaped val w width =
     (case fixedBytesLength w of
        Some k \<Rightarrow>
          if to_uint32 k < width then Some (makeConcat (makeAsBytes val) (makeBzero (width - to_uint32 k)))
          else Some (makeAsBytes val)
      | None \<Rightarrow>
          if kind w = KBytes then Some (makeAsBytes val)
          else if isByteArray w width then Some (makeAsBytes val)
          else (case isNarrowByteArray w width of
             Some k \<Rightarrow> Some (makeConcat (makeAsBytes val) (makeBzero (width - k)))
           | None \<Rightarrow>
               if isArc4Address w width
               then Some (makeExtract (makeAsBytes val) (32 - int width) (int width))
               else None))"

definition nativeToPackedBytes :: "expr \<Rightarrow> wtype \<Rightarrow> nat \<Rightarrow> expr builder" where
  "nativeToPackedBytes val w width =
     (case tryPackScalarWord val w width of
        Some packed \<Rightarrow> ret packed
      | None \<Rightarrow>
          (case tryPackByteShaped val w width of
             Some packed \<Rightarrow> ret packed
           | None \<Rightarrow> do {
               logError (UnsupportedPackedType (wname w));
               ret (makeBytesConstant (replicate width 0) EncBase16 bytesType)
             }))"

section \<open>Unpacking\<close>

text \<open>The raw bytes are referenced up to three times by the sign extension.\<close>

definition unpackUInt64 :: "expr \<Rightarrow> SolIntType option \<Rightarrow> bool \<Rightarrow> nat \<Rightarrow> expr" where
  "unpackUInt64 raw it isUint64 width =
     (let word64 = (if width > 8 then makeBtoi (makeExtract raw (int width - 8) 8) None else makeBtoi raw None)
      in case it of
           Some t \<Rightarrow>
             if sit_signed t \<and> sit_bits t < 64 \<and> isUint64
             then let half = 2 ^ (sit_bits t - 1);
                      addend = 2 ^ 64 - 2 ^ sit_bits t;
                      isNeg = makeNumericCompare word64 Gte (makeIntegerConstantU64 half uint64Type);
                      extended = makeUInt64BinOp word64 U64Add (makeIntegerConstantU64 addend uint64Type)
                  in makeConditional isNeg extended word64 uint64Type
             else word64
         | None \<Rightarrow> word64)"

definition tryUnpackScalarWord :: "expr \<Rightarrow> wtype \<Rightarrow> SolIntType option \<Rightarrow> nat \<Rightarrow> expr option builder" where
  "tryUnpackScalarWord raw w it width =
     (if w = uint64Type then ret (Some (unpackUInt64 raw it True width))
      else if w = boolType
      then ret (Some (makeNumericCompare (unpackUInt64 raw it False width) Ne (makeIntegerConstant ''0'' uint64Type)))
      else if w = biguintType
      then do { e \<leftarrow> signExtendSignedElement (makeAsBiguint raw) it; ret (Some e) }
      else if w = accountType then ret (Some (makeAsAccount (makeLeftPad raw (to_uint32 (32 - int width)))))
      else if w = applicationType
      then ret (Some (makeReinterpretCast (unpackUInt64 raw None True width) applicationType))
      else if w = arc4BoolType
      then do {
        e \<leftarrow> makeARC4Encode
          (makeNumericCompare (makeBtoi raw None) Ne (makeIntegerConstant ''0'' uint64Type)) arc4BoolType;
        ret (Some e)
      }
      else if kind w = KARC4UIntN
      then (let backing = to_uint32 (if wt_n w < 0 then - (- wt_n w div 8) else wt_n w div 8);
                b = (if backing > width then makeLeftPad raw (backing - width)
                     else if backing < width then makeExtract raw (int width - int backing) (int backing)
                     else raw)
            in ret (Some (makeReinterpretCast b w)))
      else ret None)"

definition tryUnpackByteShaped :: "expr \<Rightarrow> wtype \<Rightarrow> nat \<Rightarrow> expr option" where
  "tryUnpackByteShaped raw w width =
     (case fixedBytesLength w of
        Some k \<Rightarrow>
          if to_uint32 k < width then Some (makeReinterpretCast (makeExtract raw 0 k) w)
          else Some (makeReinterpretCast raw w)
      | None \<Rightarrow>
          if kind w = KBytes then Some (makeReinterpretCast raw w)
          else if isByteArray w width then Some (makeReinterpretCast raw w)
          else (case isNarrowByteArray w width of
             Some k \<Rightarrow> Some (makeReinterpretCast (makeExtract raw 0 (int k)) w)
           | None \<Rightarrow>
               if isArc4Address w width then Some (makeReinterpretCast (makeLeftPad raw (32 - width)) w)
               else None))"

definition packedBytesToNative :: "expr \<Rightarrow> wtype \<Rightarrow> SolIntType option \<Rightarrow> nat \<Rightarrow> expr option builder" where
  "packedBytesToNative raw w it width = do {
     scalar \<leftarrow> tryUnpackScalarWord raw w it width;
     case scalar of
       Some native \<Rightarrow> ret (Some native)
     | None \<Rightarrow>
         (case tryUnpackByteShaped raw w width of
            Some native \<Rightarrow> ret (Some native)
          | None \<Rightarrow> do {
              logError (UnsupportedPackedType (wname w));
              ret None
            })
   }"

section \<open>Values that fit a slot\<close>

definition narrow_signed :: "SolIntType option \<Rightarrow> bool" where
  "narrow_signed it = (case it of Some t \<Rightarrow> sit_signed t \<and> sit_bits t < 64 | None \<Rightarrow> False)"

definition wide_signed :: "SolIntType option \<Rightarrow> bool" where
  "wide_signed it = (case it of Some t \<Rightarrow> sit_signed t \<and> 64 < sit_bits t \<and> sit_bits t < 256 | None \<Rightarrow> False)"

text \<open>The two's complement of width \<open>tc\<close> of a signed number of \<open>bits\<close> bits.\<close>

definition canonical :: "nat \<Rightarrow> nat \<Rightarrow> nat \<Rightarrow> bool" where
  "canonical tc bits n \<longleftrightarrow> n < 2 ^ tc \<and> (n < 2 ^ (bits - 1) \<or> 2 ^ tc - 2 ^ (bits - 1) \<le> n)"

text \<open>
  \<open>fits_cell w it width v\<close>: \<open>v\<close> is a native value of AWST type \<open>w\<close>, of the Solidity integer type
  \<open>it\<close> when it is one, that a window of \<open>width\<close> bytes can hold.
\<close>

definition fits_cell :: "wtype \<Rightarrow> SolIntType option \<Rightarrow> nat \<Rightarrow> val \<Rightarrow> bool" where
  "fits_cell w it width v =
     (case v of
        VU n \<Rightarrow>
          1 \<le> width \<and> width \<le> 32 \<and> n < 2 ^ 64 \<and>
          (if w = uint64Type \<and> narrow_signed it
           then 8 * width = sit_bits (the it) \<and> canonical 64 (sit_bits (the it)) n
           else if w = boolType then n \<le> 1
           else w \<in> {uint64Type, applicationType} \<and> n < 256 ^ width)
      | VB b \<Rightarrow>
          1 \<le> width \<and>
          (if w = biguintType
           then width \<le> 32 \<and> length b \<le> 32 \<and>
             (if wide_signed it then 8 * width = sit_bits (the it) \<and> canonical 256 (sit_bits (the it)) (be_nat b)
              else be_nat b < 256 ^ width)
           else if w = accountType \<or> kind w = KARC4StaticArray \<and> wname w = ''address''
           then width \<le> 32 \<and> length b = 32 \<and> be_nat b < 256 ^ width \<and>
             (w = accountType \<or> byteArraySize w = Some 32)
           else if kind w = KARC4UIntN
           then width \<le> 32 \<and> 8 \<le> wt_n w \<and> wt_n w \<le> 256 \<and> length b = nat (wt_n w) div 8 \<and> be_nat b < 256 ^ width
           else 1 \<le> length b \<and> length b \<le> width \<and> width \<le> 4096 \<and>
             (fixedBytesLength w = Some (int (length b)) \<or> byteArraySize w = Some (int (length b))))
      | _ \<Rightarrow> False)"

text \<open>The bytes of the window: right-aligned numbers, left-aligned byte strings.\<close>

fun packed :: "wtype \<Rightarrow> nat \<Rightarrow> val \<Rightarrow> bytes" where
  "packed w width (VU n) = be_fixed width n"
| "packed w width (VB b) =
     (if isByteShaped w then b @ replicate (width - length b) 0 else be_fixed width (be_nat b))"
| "packed w width v = []"

lemma drop_be_fixed: "drop k (be_fixed (k + n) v) = be_fixed n v"
proof -
  have "be_nat (drop k (be_fixed (k + n) v)) = v mod 256 ^ n"
    by (subst be_nat_drop) (simp_all add: be_nat_be_fixed mod_mod_cancel le_imp_power_dvd)
  then show ?thesis
    using be_fixed_be_nat[of "drop k (be_fixed (k + n) v)" n] be_fixed_be_nat[of "be_fixed n v" n]
    by (simp add: be_nat_be_fixed)
qed

lemma drop_low: "length x = k + n \<Longrightarrow> drop k x = be_fixed n (be_nat x)"
  using drop_be_fixed[of k n "be_nat x"] be_fixed_be_nat[of x "k + n"] by simp

lemma wtype_cases:
  "uint64Type \<noteq> boolType" "uint64Type \<noteq> applicationType" "boolType \<noteq> applicationType"
  "biguintType \<notin> {uint64Type, boolType, applicationType}"
  "accountType \<notin> {uint64Type, boolType, applicationType, biguintType}"
  "arc4BoolType \<notin> {uint64Type, boolType, applicationType, biguintType, accountType}"
  by (simp_all add: basic_type_defs)

lemma kind_basic [simp]:
  "kind uint64Type = KBasic" "kind boolType = KBasic" "kind applicationType = KBasic"
  "kind biguintType = KBasic" "kind accountType = KBasic" "kind arc4BoolType = KBasic"
  by (simp_all add: basic_type_defs)

lemma diff_window: "(n :: nat) < T \<Longrightarrow> 0 < B \<Longrightarrow> B \<le> T \<Longrightarrow> n - (T - B) < B"
  by arith

lemma canonical_low:
  assumes "canonical tc bits n" "0 < bits" "bits < tc"
  shows "n mod 2 ^ bits = (if n < 2 ^ (bits - 1) then n else n - (2 ^ tc - 2 ^ bits))"
    and "\<not> n < 2 ^ (bits - 1) \<Longrightarrow> 2 ^ tc - 2 ^ bits \<le> n \<and> 2 ^ (bits - 1) \<le> n mod 2 ^ bits"
proof -
  define h :: nat where "h = 2 ^ (bits - 1)"
  have "bits = Suc (bits - 1)" using assms(2) by simp
  then have h: "(2::nat) ^ bits = 2 * h" unfolding h_def by (metis power_Suc)
  have t: "(2::nat) ^ bits < 2 ^ tc" using assms(3) by (intro power_strict_increasing) simp_all
  have n: "n < 2 ^ tc" "n < h \<or> 2 ^ tc - h \<le> n" using assms(1) by (simp_all add: canonical_def h_def)
  have low: "n mod (2 * h) = (if n < h then n else n - (2 ^ tc - 2 * h))"
  proof (cases "n < h")
    case False
    have "0 < h" by (simp add: h_def)
    have "2 * h dvd (2::nat) ^ tc" unfolding h[symmetric] using assms(3) by (intro le_imp_power_dvd) simp
    then have "2 * h dvd 2 ^ tc - 2 * h" by (simp add: dvd_diff_nat)
    then obtain k where k: "2 ^ tc - 2 * h = 2 * h * k" by (elim dvdE)
    have "n = (n - (2 ^ tc - 2 * h)) + 2 * h * k" unfolding k[symmetric] using False n t h by linarith
    then have "n mod (2 * h) = (n - (2 ^ tc - 2 * h)) mod (2 * h)" by (metis mod_mult_self2)
    moreover have "n - (2 ^ tc - 2 * h) < 2 * h" using t h \<open>0 < h\<close> by (intro diff_window[OF n(1)]) simp_all
    ultimately show ?thesis using False by simp
  qed simp
  then show "n mod 2 ^ bits = (if n < 2 ^ (bits - 1) then n else n - (2 ^ tc - 2 ^ bits))"
    by (simp only: h h_def[symmetric])
  assume "\<not> n < 2 ^ (bits - 1)"
  with low n t show "2 ^ tc - 2 ^ bits \<le> n \<and> 2 ^ (bits - 1) \<le> n mod 2 ^ bits"
    unfolding h h_def[symmetric] by auto
qed

lemma canonical_extend:
  assumes "canonical tc bits n" "0 < bits" "bits < tc"
  shows "twos tc (signed_of bits (n mod 2 ^ bits)) = n"
proof -
  have "n mod 2 ^ bits < 2 ^ bits" by simp
  note ext = twos_extend[OF assms(2) less_imp_le[OF assms(3)] this]
  show ?thesis
  proof (cases "n < 2 ^ (bits - 1)")
    case True
    with ext canonical_low(1)[OF assms] show ?thesis by (simp only: if_True)
  next
    case False
    note low = canonical_low(1)[OF assms] canonical_low(2)[OF assms False]
    from False low have "n mod 2 ^ bits = n - (2 ^ tc - 2 ^ bits)" by (simp only: if_False)
    moreover from low(2) have "\<not> n mod 2 ^ bits < 2 ^ (bits - 1)" by (simp only: not_less)
    ultimately have "twos tc (signed_of bits (n mod 2 ^ bits)) = n - (2 ^ tc - 2 ^ bits) + (2 ^ tc - 2 ^ bits)"
      unfolding ext by (simp only: if_False)
    with low(2) show ?thesis by (metis le_add_diff_inverse2)
  qed
qed

lemma width_power: "8 * width = bits \<Longrightarrow> (256::nat) ^ width = 2 ^ bits"
proof -
  assume "8 * width = bits"
  then have "(2::nat) ^ bits = (2 ^ 8) ^ width" by (simp only: power_mult flip: \<open>8 * width = bits\<close>)
  then show ?thesis by simp
qed

context avm
begin

lemma sbytes_extract:
  assumes "sbytes ev K \<sigma> e b" "0 < n" "k + n \<le> length b" "i = int k" "l = int n"
  shows "sbytes ev K \<sigma> (makeExtract e i l) (take n (drop k b))"
  unfolding makeExtract_def makeIntrinsicCall_def
  by (rule sval_op[where vs = "[VB b]"]) (use assms in \<open>simp_all add: pure_ops_def avm_op_def slice_def\<close>)

lemma sbytes_low:
  assumes "sbytes ev K \<sigma> e b" "0 < n" "n \<le> length b"
  shows "sbytes ev K \<sigma> (makeExtract e (int (length b) - int n) (int n)) (be_fixed n (be_nat b))"
proof -
  have "sbytes ev K \<sigma> (makeExtract e (int (length b) - int n) (int n)) (take n (drop (length b - n) b))"
    by (rule sbytes_extract[OF assms(1,2)]) (use assms(3) in \<open>simp_all add: of_nat_diff\<close>)
  then show ?thesis using drop_low[of b "length b - n" n] assms(3) by simp
qed

lemma sbytes_or:
  "sbytes ev K \<sigma> l a \<Longrightarrow> sbytes ev K \<sigma> r b \<Longrightarrow> sbytes ev K \<sigma> (makeBytesOr l r) (bytes_bitop (OR) a b)"
  unfolding makeBytesOr_def makeIntrinsicCall_def
  by (rule sval_op[where vs = "[VB a, VB b]"]) (simp_all add: pure_ops_def avm_op_def)

lemma sbytes_zeroExtend:
  assumes "sbytes ev K \<sigma> e b" "length b \<le> 32" "0 < n" "n \<le> 32"
  shows "sbytes ev K \<sigma> (makeExtract (makeZeroExtendToN (makeAsBytes e) 32) (32 - int n) (int n)) (be_fixed n (be_nat b))"
proof -
  let ?b = "bytes_bitop (OR) (replicate 32 0) b"
  have "sbytes ev K \<sigma> (makeZeroExtendToN (makeAsBytes e) 32) ?b"
    unfolding makeZeroExtendToN_def makeAsBytes_def makeReinterpretCast_def
    by (intro sbytes_or sbytes_bzero sval_cast assms) simp
  from sbytes_low[OF this assms(3)] assms(2,4) show ?thesis
    by (simp add: max_absorb1 be_nat_bytes_or)
qed

lemma sbytes_packUInt64:
  assumes "su64 ev K \<sigma> e n" "n < 2 ^ 64" "1 \<le> width" "width \<le> 32"
  shows "sbytes ev K \<sigma> (packUInt64 e width) (be_fixed width n)"
proof -
  from sbytes_itob[OF assms(1)] have i: "sbytes ev K \<sigma> (makeItob e) (be_fixed 8 n)" .
  consider "width = 8" | "8 < width" | "width < 8" by linarith
  then show ?thesis
  proof cases
    case 2
    have "replicate (width - 8) 0 @ be_fixed 8 n = be_fixed width n"
      using be_fixed_be_nat[of "replicate (width - 8) 0 @ be_fixed 8 n" width] 2 assms(2)
      by (simp add: be_nat_append be_nat_be_fixed)
    moreover have "sbytes ev K \<sigma> (makeLeftPad (makeItob e) (width - 8)) (replicate (width - 8) 0 @ be_fixed 8 n)"
      by (rule sbytes_leftPad[OF i]) (use assms(4) in simp)
    ultimately show ?thesis using 2 by (simp add: packUInt64_def Let_def)
  next
    case 3
    have "be_fixed width (be_nat (be_fixed 8 n)) = be_fixed width n"
      using drop_be_fixed[of "8 - width" width n] drop_low[of "be_fixed 8 n" "8 - width" width] 3 by simp
    with sbytes_low[OF i, of width] 3 assms(3) show ?thesis by (simp add: packUInt64_def Let_def)
  qed (use i in \<open>simp add: packUInt64_def\<close>)
qed

lemma sbool_word:
  assumes "su64 ev K \<sigma> e n" "n \<le> 1"
  shows "su64 ev K \<sigma> (boolToU64 e) n"
proof -
  have b: "sbool ev K \<sigma> e (n = 1)" using assms le_Suc_eq[of n 0] by auto
  show ?thesis unfolding boolToU64_def makeConditional_def
    by (rule sval_cond[OF b]) (use assms(2) in \<open>auto simp: makeIntegerConstant_def intro!: sval_int64\<close>)
qed

lemma pack_word:
  assumes "fits_cell w it width (VU n)" "su64 ev K \<sigma> e n"
  shows "\<exists>p. tryPackScalarWord e w width = Some p \<and> sbytes ev K \<sigma> p (be_fixed width n)"
proof -
  have w: "w = uint64Type \<or> w = applicationType \<or> w = boolType \<and> n \<le> 1" "n < 2 ^ 64" "1 \<le> width" "width \<le> 32"
    using assms(1) by (auto simp: fits_cell_def split: if_splits)
  have "su64 ev K \<sigma> (makeReinterpretCast e uint64Type) n"
    unfolding makeReinterpretCast_def by (rule sval_cast[OF assms(2)])
  from sbytes_packUInt64[OF assms(2) w(2-4)] sbytes_packUInt64[OF this w(2-4)] w(1)
    sbytes_packUInt64[OF sbool_word[OF assms(2)] w(2-4)] wtype_cases
  show ?thesis by (auto simp: tryPackScalarWord_def)
qed

lemma sbytes_castI: "sbytes ev K \<sigma> e b \<Longrightarrow> sbytes ev K \<sigma> (makeAsBytes e) b"
  unfolding makeAsBytes_def makeReinterpretCast_def by (rule sval_cast)

lemma sbytes_rightPad:
  assumes "sbytes ev K \<sigma> e b" "length b \<le> width" "width \<le> 4096"
  shows "sbytes ev K \<sigma> (makeConcat (makeAsBytes e) (makeBzero (width - length b))) (b @ replicate (width - length b) 0)"
  by (intro sbytes_concat sbytes_castI sbytes_bzero assms(1)) (use assms in simp_all)

lemma to_uint32_length: "k \<le> 4096 \<Longrightarrow> to_uint32 (int k) = k"
  by (simp add: to_uint32_def)

lemma pack_bytes:
  assumes "fits_cell w it width (VB b)" "sbytes ev K \<sigma> e b"
  shows "\<exists>p. nativeToPackedBytes e w width = ret p \<and> sbytes ev K \<sigma> p (packed w width (VB b)) \<and>
    length (packed w width (VB b)) = width"
proof -
  consider (big) "w = biguintType" "1 \<le> width" "width \<le> 32" "length b \<le> 32"
    | (account) "w = accountType" "1 \<le> width" "width \<le> 32" "length b = 32"
    | (address) "kind w = KARC4StaticArray" "wname w = ''address''" "1 \<le> width" "width \<le> 32" "length b = 32"
        "byteArraySize w = Some 32"
    | (uintN) "kind w = KARC4UIntN" "1 \<le> width" "width \<le> 32" "length b \<le> 32"
    | (bytesN) "1 \<le> length b" "length b \<le> width" "width \<le> 4096" "fixedBytesLength w = Some (int (length b))"
    | (array) "1 \<le> length b" "length b \<le> width" "width \<le> 4096" "byteArraySize w = Some (int (length b))"
        "wname w \<noteq> ''address''"
    using assms(1) by (cases w) (auto simp: fits_cell_def basic_type_defs split: if_splits)
  then show ?thesis
  proof cases
    case big
    from sbytes_zeroExtend[OF assms(2), of width] big wtype_cases show ?thesis
      by (auto simp: nativeToPackedBytes_def tryPackScalarWord_def isByteShaped_def basic_type_defs)
  next
    case account
    have "sbytes ev K \<sigma> (makeExtract (makeAsBytes e) (32 - int width) (int width)) (be_fixed width (be_nat b))"
      using sbytes_low[OF sbytes_castI[OF assms(2)], of width] account by simp
    with account wtype_cases show ?thesis
      by (auto simp: nativeToPackedBytes_def tryPackScalarWord_def isByteShaped_def basic_type_defs)
  next
    case address
    then obtain el al im where w: "w = ARC4StaticArray el 32 al im" "\<exists>x y. el = ARC4UIntN x y"
      by (cases w rule: byteArraySize.cases) (auto split: if_splits)
    have low: "sbytes ev K \<sigma> (makeExtract (makeAsBytes e) (32 - int width) (int width)) (be_fixed width (be_nat b))"
      using sbytes_low[OF sbytes_castI[OF assms(2)], of width] address by simp
    have scalar: "tryPackScalarWord e w width = None" using w by (auto simp: tryPackScalarWord_def basic_type_defs)
    have shaped: "\<not> isByteShaped w" using address(2) w by (auto simp: isByteShaped_def)
    show ?thesis
    proof (cases "width = 32")
      case True
      then have "be_fixed width (be_nat b) = b" using address(5) be_fixed_be_nat[of b 32] by simp
      with True scalar shaped address w sbytes_castI[OF assms(2)] show ?thesis
        by (auto simp: nativeToPackedBytes_def tryPackByteShaped_def isByteArray_def)
    next
      case False
      with address scalar shaped w low show ?thesis
        by (auto simp: nativeToPackedBytes_def tryPackByteShaped_def isByteArray_def isNarrowByteArray_def
            isArc4Address_def to_uint32_def)
    qed
  next
    case uintN
    then obtain m al where w: "w = ARC4UIntN m al" by (cases w) auto
    from sbytes_zeroExtend[OF assms(2), of width] uintN w show ?thesis
      by (auto simp: nativeToPackedBytes_def tryPackScalarWord_def isByteShaped_def basic_type_defs)
  next
    case bytesN
    then have w: "w = BytesWType (Some (int (length b)))" by (cases w) auto
    from sbytes_rightPad[OF assms(2)] sbytes_castI[OF assms(2)] bytesN show ?thesis
      by (auto simp: w nativeToPackedBytes_def tryPackScalarWord_def tryPackByteShaped_def isByteShaped_def
          basic_type_defs to_uint32_length)
  next
    case array
    then obtain el al im where w: "w = ARC4StaticArray el (int (length b)) al im" "\<exists>x y. el = ARC4UIntN x y"
      by (cases w rule: byteArraySize.cases) (auto split: if_splits)
    from sbytes_rightPad[OF assms(2)] sbytes_castI[OF assms(2)] array w show ?thesis
      by (auto simp: nativeToPackedBytes_def tryPackScalarWord_def tryPackByteShaped_def isByteShaped_def
          isByteArray_def isNarrowByteArray_def basic_type_defs to_uint32_length)
  qed
qed

lemma unpack_plain:
  assumes "sbytes ev K \<sigma> raw (be_fixed width n)" "n < 2 ^ 64" "n < 256 ^ width" "1 \<le> width"
  shows "su64 ev K \<sigma> (if width > 8 then makeBtoi (makeExtract raw (int width - 8) 8) None else makeBtoi raw None) n"
proof (cases "width > 8")
  case True
  have "sbytes ev K \<sigma> (makeExtract raw (int width - 8) 8) (be_fixed 8 n)"
    using sbytes_low[OF assms(1), of 8] True drop_be_fixed[of "width - 8" 8 n]
      drop_low[of "be_fixed width n" "width - 8" 8] by simp
  from su64_btoi[OF this, of None] True assms(2) show ?thesis by (simp add: be_nat_be_fixed)
next
  case False
  with su64_btoi[OF assms(1), of None] assms(3) show ?thesis by (simp add: be_nat_be_fixed)
qed

lemma unpack_signed:
  assumes "sbytes ev K \<sigma> raw (be_fixed width n)" "8 * width = bits" "bits < 64" "1 \<le> width"
    and "canonical 64 bits n" and "u = makeBtoi raw None"
  shows "su64 ev K \<sigma> (makeConditional
      (makeNumericCompare u Gte (makeIntegerConstantU64 (2 ^ (bits - 1)) uint64Type))
      (makeUInt64BinOp u U64Add (makeIntegerConstantU64 (2 ^ 64 - 2 ^ bits) uint64Type)) u uint64Type) n"
proof -
  note pow = width_power[OF assms(2)]
  have u: "su64 ev K \<sigma> u (n mod 2 ^ bits)"
    using su64_btoi[OF assms(1), of None] assms(2,3,6) by (simp add: be_nat_be_fixed pow)
  have b: "0 < bits" using assms(2,4) by simp
  have t: "(2::nat) ^ bits < 2 ^ 64" "(2::nat) ^ (bits - 1) < 2 ^ 64"
    using assms(3) b power_strict_increasing[of bits 64 "2::nat"] power_strict_increasing[of "bits - 1" 64 "2::nat"]
    by simp_all
  note low = canonical_low[OF assms(5) b assms(3)]
  have c: "sbool ev K \<sigma> (makeNumericCompare u Gte (makeIntegerConstantU64 (2 ^ (bits - 1)) uint64Type))
      (num_cmp Gte (n mod 2 ^ bits) (2 ^ (bits - 1)))"
    unfolding makeNumericCompare_def by (rule sval_cmp_u64[OF u su64_const[OF t(2)]])
  have ge: "num_cmp Gte (n mod 2 ^ bits) (2 ^ (bits - 1)) \<longleftrightarrow> \<not> n < 2 ^ (bits - 1)"
    using low by (auto simp: not_le)
  have "su64 ev K \<sigma> (makeUInt64BinOp u U64Add (makeIntegerConstantU64 (2 ^ 64 - 2 ^ bits) uint64Type)) n"
    if "\<not> n < 2 ^ (bits - 1)"
  proof -
    have "n mod 2 ^ bits + (2 ^ 64 - 2 ^ bits) = n" using low that by simp
    moreover have "n < 2 ^ 64" using assms(5) by (simp add: canonical_def)
    ultimately have op: "u64_op U64Add (n mod 2 ^ bits) (2 ^ 64 - 2 ^ bits) = Some n"
      unfolding u64_op.simps by (simp only: if_True)
    have k: "su64 ev K \<sigma> (makeIntegerConstantU64 (2 ^ 64 - 2 ^ bits) uint64Type) (2 ^ 64 - 2 ^ bits)"
      by (rule su64_const) (simp add: diff_less)
    show ?thesis unfolding makeUInt64BinOp_def by (rule sval_u64_bin[OF u k op])
  qed
  moreover have "su64 ev K \<sigma> u n" if "n < 2 ^ (bits - 1)" using u low(1) that by simp
  ultimately show ?thesis unfolding makeConditional_def
    by (intro sval_cond[OF c]) (auto simp only: ge)
qed

lemma unpack_word:
  assumes "fits_cell w it width (VU n)" "sbytes ev K \<sigma> raw (be_fixed width n)"
  shows "\<exists>r. packedBytesToNative raw w it width = ret (Some r) \<and> wtypeOf r = w \<and> su64 ev K \<sigma> r n"
proof -
  have w: "1 \<le> width" "width \<le> 32" "n < 2 ^ 64" using assms(1) by (auto simp: fits_cell_def)
  let ?u = "if width > 8 then makeBtoi (makeExtract raw (int width - 8) 8) None else makeBtoi raw None"
  consider (signed) t where "w = uint64Type" "it = Some t" "sit_signed t" "sit_bits t < 64" "8 * width = sit_bits t"
      "canonical 64 (sit_bits t) n"
    | (plain) "w = uint64Type \<and> \<not> narrow_signed it \<or> w = applicationType" "n < 256 ^ width"
    | (bool) "w = boolType" "n \<le> 1"
    using assms(1) by (auto simp: fits_cell_def narrow_signed_def split: if_splits option.splits)
  then show ?thesis
  proof cases
    case signed
    then have "width \<le> 8" by simp
    with signed unpack_signed[OF assms(2) signed(5,4) w(1) signed(6) refl] show ?thesis
      by (auto simp: packedBytesToNative_def tryUnpackScalarWord_def unpackUInt64_def Let_def makeConditional_def)
  next
    case plain
    from unpack_plain[OF assms(2) w(3) plain(2) w(1)] have u: "su64 ev K \<sigma> ?u n" .
    have "unpackUInt64 raw it True width = ?u" if "\<not> narrow_signed it"
      using that by (auto simp: unpackUInt64_def narrow_signed_def Let_def split: option.splits)
    moreover have "unpackUInt64 raw None True width = ?u" by (simp add: unpackUInt64_def Let_def)
    ultimately show ?thesis using u plain(1) wtype_cases sval_cast[OF u]
      by (auto simp: packedBytesToNative_def tryUnpackScalarWord_def makeReinterpretCast_def makeBtoi_def makeIntrinsicCall_def)
  next
    case bool
    have "n < 256 ^ width"
    proof -
      have "(256::nat) ^ 1 \<le> 256 ^ width" using w(1) by (intro power_increasing) simp_all
      with bool(2) show ?thesis by simp
    qed
    from unpack_plain[OF assms(2) w(3) this w(1)] have u: "su64 ev K \<sigma> ?u n" .
    have e: "unpackUInt64 raw it False width = ?u" by (auto simp: unpackUInt64_def Let_def split: option.splits)
    have z: "su64 ev K \<sigma> (makeIntegerConstant ''0'' uint64Type) 0"
      unfolding makeIntegerConstant_def by (rule sval_int64) simp_all
    have "su64 ev K \<sigma> (makeNumericCompare ?u Ne (makeIntegerConstant ''0'' uint64Type)) (of_bool (num_cmp Ne n 0))"
      unfolding makeNumericCompare_def by (rule sval_cmp_u64[OF u z])
    moreover have "of_bool (num_cmp Ne n 0) = n" using bool(2) le_Suc_eq[of n 0] by auto
    ultimately have "su64 ev K \<sigma> (makeNumericCompare ?u Ne (makeIntegerConstant ''0'' uint64Type)) n" by simp
    moreover have "packedBytesToNative raw w it width =
        ret (Some (makeNumericCompare ?u Ne (makeIntegerConstant ''0'' uint64Type)))"
      using wtype_cases(1) unfolding packedBytesToNative_def tryUnpackScalarWord_def bool(1) e by auto
    ultimately show ?thesis using bool(1) by (auto simp: makeNumericCompare_def)
  qed
qed

lemma sbytes_leftPad_be:
  assumes "sbytes ev K \<sigma> raw (be_fixed width n)" "width \<le> m" "m \<le> 4096" "n < 256 ^ width"
  shows "sbytes ev K \<sigma> (makeLeftPad raw (m - width)) (be_fixed m n)"
proof -
  have "sbytes ev K \<sigma> (makeLeftPad raw (m - width)) (replicate (m - width) 0 @ be_fixed width n)"
    by (rule sbytes_leftPad[OF assms(1)]) (use assms in simp)
  moreover have "replicate (m - width) 0 @ be_fixed width n = be_fixed m n"
    using be_fixed_be_nat[of "replicate (m - width) 0 @ be_fixed width n" m] assms
    by (simp add: be_nat_append be_nat_be_fixed)
  ultimately show ?thesis by simp
qed

text \<open>Byte-backed types other than \<open>biguint\<close>: the unpacked expression has the same bytes.\<close>

lemma unpack_bytes:
  assumes "fits_cell w it width (VB b)" "w \<noteq> biguintType" "sbytes ev K \<sigma> raw (packed w width (VB b))"
  shows "\<exists>r. packedBytesToNative raw w it width = ret (Some r) \<and> wtypeOf r = w \<and> sbytes ev K \<sigma> r b"
proof -
  consider (account) "w = accountType" "1 \<le> width" "width \<le> 32" "length b = 32" "be_nat b < 256 ^ width"
    | (address) "kind w = KARC4StaticArray" "wname w = ''address''" "1 \<le> width" "width \<le> 32" "length b = 32"
        "byteArraySize w = Some 32" "be_nat b < 256 ^ width"
    | (uintN) "kind w = KARC4UIntN" "1 \<le> width" "width \<le> 32" "8 \<le> wt_n w" "wt_n w \<le> 256"
        "length b = nat (wt_n w) div 8" "be_nat b < 256 ^ width"
    | (bytesN) "1 \<le> length b" "length b \<le> width" "width \<le> 4096" "fixedBytesLength w = Some (int (length b))"
    | (array) "1 \<le> length b" "length b \<le> width" "width \<le> 4096" "byteArraySize w = Some (int (length b))"
        "wname w \<noteq> ''address''"
    using assms(1,2) by (cases w) (auto simp: fits_cell_def basic_type_defs split: if_splits)
  then show ?thesis
  proof cases
    case account
    then have raw: "sbytes ev K \<sigma> raw (be_fixed width (be_nat b))"
      using assms(3) by (simp add: isByteShaped_def basic_type_defs)
    have "be_fixed 32 (be_nat b) = b" using be_fixed_be_nat[of b 32] account by simp
    with sbytes_leftPad_be[OF raw, of 32] account have "sbytes ev K \<sigma> (makeLeftPad raw (32 - width)) b" by simp
    moreover have "to_uint32 (32 - int width) = 32 - width"
      using to_uint32_length[of "32 - width"] account(3) by (simp add: of_nat_diff)
    ultimately show ?thesis using account wtype_cases sval_cast[where t = accountType]
      by (auto simp: packedBytesToNative_def tryUnpackScalarWord_def makeAsAccount_def makeReinterpretCast_def)
  next
    case address
    then obtain el al im where w: "w = ARC4StaticArray el 32 al im" "\<exists>x y. el = ARC4UIntN x y"
      by (cases w rule: byteArraySize.cases) (auto split: if_splits)
    have shaped: "\<not> isByteShaped w" using address(2) w by (auto simp: isByteShaped_def)
    then have raw: "sbytes ev K \<sigma> raw (be_fixed width (be_nat b))" using assms(3) by simp
    have b: "be_fixed 32 (be_nat b) = b" using be_fixed_be_nat[of b 32] address by simp
    have scalar: "tryUnpackScalarWord raw w it width = ret None"
      using w by (auto simp: tryUnpackScalarWord_def basic_type_defs)
    show ?thesis
    proof (cases "width = 32")
      case True
      with raw b have "sbytes ev K \<sigma> raw b" by simp
      from sval_cast[OF this, of w] True scalar address w show ?thesis
        by (auto simp: packedBytesToNative_def tryUnpackByteShaped_def isByteArray_def makeReinterpretCast_def)
    next
      case False
      from sbytes_leftPad_be[OF raw, of 32] address b have "sbytes ev K \<sigma> (makeLeftPad raw (32 - width)) b" by simp
      from sval_cast[OF this, of w] False scalar address w show ?thesis
        by (auto simp: packedBytesToNative_def tryUnpackByteShaped_def isByteArray_def isNarrowByteArray_def
            isArc4Address_def to_uint32_def makeReinterpretCast_def)
    qed
  next
    case uintN
    then obtain m al where w: "w = ARC4UIntN m al" by (cases w) auto
    let ?m = "length b"
    have raw: "sbytes ev K \<sigma> raw (be_fixed width (be_nat b))" using assms(3) w by (auto simp: isByteShaped_def split: if_splits)
    have b: "be_fixed ?m (be_nat b) = b" "1 \<le> ?m" "?m \<le> 32" using be_fixed_be_nat[of b ?m] uintN by simp_all
    have "m div 8 = int ?m" using uintN w by (simp add: zdiv_int)
    then have m: "to_uint32 (m div 8) = ?m" using b(3) by (simp add: to_uint32_length)
    let ?e = "if ?m > width then makeLeftPad raw (?m - width)
       else if ?m < width then makeExtract raw (int width - int ?m) (int ?m) else raw"
    have "sbytes ev K \<sigma> ?e b"
    proof (cases "?m \<ge> width")
      case True
      with sbytes_leftPad_be[OF raw, of ?m] b raw uintN show ?thesis by auto
    next
      case False
      have "be_nat b mod 256 ^ width = be_nat b" using uintN by simp
      moreover have "b \<noteq> []" using b(2) by auto
      ultimately show ?thesis using sbytes_low[OF raw, of ?m] False b by (simp add: be_nat_be_fixed)
    qed
    from sval_cast[OF this, of w] uintN w m show ?thesis
      by (auto simp: packedBytesToNative_def tryUnpackScalarWord_def makeReinterpretCast_def Let_def basic_type_defs)
  next
    case bytesN
    then have w: "w = BytesWType (Some (int (length b)))" by (cases w) auto
    have raw: "sbytes ev K \<sigma> raw (b @ replicate (width - length b) 0)" using assms(3) by (simp add: w isByteShaped_def)
    have cut: "sbytes ev K \<sigma> (makeExtract raw 0 (int (length b))) b"
      using sbytes_extract[OF raw, of "length b" 0 0 "int (length b)"] bytesN by (cases "b = []") auto
    have scalar: "tryUnpackScalarWord raw w it width = ret None" by (simp add: w tryUnpackScalarWord_def basic_type_defs)
    from sval_cast[OF cut, of w] sval_cast[OF raw, of w] bytesN scalar show ?thesis
      by (cases "length b = width")
         (auto simp: w packedBytesToNative_def tryUnpackByteShaped_def makeReinterpretCast_def to_uint32_length)
  next
    case array
    then obtain el al im where w: "w = ARC4StaticArray el (int (length b)) al im" "\<exists>x y. el = ARC4UIntN x y"
      by (cases w rule: byteArraySize.cases) (auto split: if_splits)
    have "isByteShaped w" using array w by (auto simp: isByteShaped_def)
    then have raw: "sbytes ev K \<sigma> raw (b @ replicate (width - length b) 0)" using assms(3) by simp
    have cut: "sbytes ev K \<sigma> (makeExtract raw 0 (int (length b))) b"
      using sbytes_extract[OF raw, of "length b" 0 0 "int (length b)"] array by (cases "b = []") auto
    have scalar: "tryUnpackScalarWord raw w it width = ret None"
      using w by (auto simp: tryUnpackScalarWord_def basic_type_defs)
    from sval_cast[OF cut, of w] sval_cast[OF raw, of w] array w scalar show ?thesis
      by (cases "length b = width")
         (auto simp: packedBytesToNative_def tryUnpackByteShaped_def isByteArray_def isNarrowByteArray_def
            makeReinterpretCast_def to_uint32_length)
  qed
qed

end

section \<open>Round trip\<close>

text \<open>Two values of a type are the same: a \<open>biguint\<close> is the number, not its bytes.\<close>

definition same_value :: "wtype \<Rightarrow> val \<Rightarrow> val \<Rightarrow> bool" where
  "same_value w v v' \<longleftrightarrow> 
     (if w = biguintType then (case v of VB b \<Rightarrow> num_val w v' (be_nat b) | _ \<Rightarrow> False) else v' = v)"

lemma signExtend_frame:
  "wtypeOf val = biguintType \<Longrightarrow> bits < 256 \<Longrightarrow>
   built (signExtendToUint256 val bits) s (\<lambda>e' s'. wtypeOf e' = biguintType \<and> errors s' = errors s)"
  by (auto simp: signExtendToUint256_def implicitNumericCast_def node_defs makeCommaExpression_def Let_def basic_type_defs)

text \<open>What the unpacking of a value must give: an expression of the type with the same value.\<close>

definition restores ::
    "'z evaluator \<Rightarrow> 'z menv_scheme \<Rightarrow> wtype \<Rightarrow> val \<Rightarrow> expr option \<Rightarrow> bool" where
  "restores ev \<sigma> w v r \<longleftrightarrow>
     (\<exists>e' v' \<sigma>'. r = Some e' \<and> wtypeOf e' = w \<and> ev \<sigma> e' = Some (v', \<sigma>') \<and> same_value w v v' \<and>
       (\<sigma>' = \<sigma> \<or> (\<exists>x y. \<sigma>' = bind_var x y \<sigma>)))"

lemma unpack_big_signed:
  assumes "avm ev" and "fits_cell biguintType (Some t) width (VB b)" and "wide_signed (Some t)"
    and "ev \<sigma> e = Some (VB (be_fixed width (be_nat b)), \<sigma>)" "wtypeOf e = biguintType"
    and "run_state (signExtendToUint256 e (sit_bits t)) s = (x, s')"
  shows "restores ev \<sigma> biguintType (VB b) (Some x) \<and> errors s' = errors s"
proof -
  let ?k = "sit_bits t" and ?n = "be_nat b"
  have t: "0 < ?k" "?k < 256" using assms(3) by (simp_all add: wide_signed_def)
  have c: "8 * width = ?k" "canonical 256 ?k ?n" "1 \<le> width" "width \<le> 32" using assms(2,3) by (simp_all add: fits_cell_def)
  have nv: "num_val (wtypeOf e) (VB (be_fixed width ?n)) (?n mod 2 ^ ?k)"
    using c assms(5) by (simp add: be_nat_be_fixed width_power)
  from signExtendToUint256_correct[OF assms(1) t assms(4) nv assms(6)] obtain d y z where
    d: "ev \<sigma> x = Some (VB d, bind_var y z \<sigma>)" "length d \<le> 64"
    "be_nat d = twos 256 (signed_of ?k (?n mod 2 ^ ?k))" by auto
  then have "same_value biguintType (VB b) (VB d)"
    using canonical_extend[OF c(2) t] by (simp add: same_value_def)
  with d built_run[OF signExtend_frame[OF assms(5) t(2)] assms(6)] show ?thesis by (auto simp: restores_def)
qed

lemma unpack_big:
  assumes "avm ev" and "fits_cell biguintType it width (VB b)" and "ev \<sigma> q = Some (VB (be_fixed width (be_nat b)), \<sigma>)"
    and "run_state (packedBytesToNative q biguintType it width) s = (r, s')"
  shows "restores ev \<sigma> biguintType (VB b) r \<and> errors s' = errors s"
proof -
  let ?e = "makeAsBiguint q"
  have raw: "ev \<sigma> ?e = Some (VB (be_fixed width (be_nat b)), \<sigma>)" "wtypeOf ?e = biguintType"
    using assms(3) by (simp_all add: makeAsBiguint_def makeReinterpretCast_def avm.sem_cast[OF assms(1)])
  have scalar: "packedBytesToNative q biguintType it width =
      do { x \<leftarrow> signExtendSignedElement ?e it; ret (Some x) }"
    using wtype_cases by (simp add: packedBytesToNative_def tryUnpackScalarWord_def)
  show ?thesis
  proof (cases "wide_signed it")
    case False
    then have "signExtendSignedElement ?e it = ret ?e"
      by (auto simp: wide_signed_def signExtendSignedElement_def split: option.splits)
    with scalar assms(4) have r: "r = Some ?e" "s' = s" by (auto simp: State_Monad.return_def)
    have "be_nat b < 256 ^ width" "width \<le> 32" using assms(2) False by (simp_all add: fits_cell_def)
    with r raw show ?thesis by (auto simp: restores_def same_value_def be_nat_be_fixed)
  next
    case True
    then obtain t where t: "it = Some t" "sit_signed t" "64 < sit_bits t" "sit_bits t < 256"
      by (auto simp: wide_signed_def split: option.splits)
    obtain x s3 where run: "run_state (signExtendToUint256 ?e (sit_bits t)) s = (x, s3)" by force
    then have "r = Some x" "s' = s3" using assms(4) t scalar
      by (auto simp: signExtendSignedElement_def State_Monad.bind_def State_Monad.return_def)
    with unpack_big_signed[OF assms(1) _ _ raw run] assms(2) True t(1) show ?thesis by simp
  qed
qed

text \<open>
  (C38) Packing a value into its window of a storage slot and unpacking the bytes gives the value
  back, for the values of \<open>fits_cell\<close>: 64-bit integers, application ids, Booleans, big integers,
  accounts, \<open>arc4.uintN\<close> and byte strings or byte arrays of fixed length, that the window can hold; in a
  window of 20 bytes these are the accounts with twelve leading zero bytes (the others lose them).
  \<open>arc4.bool\<close> is not among them: its ARC-4 conversions belong to the backend.  The window holds exactly
  \<open>width\<close> bytes, numbers right-aligned and byte strings left-aligned; the unpacked expression has the
  AWST type asked for.  Signed values of fewer than 64 or more than 64 bits come back sign-extended, and
  no error is reported.
\<close>

theorem slotWord_roundtrip:
  assumes "avm ev" and "fits_cell w it width v" and "ev \<sigma> e = Some (v, \<sigma>)"
    and "run_state (nativeToPackedBytes e w width) s = (p, s1)"
    and "run_state (packedBytesToNative p w it width) s1 = (r, s2)"
  shows "ev \<sigma> p = Some (VB (packed w width v), \<sigma>) \<and> length (packed w width v) = width \<and>
    restores ev \<sigma> w v r \<and> errors s2 = errors s"
proof (cases v)
  case (VU n)
  with avm.pack_word[OF assms(1)] assms(2,3) obtain q where q: "tryPackScalarWord e w width = Some q"
    "sval ev {} \<sigma> q (VB (be_fixed width n))" by (metis sval_empty)
  with assms(4) have p: "p = q" "s1 = s" by (auto simp: nativeToPackedBytes_def State_Monad.return_def)
  from avm.unpack_word[OF assms(1) _ q(2)] assms(2) VU obtain e' where
    "packedBytesToNative q w it width = ret (Some e')" "wtypeOf e' = w" "sval ev {} \<sigma> e' (VU n)" by metis
  with q p assms(5) VU show ?thesis
    using assms(2) by (auto simp: sval_empty State_Monad.return_def restores_def same_value_def fits_cell_def basic_type_defs split: if_splits)
next
  case (VB b)
  from avm.pack_bytes[OF assms(1)] assms(2,3) VB obtain q where q: "nativeToPackedBytes e w width = ret q"
    "sval ev {} \<sigma> q (VB (packed w width (VB b)))" "length (packed w width (VB b)) = width" by (metis sval_empty)
  with assms(4) have p: "p = q" "s1 = s" by (auto simp: State_Monad.return_def)
  show ?thesis
  proof (cases "w = biguintType")
    case False
    from avm.unpack_bytes[OF assms(1) _ False q(2)] assms(2) VB obtain e' where
      "packedBytesToNative q w it width = ret (Some e')" "wtypeOf e' = w" "sval ev {} \<sigma> e' (VB b)" by metis
    with q p assms(5) VB False show ?thesis
      by (auto simp: sval_empty State_Monad.return_def restores_def same_value_def)
  next
    case True
    have "ev \<sigma> q = Some (VB (be_fixed width (be_nat b)), \<sigma>)"
      using q(2) True by (simp add: sval_empty isByteShaped_def basic_type_defs)
    with unpack_big[OF assms(1)] assms(2,5) p q True VB show ?thesis by (simp add: sval_empty)
  qed
qed (use assms(2) in \<open>simp_all add: fits_cell_def\<close>)

text \<open>The value -2 of type \<open>int24\<close>, in three bytes.\<close>

theorem slotWord_roundtrip_witness:
  "let \<sigma> = env_of [(''x'', VU (2 ^ 64 - 2))]; int24 = Some \<lparr>sit_signed = True, sit_bits = 24\<rparr>;
       p = fst (run_state (nativeToPackedBytes (VarExpression uint64Type ''x'') uint64Type 3) initialBst)
   in aeval \<sigma> p = Some (VB [255, 255, 254], \<sigma>) \<and>
     (\<exists>e' \<sigma>'. fst (run_state (packedBytesToNative p uint64Type int24 3) initialBst) = Some e' \<and>
       aeval \<sigma> e' = Some (VU (2 ^ 64 - 2), \<sigma>'))"
proof -
  let ?\<sigma> = "env_of [(''x'', VU (2 ^ 64 - 2))]" and ?t = "Some \<lparr>sit_signed = True, sit_bits = 24\<rparr>"
  obtain p s1 where p: "run_state (nativeToPackedBytes (VarExpression uint64Type ''x'') uint64Type 3) initialBst = (p, s1)"
    by force
  obtain r s2 where r: "run_state (packedBytesToNative p uint64Type ?t 3) s1 = (r, s2)" by force
  have s1: "s1 = initialBst" using p by (simp add: nativeToPackedBytes_def tryPackScalarWord_def State_Monad.return_def)
  have e: "aeval ?\<sigma> (VarExpression uint64Type ''x'') = Some (VU (2 ^ 64 - 2), ?\<sigma>)" by simp
  have fit: "fits_cell uint64Type ?t 3 (VU (2 ^ 64 - 2))"
    by (simp add: fits_cell_def narrow_signed_def canonical_def)
  have "packed uint64Type 3 (VU (2 ^ 64 - 2)) = [255, 255, 254]" by (simp add: numeral_3_eq_3)
  with slotWord_roundtrip[OF ref.avm_axioms fit e p r] p r s1 show ?thesis
    by (auto simp: Let_def restores_def same_value_def basic_type_defs)
qed

end
