(* ===== verification/Json.thy ===== *)
theory Json
  imports NumberText
begin

text \<open>
  JSON values as \<open>nlohmann::ordered_json\<close> keeps them: the members of an object stay in the order in
  which they were first written.  The second part is the text-to-number conversion of
  \<open>AWSTSerializer::serializeExpression\<close> (\<open>src/src/json/AWSTSerializer.cpp\<close>) for integer constants,
  and its correctness against \<open>integer_text\<close> (\<open>NumberText\<close>): a decimal or
  hexadecimal numeral of any length is emitted as a JSON value that denotes the same integer.
\<close>

section \<open>Values\<close>

datatype json =
    JNull
  | JBool bool
  | JInt int
  | JString string
  | JArray "json list"
  | JObject "(string \<times> json) list"

fun putMember :: "string \<Rightarrow> json \<Rightarrow> (string \<times> json) list \<Rightarrow> (string \<times> json) list" where
  "putMember k v [] = [(k, v)]"
| "putMember k v ((k', v') # ms) = (if k = k' then (k, v) # ms else (k', v') # putMember k v ms)"

text \<open>\<open>j[k] = v\<close>: a null becomes an object; on any other value the library throws.\<close>

fun jset :: "string \<Rightarrow> json \<Rightarrow> json \<Rightarrow> json" where
  "jset k v JNull = JObject [(k, v)]"
| "jset k v (JObject ms) = JObject (putMember k v ms)"
| "jset k v j = j"

fun jerase :: "string \<Rightarrow> json \<Rightarrow> json" where
  "jerase k (JObject ms) = JObject (filter (\<lambda>m. fst m \<noteq> k) ms)"
| "jerase k j = j"

text \<open>A run of assignments.\<close>

definition jsets :: "(string \<times> json) list \<Rightarrow> json \<Rightarrow> json" where
  "jsets kvs j = fold (\<lambda>(k, v). jset k v) kvs j"

text \<open>\<open>njson(std::optional)\<close> as the code spells it: the value, or null.\<close>

definition jopt :: "('a \<Rightarrow> json) \<Rightarrow> 'a option \<Rightarrow> json" where
  "jopt f v = (case v of None \<Rightarrow> JNull | Some x \<Rightarrow> f x)"

lemma jsets_Nil [simp]: "jsets [] j = j"
  by (simp add: jsets_def)

lemma jsets_Cons [simp]: "jsets ((k, v) # kvs) j = jsets kvs (jset k v j)"
  by (simp add: jsets_def)

lemma putMember_fresh: "k \<notin> fst ` set ms \<Longrightarrow> putMember k v ms = ms @ [(k, v)]"
  by (induction ms) auto

lemma jsets_fresh:
  "distinct (map fst ms @ map fst kvs) \<Longrightarrow> jsets kvs (JObject ms) = JObject (ms @ kvs)"
proof (induction kvs arbitrary: ms)
  case Nil
  show ?case by simp
next
  case (Cons kv kvs)
  obtain k v where kv: "kv = (k, v)" by force
  from Cons.prems kv have "k \<notin> fst ` set ms" by (auto simp: image_iff)
  then have "jset k v (JObject ms) = JObject (ms @ [(k, v)])" by (simp add: putMember_fresh)
  with Cons kv show ?case by simp
qed

lemma jsets_object: "distinct (map fst kvs) \<Longrightarrow> jsets kvs (JObject []) = JObject kvs"
  using jsets_fresh[of "[]" kvs] by simp

lemma jsets_null:
  "distinct (map fst kvs) \<Longrightarrow> jsets kvs JNull = (if kvs = [] then JNull else JObject kvs)"
proof (cases kvs)
  case (Cons kv kvs')
  obtain k v where kv: "kv = (k, v)" by force
  assume "distinct (map fst kvs)"
  with Cons kv jsets_fresh[of "[(k, v)]" kvs'] show ?thesis by simp
qed simp

section \<open>Integer constants\<close>

text \<open>One pass of the division by ten over the hexadecimal digits: the quotient digits without
  leading zeros, and the remainder.\<close>

fun divTen :: "nat list \<Rightarrow> nat \<Rightarrow> nat list \<Rightarrow> nat list \<times> nat" where
  "divTen [] rem nxt = (nxt, rem)"
| "divTen (d # ds) rem nxt =
     (let cur = rem * 16 + d;
          q = cur div 10
      in divTen ds (cur mod 10) (if nxt \<noteq> [] \<or> q \<noteq> 0 then nxt @ [q] else nxt))"

definition hexValue :: "nat list \<Rightarrow> nat" where
  "hexValue ds = foldl (\<lambda>a d. a * 16 + d) 0 ds"

lemma hexValue_Nil [simp]: "hexValue [] = 0"
  by (simp add: hexValue_def)

lemma hexValue_snoc [simp]: "hexValue (ds @ [d]) = hexValue ds * 16 + d"
  by (simp add: hexValue_def)

lemma foldl_hexValue: "foldl (\<lambda>a d. a * 16 + d) a ds = a * 16 ^ length ds + hexValue ds"
proof (induction ds arbitrary: a)
  case Nil
  show ?case by simp
next
  case (Cons d ds)
  from Cons[of "a * 16 + d"] Cons[of d] show ?case by (simp add: hexValue_def algebra_simps)
qed

lemma hexValue_Cons: "hexValue (d # ds) = d * 16 ^ length ds + hexValue ds"
  using foldl_hexValue[of d ds] by (simp add: hexValue_def)

lemma divTen_value:
  "rem < 10 \<Longrightarrow> divTen ds rem nxt = (q, r) \<Longrightarrow>
     r < 10 \<and> hexValue q * 10 + r = hexValue nxt * 10 * 16 ^ length ds + rem * 16 ^ length ds + hexValue ds"
proof (induction ds rem nxt arbitrary: q r rule: divTen.induct)
  case (1 rem nxt)
  then show ?case by simp
next
  case (2 d ds rem nxt)
  let ?cur = "rem * 16 + d"
  let ?nxt = "if nxt \<noteq> [] \<or> ?cur div 10 \<noteq> 0 then nxt @ [?cur div 10] else nxt"
  have n: "hexValue ?nxt = hexValue nxt * 16 + ?cur div 10" by auto
  from 2(1)[OF refl refl, of q r] 2(3)
  have "r < 10 \<and> hexValue q * 10 + r =
      hexValue ?nxt * 10 * 16 ^ length ds + ?cur mod 10 * 16 ^ length ds + hexValue ds"
    by (simp add: Let_def)
  moreover have "hexValue ?nxt * 10 * 16 ^ length ds + ?cur mod 10 * 16 ^ length ds =
      (hexValue nxt * 16 * 10 + ?cur) * 16 ^ length ds"
    unfolding n by (metis add_mult_distrib add.assoc div_mult_mod_eq)
  ultimately show ?case by (simp add: hexValue_Cons algebra_simps)
qed

lemma divTen_zero: "hexValue ds = 0 \<Longrightarrow> divTen ds 0 [] = ([], 0)"
  by (induction ds) (auto simp: hexValue_Cons)

function hexToDecLoop :: "nat list \<Rightarrow> string \<Rightarrow> string" where
  "hexToDecLoop digits dec =
     (if digits = [] then dec
      else let (nxt, rem) = divTen digits 0 [] in hexToDecLoop nxt (dec @ [digit_char rem]))"
  by auto
termination
proof (relation "measures [\<lambda>(ds, _). hexValue ds, \<lambda>(ds, _). length ds]")
  fix digits dec p nxt rem
  assume ne: "digits \<noteq> []" and "p = divTen digits 0 []" "(nxt, rem) = p"
  then have e: "divTen digits 0 [] = (nxt, rem)" by simp
  from divTen_value[OF _ e] have v: "hexValue nxt * 10 + rem = hexValue digits" by simp
  show "((nxt, dec @ [digit_char rem]), digits, dec) \<in> measures [\<lambda>(ds, _). hexValue ds, \<lambda>(ds, _). length ds]"
  proof (cases "hexValue digits = 0")
    case True
    with divTen_zero e ne show ?thesis by auto
  next
    case False
    with v have "hexValue nxt < hexValue digits" by simp
    then show ?thesis by simp
  qed
qed simp

declare hexToDecLoop.simps [simp del]

text \<open>The digits of the text; a character that is not one empties the list.\<close>

definition hexDigits :: "string \<Rightarrow> nat list" where
  "hexDigits s = (if list_all (isDigitIn 16) s then map (\<lambda>c. nat (nibble c)) s else [])"

definition hexToDec :: "string \<Rightarrow> string" where
  "hexToDec s =
     (let digits = hexDigits s
      in if digits = [] then ''0'' else rev (hexToDecLoop digits []))"

definition isNegativeText :: "string \<Rightarrow> bool" where
  "isNegativeText s = (case s of [] \<Rightarrow> False | c # _ \<Rightarrow> c = CHR ''-'')"

definition hexMarker :: "string \<Rightarrow> bool" where
  "hexMarker s =
     (case s of a # b # c # _ \<Rightarrow> a = CHR ''0'' \<and> (b = CHR ''x'' \<or> b = CHR ''X'') | _ \<Rightarrow> False)"

definition integerValue :: "string \<Rightarrow> json" where
  "integerValue s =
     (let neg = isNegativeText s;
          rest = (if neg then drop 1 s else s)
      in if hexMarker rest then
           (case stoll (drop 2 rest) 16 of
              Some val \<Rightarrow> JInt (if neg then - val else val)
            | None \<Rightarrow> JString ((if neg then [CHR ''-''] else []) @ hexToDec (drop 2 rest)))
         else
           (case stoll s 10 of
              Some val \<Rightarrow> JInt val
            | None \<Rightarrow> JString s))"

section \<open>Integer constants denote themselves\<close>

text \<open>The text and the result as the code splits them: for the proof only, which then relates them to
  \<open>integer_text\<close>.\<close>

definition unsignedText :: "string \<Rightarrow> nat option" where
  "unsignedText s =
     (if hexMarker s then
        (if list_all (isDigitIn 16) (drop 2 s) then Some (nat (digitsValue 16 (drop 2 s))) else None)
      else nat_of_dec s)"

definition signedText :: "(string \<Rightarrow> nat option) \<Rightarrow> string \<Rightarrow> int option" where
  "signedText f s =
     (if isNegativeText s then map_option (\<lambda>n. - int n) (f (drop 1 s)) else map_option int (f s))"

definition jsonInteger :: "json \<Rightarrow> int option" where
  "jsonInteger j = (case j of JInt i \<Rightarrow> Some i | JString s \<Rightarrow> signedText nat_of_dec s | _ \<Rightarrow> None)"

lemma digitsValue_16:
  "list_all (isDigitIn 16) ds \<Longrightarrow> digitsValue 16 ds = int (hexValue (map (\<lambda>c. nat (nibble c)) ds))"
  by (induction ds rule: rev_induct) (auto simp: isDigitIn_def)

lemma hexToDecLoop_value:
  "\<exists>D. hexToDecLoop ds acc = acc @ D \<and> dec_value (rev D) = hexValue ds \<and> list_all is_digit D \<and>
     (ds \<noteq> [] \<longrightarrow> D \<noteq> [])"
proof (induction ds acc rule: hexToDecLoop.induct)
  case (1 ds acc)
  show ?case
  proof (cases "ds = []")
    case True
    then show ?thesis by (subst hexToDecLoop.simps) (simp add: dec_value_def)
  next
    case False
    obtain nxt r where d: "divTen ds 0 [] = (nxt, r)" by force
    from divTen_value[OF _ d] have v: "r < 10" "hexValue nxt * 10 + r = hexValue ds" by simp_all
    from 1[OF False d[symmetric] refl] obtain D where
      "hexToDecLoop nxt (acc @ [digit_char r]) = acc @ (digit_char r # D)"
      "dec_value (rev D) = hexValue nxt" "list_all is_digit D" by auto
    with False v show ?thesis
      by (intro exI[of _ "digit_char r # D"], subst hexToDecLoop.simps) (simp add: d)
  qed
qed

lemma hexToDec_value:
  assumes "list_all (isDigitIn 16) s" "s \<noteq> []"
  shows "nat_of_dec (hexToDec s) = Some (nat (digitsValue 16 s))"
proof -
  let ?ds = "map (\<lambda>c. nat (nibble c)) s"
  obtain D where D: "hexToDecLoop ?ds [] = D" "dec_value (rev D) = hexValue ?ds" "list_all is_digit D" "D \<noteq> []"
    using hexToDecLoop_value[of ?ds "[]"] assms(2) by auto
  then have "hexToDec s = rev D" using assms by (simp add: hexToDec_def hexDigits_def)
  with D show ?thesis by (simp add: nat_of_dec_def digitsValue_16[OF assms(1)])
qed

lemma digits_not_negative: "list_all is_digit s \<Longrightarrow> \<not> isNegativeText s"
  using digit_plain(2)[of 10 "CHR ''-''"] by (auto simp: isNegativeText_def isDigitIn_10 split: list.splits)

lemma negative_text: "isNegativeText s \<Longrightarrow> s = CHR ''-'' # drop 1 s"
  by (auto simp: isNegativeText_def split: list.splits)

lemma nat_of_dec_digits: "nat_of_dec s = Some n \<Longrightarrow> list_all (isDigitIn 10) s \<and> list_all is_digit s \<and> s \<noteq> [] \<and> digitsValue 10 s = int n"
  by (auto simp: nat_of_dec_def digitsValue_10 isDigitIn_10 list_all_iff split: if_splits)

lemma integerValue_decimal:
  assumes "nat_of_dec u = Some n" "\<not> hexMarker u"
  shows "integerValue u = (if int n < 2 ^ 63 then JInt (int n) else JString u)"
    and "integerValue (CHR ''-'' # u) = (if int n \<le> 2 ^ 63 then JInt (- int n) else JString (CHR ''-'' # u))"
  using nat_of_dec_digits[OF assms(1)] stoll_digits[of 10 u] assms(2) digits_not_negative[of u]
  by (auto simp: integerValue_def isNegativeText_def)

lemma hexMarker_drop: "hexMarker u \<Longrightarrow> drop 2 u \<noteq> [] \<and> \<not> isNegativeText u"
  by (auto simp: hexMarker_def isNegativeText_def split: list.splits)

lemma digitsValue_16_nonneg: "list_all (isDigitIn 16) s \<Longrightarrow> 0 \<le> digitsValue 16 s"
  by (simp add: digitsValue_16)

lemma integerValue_hex:
  assumes "hexMarker u" "list_all (isDigitIn 16) (drop 2 u)"
  defines "v \<equiv> digitsValue 16 (drop 2 u)"
  shows "integerValue u = (if v < 2 ^ 63 then JInt v else JString (hexToDec (drop 2 u)))"
    and "integerValue (CHR ''-'' # u) = (if v < 2 ^ 63 then JInt (- v) else JString (CHR ''-'' # hexToDec (drop 2 u)))"
  using stoll_digits(1)[of 16 "drop 2 u"] hexMarker_drop[OF assms(1)] assms(1) digitsValue_16_nonneg[OF assms(2)] assms(2)
  by (simp_all add: integerValue_def v_def isNegativeText_def)

lemma unsignedText_cases:
  assumes "unsignedText u = Some n"
  shows "\<not> isNegativeText u"
    and "jsonInteger (integerValue u) = Some (int n) \<and> (int n < 2 ^ 63 \<longrightarrow> integerValue u = JInt (int n))"
    and "jsonInteger (integerValue (CHR ''-'' # u)) = Some (- int n) \<and>
      (int n < 2 ^ 63 \<longrightarrow> integerValue (CHR ''-'' # u) = JInt (- int n))"
proof (atomize (full), cases "hexMarker u")
  case True
  with assms have h: "list_all (isDigitIn 16) (drop 2 u)" and n: "n = nat (digitsValue 16 (drop 2 u))"
    by (auto simp: unsignedText_def split: if_splits)
  note d = hexMarker_drop[OF True]
  have n': "digitsValue 16 (drop 2 u) = int n" using n digitsValue_16_nonneg[OF h] by simp
  have t: "nat_of_dec (hexToDec (drop 2 u)) = Some n" using hexToDec_value[OF h] d n by simp
  then have "\<not> isNegativeText (hexToDec (drop 2 u))" using nat_of_dec_digits digits_not_negative by blast
  with t d show "\<not> isNegativeText u \<and> (jsonInteger (integerValue u) = Some (int n) \<and> (int n < 2 ^ 63 \<longrightarrow> integerValue u = JInt (int n))) \<and>
      jsonInteger (integerValue (CHR ''-'' # u)) = Some (- int n) \<and> (int n < 2 ^ 63 \<longrightarrow> integerValue (CHR ''-'' # u) = JInt (- int n))"
    unfolding integerValue_hex[OF True h] n' by (auto simp: jsonInteger_def signedText_def isNegativeText_def)
next
  case False
  with assms have d: "nat_of_dec u = Some n" by (simp add: unsignedText_def)
  then have "\<not> isNegativeText u" using nat_of_dec_digits digits_not_negative by blast
  with d show "\<not> isNegativeText u \<and> (jsonInteger (integerValue u) = Some (int n) \<and> (int n < 2 ^ 63 \<longrightarrow> integerValue u = JInt (int n))) \<and>
      jsonInteger (integerValue (CHR ''-'' # u)) = Some (- int n) \<and> (int n < 2 ^ 63 \<longrightarrow> integerValue (CHR ''-'' # u) = JInt (- int n))"
    unfolding integerValue_decimal[OF d False] by (auto simp: jsonInteger_def signedText_def isNegativeText_def)
qed

text \<open>The code's way to split the text agrees with what an integer text is.\<close>

lemma integer_text_split:
  assumes "integer_text s v"
  shows "signedText unsignedText s = Some v"
proof -
  from assms obtain sign marker digits b n where s: "s = sign @ marker @ digits"
    and m: "(marker, b) \<in> {([], 10), (''0x'', 16), (''0X'', 16)}" and n: "is_numeral b digits n"
    and v: "sign = [] \<and> v = int n \<or> sign = ''-'' \<and> v = - int n" unfolding integer_text_def by blast
  have u: "unsignedText (marker @ digits) = Some n \<and> \<not> isNegativeText (marker @ digits)"
  proof (cases "b = 10")
    case True
    with m n have d: "marker = []" "nat_of_dec digits = Some n" by (auto simp: is_numeral_10)
    from nat_of_dec_digits[OF d(2)] have l: "list_all is_digit digits" by blast
    have "\<not> hexMarker digits"
    proof
      assume "hexMarker digits"
      then obtain c d r where "digits = c # d # r" "d = CHR ''x'' \<or> d = CHR ''X''" by (auto simp: hexMarker_def split: list.splits)
      with l show False by (auto simp: is_digit_def)
    qed
    with d l show ?thesis by (simp add: unsignedText_def digits_not_negative)
  next
    case False
    with m n have d: "digits \<noteq> []" "list_all (isDigitIn 16) digits" "digitsValue 16 digits = int n"
      and k: "marker = ''0x'' \<or> marker = ''0X''" using is_numeral_iff[of 16 digits n] by auto
    then obtain c cs where "digits = c # cs" by (cases digits) auto
    with d k show ?thesis by (auto simp: unsignedText_def hexMarker_def isNegativeText_def)
  qed
  from v show ?thesis
  proof
    assume "sign = [] \<and> v = int n"
    with u s show ?thesis by (simp add: signedText_def)
  next
    assume "sign = ''-'' \<and> v = - int n"
    with u s show ?thesis by (simp add: signedText_def isNegativeText_def)
  qed
qed

text \<open>What a JSON value says: an integer, or a string that is a signed decimal numeral.\<close>

definition json_denotes :: "json \<Rightarrow> int \<Rightarrow> bool" where
  "json_denotes j v \<longleftrightarrow> j = JInt v \<or>
     (\<exists>sign digits n. j = JString (sign @ digits) \<and> is_numeral 10 digits n \<and>
        (sign = [] \<and> v = int n \<or> sign = ''-'' \<and> v = - int n))"

lemma jsonInteger_denotes:
  assumes "jsonInteger j = Some v"
  shows "json_denotes j v"
proof (cases j)
  case (JString s)
  with assms have s: "signedText nat_of_dec s = Some v" by (simp add: jsonInteger_def)
  show ?thesis
  proof (cases "isNegativeText s")
    case True
    with s obtain n where "nat_of_dec (drop 1 s) = Some n" "v = - int n" by (auto simp: signedText_def)
    with negative_text[OF True] JString show ?thesis
      unfolding json_denotes_def is_numeral_10 by (metis append_Cons append_Nil)
  next
    case False
    with s obtain n where "nat_of_dec s = Some n" "v = int n" by (auto simp: signedText_def)
    with JString show ?thesis unfolding json_denotes_def is_numeral_10 by (metis append_Nil)
  qed
qed (use assms in \<open>auto simp: jsonInteger_def json_denotes_def\<close>)

text \<open>A text and a JSON value denote at most one integer.\<close>

lemma json_denotes_unique:
  assumes "json_denotes j v" "json_denotes j w"
  shows "v = w"
proof -
  have "jsonInteger j = Some u" if d: "json_denotes j u" for u
  proof -
    have "\<not> isNegativeText digits" if "nat_of_dec digits = Some n" for digits n
      using nat_of_dec_digits[OF that] digits_not_negative by blast
    then show ?thesis using d unfolding json_denotes_def is_numeral_10
      by (auto simp: jsonInteger_def signedText_def isNegativeText_def)
  qed
  with assms show ?thesis by (metis option.inject)
qed

text \<open>
  (C39) The JSON of an integer constant, written as a decimal or, after \<open>0x\<close> or \<open>0X\<close>, a hexadecimal
  numeral of any length and either sign, denotes exactly the integer that the text denotes, and it is a
  JSON number whenever the magnitude is below \<open>2 ^ 63\<close>.
\<close>

theorem integerValue_correct:
  assumes "integer_text s v"
  shows "json_denotes (integerValue s) v \<and> (\<bar>v\<bar> < 2 ^ 63 \<longrightarrow> integerValue s = JInt v)"
proof -
  note s = integer_text_split[OF assms]
  have "jsonInteger (integerValue s) = Some v \<and> (\<bar>v\<bar> < 2 ^ 63 \<longrightarrow> integerValue s = JInt v)"
  proof (cases "isNegativeText s")
    case True
    with s obtain n where "unsignedText (drop 1 s) = Some n" "v = - int n" by (auto simp: signedText_def)
    with unsignedText_cases(3)[of "drop 1 s" n] negative_text[OF True] show ?thesis by simp
  next
    case False
    with s obtain n where "unsignedText s = Some n" "v = int n" by (auto simp: signedText_def)
    with unsignedText_cases(2)[of s n] show ?thesis by simp
  qed
  with jsonInteger_denotes show ?thesis by blast
qed

theorem integerValue_correct_witness:
  "integerValue ''-0x1fF'' = JInt (- 511) \<and> json_denotes (integerValue ''18446744073709551616'') (2 ^ 64)"
proof -
  have a: "is_numeral 16 ''1fF'' 511"
    using is_numeral_iff[of 16 "''1fF''" 511] by (simp add: isDigitIn_def digitsValue_def nibble_def Let_def)
  have "integer_text ''-0x1fF'' (- 511)" unfolding integer_text_def
    by (rule exI[of _ "''-''"], rule exI[of _ "''0x''"], rule exI[of _ "''1fF''"]) (use a in auto)
  moreover have "integer_text ''18446744073709551616'' (2 ^ 64)" unfolding integer_text_def
  proof (rule exI[of _ "[]"], rule exI[of _ "[]"], rule exI[of _ "''18446744073709551616''"],
      rule exI[of _ 10], rule exI[of _ "2 ^ 64"])
    show "''18446744073709551616'' = [] @ [] @ ''18446744073709551616'' \<and> ([], 10) \<in> {([], 10), (''0x'', 16), (''0X'', 16)} \<and>
      is_numeral 10 ''18446744073709551616'' (2 ^ 64) \<and> ([] = [] \<and> 2 ^ 64 = int (2 ^ 64) \<or> [] = ''-'' \<and> 2 ^ 64 = - int (2 ^ 64))"
      unfolding is_numeral_10 by (simp add: nat_of_dec_def dec_value_def is_digit_def)
  qed
  ultimately show ?thesis using integerValue_correct[of "''-0x1fF''" "- 511"] integerValue_correct[of "''18446744073709551616''" "2 ^ 64"] by simp
qed

end
