(* ===== verification/Serializer.thy ===== *)
theory Serializer
  imports Json RootNodes
begin

text \<open>
  The writer of the AWST file that the puya back end reads
  (\<open>src/src/json/AWSTSerializer.cpp\<close>): one function per \<open>serialize...\<close> method, over the node types
  of \<open>Nodes\<close> and \<open>RootNodes\<close>.  The nodes of the model carry no source location, so the locations
  are an argument: \<open>at\<close> gives the location of the node at each path below the current one.  The
  dereference of a null block is \<open>None\<close>.
\<close>

section \<open>Enumerations\<close>

fun bytesEncodingToString :: "BytesEncoding \<Rightarrow> string" where
  "bytesEncodingToString EncUnknown = ''unknown''"
| "bytesEncodingToString EncBase16 = ''base16''"
| "bytesEncodingToString EncBase32 = ''base32''"
| "bytesEncodingToString EncBase64 = ''base64''"
| "bytesEncodingToString EncUtf8 = ''utf8''"

fun uint64BinOpToString :: "UInt64BinaryOperator \<Rightarrow> string" where
  "uint64BinOpToString U64Add = ''+''"
| "uint64BinOpToString U64Sub = ''-''"
| "uint64BinOpToString U64Mult = ''*''"
| "uint64BinOpToString U64FloorDiv = ''//''"
| "uint64BinOpToString U64Mod = ''%''"
| "uint64BinOpToString U64Pow = ''**''"
| "uint64BinOpToString U64LShift = ''<<''"
| "uint64BinOpToString U64RShift = ''>>''"
| "uint64BinOpToString U64BitOr = ''|''"
| "uint64BinOpToString U64BitXor = ''^''"
| "uint64BinOpToString U64BitAnd = ''&''"

fun bigUIntBinOpToString :: "BigUIntBinaryOperator \<Rightarrow> string" where
  "bigUIntBinOpToString BigAdd = ''+''"
| "bigUIntBinOpToString BigSub = ''-''"
| "bigUIntBinOpToString BigMult = ''*''"
| "bigUIntBinOpToString BigFloorDiv = ''//''"
| "bigUIntBinOpToString BigMod = ''%''"
| "bigUIntBinOpToString BigBitOr = ''|''"
| "bigUIntBinOpToString BigBitXor = ''^''"
| "bigUIntBinOpToString BigBitAnd = ''&''"

fun numericCompToString :: "NumericComparison \<Rightarrow> string" where
  "numericCompToString Eq = ''==''"
| "numericCompToString Ne = ''!=''"
| "numericCompToString Lt = ''<''"
| "numericCompToString Lte = ''<=''"
| "numericCompToString Gt = ''>''"
| "numericCompToString Gte = ''>=''"

fun equalityCompToString :: "EqualityComparison \<Rightarrow> string" where
  "equalityCompToString EqEq = ''==''"
| "equalityCompToString EqNe = ''!=''"

fun boolBinOpToString :: "BinaryBooleanOperator \<Rightarrow> string" where
  "boolBinOpToString And = ''and''"
| "boolBinOpToString Or = ''or''"

fun bytesBinOpToString :: "BytesBinaryOperator \<Rightarrow> string" where
  "bytesBinOpToString BytesAdd = ''+''"
| "bytesBinOpToString BytesBitOr = ''|''"
| "bytesBinOpToString BytesBitXor = ''^''"
| "bytesBinOpToString BytesBitAnd = ''&''"

section \<open>Source locations\<close>

record SourceLocation =
  sl_file :: string
  sl_line :: int
  sl_endLine :: int
  sl_commentLines :: int
  sl_column :: "int option"
  sl_endColumn :: "int option"

type_synonym locs = "nat list \<Rightarrow> SourceLocation"

definition below :: "nat \<Rightarrow> locs \<Rightarrow> locs" where
  "below k at = (\<lambda>p. at (k # p))"

text \<open>The elements of a sequence, each with the locations of its own path.\<close>

fun eachBelow :: "nat \<Rightarrow> (locs \<Rightarrow> 'a) list \<Rightarrow> locs \<Rightarrow> 'a list" where
  "eachBelow k [] at = []"
| "eachBelow k (f # fs) at = f (below k at) # eachBelow (Suc k) fs at"

definition serializeSourceLocation :: "SourceLocation \<Rightarrow> json" where
  "serializeSourceLocation l =
     JObject [(''file'', if sl_file l = [] then JNull else JString (sl_file l)),
              (''line'', JInt (max (sl_line l) 1)),
              (''end_line'', JInt (max (sl_endLine l) 1)),
              (''comment_lines'', JInt (sl_commentLines l)),
              (''column'', jopt JInt (sl_column l)),
              (''end_column'', jopt JInt (sl_endColumn l))]"

section \<open>Types\<close>

text \<open>An empty string member is written as null.\<close>

definition nonEmpty :: "string \<Rightarrow> json" where
  "nonEmpty s = (if s = [] then JNull else JString s)"

definition typeNode :: "wtype \<Rightarrow> (string \<times> json) list \<Rightarrow> json" where
  "typeNode t members =
     JObject ([(''_type'', JString (jsonType t)), (''name'', JString (wname t)),
               (''immutable'', JBool (immutable t))] @ members)"

primrec serializeWType :: "wtype \<Rightarrow> json" where
  "serializeWType (BasicWType n) = typeNode (BasicWType n) []"
| "serializeWType (ARC4BasicWType n) =
     typeNode (ARC4BasicWType n) [(''arc4_alias'', JNull), (''source_location'', JNull)]"
| "serializeWType (BytesWType l) = typeNode (BytesWType l) [(''length'', jopt JInt l)]"
| "serializeWType (ARC4UIntN n al) =
     typeNode (ARC4UIntN n al)
       [(''n'', JInt n), (''arc4_alias'', nonEmpty al), (''source_location'', JNull)]"
| "serializeWType (ARC4UFixedNxM n k) =
     typeNode (ARC4UFixedNxM n k)
       [(''n'', JInt n), (''m'', JInt k), (''arc4_alias'', JNull), (''source_location'', JNull)]"
| "serializeWType (ARC4Tuple ts) =
     typeNode (ARC4Tuple ts)
       [(''types'', JArray (map serializeWType ts)), (''arc4_alias'', JNull), (''source_location'', JNull)]"
| "serializeWType (ARC4DynamicArray e al im) =
     typeNode (ARC4DynamicArray e al im)
       [(''element_type'', serializeWType e), (''arc4_alias'', nonEmpty al), (''source_location'', JNull)]"
| "serializeWType (ARC4StaticArray e n al im) =
     typeNode (ARC4StaticArray e n al im)
       [(''element_type'', serializeWType e), (''array_size'', JInt n), (''arc4_alias'', nonEmpty al),
        (''source_location'', JNull)]"
| "serializeWType (ARC4Struct n fs fr im) =
     typeNode (ARC4Struct n fs fr im)
       [(''fields'', JArray (map (\<lambda>(k, j). JObject [(''name'', JString k), (''wtype'', j), (''description'', JNull)])
                            (map (map_prod id serializeWType) fs))),
        (''frozen'', JBool fr), (''arc4_alias'', JNull), (''source_location'', JNull), (''desc'', JNull)]"
| "serializeWType (ReferenceArray e im n) =
     typeNode (ReferenceArray e im n)
       [(''element_type'', serializeWType e), (''array_size'', jopt JInt n), (''source_location'', JNull)]"
| "serializeWType (WTuple ts ns n) =
     typeNode (WTuple ts ns n)
       [(''types'', JArray (map serializeWType ts)),
        (''names'', jopt (\<lambda>xs. JArray (map JString xs)) ns), (''source_location'', JNull)]"
| "serializeWType (WInnerTransactionFields t) =
     typeNode (WInnerTransactionFields t) [(''transaction_type'', jopt JInt t)]"
| "serializeWType (WInnerTransaction t) =
     typeNode (WInnerTransaction t) [(''transaction_type'', jopt JInt t)]"

section \<open>Expressions\<close>

definition serializeSubroutineTarget :: "SubroutineTarget \<Rightarrow> json" where
  "serializeSubroutineTarget tg =
     (case tg of
        SubroutineID i \<Rightarrow> JObject [(''_type'', JString ''SubroutineID''), (''target'', JString i)]
      | InstanceMethodTarget n \<Rightarrow>
          JObject [(''_type'', JString ''InstanceMethodTarget''), (''member_name'', JString n)]
      | InstanceSuperMethodTarget n \<Rightarrow>
          JObject [(''_type'', JString ''InstanceSuperMethodTarget''), (''member_name'', JString n)]
      | ContractMethodTarget c n \<Rightarrow>
          JObject [(''_type'', JString ''ContractMethodTarget''), (''cref'', JString c),
                   (''member_name'', JString n)])"

definition serializeCallArg :: "string option \<times> json \<Rightarrow> json" where
  "serializeCallArg arg = JObject [(''name'', jopt JString (fst arg)), (''value'', snd arg)]"

definition serializeImmediate :: "immediate \<Rightarrow> json" where
  "serializeImmediate imm = (case imm of ImmStr s \<Rightarrow> JString s | ImmInt i \<Rightarrow> JInt i)"

text \<open>The members every expression starts with, and the assignments of its class after them.\<close>

definition exprHeader :: "string \<Rightarrow> locs \<Rightarrow> wtype \<Rightarrow> json" where
  "exprHeader ty at t =
     JObject [(''_type'', JString ty), (''source_location'', serializeSourceLocation (at [])),
              (''wtype'', serializeWType t)]"

abbreviation exprNode :: "string \<Rightarrow> locs \<Rightarrow> wtype \<Rightarrow> (string \<times> json) list \<Rightarrow> json" where
  "exprNode ty at t members \<equiv> jsets members (exprHeader ty at t)"

text \<open>Keyed children: each entry of a \<open>std::map\<close> is assigned to a member of the given object.\<close>

definition keyedMembers :: "json \<Rightarrow> (string \<times> (locs \<Rightarrow> json)) list \<Rightarrow> locs \<Rightarrow> json" where
  "keyedMembers j entries at = jsets (zip (map fst entries) (eachBelow 0 (map snd entries) at)) j"

definition callArgs :: "(string option \<times> (locs \<Rightarrow> json)) list \<Rightarrow> locs \<Rightarrow> json" where
  "callArgs args at =
     JArray (map serializeCallArg (zip (map fst args) (eachBelow 0 (map snd args) at)))"

definition arrayOf :: "(locs \<Rightarrow> json) list \<Rightarrow> locs \<Rightarrow> json" where
  "arrayOf fs at = JArray (eachBelow 0 fs at)"

primrec serializeExpression :: "expr \<Rightarrow> locs \<Rightarrow> json" where
  "serializeExpression (IntegerConstant t s) at =
     exprNode ''IntegerConstant'' at t [(''value'', integerValue s), (''teal_alias'', JNull)]"
| "serializeExpression (BoolConstant t b) at =
     exprNode ''BoolConstant'' at t [(''value'', JBool b)]"
| "serializeExpression (BytesConstant t enc bs) at =
     exprNode ''BytesConstant'' at t [(''value'', JString (base85Encode bs)), (''encoding'',
       JString (bytesEncodingToString enc))]"
| "serializeExpression (StringConstant t s) at =
     exprNode ''StringConstant'' at t [(''value'', JString s)]"
| "serializeExpression (VoidConstant t) at = exprNode ''VoidConstant'' at t []"
| "serializeExpression (VarExpression t n) at =
     exprNode ''VarExpression'' at t [(''name'', JString n)]"
| "serializeExpression (UInt64BinaryOperation t l oper r) at =
     exprNode ''UInt64BinaryOperation'' at t [(''left'', serializeExpression l (below 0 at)),
       (''op'', JString (uint64BinOpToString oper)), (''right'', serializeExpression r (below 1
       at))]"
| "serializeExpression (BigUIntBinaryOperation t l oper r) at =
     exprNode ''BigUIntBinaryOperation'' at t [(''left'', serializeExpression l (below 0 at)),
       (''op'', JString (bigUIntBinOpToString oper)), (''right'', serializeExpression r (below 1
       at))]"
| "serializeExpression (BytesBinaryOperation t l oper r) at =
     exprNode ''BytesBinaryOperation'' at t [(''left'', serializeExpression l (below 0 at)),
       (''op'', JString (bytesBinOpToString oper)), (''right'', serializeExpression r (below 1
       at))]"
| "serializeExpression (BytesUnaryOperation t e oper) at =
     exprNode ''BytesUnaryOperation'' at t [(''op'', JString ''~''), (''expr'',
       serializeExpression e (below 0 at))]"
| "serializeExpression (NumericComparisonExpression t l oper r) at =
     exprNode ''NumericComparisonExpression'' at t [(''lhs'', serializeExpression l (below 0
       at)), (''operator'', JString (numericCompToString oper)), (''rhs'', serializeExpression r
       (below 1 at))]"
| "serializeExpression (BytesComparisonExpression t l oper r) at =
     exprNode ''BytesComparisonExpression'' at t [(''lhs'', serializeExpression l (below 0
       at)), (''operator'', JString (equalityCompToString oper)), (''rhs'', serializeExpression r
       (below 1 at))]"
| "serializeExpression (BooleanBinaryOperation t l oper r) at =
     exprNode ''BooleanBinaryOperation'' at t [(''left'', serializeExpression l (below 0 at)),
       (''op'', JString (boolBinOpToString oper)), (''right'', serializeExpression r (below 1
       at))]"
| "serializeExpression (NotExpr t e) at =
     exprNode ''Not'' at t [(''expr'', serializeExpression e (below 0 at))]"
| "serializeExpression (AssertExpression t c msg ex) at =
     exprNode ''AssertExpression'' at t [(''condition'', serializeExpression c (below 0 at)),
       (''error_message'', jopt JString msg), (''comment'', jopt JString msg), (''explicit'',
       JBool ex)]"
| "serializeExpression (AssignmentExpression t l v) at =
     exprNode ''AssignmentExpression'' at t [(''target'', serializeExpression l (below 0 at)),
       (''value'', serializeExpression v (below 1 at))]"
| "serializeExpression (ConditionalExpression t c a b) at =
     exprNode ''ConditionalExpression'' at t [(''condition'', serializeExpression c (below 0
       at)), (''true_expr'', serializeExpression a (below 1 at)), (''false_expr'',
       serializeExpression b (below 2 at))]"
| "serializeExpression (SubroutineCallExpression t tg args) at =
     exprNode ''SubroutineCallExpression'' at t [(''target'', serializeSubroutineTarget tg),
       (''args'', callArgs (map (map_prod id serializeExpression) args) at)]"
| "serializeExpression (IntrinsicCall t opc imms args) at =
     exprNode ''IntrinsicCall'' at t [(''op_code'', JString opc), (''immediates'', JArray (map
       serializeImmediate imms)), (''stack_args'', arrayOf (map serializeExpression args) at)]"
| "serializeExpression (FieldExpression t b n) at =
     exprNode ''FieldExpression'' at t [(''base'', serializeExpression b (below 0 at)),
       (''name'', JString n)]"
| "serializeExpression (IndexExpression t b i) at =
     exprNode ''IndexExpression'' at t [(''base'', serializeExpression b (below 0 at)),
       (''index'', serializeExpression i (below 1 at))]"
| "serializeExpression (TupleExpression t es) at =
     exprNode ''TupleExpression'' at t [(''items'', arrayOf (map serializeExpression es) at)]"
| "serializeExpression (TupleItemExpression t b i) at =
     exprNode ''TupleItemExpression'' at t [(''base'', serializeExpression b (below 0 at)),
       (''index'', JInt i)]"
| "serializeExpression (ARC4Encode t v) at =
     exprNode ''ARC4Encode'' at t [(''value'', serializeExpression v (below 0 at)),
       (''error_message'', JNull)]"
| "serializeExpression (ARC4Decode t v) at =
     exprNode ''ARC4Decode'' at t [(''value'', serializeExpression v (below 0 at)),
       (''error_message'', JNull)]"
| "serializeExpression (ARC4FromBytes t v b) at =
     exprNode ''ARC4FromBytes'' at t [(''value'', serializeExpression v (below 0 at)),
       (''validate'', JBool b)]"
| "serializeExpression (ARC4Router t) at = exprNode ''ARC4Router'' at t []"
| "serializeExpression (ReinterpretCast t e) at =
     exprNode ''ReinterpretCast'' at t [(''expr'', serializeExpression e (below 0 at))]"
| "serializeExpression (TemplateVar t n) at =
     exprNode ''TemplateVar'' at t [(''name'', JString n)]"
| "serializeExpression (CopyExpr t v) at =
     exprNode ''Copy'' at t [(''value'', serializeExpression v (below 0 at))]"
| "serializeExpression (SingleEvaluation t s i) at =
     exprNode ''SingleEvaluation'' at t [(''source'', serializeExpression s (below 0 at)),
       (''_id'', JInt i)]"
| "serializeExpression (CheckedMaybe t e c) at =
     exprNode ''CheckedMaybe'' at t [(''expr'', serializeExpression e (below 0 at)),
       (''comment'', JString c)]"
| "serializeExpression (EmitExpr t sg v) at =
     exprNode ''Emit'' at t [(''signature'', JString sg), (''value'', serializeExpression v
       (below 0 at))]"
| "serializeExpression (NewArray t vs) at =
     exprNode ''NewArray'' at t [(''values'', arrayOf (map serializeExpression vs) at)]"
| "serializeExpression (ArrayLength t a) at =
     exprNode ''ArrayLength'' at t [(''array'', serializeExpression a (below 0 at))]"
| "serializeExpression (ArrayPop t b) at =
     exprNode ''ArrayPop'' at t [(''base'', serializeExpression b (below 0 at))]"
| "serializeExpression (ArrayConcat t l r) at =
     exprNode ''ArrayConcat'' at t [(''left'', serializeExpression l (below 0 at)), (''right'',
       serializeExpression r (below 1 at))]"
| "serializeExpression (ArrayExtend t b o1) at =
     exprNode ''ArrayExtend'' at t [(''base'', serializeExpression b (below 0 at)), (''other'',
       serializeExpression o1 (below 1 at))]"
| "serializeExpression (ConvertArray t e) at =
     exprNode ''ConvertArray'' at t [(''expr'', serializeExpression e (below 0 at))]"
| "serializeExpression (NewStruct t vs) at =
     exprNode ''NewStruct'' at t [(''values'', keyedMembers (JObject []) (map (map_prod id
       serializeExpression) vs) at)]"
| "serializeExpression (NamedTupleExpression t vs) at =
     exprNode ''NamedTupleExpression'' at t [(''values'', keyedMembers JNull (map (map_prod id
       serializeExpression) vs) at)]"
| "serializeExpression (StateGet t f d) at =
     jsets [(''field'', serializeExpression f (below 0 at)), (''default'', serializeExpression
       d (below 1 at))] (jerase ''wtype'' (exprHeader ''StateGet'' at t))"
| "serializeExpression (StateExists t f) at =
     jsets [(''field'', serializeExpression f (below 0 at))] (jerase ''wtype'' (exprHeader
       ''StateExists'' at t))"
| "serializeExpression (StateDelete t f) at =
     exprNode ''StateDelete'' at t [(''field'', serializeExpression f (below 0 at))]"
| "serializeExpression (StateGetEx t f) at =
     jsets [(''field'', serializeExpression f (below 0 at))] (jerase ''wtype'' (exprHeader
       ''StateGetEx'' at t))"
| "serializeExpression (AppStateExpression t k msg) at =
     exprNode ''AppStateExpression'' at t [(''key'', serializeExpression k (below 0 at)),
       (''exists_assertion_message'', jopt JString msg)]"
| "serializeExpression (AppAccountStateExpression t k a msg) at =
     exprNode ''AppAccountStateExpression'' at t [(''key'', serializeExpression k (below 0
       at)), (''account'', serializeExpression a (below 1 at)), (''exists_assertion_message'',
       jopt JString msg)]"
| "serializeExpression (BoxPrefixedKeyExpression t p k) at =
     exprNode ''BoxPrefixedKeyExpression'' at t [(''_type'', JString ''IntrinsicCall''),
       (''op_code'', JString ''concat''), (''immediates'', JArray []), (''stack_args'', JArray
       [serializeExpression p (below 0 at), serializeExpression k (below 1 at)])]"
| "serializeExpression (BoxValueExpression t k msg) at =
     exprNode ''BoxValueExpression'' at t [(''key'', serializeExpression k (below 0 at)),
       (''exists_assertion_message'', jopt JString msg)]"
| "serializeExpression (CreateInnerTransaction t fs) at =
     exprNode ''CreateInnerTransaction'' at t [(''fields'', keyedMembers JNull (map (map_prod
       id serializeExpression) fs) at)]"
| "serializeExpression (SubmitInnerTransaction t es) at =
     exprNode ''SubmitInnerTransaction'' at t [(''itxns'', arrayOf (map serializeExpression es)
       at)]"
| "serializeExpression (InnerTransactionField t e f ai) at =
     exprNode ''InnerTransactionField'' at t [(''itxn'', serializeExpression e (below 0 at)),
       (''field'', JString f), (''array_index'', jopt (\<lambda>g. g (below 1 at)) (map_option
       serializeExpression ai))]"
| "serializeExpression (CommaExpression t es) at =
     exprNode ''CommaExpression'' at t [(''expressions'', arrayOf (map serializeExpression es)
       at)]"
| "serializeExpression (MethodConstant t v) at =
     exprNode ''MethodConstant'' at t [(''value'', JObject [(''_type'', JString
       ''MethodSignatureString''), (''source_location'', serializeSourceLocation (at [])),
       (''value'', JString v)])]"
| "serializeExpression (AddressConstant t v) at =
     exprNode ''AddressConstant'' at t [(''value'', JString v)]"
| "serializeExpression (PuyaLibCall t fn args) at =
     jsets [(''func'', JString fn), (''args'', callArgs (map (map_prod id serializeExpression)
       args) at)] (jerase ''wtype'' (exprHeader ''PuyaLibCall'' at t))"

section \<open>Statements\<close>

text \<open>\<open>*p\<close> of a block pointer that the code does not test, and \<open>p ? ... : null\<close>.\<close>

definition deref :: "(locs \<Rightarrow> json option) option \<Rightarrow> locs \<Rightarrow> json option" where
  "deref p at = (case p of None \<Rightarrow> None | Some f \<Rightarrow> f at)"

definition orNull :: "(locs \<Rightarrow> json option) option \<Rightarrow> locs \<Rightarrow> json option" where
  "orNull p at = (case p of None \<Rightarrow> Some JNull | Some f \<Rightarrow> f at)"

definition stmtNode :: "string \<Rightarrow> locs \<Rightarrow> (string \<times> json) list \<Rightarrow> json" where
  "stmtNode ty at members =
     JObject ([(''_type'', JString ty), (''source_location'', serializeSourceLocation (at []))] @ members)"

definition serializeCase :: "expr \<times> (locs \<Rightarrow> json option) option \<Rightarrow> locs \<Rightarrow> json option" where
  "serializeCase c at =
     map_option (\<lambda>block. JArray [serializeExpression (fst c) (below 0 at), block]) (deref (snd c) (below 1 at))"

primrec serializeStatement :: "stmt \<Rightarrow> locs \<Rightarrow> json option" where
  "serializeStatement (Block body label comment) at =
     map_option (\<lambda>stmts. stmtNode ''Block'' at
         [(''body'', JArray stmts), (''label'', jopt JString label), (''comment'', jopt JString comment)])
       (those (eachBelow 0 (map serializeStatement body) at))"
| "serializeStatement (ExpressionStatement e) at =
     Some (stmtNode ''ExpressionStatement'' at [(''expr'', serializeExpression e (below 0 at))])"
| "serializeStatement (ReturnStatement v) at =
     Some (stmtNode ''ReturnStatement'' at [(''value'', jopt (\<lambda>e. serializeExpression e (below 0 at)) v)])"
| "serializeStatement (IfElse c i e) at =
     do {
       ifBranch \<leftarrow> deref (map_option serializeStatement i) (below 1 at);
       elseBranch \<leftarrow> orNull (map_option serializeStatement e) (below 2 at);
       Some (stmtNode ''IfElse'' at
         [(''condition'', serializeExpression c (below 0 at)), (''if_branch'', ifBranch), (''else_branch'', elseBranch)])
     }"
| "serializeStatement (WhileLoop c b) at =
     map_option (\<lambda>body. stmtNode ''WhileLoop'' at
         [(''condition'', serializeExpression c (below 0 at)), (''loop_body'', body)])
       (deref (map_option serializeStatement b) (below 1 at))"
| "serializeStatement LoopExit at = Some (stmtNode ''LoopExit'' at [])"
| "serializeStatement LoopContinue at = Some (stmtNode ''LoopContinue'' at [])"
| "serializeStatement (AssignmentStatement l v) at =
     Some (stmtNode ''AssignmentStatement'' at
       [(''target'', serializeExpression l (below 0 at)), (''value'', serializeExpression v (below 1 at))])"
| "serializeStatement (GotoStmt n) at = Some (stmtNode ''Goto'' at [(''target'', JString n)])"
| "serializeStatement (SwitchStmt v cs d) at =
     do {
       cases \<leftarrow> those (eachBelow 0 (map serializeCase (map (map_prod id (map_option serializeStatement)) cs)) (below 1 at));
       defaultCase \<leftarrow> orNull (map_option serializeStatement d) (below 2 at);
       Some (stmtNode ''Switch'' at
         [(''value'', serializeExpression v (below 0 at)), (''cases'', JArray cases), (''default_case'', defaultCase)])
     }"
| "serializeStatement (ForInLoop xs i b) at =
     map_option (\<lambda>body. stmtNode ''ForInLoop'' at
         [(''sequence'', serializeExpression xs (below 0 at)), (''items'', serializeExpression i (below 1 at)),
          (''loop_body'', body)])
       (deref (map_option serializeStatement b) (below 2 at))"
| "serializeStatement (UInt64AugmentedAssignment l oper v) at =
     Some (stmtNode ''UInt64AugmentedAssignment'' at
       [(''target'', serializeExpression l (below 0 at)), (''op'', JString (uint64BinOpToString oper)),
        (''value'', serializeExpression v (below 1 at))])"
| "serializeStatement (BigUIntAugmentedAssignment l oper v) at =
     Some (stmtNode ''BigUIntAugmentedAssignment'' at
       [(''target'', serializeExpression l (below 0 at)), (''op'', JString (bigUIntBinOpToString oper)),
        (''value'', serializeExpression v (below 1 at))])"

section \<open>Root nodes\<close>

definition serializeMethodDocumentation :: "MethodDocumentation \<Rightarrow> json" where
  "serializeMethodDocumentation d =
     JObject [(''description'', jopt JString (md_description d)),
              (''args'', JObject (map (map_prod id JString) (md_args d))),
              (''returns'', jopt JString (md_returns d))]"

definition serializeSubroutineArgument :: "string \<times> wtype \<Rightarrow> locs \<Rightarrow> json" where
  "serializeSubroutineArgument a at =
     JObject [(''_type'', JString ''SubroutineArgument''), (''name'', JString (fst a)),
              (''source_location'', serializeSourceLocation (at [])), (''wtype'', serializeWType (snd a))]"

definition serializeArguments :: "(string \<times> wtype) list \<Rightarrow> locs \<Rightarrow> json" where
  "serializeArguments args at = JArray (eachBelow 0 (map serializeSubroutineArgument args) at)"

fun serializeARC4MethodConfig :: "ARC4MethodConfig \<Rightarrow> locs \<Rightarrow> json" where
  "serializeARC4MethodConfig (ARC4BareMethodConfig oca create) at =
     JObject [(''_type'', JString ''ARC4BareMethodConfig''),
              (''source_location'', serializeSourceLocation (at [])),
              (''allowed_completion_types'', JArray (map JInt oca)), (''create'', JInt create)]"
| "serializeARC4MethodConfig (ARC4ABIMethodConfig oca create n ro args chunk) at =
     JObject [(''_type'', JString ''ARC4ABIMethodConfig''),
              (''source_location'', serializeSourceLocation (at [])),
              (''allowed_completion_types'', JArray (map JInt oca)), (''create'', JInt create),
              (''name'', JString n), (''readonly'', JBool ro),
              (''default_args'', JObject (map (map_prod id JString) args)),
              (''resource_encoding'', JString ''value''), (''validate_encoding'', JNull),
              (''chunk'', nonEmpty chunk)]"

definition serializeSubroutine :: "Subroutine \<Rightarrow> locs \<Rightarrow> json option" where
  "serializeSubroutine s at =
     map_option (\<lambda>body. JObject
         [(''_type'', JString ''Subroutine''), (''source_location'', serializeSourceLocation (at [])),
          (''id'', JString (sub_id s)), (''name'', JString (sub_name s)),
          (''args'', serializeArguments (sub_args s) (below 0 at)),
          (''return_type'', serializeWType (returnType s)), (''body'', body),
          (''documentation'', serializeMethodDocumentation (sub_documentation s)),
          (''inline'', jopt JBool (inlineOpt s)), (''pure'', JBool (sub_pure s))])
       (orNull (map_option serializeStatement (sub_body s)) (below 1 at))"

definition serializeContractMethod :: "ContractMethod \<Rightarrow> locs \<Rightarrow> json option" where
  "serializeContractMethod method at =
     map_option (\<lambda>body. JObject
         [(''_type'', JString ''ContractMethod''), (''source_location'', serializeSourceLocation (at [])),
          (''args'', serializeArguments (cm_args method) (below 0 at)),
          (''return_type'', serializeWType (cm_returnType method)), (''body'', body),
          (''documentation'', serializeMethodDocumentation (cm_documentation method)),
          (''inline'', jopt JBool (cm_inlineOpt method)), (''pure'', JBool (cm_pure method)),
          (''cref'', JString (cm_cref method)), (''member_name'', JString (cm_memberName method)),
          (''arc4_method_config'',
             jopt (\<lambda>cfg. serializeARC4MethodConfig cfg (below 2 at)) (cm_arc4MethodConfig method))])
       (orNull (map_option serializeStatement (cm_body method)) (below 1 at))"

definition storageKindNumber :: "AppStorageKind \<Rightarrow> int" where
  "storageKindNumber k = (case k of AppGlobal \<Rightarrow> 1 | AccountLocal \<Rightarrow> 2 | Box \<Rightarrow> 3)"

definition serializeAppStorageDefinition :: "AppStorageDefinition \<Rightarrow> locs \<Rightarrow> json" where
  "serializeAppStorageDefinition d at =
     JObject
       [(''_type'', JString ''AppStorageDefinition''), (''source_location'', serializeSourceLocation (at [])),
        (''member_name'', JString (as_memberName d)), (''storage_wtype'', serializeWType (as_storageWType d)),
        (''key'', jopt (\<lambda>e. serializeExpression e (below 0 at)) (as_key d)),
        (''key_wtype'', if as_isMap d then serializeWType boxKeyType else JNull),
        (''description'', jopt JString (as_description d)),
        (''kind'', JInt (storageKindNumber (as_storageKind d)))]"

definition serializeStateTotals :: "StateTotals \<Rightarrow> json" where
  "serializeStateTotals t =
     JObject [(''global_uints'', jopt JInt (globalUints t)), (''local_uints'', jopt JInt (localUints t)),
              (''global_bytes'', jopt JInt (globalBytes t)), (''local_bytes'', jopt JInt (localBytes t))]"

definition serializeContract :: "Contract \<Rightarrow> locs \<Rightarrow> json option" where
  "serializeContract c at =
     do {
       approval \<leftarrow> serializeContractMethod (approvalProgram c) (below 0 at);
       clear \<leftarrow> serializeContractMethod (clearProgram c) (below 1 at);
       methods \<leftarrow> those (eachBelow 0 (map serializeContractMethod (ct_methods c)) (below 2 at));
       Some (JObject
         [(''_type'', JString ''Contract''), (''source_location'', serializeSourceLocation (at [])),
          (''id'', JString (ct_id c)), (''name'', JString (ct_name c)),
          (''description'', jopt JString (ct_description c)),
          (''method_resolution_order'', JArray (map JString (methodResolutionOrder c))),
          (''approval_program'', approval), (''clear_program'', clear), (''methods'', JArray methods),
          (''app_state'', JArray (eachBelow 0 (map serializeAppStorageDefinition (appState c)) (below 3 at))),
          (''state_totals'', jopt serializeStateTotals (stateTotals c)),
          (''reserved_scratch_space'', JArray (map JInt (ct_reservedScratchSpace c))),
          (''avm_version'', jopt JInt (ct_avmVersion c)),
          (''splitter'', nonEmpty (splitter c))])
     }"

definition serializeLogicSignature :: "LogicSignature \<Rightarrow> locs \<Rightarrow> json option" where
  "serializeLogicSignature l at =
     map_option (\<lambda>prog. JObject
         [(''_type'', JString ''LogicSignature''), (''source_location'', serializeSourceLocation (at [])),
          (''id'', JString (ls_id l)), (''short_name'', JString (ls_shortName l)), (''program'', prog),
          (''docstring'', jopt JString (ls_docstring l)),
          (''reserved_scratch_space'', JArray (map JInt (ls_reservedScratchSpace l))),
          (''avm_version'', jopt JInt (ls_avmVersion l)),
          (''validate_encoding'', jopt JBool (ls_validateEncoding l))])
       (orNull (map_option serializeSubroutine (ls_program l)) (below 0 at))"

fun serializeRootNode :: "RootNode \<Rightarrow> locs \<Rightarrow> json option" where
  "serializeRootNode (ContractRoot c) at = serializeContract c at"
| "serializeRootNode (LogicSignatureRoot l) at = serializeLogicSignature l at"
| "serializeRootNode (SubroutineRoot s) at = serializeSubroutine s at"

definition serializeUnit :: "RootNode list \<Rightarrow> locs \<Rightarrow> json option" where
  "serializeUnit roots at = map_option JArray (those (eachBelow 0 (map serializeRootNode roots) at))"

end
