(* ===== verification/SerializerCorrect.thy ===== *)
theory SerializerCorrect
  imports Serializer Registry
begin

text \<open>
  The serialised AWST determines the program: two nodes with the same JSON are equal up to what the
  writer drops on purpose.  \<open>canonExpr\<close>, \<open>canonStmt\<close> and \<open>canonRoot\<close> spell that out: the spelling of
  integer literals, the redundant types of the state accesses and library calls, and the prefixed box
  key, which is written as the concatenation it stands for.
\<close>

section \<open>Leaves\<close>

lemma jopt_inject [simp]:
  "jopt JString a = jopt JString b \<longleftrightarrow> a = b"
  "jopt JInt c = jopt JInt d \<longleftrightarrow> c = d"
  "jopt JBool x = jopt JBool y \<longleftrightarrow> x = y"
  by (auto simp: jopt_def split: option.splits)

lemma nonEmpty_inject [simp]: "nonEmpty a = nonEmpty b \<longleftrightarrow> a = b"
  by (auto simp: nonEmpty_def)

lemma enum_inject [simp]:
  "uint64BinOpToString a = uint64BinOpToString b \<longleftrightarrow> a = b"
  "bigUIntBinOpToString c = bigUIntBinOpToString d \<longleftrightarrow> c = d"
  "bytesBinOpToString e = bytesBinOpToString f \<longleftrightarrow> e = f"
  "numericCompToString g = numericCompToString h \<longleftrightarrow> g = h"
  "equalityCompToString i = equalityCompToString j \<longleftrightarrow> i = j"
  "boolBinOpToString k = boolBinOpToString l \<longleftrightarrow> k = l"
  "bytesEncodingToString p = bytesEncodingToString q \<longleftrightarrow> p = q"
  subgoal by (cases a; cases b; simp)
  subgoal by (cases c; cases d; simp)
  subgoal by (cases e; cases f; simp)
  subgoal by (cases g; cases h; simp)
  subgoal by (cases i; cases j; simp)
  subgoal by (cases k; cases l; simp)
  subgoal by (cases p; cases q; simp)
  done

lemma strings_inject [simp]: "map JString a = map JString b \<longleftrightarrow> a = b" "map JInt c = map JInt d \<longleftrightarrow> c = d"
  by (auto simp: inj_map_eq_map inj_def)

lemma names_inject [simp]:
  "jopt (\<lambda>xs. JArray (map JString xs)) a = jopt (\<lambda>xs. JArray (map JString xs)) b \<longleftrightarrow> a = b"
  by (auto simp: jopt_def split: option.splits)

lemma target_inject [simp]: "serializeSubroutineTarget a = serializeSubroutineTarget b \<longleftrightarrow> a = b"
  by (cases a; cases b) (auto simp: serializeSubroutineTarget_def)

lemma immediates_inject [simp]: "map serializeImmediate a = map serializeImmediate b \<longleftrightarrow> a = b"
  by (rule inj_map_eq_map) (auto simp: inj_def serializeImmediate_def split: immediate.splits)

section \<open>Types\<close>

lemma fields_inj:
  assumes "map (\<lambda>(k, j). JObject [(''name'', JString k), (''wtype'', j), (''description'', JNull)]) (map (map_prod id f) xs) =
      map (\<lambda>(k, j). JObject [(''name'', JString k), (''wtype'', j), (''description'', JNull)]) (map (map_prod id f) ys)"
    and "\<And>p t t'. p \<in> set xs \<Longrightarrow> t \<in> Basic_BNFs.snds p \<Longrightarrow> f t = f t' \<Longrightarrow> t = t'"
  shows "xs = ys"
  using assms
proof (induction xs arbitrary: ys)
  case Nil
  then show ?case by simp
next
  case (Cons x xs)
  then show ?case by (cases ys; cases x) (auto, blast+)
qed

lemma serializeWType_inj: "serializeWType t = serializeWType t' \<Longrightarrow> t = t'"
proof (induction t arbitrary: t')
  case (ARC4Tuple ts)
  then show ?case by (cases t') (auto simp: typeNode_def elim: list.inj_map_strong[rotated])
next
  case (ARC4Struct n fs fr im)
  then show ?case by (cases t') (auto simp: typeNode_def simp del: map_map list.map_comp dest: fields_inj)
next
  case (WTuple ts ns n)
  then show ?case by (cases t') (auto simp: typeNode_def elim: list.inj_map_strong[rotated])
qed (case_tac [!] t', auto simp: typeNode_def)

lemma serializeWType_inject [simp]: "serializeWType t = serializeWType t' \<longleftrightarrow> t = t'"
  using serializeWType_inj by blast

section \<open>Expressions\<close>

text \<open>The text of an integer constant, respelled as the JSON that is written for it.\<close>

definition integerText :: "string \<Rightarrow> string" where
  "integerText s = (case integerValue s of JInt i \<Rightarrow> int_to_string i | JString d \<Rightarrow> d | _ \<Rightarrow> [])"

primrec canonExpr :: "expr \<Rightarrow> expr" where
  "canonExpr (IntegerConstant t x1) = IntegerConstant t (integerText x1)"
| "canonExpr (BoolConstant t x1) = BoolConstant t x1"
| "canonExpr (BytesConstant t x1 x2) = BytesConstant t x1 x2"
| "canonExpr (StringConstant t x1) = StringConstant t x1"
| "canonExpr (VoidConstant t) = VoidConstant t"
| "canonExpr (VarExpression t x1) = VarExpression t x1"
| "canonExpr (UInt64BinaryOperation t x1 x2 x3) =
     UInt64BinaryOperation t (canonExpr x1) x2 (canonExpr x3)"
| "canonExpr (BigUIntBinaryOperation t x1 x2 x3) =
     BigUIntBinaryOperation t (canonExpr x1) x2 (canonExpr x3)"
| "canonExpr (BytesBinaryOperation t x1 x2 x3) =
     BytesBinaryOperation t (canonExpr x1) x2 (canonExpr x3)"
| "canonExpr (BytesUnaryOperation t x1 x2) = BytesUnaryOperation t (canonExpr x1) x2"
| "canonExpr (NumericComparisonExpression t x1 x2 x3) =
     NumericComparisonExpression t (canonExpr x1) x2 (canonExpr x3)"
| "canonExpr (BytesComparisonExpression t x1 x2 x3) =
     BytesComparisonExpression t (canonExpr x1) x2 (canonExpr x3)"
| "canonExpr (BooleanBinaryOperation t x1 x2 x3) =
     BooleanBinaryOperation t (canonExpr x1) x2 (canonExpr x3)"
| "canonExpr (NotExpr t x1) = NotExpr t (canonExpr x1)"
| "canonExpr (AssertExpression t x1 x2 x3) = AssertExpression t (canonExpr x1) x2 x3"
| "canonExpr (AssignmentExpression t x1 x2) = AssignmentExpression t (canonExpr x1) (canonExpr x2)"
| "canonExpr (ConditionalExpression t x1 x2 x3) =
     ConditionalExpression t (canonExpr x1) (canonExpr x2) (canonExpr x3)"
| "canonExpr (SubroutineCallExpression t x1 x2) =
     SubroutineCallExpression t x1 (map (map_prod id canonExpr) x2)"
| "canonExpr (IntrinsicCall t x1 x2 x3) = IntrinsicCall t x1 x2 (map canonExpr x3)"
| "canonExpr (FieldExpression t x1 x2) = FieldExpression t (canonExpr x1) x2"
| "canonExpr (IndexExpression t x1 x2) = IndexExpression t (canonExpr x1) (canonExpr x2)"
| "canonExpr (TupleExpression t x1) = TupleExpression t (map canonExpr x1)"
| "canonExpr (TupleItemExpression t x1 x2) = TupleItemExpression t (canonExpr x1) x2"
| "canonExpr (ARC4Encode t x1) = ARC4Encode t (canonExpr x1)"
| "canonExpr (ARC4Decode t x1) = ARC4Decode t (canonExpr x1)"
| "canonExpr (ARC4FromBytes t x1 x2) = ARC4FromBytes t (canonExpr x1) x2"
| "canonExpr (ARC4Router t) = ARC4Router t"
| "canonExpr (ReinterpretCast t x1) = ReinterpretCast t (canonExpr x1)"
| "canonExpr (TemplateVar t x1) = TemplateVar t x1"
| "canonExpr (CopyExpr t x1) = CopyExpr t (canonExpr x1)"
| "canonExpr (SingleEvaluation t x1 x2) = SingleEvaluation t (canonExpr x1) x2"
| "canonExpr (CheckedMaybe t x1 x2) = CheckedMaybe t (canonExpr x1) x2"
| "canonExpr (EmitExpr t x1 x2) = EmitExpr t x1 (canonExpr x2)"
| "canonExpr (NewArray t x1) = NewArray t (map canonExpr x1)"
| "canonExpr (ArrayLength t x1) = ArrayLength t (canonExpr x1)"
| "canonExpr (ArrayPop t x1) = ArrayPop t (canonExpr x1)"
| "canonExpr (ArrayConcat t x1 x2) = ArrayConcat t (canonExpr x1) (canonExpr x2)"
| "canonExpr (ArrayExtend t x1 x2) = ArrayExtend t (canonExpr x1) (canonExpr x2)"
| "canonExpr (ConvertArray t x1) = ConvertArray t (canonExpr x1)"
| "canonExpr (NewStruct t x1) = NewStruct t (map (map_prod id canonExpr) x1)"
| "canonExpr (NamedTupleExpression t x1) = NamedTupleExpression t (map (map_prod id canonExpr) x1)"
| "canonExpr (StateGet t x1 x2) = StateGet voidType (canonExpr x1) (canonExpr x2)"
| "canonExpr (StateExists t x1) = StateExists voidType (canonExpr x1)"
| "canonExpr (StateDelete t x1) = StateDelete t (canonExpr x1)"
| "canonExpr (StateGetEx t x1) = StateGetEx voidType (canonExpr x1)"
| "canonExpr (AppStateExpression t x1 x2) = AppStateExpression t (canonExpr x1) x2"
| "canonExpr (AppAccountStateExpression t x1 x2 x3) =
     AppAccountStateExpression t (canonExpr x1) (canonExpr x2) x3"
| "canonExpr (BoxPrefixedKeyExpression t x1 x2) =
     IntrinsicCall t ''concat'' [] [canonExpr x1, canonExpr x2]"
| "canonExpr (BoxValueExpression t x1 x2) = BoxValueExpression t (canonExpr x1) x2"
| "canonExpr (CreateInnerTransaction t x1) =
     CreateInnerTransaction t (map (map_prod id canonExpr) x1)"
| "canonExpr (SubmitInnerTransaction t x1) = SubmitInnerTransaction t (map canonExpr x1)"
| "canonExpr (InnerTransactionField t x1 x2 x3) =
     InnerTransactionField t (canonExpr x1) x2 (map_option canonExpr x3)"
| "canonExpr (CommaExpression t x1) = CommaExpression t (map canonExpr x1)"
| "canonExpr (MethodConstant t x1) = MethodConstant t x1"
| "canonExpr (AddressConstant t x1) = AddressConstant t x1"
| "canonExpr (PuyaLibCall t x1 x2) = PuyaLibCall voidType x1 (map (map_prod id canonExpr) x2)"

text \<open>The entries of a \<open>std::map\<close> have different keys.\<close>

fun keysDistinct :: "expr \<Rightarrow> bool" where
  "keysDistinct (NewStruct _ vs) = distinct (map fst vs)"
| "keysDistinct (NamedTupleExpression _ vs) = distinct (map fst vs)"
| "keysDistinct (CreateInnerTransaction _ vs) = distinct (map fst vs)"
| "keysDistinct _ = True"

function mapsOk :: "expr \<Rightarrow> bool" where
  "mapsOk e = (keysDistinct e \<and> list_all mapsOk (exprChildren e))"
  by auto
termination
  by (relation "measure size") (auto simp: exprChildren_smaller)

declare mapsOk.simps [simp del]

lemma eachBelow_inj:
  assumes "eachBelow k (map f xs) at = eachBelow k (map f ys) at'"
    and "\<And>x y a b. x \<in> set xs \<Longrightarrow> y \<in> set ys \<Longrightarrow> f x a = f y b \<Longrightarrow> c x = c y"
  shows "map c xs = map c ys"
  using assms
proof (induction xs arbitrary: ys k)
  case Nil
  then show ?case by (cases ys) simp_all
next
  case (Cons x xs)
  from Cons.prems(1) obtain y ys' where ys: "ys = y # ys'" by (cases ys) auto
  with Cons.prems(1) have "f x (below k at) = f y (below k at')"
    "eachBelow (Suc k) (map f xs) at = eachBelow (Suc k) (map f ys') at'" by simp_all
  with Cons.IH[of "Suc k" ys'] Cons.prems(2) ys show ?case by auto
qed

lemma length_eachBelow [simp]: "length (eachBelow k fs at) = length fs"
  by (induction fs arbitrary: k) simp_all

lemma snd_map_prod_id: "map snd (map (map_prod id f) xs) = map f (map snd xs)"
  "map fst (map (map_prod id f) xs) = map fst xs"
  by (induction xs) auto

lemma zip_eachBelow_inj:
  assumes "zip (map fst xs) (eachBelow k (map f (map snd xs)) at) = zip (map fst ys) (eachBelow k (map f (map snd ys)) at')"
    and "\<And>x y a b. x \<in> set (map snd xs) \<Longrightarrow> y \<in> set (map snd ys) \<Longrightarrow> f x a = f y b \<Longrightarrow> c x = c y"
  shows "map (map_prod id c) xs = map (map_prod id c) ys"
proof -
  have l: "length xs = length ys" using arg_cong[OF assms(1), of length] by simp
  have "map fst (zip (map fst xs) (eachBelow k (map f (map snd xs)) at)) =
      map fst (zip (map fst ys) (eachBelow k (map f (map snd ys)) at'))" using assms(1) by simp
  then have a: "map fst xs = map fst ys" by (simp add: map_fst_zip)
  have "map snd (zip (map fst xs) (eachBelow k (map f (map snd xs)) at)) =
      map snd (zip (map fst ys) (eachBelow k (map f (map snd ys)) at'))" using assms(1) by simp
  then have "eachBelow k (map f (map snd xs)) at = eachBelow k (map f (map snd ys)) at'"
    by (simp add: map_snd_zip)
  then have "map c (map snd xs) = map c (map snd ys)"
    by (rule eachBelow_inj) (rule assms(2))
  with a l show ?thesis
    by (intro nth_equalityI) (simp_all add: list_eq_iff_nth_eq prod_eq_iff)
qed

lemma callArgs_inj:
  assumes "callArgs (map (map_prod id f) xs) at = callArgs (map (map_prod id f) ys) at'"
    and "\<And>x y a b. x \<in> set (map snd xs) \<Longrightarrow> y \<in> set (map snd ys) \<Longrightarrow> f x a = f y b \<Longrightarrow> c x = c y"
  shows "map (map_prod id c) xs = map (map_prod id c) ys"
proof (rule zip_eachBelow_inj[where f = f])
  have "inj serializeCallArg" by (auto simp: inj_def serializeCallArg_def)
  with assms(1) show "zip (map fst xs) (eachBelow 0 (map f (map snd xs)) at) = zip (map fst ys) (eachBelow 0 (map f (map snd ys)) at')"
    unfolding callArgs_def snd_map_prod_id by (simp add: inj_map_eq_map)
qed (rule assms(2))

lemma keyedMembers_object:
  assumes "distinct (map fst xs)"
  shows "keyedMembers (JObject []) xs at = JObject (zip (map fst xs) (eachBelow 0 (map snd xs) at))"
    and "keyedMembers JNull xs at = (if xs = [] then JNull else JObject (zip (map fst xs) (eachBelow 0 (map snd xs) at)))"
proof -
  let ?z = "zip (map fst xs) (eachBelow 0 (map snd xs) at)"
  have "distinct (map fst ?z)" using assms by (simp add: map_fst_zip)
  moreover have "?z = [] \<longleftrightarrow> xs = []" by (cases xs) auto
  ultimately show "keyedMembers (JObject []) xs at = JObject ?z"
    "keyedMembers JNull xs at = (if xs = [] then JNull else JObject ?z)"
    unfolding keyedMembers_def by (simp_all add: jsets_object jsets_null)
qed

lemma keyedMembers_inj:
  assumes "keyedMembers j (map (map_prod id f) xs) at = keyedMembers j (map (map_prod id f) ys) at'"
    and "j = JNull \<or> j = JObject []" and "distinct (map fst xs)" "distinct (map fst ys)"
    and "\<And>x y a b. x \<in> set (map snd xs) \<Longrightarrow> y \<in> set (map snd ys) \<Longrightarrow> f x a = f y b \<Longrightarrow> c x = c y"
  shows "map (map_prod id c) xs = map (map_prod id c) ys"
proof (rule zip_eachBelow_inj[where f = f])
  from assms(3,4) have d: "distinct (map fst (map (map_prod id f) xs))" "distinct (map fst (map (map_prod id f) ys))"
    unfolding snd_map_prod_id by blast+
  from assms(1,2) show "zip (map fst xs) (eachBelow 0 (map f (map snd xs)) at) = zip (map fst ys) (eachBelow 0 (map f (map snd ys)) at')"
    by (auto simp only: keyedMembers_object[OF d(1)] keyedMembers_object[OF d(2)] snd_map_prod_id json.inject json.distinct map_is_Nil_conv split: if_splits) simp_all
qed (rule assms(5))

declare serializeExpression.simps [simp del]

lemmas ser_simps = serializeExpression.simps[simplified exprHeader_def jsets_Cons jsets_Nil, simplified]

lemmas mapsOk_ctors [simp] =
  mapsOk.simps[of "IntegerConstant t x1" for t x1, simplified]
  mapsOk.simps[of "BoolConstant t x1" for t x1, simplified]
  mapsOk.simps[of "BytesConstant t x1 x2" for t x1 x2, simplified]
  mapsOk.simps[of "StringConstant t x1" for t x1, simplified]
  mapsOk.simps[of "VoidConstant t" for t, simplified]
  mapsOk.simps[of "VarExpression t x1" for t x1, simplified]
  mapsOk.simps[of "UInt64BinaryOperation t x1 x2 x3" for t x1 x2 x3, simplified]
  mapsOk.simps[of "BigUIntBinaryOperation t x1 x2 x3" for t x1 x2 x3, simplified]
  mapsOk.simps[of "BytesBinaryOperation t x1 x2 x3" for t x1 x2 x3, simplified]
  mapsOk.simps[of "BytesUnaryOperation t x1 x2" for t x1 x2, simplified]
  mapsOk.simps[of "NumericComparisonExpression t x1 x2 x3" for t x1 x2 x3, simplified]
  mapsOk.simps[of "BytesComparisonExpression t x1 x2 x3" for t x1 x2 x3, simplified]
  mapsOk.simps[of "BooleanBinaryOperation t x1 x2 x3" for t x1 x2 x3, simplified]
  mapsOk.simps[of "NotExpr t x1" for t x1, simplified]
  mapsOk.simps[of "AssertExpression t x1 x2 x3" for t x1 x2 x3, simplified]
  mapsOk.simps[of "AssignmentExpression t x1 x2" for t x1 x2, simplified]
  mapsOk.simps[of "ConditionalExpression t x1 x2 x3" for t x1 x2 x3, simplified]
  mapsOk.simps[of "SubroutineCallExpression t x1 x2" for t x1 x2, simplified]
  mapsOk.simps[of "IntrinsicCall t x1 x2 x3" for t x1 x2 x3, simplified]
  mapsOk.simps[of "FieldExpression t x1 x2" for t x1 x2, simplified]
  mapsOk.simps[of "IndexExpression t x1 x2" for t x1 x2, simplified]
  mapsOk.simps[of "TupleExpression t x1" for t x1, simplified]
  mapsOk.simps[of "TupleItemExpression t x1 x2" for t x1 x2, simplified]
  mapsOk.simps[of "ARC4Encode t x1" for t x1, simplified]
  mapsOk.simps[of "ARC4Decode t x1" for t x1, simplified]
  mapsOk.simps[of "ARC4FromBytes t x1 x2" for t x1 x2, simplified]
  mapsOk.simps[of "ARC4Router t" for t, simplified]
  mapsOk.simps[of "ReinterpretCast t x1" for t x1, simplified]
  mapsOk.simps[of "TemplateVar t x1" for t x1, simplified]
  mapsOk.simps[of "CopyExpr t x1" for t x1, simplified]
  mapsOk.simps[of "SingleEvaluation t x1 x2" for t x1 x2, simplified]
  mapsOk.simps[of "CheckedMaybe t x1 x2" for t x1 x2, simplified]
  mapsOk.simps[of "EmitExpr t x1 x2" for t x1 x2, simplified]
  mapsOk.simps[of "NewArray t x1" for t x1, simplified]
  mapsOk.simps[of "ArrayLength t x1" for t x1, simplified]
  mapsOk.simps[of "ArrayPop t x1" for t x1, simplified]
  mapsOk.simps[of "ArrayConcat t x1 x2" for t x1 x2, simplified]
  mapsOk.simps[of "ArrayExtend t x1 x2" for t x1 x2, simplified]
  mapsOk.simps[of "ConvertArray t x1" for t x1, simplified]
  mapsOk.simps[of "NewStruct t x1" for t x1, simplified]
  mapsOk.simps[of "NamedTupleExpression t x1" for t x1, simplified]
  mapsOk.simps[of "StateGet t x1 x2" for t x1 x2, simplified]
  mapsOk.simps[of "StateExists t x1" for t x1, simplified]
  mapsOk.simps[of "StateDelete t x1" for t x1, simplified]
  mapsOk.simps[of "StateGetEx t x1" for t x1, simplified]
  mapsOk.simps[of "AppStateExpression t x1 x2" for t x1 x2, simplified]
  mapsOk.simps[of "AppAccountStateExpression t x1 x2 x3" for t x1 x2 x3, simplified]
  mapsOk.simps[of "BoxPrefixedKeyExpression t x1 x2" for t x1 x2, simplified]
  mapsOk.simps[of "BoxValueExpression t x1 x2" for t x1 x2, simplified]
  mapsOk.simps[of "CreateInnerTransaction t x1" for t x1, simplified]
  mapsOk.simps[of "SubmitInnerTransaction t x1" for t x1, simplified]
  mapsOk.simps[of "InnerTransactionField t x1 x2 x3" for t x1 x2 x3, simplified]
  mapsOk.simps[of "CommaExpression t x1" for t x1, simplified]
  mapsOk.simps[of "MethodConstant t x1" for t x1, simplified]
  mapsOk.simps[of "AddressConstant t x1" for t x1, simplified]
  mapsOk.simps[of "PuyaLibCall t x1 x2" for t x1 x2, simplified]

definition determined :: "expr \<Rightarrow> bool" where
  "determined e \<longleftrightarrow> (\<forall>e' at at'. mapsOk e \<longrightarrow> mapsOk e' \<longrightarrow> serializeExpression e at = serializeExpression e' at' \<longrightarrow>
     canonExpr e = canonExpr e')"

lemma determinedI:
  "(\<And>e' at at'. mapsOk e \<Longrightarrow> mapsOk e' \<Longrightarrow> serializeExpression e at = serializeExpression e' at' \<Longrightarrow>
     canonExpr e = canonExpr e') \<Longrightarrow> determined e"
  by (simp add: determined_def)

lemma determinedD:
  "determined e \<Longrightarrow> serializeExpression e at = serializeExpression e' at' \<Longrightarrow> mapsOk e \<Longrightarrow> mapsOk e' \<Longrightarrow>
     canonExpr e = canonExpr e'"
  unfolding determined_def by blast

lemma exprs_inj:
  assumes "eachBelow 0 (map serializeExpression xs) at = eachBelow 0 (map serializeExpression ys) at'"
    and "\<And>x. x \<in> set xs \<Longrightarrow> determined x" and "list_all mapsOk xs" "list_all mapsOk ys"
  shows "map canonExpr xs = map canonExpr ys"
proof (rule eachBelow_inj[OF assms(1)])
  fix x y a b
  assume "x \<in> set xs" "y \<in> set ys" and e: "serializeExpression x a = serializeExpression y b"
  with assms(2-4) show "canonExpr x = canonExpr y"
    by (intro determinedD[OF _ e]) (auto simp: list_all_iff)
qed

lemma entry_determined:
  assumes "\<And>p x. p \<in> set xs \<Longrightarrow> x \<in> Basic_BNFs.snds p \<Longrightarrow> determined x"
    and "list_all mapsOk (map snd xs)" "list_all mapsOk (map snd ys)"
    and "x \<in> set (map snd xs)" "y \<in> set (map snd ys)" and e: "serializeExpression x a = serializeExpression y b"
  shows "canonExpr x = canonExpr y"
proof (rule determinedD[OF _ e])
  from assms(4) obtain p where "p \<in> set xs" "x = snd p" by auto
  then show "determined x" by (intro assms(1)[of p]) (simp_all add: snds.intros)
  from assms(2,4) show "mapsOk x" by (simp add: list_all_iff del: set_map)
  from assms(3,5) show "mapsOk y" by (simp add: list_all_iff del: set_map)
qed

lemma args_inj:
  assumes "callArgs (map (map_prod id serializeExpression) xs) at = callArgs (map (map_prod id serializeExpression) ys) at'"
    and "\<And>p x. p \<in> set xs \<Longrightarrow> x \<in> Basic_BNFs.snds p \<Longrightarrow> determined x"
    and "list_all mapsOk (map snd xs)" "list_all mapsOk (map snd ys)"
  shows "map (map_prod id canonExpr) xs = map (map_prod id canonExpr) ys"
  by (rule callArgs_inj[OF assms(1)]) (rule entry_determined[OF assms(2-4)])

lemma keyed_inj:
  assumes "keyedMembers j (map (map_prod id serializeExpression) xs) at = keyedMembers j (map (map_prod id serializeExpression) ys) at'"
    and "\<And>p x. p \<in> set xs \<Longrightarrow> x \<in> Basic_BNFs.snds p \<Longrightarrow> determined x"
    and "list_all mapsOk (map snd xs)" "list_all mapsOk (map snd ys)"
    and "j = JNull \<or> j = JObject []" "distinct (map fst xs)" "distinct (map fst ys)"
  shows "map (map_prod id canonExpr) xs = map (map_prod id canonExpr) ys"
  by (rule keyedMembers_inj[OF assms(1,5-7)]) (rule entry_determined[OF assms(2-4)])

lemma unaryOperator_eq [simp]: "(a :: BytesUnaryOperator) = b"
  by (cases a; cases b) simp

lemma eachBelow_Nil [simp]: "eachBelow k fs at = [] \<longleftrightarrow> fs = []" "[] = eachBelow k fs at \<longleftrightarrow> fs = []"
  by (cases fs; simp)+

lemma eachBelow_pair:
  "eachBelow k (map f xs) at = [u, v] \<longleftrightarrow> (\<exists>x y. xs = [x, y] \<and> f x (below k at) = u \<and> f y (below (Suc k) at) = v)"
  "[u, v] = eachBelow k (map f xs) at \<longleftrightarrow> (\<exists>x y. xs = [x, y] \<and> f x (below k at) = u \<and> f y (below (Suc k) at) = v)"
proof -
  show "eachBelow k (map f xs) at = [u, v] \<longleftrightarrow> (\<exists>x y. xs = [x, y] \<and> f x (below k at) = u \<and> f y (below (Suc k) at) = v)"
    by (cases xs; cases "tl xs") auto
  then show "[u, v] = eachBelow k (map f xs) at \<longleftrightarrow> (\<exists>x y. xs = [x, y] \<and> f x (below k at) = u \<and> f y (below (Suc k) at) = v)"
    by (simp only: eq_commute[of "[u, v]"])
qed

lemma serialize_not_null [simp]: "serializeExpression e at \<noteq> JNull" "JNull \<noteq> serializeExpression e at"
  by (cases e; simp add: ser_simps)+

lemma all_determined: "determined e"
proof (induction e)
  case (IntrinsicCall t x1 x2 x3)
  then have "\<forall>x \<in> set x3. determined x" by blast
  then show ?case
    by (intro determinedI, case_tac e')
       (auto simp: ser_simps arrayOf_def eachBelow_pair intro: exprs_inj dest: determinedD)
next
  case (BoxPrefixedKeyExpression t x1 x2)
  then show ?case
    by (intro determinedI, case_tac e')
       (auto simp: ser_simps arrayOf_def eachBelow_pair dest: determinedD determinedD[OF _ sym])
next
  case (InnerTransactionField t x1 x2 x3)
  then show ?case
    by (intro determinedI, case_tac e')
       (auto simp: ser_simps jopt_def split: option.splits dest: determinedD)
qed ((rule determinedI, case_tac e'); auto simp: ser_simps arrayOf_def integerText_def
       intro: exprs_inj args_inj keyed_inj dest: determinedD)+

lemmas serializeExpression_inj = determinedD[OF all_determined]

end
