(* ===== verification/SerializerUnit.thy ===== *)
theory SerializerUnit
  imports SerializerCorrect
begin

text \<open>
  The faithfulness of the AWST writer on statements, root nodes and whole units: \<open>stmtMapsOk\<close>,
  \<open>blocksPresent\<close> and \<open>rootOk\<close> are the representation invariants of the C++ nodes (keys of a map differ,
  block pointers that the code dereferences are set), \<open>canonStmt\<close> and \<open>canonRoot\<close> what the file keeps.
\<close>

section \<open>Statements\<close>

primrec canonStmt :: "stmt \<Rightarrow> stmt" where
  "canonStmt (Block body l c) = Block (map canonStmt body) l c"
| "canonStmt (ExpressionStatement e) = ExpressionStatement (canonExpr e)"
| "canonStmt (ReturnStatement v) = ReturnStatement (map_option canonExpr v)"
| "canonStmt (IfElse c i e) = IfElse (canonExpr c) (map_option canonStmt i) (map_option canonStmt e)"
| "canonStmt (WhileLoop c b) = WhileLoop (canonExpr c) (map_option canonStmt b)"
| "canonStmt LoopExit = LoopExit"
| "canonStmt LoopContinue = LoopContinue"
| "canonStmt (AssignmentStatement l v) = AssignmentStatement (canonExpr l) (canonExpr v)"
| "canonStmt (GotoStmt n) = GotoStmt n"
| "canonStmt (SwitchStmt v cs d) =
     SwitchStmt (canonExpr v) (map (map_prod canonExpr id) (map (map_prod id (map_option canonStmt)) cs))
       (map_option canonStmt d)"
| "canonStmt (ForInLoop xs i b) = ForInLoop (canonExpr xs) (canonExpr i) (map_option canonStmt b)"
| "canonStmt (UInt64AugmentedAssignment l oper v) = UInt64AugmentedAssignment (canonExpr l) oper (canonExpr v)"
| "canonStmt (BigUIntAugmentedAssignment l oper v) = BigUIntAugmentedAssignment (canonExpr l) oper (canonExpr v)"

primrec stmtMapsOk :: "stmt \<Rightarrow> bool" where
  "stmtMapsOk (Block body l c) = list_all (\<lambda>b. b) (map stmtMapsOk body)"
| "stmtMapsOk (ExpressionStatement e) = mapsOk e"
| "stmtMapsOk (ReturnStatement v) = pred_option mapsOk v"
| "stmtMapsOk (IfElse c i e) =
     (mapsOk c \<and> pred_option (\<lambda>b. b) (map_option stmtMapsOk i) \<and> pred_option (\<lambda>b. b) (map_option stmtMapsOk e))"
| "stmtMapsOk (WhileLoop c b) = (mapsOk c \<and> pred_option (\<lambda>b. b) (map_option stmtMapsOk b))"
| "stmtMapsOk LoopExit = True"
| "stmtMapsOk LoopContinue = True"
| "stmtMapsOk (AssignmentStatement l v) = (mapsOk l \<and> mapsOk v)"
| "stmtMapsOk (GotoStmt n) = True"
| "stmtMapsOk (SwitchStmt v cs d) =
     (mapsOk v \<and> list_all (\<lambda>(e, b). mapsOk e \<and> pred_option (\<lambda>b. b) b) (map (map_prod id (map_option stmtMapsOk)) cs) \<and>
      pred_option (\<lambda>b. b) (map_option stmtMapsOk d))"
| "stmtMapsOk (ForInLoop xs i b) = (mapsOk xs \<and> mapsOk i \<and> pred_option (\<lambda>b. b) (map_option stmtMapsOk b))"
| "stmtMapsOk (UInt64AugmentedAssignment l oper v) = (mapsOk l \<and> mapsOk v)"
| "stmtMapsOk (BigUIntAugmentedAssignment l oper v) = (mapsOk l \<and> mapsOk v)"

lemma list_all_bools [simp]: "list_all (\<lambda>b. b) (map P xs) \<longleftrightarrow> list_all P xs"
  by (simp add: list_all_iff)

lemma pred_option_bool [simp]: "pred_option (\<lambda>b. b) (map_option P v) \<longleftrightarrow> pred_option P v"
  by (cases v) simp_all

lemma those_inj:
  assumes "those (eachBelow k (map f xs) at) = Some js" "those (eachBelow k (map f ys) at') = Some js"
    and "\<And>x y a b j. x \<in> set xs \<Longrightarrow> y \<in> set ys \<Longrightarrow> f x a = Some j \<Longrightarrow> f y b = Some j \<Longrightarrow> c x = c y"
  shows "map c xs = map c ys"
  using assms
proof (induction xs arbitrary: ys k js)
  case Nil
  then show ?case by (cases ys) (auto split: option.splits)
next
  case (Cons x xs)
  from Cons.prems(1) obtain j js' where j: "js = j # js'" "f x (below k at) = Some j"
      "those (eachBelow (Suc k) (map f xs) at) = Some js'"
    by (auto split: option.splits)
  with Cons.prems(2) obtain y ys' where y: "ys = y # ys'" "f y (below k at') = Some j"
      "those (eachBelow (Suc k) (map f ys') at') = Some js'"
    by (cases ys) (auto split: option.splits)
  have "map c xs = map c ys'"
    by (rule Cons.IH[OF j(3) y(3)]) (use Cons.prems(3) y(1) in auto)
  moreover have "c x = c y" by (rule Cons.prems(3)[OF _ _ j(2) y(2)]) (simp_all add: y(1))
  ultimately show ?case using y(1) by simp
qed

definition stmtDetermined :: "stmt \<Rightarrow> bool" where
  "stmtDetermined s \<longleftrightarrow> (\<forall>s' at at' j. stmtMapsOk s \<longrightarrow> stmtMapsOk s' \<longrightarrow> serializeStatement s at = Some j \<longrightarrow>
     serializeStatement s' at' = Some j \<longrightarrow> canonStmt s = canonStmt s')"

lemma stmtDeterminedI:
  "(\<And>s' at at' j. stmtMapsOk s \<Longrightarrow> stmtMapsOk s' \<Longrightarrow> serializeStatement s at = Some j \<Longrightarrow>
     serializeStatement s' at' = Some j \<Longrightarrow> canonStmt s = canonStmt s') \<Longrightarrow> stmtDetermined s"
  by (simp add: stmtDetermined_def)

lemma stmtDeterminedD:
  "stmtDetermined s \<Longrightarrow> serializeStatement s at = Some j \<Longrightarrow> serializeStatement s' at' = Some j \<Longrightarrow>
     stmtMapsOk s \<Longrightarrow> stmtMapsOk s' \<Longrightarrow> canonStmt s = canonStmt s'"
  unfolding stmtDetermined_def by blast

text \<open>A serialised statement is an object.\<close>

lemma serializeStatement_not_null: "serializeStatement s at \<noteq> Some JNull"
  by (cases s) (auto simp: stmtNode_def split: bind_splits)

lemma deref_inj:
  assumes "deref (map_option serializeStatement b) at = Some j" "deref (map_option serializeStatement b') at' = Some j"
    and "\<And>s. s \<in> set_option b \<Longrightarrow> stmtDetermined s" and "pred_option stmtMapsOk b" "pred_option stmtMapsOk b'"
  shows "map_option canonStmt b = map_option canonStmt b'"
  using assms by (cases b; cases b') (auto simp: deref_def intro: stmtDeterminedD)

lemma orNull_inj:
  assumes "orNull (map_option serializeStatement b) at = Some j" "orNull (map_option serializeStatement b') at' = Some j"
    and "\<And>s. s \<in> set_option b \<Longrightarrow> stmtDetermined s" and "pred_option stmtMapsOk b" "pred_option stmtMapsOk b'"
  shows "map_option canonStmt b = map_option canonStmt b'"
  using assms by (cases b; cases b') (auto simp: orNull_def serializeStatement_not_null intro: stmtDeterminedD)

lemma cases_inj:
  assumes "those (eachBelow 0 (map serializeCase (map (map_prod id (map_option serializeStatement)) cs)) at) = Some js"
    and "those (eachBelow 0 (map serializeCase (map (map_prod id (map_option serializeStatement)) cs')) at') = Some js"
    and "\<And>c b s. c \<in> set cs \<Longrightarrow> b \<in> Basic_BNFs.snds c \<Longrightarrow> s \<in> set_option b \<Longrightarrow> stmtDetermined s"
    and "list_all (\<lambda>(e, b). mapsOk e \<and> pred_option stmtMapsOk b) cs" "list_all (\<lambda>(e, b). mapsOk e \<and> pred_option stmtMapsOk b) cs'"
  shows "map (map_prod canonExpr (map_option canonStmt)) cs = map (map_prod canonExpr (map_option canonStmt)) cs'"
proof (rule those_inj[where f = "\<lambda>c. serializeCase (map_prod id (map_option serializeStatement) c)"])
  fix x y a b j
  assume m: "x \<in> set cs" "y \<in> set cs'"
    and e: "serializeCase (map_prod id (map_option serializeStatement) x) a = Some j"
      "serializeCase (map_prod id (map_option serializeStatement) y) b = Some j"
  from assms(4,5) m have ok: "mapsOk (fst x)" "mapsOk (fst y)" "pred_option stmtMapsOk (snd x)" "pred_option stmtMapsOk (snd y)"
    by (auto simp: list_all_iff)
  from e obtain block where d: "deref (map_option serializeStatement (snd x)) (below 1 a) = Some block"
      "deref (map_option serializeStatement (snd y)) (below 1 b) = Some block"
      "serializeExpression (fst x) (below 0 a) = serializeExpression (fst y) (below 0 b)"
    by (auto simp: serializeCase_def)
  have "map_option canonStmt (snd x) = map_option canonStmt (snd y)"
    by (rule deref_inj[OF d(1,2) _ ok(3,4)]) (use assms(3)[OF m(1)] in \<open>auto simp: snds.simps\<close>)
  moreover have "canonExpr (fst x) = canonExpr (fst y)"
    by (rule serializeExpression_inj[OF d(3) ok(1,2)])
  ultimately show "map_prod canonExpr (map_option canonStmt) x = map_prod canonExpr (map_option canonStmt) y"
    by (simp add: prod_eq_iff)
qed (use assms(1,2) in \<open>simp_all add: comp_def\<close>)

lemma switchCases_simps:
  "list_all (\<lambda>(e, b). mapsOk e \<and> pred_option (\<lambda>b. b) b) (map (map_prod id (map_option stmtMapsOk)) cs) \<longleftrightarrow>
     list_all (\<lambda>(e, b). mapsOk e \<and> pred_option stmtMapsOk b) cs"
  "map (map_prod canonExpr id) (map (map_prod id (map_option canonStmt)) cs) =
     map (map_prod canonExpr (map_option canonStmt)) cs"
  by (auto simp: list_all_iff)

lemma all_stmtDetermined: "stmtDetermined s"
proof (induction s)
  case (Block body l c)
  show ?case
  proof (rule stmtDeterminedI)
    fix s' at at' j
    assume ok: "stmtMapsOk (Block body l c)" "stmtMapsOk s'"
      and e: "serializeStatement (Block body l c) at = Some j" "serializeStatement s' at' = Some j"
    then obtain js body' where s': "s' = Block body' l c"
        "those (eachBelow 0 (map serializeStatement body) at) = Some js"
        "those (eachBelow 0 (map serializeStatement body') at') = Some js"
      by (cases s') (auto simp: stmtNode_def split: bind_splits)
    have "map canonStmt body = map canonStmt body'"
      by (rule those_inj[OF s'(2,3)]) (use Block ok s'(1) in \<open>auto simp: list_all_iff intro: stmtDeterminedD\<close>)
    with s'(1) show "canonStmt (Block body l c) = canonStmt s'" by simp
  qed
next
  case (SwitchStmt v cs d)
  then show ?case
    by (intro stmtDeterminedI, case_tac s')
       (auto simp: stmtNode_def switchCases_simps simp del: map_map list.map_comp split: bind_splits
        intro: orNull_inj cases_inj dest: serializeExpression_inj)
qed ((rule stmtDeterminedI, case_tac s'); auto simp: stmtNode_def jopt_def split: bind_splits option.splits
      intro: deref_inj orNull_inj cases_inj dest: serializeExpression_inj)+


section \<open>The writer returns\<close>

text \<open>Every block pointer that the code dereferences without a test is set.\<close>

primrec blocksPresent :: "stmt \<Rightarrow> bool" where
  "blocksPresent (Block body l c) = list_all (\<lambda>b. b) (map blocksPresent body)"
| "blocksPresent (ExpressionStatement e) = True"
| "blocksPresent (ReturnStatement v) = True"
| "blocksPresent (IfElse c i e) =
     (i \<noteq> None \<and> pred_option (\<lambda>b. b) (map_option blocksPresent i) \<and> pred_option (\<lambda>b. b) (map_option blocksPresent e))"
| "blocksPresent (WhileLoop c b) = (b \<noteq> None \<and> pred_option (\<lambda>b. b) (map_option blocksPresent b))"
| "blocksPresent LoopExit = True"
| "blocksPresent LoopContinue = True"
| "blocksPresent (AssignmentStatement l v) = True"
| "blocksPresent (GotoStmt n) = True"
| "blocksPresent (SwitchStmt v cs d) =
     (list_all (\<lambda>(e, b). b \<noteq> None \<and> pred_option (\<lambda>b. b) b) (map (map_prod id (map_option blocksPresent)) cs) \<and>
      pred_option (\<lambda>b. b) (map_option blocksPresent d))"
| "blocksPresent (ForInLoop xs i b) = (b \<noteq> None \<and> pred_option (\<lambda>b. b) (map_option blocksPresent b))"
| "blocksPresent (UInt64AugmentedAssignment l oper v) = True"
| "blocksPresent (BigUIntAugmentedAssignment l oper v) = True"

lemma those_total: "(\<And>f a. f \<in> set fs \<Longrightarrow> \<exists>j. f a = Some j) \<Longrightarrow> \<exists>js. those (eachBelow k fs at) = Some js"
proof (induction fs arbitrary: k)
  case (Cons f fs)
  then have "\<exists>j. f (below k at) = Some j" "\<exists>js. those (eachBelow (Suc k) fs at) = Some js" by simp_all
  then show ?case by auto
qed simp

lemma orNull_total: "(\<And>f. f \<in> set_option p \<Longrightarrow> \<exists>j. f at = Some j) \<Longrightarrow> \<exists>j. orNull p at = Some j"
  by (cases p) (auto simp: orNull_def)

lemma serializeStatement_total: "blocksPresent s \<Longrightarrow> \<exists>j. serializeStatement s at = Some j"
proof (induction s arbitrary: at)
  case (Block body l c)
  then have "\<exists>js. those (eachBelow 0 (map serializeStatement body) at) = Some js"
    by (intro those_total) (auto simp: list_all_iff)
  then show ?case by auto
next
  case (IfElse c i e)
  then have "\<exists>j. orNull (map_option serializeStatement e) (below 2 at) = Some j"
    by (intro orNull_total) (auto simp: option.pred_set)
  moreover from IfElse.prems obtain y where y: "i = Some y" "blocksPresent y" by auto
  with IfElse.IH(1)[of y "below 1 at"] have "\<exists>j. serializeStatement y (below 1 at) = Some j" by simp
  ultimately show ?case using y(1) by (auto simp: deref_def)
next
  case (SwitchStmt v cs d)
  then have "\<exists>j. orNull (map_option serializeStatement d) (below 2 at) = Some j"
    by (intro orNull_total) (auto simp: option.pred_set)
  moreover have "\<exists>js. those (eachBelow 0 (map serializeCase (map (map_prod id (map_option serializeStatement)) cs)) (below 1 at)) = Some js"
  proof (rule those_total)
    fix f a
    assume "f \<in> set (map serializeCase (map (map_prod id (map_option serializeStatement)) cs))"
    then obtain e b where m: "(e, b) \<in> set cs" and f: "f = serializeCase (e, map_option serializeStatement b)"
      by auto
    from m SwitchStmt.prems obtain s where s: "b = Some s" "blocksPresent s"
      by (fastforce simp: list_all_iff option.pred_set)
    with SwitchStmt.IH(1)[OF m, of b s] have "\<exists>j. serializeStatement s (below 1 a) = Some j"
      by (simp add: snds.simps)
    with f s(1) show "\<exists>j. f a = Some j" by (auto simp: serializeCase_def deref_def)
  qed
  ultimately show ?case by auto
qed (auto simp: deref_def)

section \<open>Root nodes\<close>

definition canonMethod :: "ContractMethod \<Rightarrow> ContractMethod" where
  "canonMethod method = method\<lparr>cm_body := map_option canonStmt (cm_body method)\<rparr>"

definition canonSubroutine :: "Subroutine \<Rightarrow> Subroutine" where
  "canonSubroutine s = s\<lparr>sub_body := map_option canonStmt (sub_body s)\<rparr>"

definition canonStorage :: "AppStorageDefinition \<Rightarrow> AppStorageDefinition" where
  "canonStorage d = d\<lparr>as_key := map_option canonExpr (as_key d)\<rparr>"

definition canonContract :: "Contract \<Rightarrow> Contract" where
  "canonContract c =
     c\<lparr>approvalProgram := canonMethod (approvalProgram c), clearProgram := canonMethod (clearProgram c),
       ct_methods := map canonMethod (ct_methods c), appState := map canonStorage (appState c)\<rparr>"

fun canonRoot :: "RootNode \<Rightarrow> RootNode" where
  "canonRoot (ContractRoot c) = ContractRoot (canonContract c)"
| "canonRoot (LogicSignatureRoot l) =
     LogicSignatureRoot (l\<lparr>ls_program := map_option canonSubroutine (ls_program l)\<rparr>)"
| "canonRoot (SubroutineRoot s) = SubroutineRoot (canonSubroutine s)"

text \<open>The representation invariants of a unit: maps with different keys, block pointers that are set.\<close>

definition bodyOk :: "stmt option \<Rightarrow> bool" where
  "bodyOk b = pred_option (\<lambda>s. stmtMapsOk s \<and> blocksPresent s) b"

definition contractOk :: "Contract \<Rightarrow> bool" where
  "contractOk c =
     (bodyOk (cm_body (approvalProgram c)) \<and> bodyOk (cm_body (clearProgram c)) \<and>
      list_all (\<lambda>method. bodyOk (cm_body method)) (ct_methods c) \<and>
      list_all (\<lambda>d. pred_option mapsOk (as_key d)) (appState c))"

fun rootOk :: "RootNode \<Rightarrow> bool" where
  "rootOk (ContractRoot c) = contractOk c"
| "rootOk (LogicSignatureRoot l) = pred_option (\<lambda>s. bodyOk (sub_body s)) (ls_program l)"
| "rootOk (SubroutineRoot s) = bodyOk (sub_body s)"

lemma body_inj:
  assumes "orNull (map_option serializeStatement b) at = Some j" "orNull (map_option serializeStatement b') at' = Some j"
    and "bodyOk b" "bodyOk b'"
  shows "map_option canonStmt b = map_option canonStmt b'"
  by (rule orNull_inj[OF assms(1,2)]) (use assms(3,4) in \<open>auto simp: bodyOk_def option.pred_set all_stmtDetermined\<close>)

lemma body_total: "bodyOk b \<Longrightarrow> \<exists>j. orNull (map_option serializeStatement b) at = Some j"
  by (rule orNull_total) (auto simp: bodyOk_def option.pred_set serializeStatement_total)

lemma string_entries_inject [simp]:
  "map (map_prod id JString) xs = map (map_prod id JString) ys \<longleftrightarrow> xs = ys"
  by (rule inj_map_eq_map) (simp add: prod.inj_map inj_def)

lemma documentation_inject [simp]:
  "serializeMethodDocumentation d = serializeMethodDocumentation d' \<longleftrightarrow> d = d'"
  by (cases d; cases d') (simp add: serializeMethodDocumentation_def)

lemma config_inj: "serializeARC4MethodConfig c at = serializeARC4MethodConfig c' at' \<Longrightarrow> c = c'"
  by (cases c; cases c') simp_all

lemma config_opt_inj:
  "jopt (\<lambda>c. serializeARC4MethodConfig c at) c = jopt (\<lambda>c. serializeARC4MethodConfig c at') c' \<Longrightarrow> c = c'"
proof -
  have "serializeARC4MethodConfig d a \<noteq> JNull" "JNull \<noteq> serializeARC4MethodConfig d a" for d a
    by (cases d; simp)+
  moreover assume "jopt (\<lambda>c. serializeARC4MethodConfig c at) c = jopt (\<lambda>c. serializeARC4MethodConfig c at') c'"
  ultimately show ?thesis
    by (cases c; cases c') (auto simp: jopt_def dest: config_inj) 
qed

lemma arguments_inj: "serializeArguments as at = serializeArguments bs at' \<Longrightarrow> as = bs"
proof -
  assume "serializeArguments as at = serializeArguments bs at'"
  then have "eachBelow 0 (map serializeSubroutineArgument as) at = eachBelow 0 (map serializeSubroutineArgument bs) at'"
    by (simp add: serializeArguments_def)
  then have "map id as = map id bs"
    by (rule eachBelow_inj) (simp add: serializeSubroutineArgument_def prod_eq_iff)
  then show ?thesis by simp
qed

lemma serializeContractMethod_inj:
  assumes "serializeContractMethod a at = Some j" "serializeContractMethod b at' = Some j"
    and "bodyOk (cm_body a)" "bodyOk (cm_body b)"
  shows "canonMethod a = canonMethod b"
  using assms
  by (auto simp: serializeContractMethod_def canonMethod_def
      intro!: ContractMethod.equality dest: arguments_inj config_opt_inj body_inj)

lemma serializeSubroutine_inj:
  assumes "serializeSubroutine a at = Some j" "serializeSubroutine b at' = Some j"
    and "bodyOk (sub_body a)" "bodyOk (sub_body b)"
  shows "canonSubroutine a = canonSubroutine b"
  using assms
  by (auto simp: serializeSubroutine_def canonSubroutine_def
      intro!: Subroutine.equality dest: arguments_inj body_inj)

lemma storageKind_inject [simp]: "storageKindNumber k = storageKindNumber k' \<longleftrightarrow> k = k'"
  by (cases k; cases k') (simp_all add: storageKindNumber_def)

lemma serializeAppStorageDefinition_inj:
  assumes "serializeAppStorageDefinition a at = serializeAppStorageDefinition b at'"
    and "pred_option mapsOk (as_key a)" "pred_option mapsOk (as_key b)"
  shows "canonStorage a = canonStorage b"
proof -
  have "jopt (\<lambda>e. serializeExpression e (below 0 at)) (as_key a) = jopt (\<lambda>e. serializeExpression e (below 0 at')) (as_key b)"
    using assms(1) by (simp add: serializeAppStorageDefinition_def)
  with assms(2,3) have "map_option canonExpr (as_key a) = map_option canonExpr (as_key b)"
    by (cases "as_key a"; cases "as_key b") (auto simp: jopt_def dest: serializeExpression_inj)
  moreover have "as_isMap a = as_isMap b"
    using assms(1) by (simp add: serializeAppStorageDefinition_def boxKeyType_def typeNode_def split: if_splits)
  ultimately show ?thesis
    using assms(1) by (auto simp: serializeAppStorageDefinition_def canonStorage_def intro!: AppStorageDefinition.equality)
qed

lemma totals_opt_inject [simp]:
  "jopt serializeStateTotals t = jopt serializeStateTotals t' \<longleftrightarrow> t = t'"
proof -
  have "serializeStateTotals x = serializeStateTotals y \<longleftrightarrow> x = y" for x y
    by (cases x; cases y) (simp add: serializeStateTotals_def)
  then show ?thesis
    by (cases t; cases t') (simp_all add: jopt_def, simp_all add: serializeStateTotals_def)
qed

lemma serializeContract_inj:
  assumes "serializeContract a at = Some j" "serializeContract b at' = Some j" "contractOk a" "contractOk b"
  shows "canonContract a = canonContract b"
proof -
  from assms(1,2) obtain pa pc ms where s:
      "serializeContractMethod (approvalProgram a) (below 0 at) = Some pa"
      "serializeContractMethod (approvalProgram b) (below 0 at') = Some pa"
      "serializeContractMethod (clearProgram a) (below 1 at) = Some pc"
      "serializeContractMethod (clearProgram b) (below 1 at') = Some pc"
      "those (eachBelow 0 (map serializeContractMethod (ct_methods a)) (below 2 at)) = Some ms"
      "those (eachBelow 0 (map serializeContractMethod (ct_methods b)) (below 2 at')) = Some ms"
    and st: "eachBelow 0 (map serializeAppStorageDefinition (appState a)) (below 3 at) =
      eachBelow 0 (map serializeAppStorageDefinition (appState b)) (below 3 at')"
    and rest: "ct_id a = ct_id b" "ct_name a = ct_name b" "ct_description a = ct_description b"
      "methodResolutionOrder a = methodResolutionOrder b" "stateTotals a = stateTotals b"
      "ct_reservedScratchSpace a = ct_reservedScratchSpace b" "ct_avmVersion a = ct_avmVersion b"
      "splitter a = splitter b"
    unfolding serializeContract_def by (auto split: bind_splits)
  note ok = assms(3,4)[unfolded contractOk_def list_all_iff]
  have "canonMethod (approvalProgram a) = canonMethod (approvalProgram b)"
    by (rule serializeContractMethod_inj[OF s(1,2)]) (use ok in simp_all)
  moreover have "canonMethod (clearProgram a) = canonMethod (clearProgram b)"
    by (rule serializeContractMethod_inj[OF s(3,4)]) (use ok in simp_all)
  moreover have "map canonMethod (ct_methods a) = map canonMethod (ct_methods b)"
    by (rule those_inj[OF s(5,6)], rule serializeContractMethod_inj) (use ok in simp_all)
  moreover have "map canonStorage (appState a) = map canonStorage (appState b)"
    by (rule eachBelow_inj[OF st], rule serializeAppStorageDefinition_inj) (use ok in simp_all)
  ultimately show ?thesis
    using rest by (simp add: canonContract_def)
qed

lemma serializeLogicSignature_inj:
  assumes "serializeLogicSignature a at = Some j" "serializeLogicSignature b at' = Some j"
    and "rootOk (LogicSignatureRoot a)" "rootOk (LogicSignatureRoot b)"
  shows "canonRoot (LogicSignatureRoot a) = canonRoot (LogicSignatureRoot b)"
proof -
  have nn: "serializeSubroutine s at \<noteq> Some JNull" for s at by (simp add: serializeSubroutine_def)
  from assms(1,2) obtain p where p: "orNull (map_option serializeSubroutine (ls_program a)) (below 0 at) = Some p"
      "orNull (map_option serializeSubroutine (ls_program b)) (below 0 at') = Some p"
    and rest: "ls_id a = ls_id b" "ls_shortName a = ls_shortName b" "ls_docstring a = ls_docstring b"
      "ls_reservedScratchSpace a = ls_reservedScratchSpace b" "ls_avmVersion a = ls_avmVersion b"
      "ls_validateEncoding a = ls_validateEncoding b"
    by (auto simp: serializeLogicSignature_def)
  from p assms(3,4) nn have "map_option canonSubroutine (ls_program a) = map_option canonSubroutine (ls_program b)"
    by (cases "ls_program a"; cases "ls_program b") (auto simp: orNull_def intro: serializeSubroutine_inj)
  with rest show ?thesis by simp
qed

lemma serializeRootNode_type:
  "serializeRootNode r at = Some j \<Longrightarrow> \<exists>ms. j = JObject ((''_type'', JString
     (case r of ContractRoot _ \<Rightarrow> ''Contract'' | LogicSignatureRoot _ \<Rightarrow> ''LogicSignature''
      | SubroutineRoot _ \<Rightarrow> ''Subroutine'')) # ms)"
  by (cases r) (auto simp: serializeContract_def serializeLogicSignature_def serializeSubroutine_def split: bind_splits)

lemma serializeRootNode_inj:
  assumes "serializeRootNode r at = Some j" "serializeRootNode r' at' = Some j" "rootOk r" "rootOk r'"
  shows "canonRoot r = canonRoot r'"
proof -
  note t = serializeRootNode_type[OF assms(1)] serializeRootNode_type[OF assms(2)]
  show ?thesis
  proof (cases r)
    case (ContractRoot c)
    with t obtain c' where "r' = ContractRoot c'" by (cases r') auto
    with ContractRoot assms show ?thesis by (auto intro: serializeContract_inj)
  next
    case (LogicSignatureRoot l)
    with t obtain l' where "r' = LogicSignatureRoot l'" by (cases r') auto
    with LogicSignatureRoot assms show ?thesis
      using serializeLogicSignature_inj by (metis serializeRootNode.simps(2))
  next
    case (SubroutineRoot s)
    with t obtain s' where "r' = SubroutineRoot s'" by (cases r') auto
    with SubroutineRoot assms show ?thesis by (auto intro: serializeSubroutine_inj)
  qed
qed

lemma serializeMethod_total: "bodyOk (cm_body a) \<Longrightarrow> \<exists>j. serializeContractMethod a at = Some j"
  using body_total[of "cm_body a" "below 1 at"] by (auto simp: serializeContractMethod_def)

lemma serializeSubroutine_total: "bodyOk (sub_body a) \<Longrightarrow> \<exists>j. serializeSubroutine a at = Some j"
  using body_total[of "sub_body a" "below 1 at"] by (auto simp: serializeSubroutine_def)

lemma serializeContract_total: "contractOk c \<Longrightarrow> \<exists>j. serializeContract c at = Some j"
proof -
  assume ok: "contractOk c"
  then have "\<exists>js. those (eachBelow 0 (map serializeContractMethod (ct_methods c)) (below 2 at)) = Some js"
    by (intro those_total) (auto simp: contractOk_def list_all_iff intro: serializeMethod_total)
  moreover have "\<exists>j. serializeContractMethod (approvalProgram c) (below 0 at) = Some j"
    "\<exists>j. serializeContractMethod (clearProgram c) (below 1 at) = Some j"
    using ok by (simp_all add: contractOk_def serializeMethod_total)
  ultimately show ?thesis by (auto simp: serializeContract_def)
qed

lemma serializeRootNode_total: "rootOk r \<Longrightarrow> \<exists>j. serializeRootNode r at = Some j"
proof (cases r)
  case (LogicSignatureRoot l)
  assume "rootOk r"
  with LogicSignatureRoot have "\<exists>j. orNull (map_option serializeSubroutine (ls_program l)) (below 0 at) = Some j"
    by (intro orNull_total) (auto simp: option.pred_set serializeSubroutine_total)
  with LogicSignatureRoot show ?thesis by (auto simp: serializeLogicSignature_def)
qed (simp_all add: serializeContract_total serializeSubroutine_total)

text \<open>The default location of \<open>SourceLocation\<close> at every node.\<close>

definition startOfUnit :: locs where
  "startOfUnit p =
     \<lparr>sl_file = [], sl_line = 1, sl_endLine = 1, sl_commentLines = 0, sl_column = None, sl_endColumn = None\<rparr>"

lemma integerText_sample: "integerText ''1'' = ''1''" "integerText ''0x2'' = ''2''"
  by code_simp+

lemma serializeUnit_total: "list_all rootOk roots \<Longrightarrow> \<exists>js. those (eachBelow 0 (map serializeRootNode roots) at) = Some js"
  by (rule those_total) (auto simp: list_all_iff serializeRootNode_total)

text \<open>
  (C40) The AWST file determines the program.  Every unit whose maps have different keys and whose
  block pointers are set is written, and two such units with the same JSON are equal up to the source
  locations, the spelling of integer literals, the types that the file leaves to the back end (of state
  accesses and library calls) and the rewriting of prefixed box keys into concatenations.
\<close>

theorem serializeUnit_faithful:
  assumes "list_all rootOk roots" "list_all rootOk roots'"
  shows "serializeUnit roots at \<noteq> None \<and>
    (serializeUnit roots at = serializeUnit roots' at' \<longrightarrow> map canonRoot roots = map canonRoot roots')"
proof -
  obtain js where js: "those (eachBelow 0 (map serializeRootNode roots) at) = Some js"
    using serializeUnit_total[OF assms(1)] by blast
  obtain js' where js': "those (eachBelow 0 (map serializeRootNode roots') at') = Some js'"
    using serializeUnit_total[OF assms(2)] by blast
  have "map canonRoot roots = map canonRoot roots'" if "js = js'"
    by (rule those_inj[OF js js'[folded that]], rule serializeRootNode_inj)
       (use assms in \<open>auto simp: list_all_iff\<close>)
  with js js' show ?thesis by (auto simp: serializeUnit_def)
qed

theorem serializeUnit_faithful_witness:
  "serializeUnit [SubroutineRoot (makeSubroutine ''f'' ''f'' [] uint64Type
       (Some (Block [IfElse (BoolConstant boolType True)
          (Some (Block [ReturnStatement (Some (IntegerConstant uint64Type ''1''))] None None)) None] None None)) True)] startOfUnit \<noteq>
   serializeUnit [SubroutineRoot (makeSubroutine ''f'' ''f'' [] uint64Type
       (Some (Block [IfElse (BoolConstant boolType True)
          (Some (Block [ReturnStatement (Some (IntegerConstant uint64Type ''0x2''))] None None)) None] None None)) True)] startOfUnit"
  (is "serializeUnit ?a startOfUnit \<noteq> serializeUnit ?b startOfUnit")
proof -
  have ok: "list_all rootOk ?a" "list_all rootOk ?b"
    by (simp_all add: bodyOk_def makeSubroutine_def)
  have "map canonRoot ?a \<noteq> map canonRoot ?b"
    using integerText_sample
    by (simp add: canonSubroutine_def makeSubroutine_def)
  with serializeUnit_faithful[OF ok, of startOfUnit startOfUnit] show ?thesis by blast
qed

end
