(* ===== verification/Spec2Isabelle.thy ===== *)
theory Spec2Isabelle
  imports YulExprCorrect Termination Codecs MemoryBuiltins OffsetAnalysis Ripemd160Message
    Arc4Correct Registry SlotWordCodec SerializerUnit
begin

text \<open>
  A verification library for puya-sol, the compiler that translates Solidity (the typed syntax tree of
  solc) into AWST, the input language of the puya back end for the Algorand virtual machine (AVM).  The
  library models parts of the C++ program under \<open>src/src\<close> and proves them correct.

  \<^bold>\<open>The program.\<close>  \<open>builder/\<close> lowers contracts to AWST trees: \<open>sol-types\<close> maps and coerces types,
  \<open>sol-eb\<close> and \<open>sol-ast\<close> build expressions and statements, \<open>assembly\<close> translates inline assembly (Yul),
  \<open>storage\<close> lays out state, \<open>contract\<close> builds the entry points.  All of them create nodes with the factories
  of \<open>awst/Node.h\<close>.  The finished unit is cleaned (\<open>awst/Termination.hpp\<close>), checked
  (\<open>builder/SubroutineRegistry.hpp\<close> over \<open>awst/Visit.cpp\<close>) and written as JSON
  (\<open>json/AWSTSerializer.cpp\<close>).  A builder returns a tree and may queue statements before it and diagnostics;
  here that state is the record \<open>bst\<close> of \<open>NodeFactory\<close>, threaded by the state monad, with the name counters of
  \<open>awst/NameGen.h\<close>, the pre-effects, and the logged errors.  An exception is an error value.

  \<^bold>\<open>Theories and sources.\<close>
  \<^item> \<open>Prelude\<close>: byte strings as big-endian numbers, decimal numerals, two's complement; no source.
  \<^item> \<open>WTypes\<close> (\<open>awst/WType.h\<close>, \<open>WType.cpp\<close>): the types of AWST; the memoised \<open>structurallyEquivalent\<close> equals
    a plain recursive comparison, whatever pointers the types share.
  \<^item> \<open>Nodes\<close>, \<open>NodeFactory\<close>, \<open>RootNodes\<close> (\<open>awst/Node.h\<close>, \<open>builder/AwstShorthand.h\<close>): every node class, one
    constructor each, and the factories.
  \<^item> \<open>AwstSemantics\<close>, \<open>AwstExec\<close>: what the proofs require of the back end.  The meaning of a tree is fixed by
    puya and the AVM, outside the repository, so the evaluator \<open>ev\<close> is a parameter and the locale \<open>avm\<close>
    (extended by \<open>avm_scratch\<close>) lists the documented behaviour of the constructs and opcodes used.
    \<open>AwstReference\<close> defines an executable evaluator \<open>aeval\<close>, interprets both locales on it, and so evaluates
    the witnesses.  \<open>AwstExec.exec\<close> is the big-step relation of statements: assignments to variables and
    to places, augmented assignments, branches, switches, while loops and loops over arrays; \<open>goto\<close>, which
    no part of the compiler creates, is the only statement without a rule.
  \<^item> \<open>TwosComplement\<close>, \<open>Coercion\<close> (\<open>builder/sol-types/TypeCoercion.cpp\<close>): numeric casts, sign extension, the
    guards of wide indices and amounts.
  \<^item> \<open>BigUIntMath\<close>, \<open>SignedMath\<close>, \<open>IncDec\<close> (\<open>builder/sol-eb/BigUIntMathHelpers.cpp\<close>): shifts, exponentiation by
    squaring, checked and unchecked signed and unsigned arithmetic: value, overflow trap, termination.
  \<^item> \<open>Termination\<close> (\<open>awst/Termination.hpp\<close>, \<open>StatementWalk.h\<close>): the always-terminates analysis is sound and the
    removal of dead code keeps every execution of a body without \<open>goto\<close>; by inductive rules of their own
    (\<open>leaves_block\<close>) it leaves no statement behind one that leaves its block.
  \<^item> \<open>YulArith\<close>, \<open>YulCorrect\<close>, \<open>YulSigned\<close>, \<open>YulExt\<close>, \<open>YulEvm\<close>, \<open>YulRefine\<close> (\<open>builder/assembly/ArithmeticOps.cpp\<close>,
    \<open>SignedOps.cpp\<close>, \<open>BitwiseShiftOps.cpp\<close>): the arithmetic builtins refine the EVM operations on 256-bit words, outside
    the operands for which they do not (\<open>args_ok\<close>; \<open>slt\<close> of large \<open>uint64\<close> values is C23).
  \<^item> \<open>YulExpr\<close>, \<open>YulExprCorrect\<close> (\<open>builder/assembly/CoreTranslation.cpp\<close>): literals, identifiers and nested calls
    refine the EVM value of the expression, by induction on its syntax; \<open>supported\<close> is the domain.
  \<^item> \<open>NumberText\<close>: \<open>std::stoll\<close> and \<open>std::stoull\<close> as the standard has them (white space, sign, longest prefix),
    which the translator uses to read constants, and the integers that numerals denote.
  \<^item> \<open>Scratch\<close>, \<open>MemoryOps\<close>, \<open>MemoryCorrect\<close>, \<open>ConstantOffsets\<close>, \<open>OffsetAnalysis\<close>, \<open>MemoryBuiltins\<close> (\<open>builder/ScratchLayout.h\<close>,
    \<open>builder/assembly/MemoryOps.cpp\<close>, \<open>MemoryHelpers.cpp\<close>): EVM memory in scratch pages.  \<open>evm_memory\<close> is the
    abstraction to a flat byte memory; reads and writes in bounds simulate it and runtime offsets outside
    trap.  The folding of constant offsets is exact where no constant reaches \<open>2 ^ 64\<close> (\<open>exact\<close>), the
    residue analysis is sound, and the recorded constants are those of memory where constant offsets
    are multiples of 32; where they are not, C30 and C33 show what happens.
  \<^item> \<open>Arc4Defaults\<close>, \<open>Arc4Encoding\<close>, \<open>Arc4Correct\<close> (\<open>builder/sol-types/Arc4Defaults.cpp\<close>): default encodings and
    sizes against an encoder written from the ARC-4 standard, on the types of \<open>arc4_type\<close>.
  \<^item> \<open>SlotWordCodec\<close> (\<open>builder/storage/SlotWordCodec.cpp\<close>): packed storage cells, round trip of the values
    that a cell can hold (\<open>fits_cell\<close>).
  \<^item> \<open>Ripemd160\<close> to \<open>Ripemd160Message\<close> (\<open>builder/builtin/Ripemd160Builder.cpp\<close>): the generated subroutine is
    executed statement by statement and equals the published algorithm.
  \<^item> \<open>Codecs\<close> (\<open>HexBytes.h\<close>, \<open>json/Base85.hpp\<close>): the hexadecimal decoder and the base-85 encoder, against a
    printer and an RFC 1924 decoder of their own.
  \<^item> \<open>Registry\<close> (\<open>awst/Visit.cpp\<close>, \<open>builder/SubroutineRegistry.hpp\<close>): the traversal of a unit and its integrity
    check, sound and complete for the calls that \<open>callees\<close> collects without the traversal.
  \<^item> \<open>Json\<close>, \<open>Serializer\<close>, \<open>SerializerCorrect\<close>, \<open>SerializerUnit\<close> (\<open>json/AWSTSerializer.cpp\<close>): the writer of the
    AWST file, the value of integer constants, and the proof that the file determines the program.  An
    assertion always has a condition, so the writer's test for a null one is not reached (see \<open>Nodes\<close>).

  \<^bold>\<open>How the parts compose.\<close>  The memory builtins run on the offsets that \<open>YulExpr\<close> builds, the
  Yul builtins on \<open>BigUIntMath\<close> and \<open>Coercion\<close>; the RIPEMD-160 theorem executes the trees of
  \<open>NodeFactory\<close> with \<open>AwstExec\<close>; the writer and the integrity check share the nodes and the traversal.

  \<^bold>\<open>Bounds.\<close>  An AVM byte string has at most 4096 bytes and byte arithmetic takes at most 64 bytes per
  operand (\<open>byte_math\<close>); both are part of the locale.  RIPEMD-160 therefore returns for messages of at
  most 4087 bytes, whose padded form fits, and traps beyond.  Scratch space has 256 slots and the layout at most
  88 memory pages.  ARC-4 offsets are 16 bits, sizes are below \<open>2 ^ 31\<close> where the code keeps them in \<open>int\<close>.
  No theorem uses fuel: recursions are structural or come with a measure, and loops of generated programs
  are derivations of \<open>exec\<close>, shown to exist.  \<open>SingleEvaluation\<close> nodes read and fill the cache of the
  environment, so the state after an evaluation is stated up to that cache; a back end that leaves such a
    node unbound on some path, as the sources report for the left operand of a signed product, is outside
    \<open>sem_single\<close>, and C12 asks for a plain operand there.

  \<^bold>\<open>Source locations\<close> are not part of the nodes: no branch of the compiler reads them.  The writer,
  which emits them, takes them as a function from the path of a node.

  \<^bold>\<open>Not modelled.\<close>  Everything that starts from solc's syntax tree needs the classes of the solc
  submodule, which is not in the repository: the lowering of Solidity expressions, statements and calls
  (\<open>builder/sol-ast\<close>), the type mapper, the expression builders of \<open>sol-eb\<close> beyond the arithmetic helpers,
  contract assembly and routing (\<open>builder/contract\<close>), storage planning, inner transactions, proxies and
  intrinsics.  In the assembly translator, Yul statements, control flow, user functions, calldata,
  storage and precompile dispatch are left out for the same reason: they resolve their operands through
  solc's annotations.  The EVM ABI codecs are left out because each is a family of large builders over those
  types.  The command line, the file writer, the logger and the runner are input and output.
\<close>

end
